(* ===== verification/Prelude.thy ===== *)
theory Prelude
  imports Main "HOL-Library.Word" "HOL-Library.AList" "HOL-Library.Signed_Division"
    "HOL-Library.Product_Lexorder" "HOL-Library.Code_Target_Numeral"
begin

text \<open>
  Shared vocabulary of the development: the Rust data types the sources use
  (strings, machine integers, \<open>Result\<close>), the state-passing commands in which
  \<open>async\<close> methods over shared stores are written, and the list operations of
  the standard library the in-memory repositories rely on.
\<close>

named_theorems cmd_simps \<open>unfolding rules of the command combinators\<close>
named_theorems mach_simps \<open>machine arithmetic that stays in range\<close>

section \<open>Strings\<close>

text \<open>A Rust \<open>String\<close> is a list of Unicode scalar values.  A formatted message is kept
  as the list of its pieces: the literals of the format string and the interpolated values
  (\<open>DebugF\<close> is a text printed with \<open>{:?}\<close>).\<close>

type_synonym str = "nat list"
type_synonym uuid = "128 word"
type_synonym datetime = int

fun scalar_of :: "char \<Rightarrow> nat" where
  "scalar_of (Char b0 b1 b2 b3 b4 b5 b6 b7) =
     of_bool b0 + 2 * (of_bool b1 + 2 * (of_bool b2 + 2 * (of_bool b3
       + 2 * (of_bool b4 + 2 * (of_bool b5 + 2 * (of_bool b6 + 2 * of_bool b7))))))"

definition lit :: "string \<Rightarrow> str" where
  "lit s = map scalar_of s"

datatype frag = Lit string | TextF str | DebugF str | UuidF uuid | IntF int

type_synonym message = "frag list"

definition msg :: "string \<Rightarrow> message" where
  "msg s = [Lit s]"

text \<open>\<open>char::is_whitespace\<close>: the Unicode \<open>White_Space\<close> property.\<close>

definition is_whitespace :: "nat \<Rightarrow> bool" where
  "is_whitespace c \<longleftrightarrow> (9 \<le> c \<and> c \<le> 13) \<or> c = 32 \<or> c = 0x85 \<or> c = 0xA0 \<or> c = 0x1680
     \<or> (0x2000 \<le> c \<and> c \<le> 0x200A) \<or> c = 0x2028 \<or> c = 0x2029 \<or> c = 0x202F
     \<or> c = 0x205F \<or> c = 0x3000"

definition trim :: "str \<Rightarrow> str" where
  "trim s = rev (dropWhile is_whitespace (rev (dropWhile is_whitespace s)))"

definition is_ascii_digit :: "nat \<Rightarrow> bool" where
  "is_ascii_digit c \<longleftrightarrow> 48 \<le> c \<and> c \<le> 57"

definition is_ascii_alphanumeric :: "nat \<Rightarrow> bool" where
  "is_ascii_alphanumeric c \<longleftrightarrow> is_ascii_digit c \<or> (65 \<le> c \<and> c \<le> 90) \<or> (97 \<le> c \<and> c \<le> 122)"

text \<open>\<open>str::to_lowercase\<close>: exact on ASCII; the Unicode case tables are the parameter \<open>lc\<close>,
  which gives the lower case of the non-ASCII scalar at a position of the string (the final
  sigma depends on its context).\<close>

definition ascii_lower :: "nat \<Rightarrow> nat" where
  "ascii_lower c = (if 65 \<le> c \<and> c \<le> 90 then c + 32 else c)"

type_synonym case_table = "str \<Rightarrow> nat \<Rightarrow> str"

definition to_lowercase :: "case_table \<Rightarrow> str \<Rightarrow> str" where
  "to_lowercase lc s =
     concat (map (\<lambda>(i, c). if c < 128 then [ascii_lower c] else lc s i) (enumerate 0 s))"

text \<open>\<open>str::split_once\<close> on one scalar.\<close>

definition split_once :: "nat \<Rightarrow> str \<Rightarrow> (str \<times> str) option" where
  "split_once c s = (if c \<in> set s
     then Some (takeWhile (\<lambda>x. x \<noteq> c) s, tl (dropWhile (\<lambda>x. x \<noteq> c) s)) else None)"

definition starts_with :: "nat \<Rightarrow> str \<Rightarrow> bool" where
  "starts_with c s \<longleftrightarrow> s \<noteq> [] \<and> hd s = c"

definition ends_with :: "nat \<Rightarrow> str \<Rightarrow> bool" where
  "ends_with c s \<longleftrightarrow> s \<noteq> [] \<and> last s = c"

text \<open>\<open>str::contains\<close> on a substring.\<close>

fun is_prefix_of :: "str \<Rightarrow> str \<Rightarrow> bool" where
  "is_prefix_of [] ys = True"
| "is_prefix_of (x # xs) [] = False"
| "is_prefix_of (x # xs) (y # ys) = (x = y \<and> is_prefix_of xs ys)"

fun contains_str :: "str \<Rightarrow> str \<Rightarrow> bool" where
  "contains_str [] q = (q = [])"
| "contains_str (x # xs) q = (is_prefix_of q (x # xs) \<or> contains_str xs q)"

lemma trim_Nil [simp]: "trim [] = []"
  by (simp add: trim_def)

lemma dropWhile_rev_dropWhile:
  assumes "dropWhile P xs = xs"
  shows "dropWhile P (rev (dropWhile P (rev xs))) = rev (dropWhile P (rev xs))"
proof (cases xs)
  case Nil
  then show ?thesis by simp
next
  case (Cons x ys)
  have "\<not> P x" using assms Cons dropWhile_eq_self_iff [of P xs] by auto
  have "rev (dropWhile P (rev ys @ [x])) = x # rev (dropWhile P (rev ys))"
    using \<open>\<not> P x\<close> by (simp add: dropWhile_append)
  then show ?thesis using Cons \<open>\<not> P x\<close> by simp
qed

lemma trim_idem [simp]: "trim (trim s) = trim s"
  by (simp add: trim_def dropWhile_rev_dropWhile)

lemma length_trim_le: "length (trim s) \<le> length s"
  unfolding trim_def
  by (metis length_dropWhile_le length_rev order_trans)

text \<open>A trimmed string neither starts nor ends with whitespace.\<close>

definition trimmed :: "str \<Rightarrow> bool" where
  "trimmed s \<longleftrightarrow> s = [] \<or> (\<not> is_whitespace (hd s) \<and> \<not> is_whitespace (last s))"

lemma trimmed_trim: "trimmed (trim s)"
proof -
  let ?t = "trim s"
  have last: "\<not> is_whitespace (last ?t)" if "?t \<noteq> []"
    using that by (simp add: trim_def last_rev hd_dropWhile)
  have "dropWhile is_whitespace ?t = ?t"
    by (simp add: trim_def dropWhile_rev_dropWhile)
  then have hd: "\<not> is_whitespace (hd ?t)" if "?t \<noteq> []"
    using that by (metis hd_dropWhile)
  show ?thesis using hd last by (auto simp: trimmed_def)
qed

lemma trim_trimmed: "trimmed s \<Longrightarrow> trim s = s"
proof (cases s rule: rev_cases)
  case Nil
  then show ?thesis by simp
next
  case (snoc ys y)
  assume t: "trimmed s"
  then have "\<not> is_whitespace y" "\<not> is_whitespace (hd s)" using snoc by (auto simp: trimmed_def)
  then have "dropWhile is_whitespace s = s" using snoc by (simp add: dropWhile_eq_self_iff)
  then show ?thesis using snoc \<open>\<not> is_whitespace y\<close> by (simp add: trim_def)
qed


text \<open>\<open>str::split\<close> on one scalar, \<open>strip_prefix\<close> and \<open>trim_end_matches\<close>.\<close>

fun split_on :: "nat \<Rightarrow> str \<Rightarrow> str list" where
  "split_on c [] = [[]]"
| "split_on c (x # xs) = (if x = c then [] # split_on c xs
     else (case split_on c xs of [] \<Rightarrow> [[x]] | w # ws \<Rightarrow> (x # w) # ws))"

fun strip_prefix :: "str \<Rightarrow> str \<Rightarrow> str option" where
  "strip_prefix [] ys = Some ys"
| "strip_prefix (x # xs) [] = None"
| "strip_prefix (x # xs) (y # ys) = (if x = y then strip_prefix xs ys else None)"

definition trim_end_matches :: "nat \<Rightarrow> str \<Rightarrow> str" where
  "trim_end_matches c s = rev (dropWhile (\<lambda>x. x = c) (rev s))"

lemma split_on_not_Nil [simp]: "split_on c s \<noteq> []"
  by (induction s) (auto split: list.splits)

lemma split_on_inj: "split_on c s = split_on c t \<longleftrightarrow> s = t"
proof (induction s arbitrary: t)
  case Nil
  show ?case by (cases t) (auto split: list.splits)
next
  case (Cons x s)
  show ?case
  proof (cases t)
    case (Cons y t')
    then show ?thesis using Cons.IH [of t'] split_on_not_Nil [of c s] split_on_not_Nil [of c t']
      by (cases "split_on c s"; cases "split_on c t'") auto
  qed (auto split: list.splits)
qed

lemma strip_prefix_append [simp]: "strip_prefix p (p @ s) = Some s"
  by (induction p) auto

lemma strip_prefix_Some: "strip_prefix p s = Some r \<longleftrightarrow> s = p @ r"
  by (induction p s rule: strip_prefix.induct) auto

text \<open>Decimal digits, as \<open>Display\<close> prints an integer.\<close>

fun nat_text :: "nat \<Rightarrow> str" where
  "nat_text n = (if n < 10 then [48 + n] else nat_text (n div 10) @ [48 + n mod 10])"

definition int_text :: "int \<Rightarrow> str" where
  "int_text i = (if i < 0 then 45 # nat_text (nat (- i)) else nat_text (nat i))"

declare nat_text.simps [simp del]

text \<open>
  The text form of an identifier is the \<open>uuid\<close> crate's: \<open>uf_text\<close> stands for its \<open>Display\<close> and
  \<open>uf_parse\<close> for \<open>Uuid::parse_str\<close>.  What the code relies on is documented there: a printed identifier
  is made of hexadecimal digits and hyphens and parses back to itself.
\<close>

record uuid_format =
  uf_text :: "uuid \<Rightarrow> str"
  uf_parse :: "str \<Rightarrow> uuid option"

definition uuid_scalar :: "nat \<Rightarrow> bool" where
  "uuid_scalar c \<longleftrightarrow> is_ascii_digit c \<or> (97 \<le> c \<and> c \<le> 102) \<or> c = 45"

definition uuid_format_ok :: "uuid_format \<Rightarrow> bool" where
  "uuid_format_ok uf \<longleftrightarrow> (\<forall>u. uf_text uf u \<noteq> [] \<and> list_all uuid_scalar (uf_text uf u)
     \<and> hd (uf_text uf u) \<noteq> 45 \<and> uf_parse uf (uf_text uf u) = Some u)"

text \<open>A format to run examples with: the 128 bits of the identifier.\<close>

definition bit_format :: uuid_format where
  "bit_format = \<lparr>uf_text = (\<lambda>u. map (\<lambda>n. if bit u n then 49 else 48) [0..<128]),
     uf_parse = (\<lambda>s. Some (horner_sum of_bool 2 (map (\<lambda>c. c = 49) s)))\<rparr>"

lemma bit_format_ok: "uuid_format_ok bit_format"
proof -
  have "map (\<lambda>c. c = 49) (uf_text bit_format u) = map (bit u) [0..<128]" for u
    by (simp add: bit_format_def)
  then have "horner_sum of_bool 2 (map (\<lambda>c. c = 49) (uf_text bit_format u)) = u" for u
    using take_bit_length_eq [of u] by (simp only: horner_sum_bit_eq_take_bit) simp
  then have "uf_parse bit_format (uf_text bit_format u) = Some u" for u
    by (simp add: bit_format_def)
  moreover have "hd (uf_text bit_format u) \<noteq> 45" for u
    by (simp add: bit_format_def upt_rec)
  ultimately show ?thesis
    by (auto simp: uuid_format_ok_def bit_format_def list_all_iff uuid_scalar_def is_ascii_digit_def)
qed

lemma uuid_text_inj: "uuid_format_ok uf \<Longrightarrow> uf_text uf u = uf_text uf v \<longleftrightarrow> u = v"
  by (metis option.inject uuid_format_ok_def)

section \<open>Machine integers\<close>

text \<open>
  \<open>i64\<close>, \<open>i32\<close> and \<open>i128\<close> values are integers; the plain operators wrap (the release
  profile of the workspace has no overflow checks), the \<open>saturating\<close> ones clamp, division
  truncates towards zero and panics on a zero divisor.
\<close>

definition wrap_i64 :: "int \<Rightarrow> int" where
  "wrap_i64 x = signed_take_bit 63 x"

definition wrap_i32 :: "int \<Rightarrow> int" where
  "wrap_i32 x = signed_take_bit 31 x"

definition wrap_i128 :: "int \<Rightarrow> int" where
  "wrap_i128 x = signed_take_bit 127 x"

definition i64_max :: int where "i64_max = 9223372036854775807"
definition i64_min :: int where "i64_min = - 9223372036854775808"

definition in_i64 :: "int \<Rightarrow> bool" where
  "in_i64 x \<longleftrightarrow> i64_min \<le> x \<and> x \<le> i64_max"

definition in_i32 :: "int \<Rightarrow> bool" where
  "in_i32 x \<longleftrightarrow> - 2147483648 \<le> x \<and> x \<le> 2147483647"

definition sat_i64 :: "int \<Rightarrow> int" where
  "sat_i64 x = max i64_min (min i64_max x)"

lemma wrap_i64_id [mach_simps]: "in_i64 x \<Longrightarrow> wrap_i64 x = x"
  unfolding wrap_i64_def in_i64_def i64_min_def i64_max_def
  by (rule signed_take_bit_int_eq_self) simp_all

lemma wrap_i32_id [mach_simps]: "in_i32 x \<Longrightarrow> wrap_i32 x = x"
  unfolding wrap_i32_def in_i32_def by (rule signed_take_bit_int_eq_self) simp_all

lemma wrap_i128_id [mach_simps]:
  "- (2 ^ 127) \<le> x \<Longrightarrow> x < 2 ^ 127 \<Longrightarrow> wrap_i128 x = x"
  unfolding wrap_i128_def by (rule signed_take_bit_int_eq_self)

lemma in_i64_wrap [simp]: "in_i64 (wrap_i64 x)"
  using signed_take_bit_int_less_exp [of 63 x] signed_take_bit_int_greater_eq_minus_exp [of 63 x]
  by (simp add: wrap_i64_def in_i64_def i64_min_def i64_max_def)

lemma in_i64_sat [simp]: "in_i64 (sat_i64 x)"
  by (simp add: sat_i64_def in_i64_def i64_min_def i64_max_def)

lemma sat_i64_id [mach_simps]: "in_i64 x \<Longrightarrow> sat_i64 x = x"
  by (simp add: sat_i64_def in_i64_def)

lemma sat_i64_mono: "x \<le> y \<Longrightarrow> sat_i64 x \<le> sat_i64 y"
  by (simp add: sat_i64_def)

text \<open>Saturating sums of non-negative amounts saturate as one, and wrapped counters wrap as
  one.\<close>

lemma sat_i64_add: "0 \<le> a \<Longrightarrow> 0 \<le> b \<Longrightarrow> sat_i64 (sat_i64 a + b) = sat_i64 (a + b)"
  by (auto simp: sat_i64_def i64_max_def i64_min_def)

lemma wrap_i32_Suc: "wrap_i32 (wrap_i32 a + 1) = wrap_i32 (a + 1)"
  using signed_take_bit_add [of 31 a 1] wrap_i32_id [of 1]
  by (simp add: wrap_i32_def in_i32_def)

lemma wrap_i32_Suc': "wrap_i32 (1 + wrap_i32 a) = wrap_i32 (1 + a)"
  using wrap_i32_Suc [of a] by (simp add: add.commute)

section \<open>Results and commands\<close>

text \<open>
  \<open>Result<A, E>\<close> with the panics of the code as a third outcome, and commands: functions of
  the state that return a result together with the new state.  The state written before an
  error is kept, as an early return through \<open>?\<close> keeps it.
\<close>

datatype ('a, 'e) result = Ok 'a | Err 'e | Panic

type_synonym ('s, 'a, 'e) cmd = "'s \<Rightarrow> ('a, 'e) result \<times> 's"

fun and_then :: "('a, 'e) result \<Rightarrow> ('a \<Rightarrow> ('b, 'e) result) \<Rightarrow> ('b, 'e) result" where
  "and_then (Ok x) k = k x"
| "and_then (Err e) k = Err e"
| "and_then Panic k = Panic"

fun map_err :: "('e \<Rightarrow> 'f) \<Rightarrow> ('a, 'e) result \<Rightarrow> ('a, 'f) result" where
  "map_err f (Ok x) = Ok x"
| "map_err f (Err e) = Err (f e)"
| "map_err f Panic = Panic"

text \<open>Truncating division: a zero divisor and \<open>MIN / -1\<close> panic.\<close>

definition div_i64 :: "int \<Rightarrow> int \<Rightarrow> (int, 'e) result" where
  "div_i64 a b = (if b = 0 \<or> (a = i64_min \<and> b = - 1) then Panic else Ok (a sdiv b))"

definition div_i128 :: "int \<Rightarrow> int \<Rightarrow> (int, 'e) result" where
  "div_i128 a b = (if b = 0 \<or> (a = - (2 ^ 127) \<and> b = - 1) then Panic else Ok (a sdiv b))"

lemma sdiv_nonneg [mach_simps]: "0 \<le> a \<Longrightarrow> 0 < b \<Longrightarrow> (a::int) sdiv b = a div b"
  by (simp add: signed_divide_int_def sgn_if)

lemma div_i64_nonneg [mach_simps]: "0 \<le> a \<Longrightarrow> 0 < b \<Longrightarrow> div_i64 a b = Ok (a div b)"
  by (auto simp: div_i64_def sdiv_nonneg)

lemma div_i128_nonneg [mach_simps]: "0 \<le> a \<Longrightarrow> 0 < b \<Longrightarrow> div_i128 a b = Ok (a div b)"
  by (auto simp: div_i128_def sdiv_nonneg)

fun is_ok :: "('a, 'e) result \<Rightarrow> bool" where
  "is_ok (Ok x) = True"
| "is_ok (Err e) = False"
| "is_ok Panic = False"

fun ok_or :: "'a option \<Rightarrow> 'e \<Rightarrow> ('a, 'e) result" where
  "ok_or (Some x) e = Ok x"
| "ok_or None e = Err e"

text \<open>\<open>collect::<Result<Vec<_>, _>>()\<close>: the first error wins.\<close>

fun collect_results :: "('a, 'e) result list \<Rightarrow> ('a list, 'e) result" where
  "collect_results [] = Ok []"
| "collect_results (r # rs) = and_then r (\<lambda>x. and_then (collect_results rs) (\<lambda>xs. Ok (x # xs)))"

definition ret :: "'a \<Rightarrow> ('s, 'a, 'e) cmd" where
  "ret x s = (Ok x, s)"

definition fail :: "'e \<Rightarrow> ('s, 'a, 'e) cmd" where
  "fail e s = (Err e, s)"

definition lift :: "('a, 'e) result \<Rightarrow> ('s, 'a, 'e) cmd" where
  "lift r s = (r, s)"

definition reads :: "('s \<Rightarrow> 'a) \<Rightarrow> ('s, 'a, 'e) cmd" where
  "reads f s = (Ok (f s), s)"

definition writes :: "('s \<Rightarrow> 's) \<Rightarrow> ('s, unit, 'e) cmd" where
  "writes f s = (Ok (), f s)"

definition bind_cmd :: "('s, 'a, 'e) cmd \<Rightarrow> ('a \<Rightarrow> ('s, 'b, 'e) cmd) \<Rightarrow> ('s, 'b, 'e) cmd" where
  "bind_cmd m k s = (case m s of
       (Ok x, s') \<Rightarrow> k x s' | (Err e, s') \<Rightarrow> (Err e, s') | (Panic, s') \<Rightarrow> (Panic, s'))"

definition seq_cmd :: "('s, 'a, 'e) cmd \<Rightarrow> ('s, 'b, 'e) cmd \<Rightarrow> ('s, 'b, 'e) cmd" where
  "seq_cmd m k = bind_cmd m (\<lambda>_. k)"

text \<open>The \<open>?\<close> operator through a \<open>From\<close> conversion, and \<open>map_err\<close>.\<close>

definition conv :: "('e \<Rightarrow> 'f) \<Rightarrow> ('s, 'a, 'e) cmd \<Rightarrow> ('s, 'a, 'f) cmd" where
  "conv f m s = (map_err f (fst (m s)), snd (m s))"

fun for_each :: "('a \<Rightarrow> ('s, unit, 'e) cmd) \<Rightarrow> 'a list \<Rightarrow> ('s, unit, 'e) cmd" where
  "for_each f [] = ret ()"
| "for_each f (x # xs) = seq_cmd (f x) (for_each f xs)"

declare ret_def [cmd_simps] fail_def [cmd_simps] lift_def [cmd_simps] reads_def [cmd_simps]
  writes_def [cmd_simps] bind_cmd_def [cmd_simps] seq_cmd_def [cmd_simps] conv_def [cmd_simps]

lemma and_then_eq_Ok:
  "and_then r k = Ok y \<longleftrightarrow> (\<exists>x. r = Ok x \<and> k x = Ok y)"
  by (cases r) auto

lemma map_err_eq_Ok [simp]: "map_err f r = Ok y \<longleftrightarrow> r = Ok y"
  by (cases r) auto

lemma map_err_eq_Panic [simp]: "map_err f r = Panic \<longleftrightarrow> r = Panic"
  by (cases r) auto

lemma ok_or_eq_Ok [simp]: "ok_or v e = Ok x \<longleftrightarrow> v = Some x"
  by (cases v) auto

lemma is_ok_iff: "is_ok r \<longleftrightarrow> (\<exists>x. r = Ok x)"
  by (cases r) auto

lemma bind_cmd_eq_Ok:
  "bind_cmd m k s = (Ok y, t) \<longleftrightarrow> (\<exists>x s'. m s = (Ok x, s') \<and> k x s' = (Ok y, t))"
  by (auto simp: bind_cmd_def split: prod.splits result.splits)

lemma conv_eq_Ok: "conv f m s = (Ok x, t) \<longleftrightarrow> m s = (Ok x, t)"
  by (cases "m s") (simp add: conv_def)

lemma lift_eq_Ok: "lift r s = (Ok x, t) \<longleftrightarrow> r = Ok x \<and> t = s"
  by (auto simp: lift_def)

lemma ret_eq_Ok: "ret x s = (Ok y, t) \<longleftrightarrow> y = x \<and> t = s"
  by (auto simp: ret_def)

lemma fail_eq_Ok: "fail e s = (Ok y, t) \<longleftrightarrow> False"
  by (simp add: fail_def)

lemma seq_cmd_eq_Ok:
  "seq_cmd m k s = (Ok y, t) \<longleftrightarrow> (\<exists>x s'. m s = (Ok x, s') \<and> k s' = (Ok y, t))"
  by (simp add: seq_cmd_def bind_cmd_eq_Ok)

lemmas run_Ok = bind_cmd_eq_Ok seq_cmd_eq_Ok conv_eq_Ok lift_eq_Ok ret_eq_Ok fail_eq_Ok

lemma conv_Ok: "m s = (Ok x, t) \<Longrightarrow> conv f m s = (Ok x, t)"
  by (simp add: conv_def)

lemma conv_Err: "m s = (Err e, t) \<Longrightarrow> conv f m s = (Err (f e), t)"
  by (simp add: conv_def)

lemma bind_cmd_Ok: "m s = (Ok x, t) \<Longrightarrow> bind_cmd m k s = k x t"
  by (simp add: bind_cmd_def)

lemma bind_cmd_Err: "m s = (Err e, t) \<Longrightarrow> bind_cmd m k s = (Err e, t)"
  by (simp add: bind_cmd_def)

lemma bind_cmd_assoc:
  "bind_cmd (bind_cmd m k) l = bind_cmd m (\<lambda>x. bind_cmd (k x) l)"
  by (rule ext) (simp add: bind_cmd_def split: prod.splits result.splits)

lemma collect_results_Ok:
  "collect_results rs = Ok xs \<longleftrightarrow> rs = map Ok xs"
  by (induction rs arbitrary: xs) (auto simp: and_then_eq_Ok Cons_eq_map_conv)

text \<open>A command that leaves the state alone, and one that keeps an invariant whatever its
  result is.\<close>

definition read_only :: "('s, 'a, 'e) cmd \<Rightarrow> bool" where
  "read_only m \<longleftrightarrow> (\<forall>s. snd (m s) = s)"

definition keeps :: "('s \<Rightarrow> bool) \<Rightarrow> ('s, 'a, 'e) cmd \<Rightarrow> bool" where
  "keeps I m \<longleftrightarrow> (\<forall>s. I s \<longrightarrow> I (snd (m s)))"

named_theorems keeps_intros \<open>compositional rules for invariants of commands\<close>

lemma read_only_ret [keeps_intros]: "read_only (ret x)"
  and read_only_fail [keeps_intros]: "read_only (fail e)"
  and read_only_lift [keeps_intros]: "read_only (lift r)"
  and read_only_reads [keeps_intros]: "read_only (reads f)"
  by (simp_all add: read_only_def cmd_simps)

lemma read_only_conv [keeps_intros]: "read_only m \<Longrightarrow> read_only (conv f m)"
  by (simp add: read_only_def conv_def)

lemma read_only_bind [keeps_intros]:
  "read_only m \<Longrightarrow> (\<And>x. read_only (k x)) \<Longrightarrow> read_only (bind_cmd m k)"
proof -
  assume m: "read_only m" and k: "\<And>x. read_only (k x)"
  have "snd (bind_cmd m k s) = s" for s
  proof -
    obtain r s' where ms: "m s = (r, s')" by fastforce
    then have "s' = s" using m by (metis read_only_def snd_conv)
    then show ?thesis using k ms by (cases r) (auto simp: bind_cmd_def read_only_def)
  qed
  then show ?thesis by (simp add: read_only_def)
qed

lemma keeps_read_only: "read_only m \<Longrightarrow> keeps I m"
  by (simp add: read_only_def keeps_def)

lemma keeps_conv [keeps_intros]: "keeps I m \<Longrightarrow> keeps I (conv f m)"
  by (simp add: keeps_def conv_def)

lemma keeps_bind [keeps_intros]:
  "keeps I m \<Longrightarrow> (\<And>x. keeps I (k x)) \<Longrightarrow> keeps I (bind_cmd m k)"
proof -
  assume m: "keeps I m" and k: "\<And>x. keeps I (k x)"
  have "I (snd (bind_cmd m k s))" if "I s" for s
  proof -
    obtain r s' where ms: "m s = (r, s')" by fastforce
    then have "I s'" using m \<open>I s\<close> by (metis keeps_def snd_conv)
    then show ?thesis using k ms by (cases r) (auto simp: bind_cmd_def keeps_def)
  qed
  then show ?thesis by (simp add: keeps_def)
qed

lemma keeps_seq [keeps_intros]:
  "keeps I m \<Longrightarrow> keeps I k \<Longrightarrow> keeps I (seq_cmd m k)"
  by (simp add: seq_cmd_def keeps_bind)

lemma keeps_for_each [keeps_intros]:
  "(\<And>x. x \<in> set xs \<Longrightarrow> keeps I (f x)) \<Longrightarrow> keeps I (for_each f xs)"
  by (induction xs) (auto intro: keeps_seq keeps_read_only read_only_ret)

text \<open>Weakest preconditions: \<open>Q\<close> holds of the result and the final state.\<close>

definition wp :: "('s, 'a, 'e) cmd \<Rightarrow> (('a, 'e) result \<Rightarrow> 's \<Rightarrow> bool) \<Rightarrow> 's \<Rightarrow> bool" where
  "wp m Q s \<longleftrightarrow> Q (fst (m s)) (snd (m s))"

lemma wpI: "(\<And>r t. m s = (r, t) \<Longrightarrow> Q r t) \<Longrightarrow> wp m Q s"
  by (simp add: wp_def)

lemma wpD: "wp m Q s \<Longrightarrow> m s = (r, t) \<Longrightarrow> Q r t"
  by (simp add: wp_def)

lemma wp_mono: "wp m P s \<Longrightarrow> (\<And>r t. P r t \<Longrightarrow> Q r t) \<Longrightarrow> wp m Q s"
  by (simp add: wp_def)

lemma wp_bind:
  assumes "wp m (\<lambda>r t. case r of Ok x \<Rightarrow> wp (k x) Q t | Err e \<Rightarrow> Q (Err e) t | Panic \<Rightarrow> Q Panic t) s"
  shows "wp (bind_cmd m k) Q s"
proof (cases "m s")
  case (Pair r t)
  then show ?thesis using assms by (cases r) (simp_all add: wp_def bind_cmd_def)
qed

lemma wp_ret: "Q (Ok x) s \<Longrightarrow> wp (ret x) Q s"
  and wp_fail: "Q (Err e) s \<Longrightarrow> wp (fail e) Q s"
  by (simp_all add: wp_def ret_def fail_def)

lemma wp_if: "(c \<Longrightarrow> wp a Q s) \<Longrightarrow> (\<not> c \<Longrightarrow> wp b Q s) \<Longrightarrow> wp (if c then a else b) Q s"
  by simp

lemma wp_lift:
  assumes "\<And>x. q = Ok x \<Longrightarrow> wp (k x) Q s" and "\<And>r. \<not> is_ok r \<Longrightarrow> \<not> is_ok q \<Longrightarrow> Q r s"
  shows "wp (bind_cmd (lift q) k) Q s"
  using assms by (cases q) (auto simp: wp_def bind_cmd_def lift_def)

text \<open>A query answers from a view of the state and leaves the view alone, also when it fails.\<close>

definition answers :: "('s \<Rightarrow> bool) \<Rightarrow> ('s \<Rightarrow> 'v) \<Rightarrow> ('s, 'a, 'e) cmd \<Rightarrow> ('v \<Rightarrow> 'a \<Rightarrow> bool) \<Rightarrow> bool" where
  "answers I view m P \<longleftrightarrow> (\<forall>s. I s \<longrightarrow>
     wp m (\<lambda>r t. I t \<and> view t = view s \<and> (\<forall>x. r = Ok x \<longrightarrow> P (view s) x)) s)"

lemma answers_read: "(\<And>s. I s \<Longrightarrow> m s = (Ok (f s), s) \<and> P (view s) (f s)) \<Longrightarrow> answers I view m P"
  by (auto simp: answers_def wp_def)

lemma wp_query:
  assumes "answers I view m P" "I s"
    and "\<And>x t. I t \<Longrightarrow> view t = view s \<Longrightarrow> P (view s) x \<Longrightarrow> wp (k x) Q t"
    and "\<And>r t. I t \<Longrightarrow> view t = view s \<Longrightarrow> \<not> is_ok r \<Longrightarrow> Q r t"
  shows "wp (bind_cmd (conv f m) k) Q s"
proof (cases "m s")
  case (Pair r t)
  then have "I t" "view t = view s" "\<forall>x. r = Ok x \<longrightarrow> P (view s) x"
    using assms(1,2) by (auto simp: answers_def wp_def)
  then show ?thesis using Pair assms(3,4) by (cases r) (auto simp: wp_def bind_cmd_def conv_def)
qed

lemma wp_effect:
  assumes "wp m P s"
    and "\<And>x t. P (Ok x) t \<Longrightarrow> wp (k x) Q t"
    and "\<And>r0 r t. P r0 t \<Longrightarrow> \<not> is_ok r0 \<Longrightarrow> \<not> is_ok r \<Longrightarrow> Q r t"
  shows "wp (bind_cmd (conv f m) k) Q s"
proof (cases "m s")
  case (Pair r t)
  then show ?thesis using assms by (cases r) (auto simp: wp_def bind_cmd_def conv_def)
qed

section \<open>Vectors and maps of the standard library\<close>

text \<open>\<open>iter_mut().find(p)\<close> followed by an update of the element found.\<close>

fun update_first :: "('a \<Rightarrow> bool) \<Rightarrow> ('a \<Rightarrow> 'a) \<Rightarrow> 'a list \<Rightarrow> 'a list" where
  "update_first p f [] = []"
| "update_first p f (x # xs) = (if p x then f x # xs else x # update_first p f xs)"

lemma length_update_first [simp]: "length (update_first p f xs) = length xs"
  by (induction xs) auto

lemma update_first_none: "\<forall>x\<in>set xs. \<not> p x \<Longrightarrow> update_first p f xs = xs"
  by (induction xs) auto

lemma map_update_first:
  "(\<And>x. p x \<Longrightarrow> g (f x) = g x) \<Longrightarrow> map g (update_first p f xs) = map g xs"
  by (induction xs) auto

text \<open>With distinct keys the element found is the only one: an update of the first match is
  an update of every match.\<close>

lemma update_first_map:
  assumes "distinct (map k xs)"
  shows "update_first (\<lambda>x. k x = a) f xs = map (\<lambda>x. if k x = a then f x else x) xs"
  using assms by (induction xs) (auto intro!: map_idI [symmetric] simp: image_iff)

lemma find_key_Some:
  assumes "distinct (map k xs)" "x \<in> set xs" "k x = a"
  shows "find (\<lambda>x. k x = a) xs = Some x"
  using assms by (induction xs) auto

lemma find_key_iff:
  assumes "distinct (map k xs)"
  shows "find (\<lambda>x. k x = a) xs = Some x \<longleftrightarrow> x \<in> set xs \<and> k x = a"
  using assms find_key_Some [of k xs x a] by (auto simp: find_Some_iff in_set_conv_nth)

lemma find_update_first_eq:
  "(\<And>x. k x = a \<Longrightarrow> k (f x) = a) \<Longrightarrow>
   find (\<lambda>x. k x = a) (update_first (\<lambda>x. k x = a) f xs)
     = map_option f (find (\<lambda>x. k x = a) xs)"
  by (induction xs) auto

lemma find_update_first_neq:
  "b \<noteq> a \<Longrightarrow> (\<And>x. k x = a \<Longrightarrow> k (f x) = a) \<Longrightarrow>
   find (\<lambda>x. k x = b) (update_first (\<lambda>x. k x = a) f xs) = find (\<lambda>x. k x = b) xs"
  by (induction xs) auto

lemma find_SomeD: "find p xs = Some x \<Longrightarrow> p x \<and> x \<in> set xs"
  by (induction xs) (auto split: if_splits)

lemma find_append: "find p (xs @ ys) = (case find p xs of None \<Rightarrow> find p ys | Some x \<Rightarrow> Some x)"
  by (induction xs) auto

text \<open>Replacing elements by key, one after the other: over distinct keys it is one overlay.\<close>

definition replace_by :: "('a \<Rightarrow> 'k) \<Rightarrow> 'a \<Rightarrow> 'a list \<Rightarrow> 'a list" where
  "replace_by k p xs = update_first (\<lambda>x. k x = k p) (\<lambda>_. p) xs"

definition overlay :: "('a \<Rightarrow> 'k) \<Rightarrow> 'a list \<Rightarrow> 'a \<Rightarrow> 'a" where
  "overlay k ps x = (case find (\<lambda>p. k p = k x) ps of Some p \<Rightarrow> p | None \<Rightarrow> x)"

lemma overlay_key [simp]: "k (overlay k ps x) = k x"
  by (auto simp: overlay_def dest: find_SomeD split: option.splits)

lemma overlay_Nil [simp]: "overlay k [] = (\<lambda>x. x)"
  by (rule ext) (simp add: overlay_def)

lemma overlay_Cons: "overlay k (p # ps) x = (if k p = k x then p else overlay k ps x)"
  by (simp add: overlay_def)

lemma overlay_other: "k x \<notin> k ` set ps \<Longrightarrow> overlay k ps x = x"
  by (induction ps) (auto simp: overlay_Cons)

lemma overlay_mem:
  "distinct (map k ps) \<Longrightarrow> p \<in> set ps \<Longrightarrow> k p = k x \<Longrightarrow> overlay k ps x = p"
  by (simp add: overlay_def find_key_Some)

lemma overlay_aligned:
  "distinct (map k ys) \<Longrightarrow> map k xs = map k ys \<Longrightarrow> map (overlay k ys) xs = ys"
proof (rule nth_equalityI)
  assume d: "distinct (map k ys)" and eq: "map k xs = map k ys"
  then have len: "length xs = length ys" by (metis length_map)
  then show "length (map (overlay k ys) xs) = length ys" by simp
  fix i assume "i < length (map (overlay k ys) xs)"
  moreover have "k (ys ! i) = k (xs ! i)" if "i < length xs"
    using eq len that by (metis nth_map)
  ultimately show "map (overlay k ys) xs ! i = ys ! i"
    using d len by (auto intro!: overlay_mem)
qed

lemma overlay_cases: "overlay k ps x = x \<or> overlay k ps x \<in> set ps"
  by (auto simp: overlay_def dest: find_SomeD split: option.splits)

lemma overlay_map_filter:
  assumes "distinct (map k xs)" "\<And>x. k (f x) = k x" "x \<in> set xs"
  shows "overlay k (map f (filter P xs)) x = (if P x then f x else x)"
proof -
  have d: "distinct (map k (map f (filter P xs)))"
    using assms by (simp add: o_def distinct_map_filter)
  show ?thesis
  proof (cases "P x")
    case True
    then show ?thesis using overlay_mem [OF d, of "f x" x] assms by simp
  next
    case False
    have "k x \<notin> k ` set (map f (filter P xs))"
    proof
      assume "k x \<in> k ` set (map f (filter P xs))"
      then obtain y where y: "y \<in> set xs" "P y" "k y = k x" using assms(2) by auto
      then have "y = x" using assms(1,3) by (metis inj_on_def distinct_map)
      then show False using y False by simp
    qed
    then show ?thesis using False by (simp add: overlay_other)
  qed
qed

lemma replace_by_keys [simp]: "map k (replace_by k p xs) = map k xs"
  unfolding replace_by_def by (rule map_update_first) simp

lemma length_replace_by [simp]: "length (replace_by k p xs) = length xs"
  by (simp add: replace_by_def)

lemma fold_replace_by:
  "distinct (map k xs) \<Longrightarrow> distinct (map k ps) \<Longrightarrow> fold (replace_by k) ps xs = map (overlay k ps) xs"
proof (induction ps arbitrary: xs)
  case (Cons p ps)
  have one: "replace_by k p xs = map (\<lambda>x. if k x = k p then p else x) xs"
    unfolding replace_by_def by (rule update_first_map [OF Cons.prems(1)])
  have p: "overlay k ps p = p" using Cons.prems(2) by (intro overlay_other) simp
  have "fold (replace_by k) (p # ps) xs = map (overlay k ps) (replace_by k p xs)"
    using Cons by simp
  then show ?case using p by (auto simp: one overlay_Cons)
qed simp

text \<open>\<open>collect()\<close> into a \<open>HashMap\<close>: a later pair replaces an earlier one with its key.\<close>

definition collect_map :: "('k \<times> 'v) list \<Rightarrow> ('k \<times> 'v) list" where
  "collect_map ps = fold (\<lambda>(k, v). AList.update k v) ps []"

lemma map_of_fold_update:
  "map_of (fold (\<lambda>(k, v). AList.update k v) ps al) = map_of al ++ map_of (rev ps)"
  by (induction ps arbitrary: al)
    (auto simp: update_conv' fun_eq_iff map_add_def split: option.splits)

lemma map_of_collect_map [simp]: "map_of (collect_map ps) = map_of (rev ps)"
  by (simp add: collect_map_def map_of_fold_update)

lemma map_of_rev_distinct:
  "distinct (map fst ps) \<Longrightarrow> map_of (rev ps) = map_of ps"
  by (rule map_of_eqI) (auto simp: rev_map [symmetric] dest: map_of_SomeD)

lemma map_of_keyed: "map_of (map (\<lambda>x. (k x, v x)) xs) a = map_option v (find (\<lambda>x. k x = a) xs)"
  by (induction xs) auto

lemma collect_keyed:
  assumes "distinct (map k xs)"
  shows "map_of (collect_map (map (\<lambda>x. (k x, v x)) xs)) a = map_option v (find (\<lambda>x. k x = a) xs)"
proof -
  have "distinct (map fst (map (\<lambda>x. (k x, v x)) xs))" using assms by (simp add: o_def)
  then show ?thesis by (simp only: map_of_collect_map map_of_rev_distinct map_of_keyed)
qed

lemma find_filter_key:
  "(\<And>x. k x = a \<Longrightarrow> P x) \<Longrightarrow> find (\<lambda>x. k x = a) (filter P xs) = find (\<lambda>x. k x = a) xs"
  by (induction xs) auto

text \<open>\<open>slice.iter().position(p)\<close>.\<close>

fun position :: "('a \<Rightarrow> bool) \<Rightarrow> 'a list \<Rightarrow> nat option" where
  "position p [] = None"
| "position p (x # xs) = (if p x then Some 0 else map_option Suc (position p xs))"

lemma position_Some:
  "position p xs = Some i \<Longrightarrow> i < length xs \<and> p (xs ! i) \<and> (\<forall>j<i. \<not> p (xs ! j))"
proof (induction xs arbitrary: i)
  case (Cons x xs)
  then show ?case by (cases i) (auto split: if_splits simp: less_Suc_eq_0_disj)
qed simp

lemma position_None: "position p xs = None \<longleftrightarrow> (\<forall>x\<in>set xs. \<not> p x)"
  by (induction xs) auto

end
