(* ===== verification/Values.thy ===== *)
theory Values
  imports Prelude
begin

text \<open>
  The value objects of \<open>src/crates/domain/src/value_objects\<close>: each is a datatype with the
  one private constructor of the source, its validating \<open>new\<close>, its accessor, and the
  predicate that holds of every value \<open>new\<close> returns.
\<close>

datatype domain_error = Validation message | RuleViolation message

fun show_domain_error :: "domain_error \<Rightarrow> message" where
  "show_domain_error (Validation m) = Lit ''validation failed: '' # m"
| "show_domain_error (RuleViolation m) = Lit ''business rule violated: '' # m"

section \<open>User values\<close>

datatype username = Username str

fun username_as_str :: "username \<Rightarrow> str" where
  "username_as_str (Username s) = s"

definition username_new :: "str \<Rightarrow> (username, domain_error) result" where
  "username_new value = (let len = length value in
     if \<not> (3 \<le> len \<and> len \<le> 32) then Err (Validation (msg ''username must be 3-32 characters''))
     else if \<not> list_all (\<lambda>c. is_ascii_alphanumeric c \<or> c = 95 \<or> c = 45) value
     then Err (Validation (msg (''username may only contain letters, digits, ''
       @ [CHR 0x27, CHR 0x5F, CHR 0x27] @ '' and '' @ [CHR 0x27, CHR 0x2D, CHR 0x27])))
     else Ok (Username value))"

definition username_wf :: "username \<Rightarrow> bool" where
  "username_wf u \<longleftrightarrow> 3 \<le> length (username_as_str u) \<and> length (username_as_str u) \<le> 32
     \<and> list_all (\<lambda>c. is_ascii_alphanumeric c \<or> c = 95 \<or> c = 45) (username_as_str u)"

datatype email = Email str

fun email_as_str :: "email \<Rightarrow> str" where
  "email_as_str (Email s) = s"

definition email_shape :: "str \<Rightarrow> bool" where
  "email_shape value = (case split_once 64 value of
       None \<Rightarrow> False
     | Some (local_part, host) \<Rightarrow> local_part \<noteq> [] \<and> list_ex (\<lambda>c. c = 46) host
         \<and> \<not> starts_with 46 host \<and> \<not> ends_with 46 host)"

definition email_new :: "case_table \<Rightarrow> str \<Rightarrow> (email, domain_error) result" where
  "email_new lc value = (let value = to_lowercase lc (trim value) in
     if \<not> email_shape value then Err (Validation [Lit ''invalid email: '', TextF value])
     else Ok (Email value))"

datatype password = Password str

fun password_as_str :: "password \<Rightarrow> str" where
  "password_as_str (Password s) = s"

definition password_new :: "str \<Rightarrow> (password, domain_error) result" where
  "password_new value = (let len = length value in
     if \<not> (8 \<le> len \<and> len \<le> 256) then Err (Validation (msg ''password must be 8-256 characters''))
     else Ok (Password value))"

datatype password_hash = PasswordHash str

section \<open>Market values\<close>

datatype market_title = MarketTitle str

fun title_as_str :: "market_title \<Rightarrow> str" where
  "title_as_str (MarketTitle s) = s"

definition title_max :: nat where "title_max = 200"

definition title_new :: "str \<Rightarrow> (market_title, domain_error) result" where
  "title_new value = (let trimmed = trim value in
     if trimmed = [] then Err (Validation (msg ''title must not be empty''))
     else if length trimmed > title_max
     then Err (Validation [Lit ''title must be at most '', IntF (int title_max), Lit '' characters''])
     else Ok (MarketTitle trimmed))"

datatype outcome_label = OutcomeLabel str

fun label_as_str :: "outcome_label \<Rightarrow> str" where
  "label_as_str (OutcomeLabel s) = s"

definition label_max :: nat where "label_max = 100"

definition label_new :: "str \<Rightarrow> (outcome_label, domain_error) result" where
  "label_new value = (let trimmed = trim value in
     if trimmed = [] then Err (Validation (msg ''outcome label must not be empty''))
     else if length trimmed > label_max
     then Err (Validation
       [Lit ''outcome label must be at most '', IntF (int label_max), Lit '' characters''])
     else Ok (OutcomeLabel trimmed))"

text \<open>Prices are \<open>i32\<close> counts of ten-thousandths.\<close>

datatype price = Price int

fun as_ten_thousandths :: "price \<Rightarrow> int" where
  "as_ten_thousandths (Price v) = v"

definition price_scale :: int where "price_scale = 10000"
definition price_one :: price where "price_one = Price price_scale"
definition price_zero :: price where "price_zero = Price 0"
definition min_tick :: price where "min_tick = Price 1"

definition from_ten_thousandths :: "int \<Rightarrow> (price, domain_error) result" where
  "from_ten_thousandths value =
     (if \<not> (0 \<le> value \<and> value \<le> price_scale)
      then Err (Validation [Lit ''price must be between 0 and '', IntF price_scale,
        Lit '' ten-thousandths''])
      else Ok (Price value))"

definition price_wf :: "price \<Rightarrow> bool" where
  "price_wf p \<longleftrightarrow> 0 \<le> as_ten_thousandths p \<and> as_ten_thousandths p \<le> price_scale"

text \<open>\<open>#[derive(PartialOrd, Ord)]\<close> on the one field.\<close>

instantiation price :: linorder
begin

definition less_eq_price :: "price \<Rightarrow> price \<Rightarrow> bool" where
  "less_eq_price p q \<longleftrightarrow> as_ten_thousandths p \<le> as_ten_thousandths q"

definition less_price :: "price \<Rightarrow> price \<Rightarrow> bool" where
  "less_price p q \<longleftrightarrow> as_ten_thousandths p < as_ten_thousandths q"

instance
proof
  fix x y z :: price
  show "(x < y) = (x \<le> y \<and> \<not> y \<le> x)" by (auto simp: less_eq_price_def less_price_def)
  show "x \<le> x" by (simp add: less_eq_price_def)
  show "x \<le> z" if "x \<le> y" "y \<le> z" using that by (simp add: less_eq_price_def)
  show "x = y" if "x \<le> y" "y \<le> x"
    using that by (cases x; cases y) (simp add: less_eq_price_def)
  show "x \<le> y \<or> y \<le> x" by (auto simp: less_eq_price_def)
qed

end

section \<open>Chat values\<close>

datatype message_body = MessageBody str

fun body_as_str :: "message_body \<Rightarrow> str" where
  "body_as_str (MessageBody s) = s"

definition body_max :: nat where "body_max = 2000"

definition body_new :: "str \<Rightarrow> (message_body, domain_error) result" where
  "body_new value = (let trimmed = trim value in
     if trimmed = [] then Err (Validation (msg ''message must not be empty''))
     else if length trimmed > body_max
     then Err (Validation [Lit ''message must be at most '', IntF (int body_max), Lit '' characters''])
     else Ok (MessageBody trimmed))"

datatype reaction_emoji = ReactionEmoji str

fun emoji_as_str :: "reaction_emoji \<Rightarrow> str" where
  "emoji_as_str (ReactionEmoji s) = s"

definition max_scalars :: nat where "max_scalars = 16"

definition in_range :: "nat \<Rightarrow> nat \<Rightarrow> nat \<Rightarrow> bool" where
  "in_range lo hi c \<longleftrightarrow> lo \<le> c \<and> c \<le> hi"

definition is_emoji_scalar :: "nat \<Rightarrow> bool" where
  "is_emoji_scalar c \<longleftrightarrow>
     c = 0x00A9 \<or> c = 0x00AE \<or> c = 0x203C \<or> c = 0x2049 \<or> c = 0x20E3
     \<or> c = 0x2122 \<or> c = 0x2139 \<or> in_range 0x2194 0x21AA c
     \<or> in_range 0x231A 0x231B c \<or> c = 0x2328 \<or> c = 0x23CF
     \<or> in_range 0x23E9 0x23FA c
     \<or> c = 0x24C2 \<or> in_range 0x25AA 0x25FE c
     \<or> in_range 0x2600 0x27BF c
     \<or> in_range 0x2934 0x2935 c \<or> in_range 0x2B00 0x2BFF c
     \<or> c = 0x3030 \<or> c = 0x303D \<or> c = 0x3297 \<or> c = 0x3299
     \<or> in_range 0x1F000 0x1FAFF c"

definition is_sequence_scalar :: "nat \<Rightarrow> bool" where
  "is_sequence_scalar c \<longleftrightarrow> is_emoji_scalar c
     \<or> (c = 0x200D \<or> c = 0xFE0E \<or> c = 0xFE0F \<or> in_range 0xE0020 0xE007F c)
     \<or> is_ascii_digit c \<or> (c = 35 \<or> c = 42)"

definition emoji_new :: "str \<Rightarrow> (reaction_emoji, domain_error) result" where
  "emoji_new value =
     (let invalid = Validation (msg ''reaction must be a single emoji'') in
      if value = [] then Err invalid
      else if length value > max_scalars
      then Err (Validation
        [Lit ''reaction must be at most '', IntF (int max_scalars), Lit '' characters''])
      else if \<not> list_all is_sequence_scalar value \<or> \<not> list_ex is_emoji_scalar value
      then Err invalid
      else Ok (ReactionEmoji value))"

definition emoji_wf :: "reaction_emoji \<Rightarrow> bool" where
  "emoji_wf e \<longleftrightarrow> length (emoji_as_str e) \<le> max_scalars
     \<and> list_all is_sequence_scalar (emoji_as_str e) \<and> list_ex is_emoji_scalar (emoji_as_str e)"

text \<open>\<open>#[derive(PartialOrd, Ord)]\<close>: the lexicographic order of the scalars, which is the
  order of the UTF-8 bytes.\<close>

fun scalars_le :: "str \<Rightarrow> str \<Rightarrow> bool" where
  "scalars_le [] ys = True"
| "scalars_le (x # xs) [] = False"
| "scalars_le (x # xs) (y # ys) = (x < y \<or> (x = y \<and> scalars_le xs ys))"

lemma scalars_le_refl: "scalars_le xs xs"
  by (induction xs) auto

lemma scalars_le_trans: "scalars_le xs ys \<Longrightarrow> scalars_le ys zs \<Longrightarrow> scalars_le xs zs"
proof (induction xs ys arbitrary: zs rule: scalars_le.induct)
  case (3 x xs y ys)
  then show ?case by (cases zs) auto
qed auto

lemma scalars_le_antisym: "scalars_le xs ys \<Longrightarrow> scalars_le ys xs \<Longrightarrow> xs = ys"
  by (induction xs ys rule: scalars_le.induct) (auto elim: scalars_le.elims)

lemma scalars_le_linear: "scalars_le xs ys \<or> scalars_le ys xs"
  by (induction xs ys rule: scalars_le.induct) auto

instantiation reaction_emoji :: linorder
begin

definition less_eq_reaction_emoji :: "reaction_emoji \<Rightarrow> reaction_emoji \<Rightarrow> bool" where
  "less_eq_reaction_emoji a b \<longleftrightarrow> scalars_le (emoji_as_str a) (emoji_as_str b)"

definition less_reaction_emoji :: "reaction_emoji \<Rightarrow> reaction_emoji \<Rightarrow> bool" where
  "less_reaction_emoji a b \<longleftrightarrow> a \<le> b \<and> \<not> b \<le> a"

instance
proof
  fix x y z :: reaction_emoji
  show "(x < y) = (x \<le> y \<and> \<not> y \<le> x)" by (simp add: less_reaction_emoji_def)
  show "x \<le> x" by (simp add: less_eq_reaction_emoji_def scalars_le_refl)
  show "x \<le> z" if "x \<le> y" "y \<le> z"
    using that scalars_le_trans unfolding less_eq_reaction_emoji_def by blast
  show "x = y" if "x \<le> y" "y \<le> x"
    using that scalars_le_antisym
    by (cases x; cases y) (auto simp: less_eq_reaction_emoji_def)
  show "x \<le> y \<or> y \<le> x"
    using scalars_le_linear unfolding less_eq_reaction_emoji_def by blast
qed

end

section \<open>What a value object guarantees\<close>

lemma username_new_Ok:
  "username_new s = Ok u \<longleftrightarrow> u = Username s \<and> username_wf (Username s)"
  by (auto simp: username_new_def username_wf_def Let_def)

lemma password_new_Ok:
  "password_new s = Ok p \<longleftrightarrow> p = Password s \<and> 8 \<le> length s \<and> length s \<le> 256"
  by (auto simp: password_new_def Let_def)

lemma title_new_Ok:
  "title_new s = Ok t \<longleftrightarrow> t = MarketTitle (trim s) \<and> trim s \<noteq> [] \<and> length (trim s) \<le> title_max"
  by (auto simp: title_new_def Let_def)

lemma label_new_Ok:
  "label_new s = Ok t \<longleftrightarrow> t = OutcomeLabel (trim s) \<and> trim s \<noteq> [] \<and> length (trim s) \<le> label_max"
  by (auto simp: label_new_def Let_def)

lemma body_new_Ok:
  "body_new s = Ok t \<longleftrightarrow> t = MessageBody (trim s) \<and> trim s \<noteq> [] \<and> length (trim s) \<le> body_max"
  by (auto simp: body_new_def Let_def)

lemma emoji_new_Ok:
  "emoji_new s = Ok e \<longleftrightarrow> e = ReactionEmoji s \<and> emoji_wf (ReactionEmoji s)"
  by (auto simp: emoji_new_def emoji_wf_def Let_def)

lemma from_ten_thousandths_Ok:
  "from_ten_thousandths v = Ok p \<longleftrightarrow> p = Price v \<and> 0 \<le> v \<and> v \<le> price_scale"
  by (auto simp: from_ten_thousandths_def)

lemma email_new_Ok:
  "email_new lc s = Ok e \<longleftrightarrow>
     e = Email (to_lowercase lc (trim s)) \<and> email_shape (to_lowercase lc (trim s))"
  by (auto simp: email_new_def Let_def)

lemmas new_Ok = username_new_Ok password_new_Ok title_new_Ok label_new_Ok body_new_Ok
  emoji_new_Ok from_ten_thousandths_Ok email_new_Ok

lemma not_Panic_new [simp]:
  "username_new s \<noteq> Panic" "password_new s \<noteq> Panic" "title_new s \<noteq> Panic"
  "label_new s \<noteq> Panic" "body_new s \<noteq> Panic" "emoji_new s \<noteq> Panic"
  "from_ten_thousandths v \<noteq> Panic" "email_new lc s \<noteq> Panic"
  by (simp_all add: username_new_def password_new_def title_new_def label_new_def body_new_def
      emoji_new_def from_ten_thousandths_def email_new_def Let_def)

text \<open>Lower-casing on ASCII strings does not depend on the Unicode tables.\<close>

definition ascii :: "str \<Rightarrow> bool" where
  "ascii s \<longleftrightarrow> list_all (\<lambda>c. c < 128) s"

lemma to_lowercase_ascii: "ascii s \<Longrightarrow> to_lowercase lc s = map ascii_lower s"
proof -
  assume "ascii s"
  then have "list_all (\<lambda>c. c < 128) s" by (simp add: ascii_def)
  then have "concat (map (\<lambda>(i, c). if c < 128 then [ascii_lower c] else lc t i) (enumerate n s))
      = map ascii_lower s" for t n
    by (induction s arbitrary: n) auto
  then show ?thesis by (simp add: to_lowercase_def)
qed

lemma is_whitespace_ascii_lower [simp]: "is_whitespace (ascii_lower c) = is_whitespace c"
  by (auto simp: ascii_lower_def is_whitespace_def)

lemma ascii_lower_idem [simp]: "ascii_lower (ascii_lower c) = ascii_lower c"
  by (auto simp: ascii_lower_def)

lemma trim_map_lower: "trim (map ascii_lower s) = map ascii_lower (trim s)"
  by (simp add: trim_def dropWhile_map rev_map o_def)

lemma ascii_trim [simp]: "ascii s \<Longrightarrow> ascii (trim s)"
  unfolding ascii_def trim_def list_all_iff
  by (auto dest!: set_dropWhileD)

lemma ascii_map_lower [simp]: "ascii s \<Longrightarrow> ascii (map ascii_lower s)"
  by (auto simp: ascii_def ascii_lower_def list_all_iff)

lemma email_new_ascii:
  "ascii s \<Longrightarrow> email_new lc s = (let v = map ascii_lower (trim s) in
     if email_shape v then Ok (Email v) else Err (Validation [Lit ''invalid email: '', TextF v]))"
  by (simp add: email_new_def to_lowercase_ascii Let_def)

text \<open>An accepted email is one local part, one \<open>@\<close> and a host with an inner dot.\<close>

lemma split_once_Some:
  assumes "split_once c s = Some (a, b)"
  shows "s = a @ c # b \<and> c \<notin> set a"
proof -
  have c: "c \<in> set s" and a: "a = takeWhile (\<lambda>x. x \<noteq> c) s"
    and b: "b = tl (dropWhile (\<lambda>x. x \<noteq> c) s)"
    using assms by (auto simp: split_once_def split: if_splits)
  have "dropWhile (\<lambda>x. x \<noteq> c) s \<noteq> []" "hd (dropWhile (\<lambda>x. x \<noteq> c) s) = c"
    using c hd_dropWhile [of "\<lambda>x. x \<noteq> c" s] by (auto simp: dropWhile_eq_Nil_conv)
  then have "dropWhile (\<lambda>x. x \<noteq> c) s = c # b" using b by (metis list.collapse)
  then show ?thesis using a takeWhile_dropWhile_id [of "\<lambda>x. x \<noteq> c" s]
    by (metis set_takeWhileD)
qed

lemma email_shapeD:
  assumes "email_shape v"
  obtains local_part host where "v = local_part @ 64 # host" "64 \<notin> set local_part"
    "local_part \<noteq> []" "46 \<in> set host" "hd host \<noteq> 46" "last host \<noteq> 46"
  using assms split_once_Some
  by (fastforce simp: email_shape_def starts_with_def ends_with_def list_ex_iff
      split: option.splits prod.splits)

lemma title_new_canonical:
  assumes "title_new s = Ok t"
  shows "trimmed (title_as_str t) \<and> title_as_str t \<noteq> [] \<and> length (title_as_str t) \<le> 200
    \<and> title_new (title_as_str t) = Ok t"
  using assms trimmed_trim [of s] by (simp add: title_new_Ok title_max_def)

lemma label_new_canonical:
  assumes "label_new s = Ok t"
  shows "trimmed (label_as_str t) \<and> label_as_str t \<noteq> [] \<and> length (label_as_str t) \<le> 100
    \<and> label_new (label_as_str t) = Ok t"
  using assms trimmed_trim [of s] by (simp add: label_new_Ok label_max_def)

lemma body_new_canonical:
  assumes "body_new s = Ok t"
  shows "trimmed (body_as_str t) \<and> body_as_str t \<noteq> [] \<and> length (body_as_str t) \<le> 2000
    \<and> body_new (body_as_str t) = Ok t"
  using assms trimmed_trim [of s] by (simp add: body_new_Ok body_max_def)

text \<open>The trimmed texts of the domain (market titles, outcome labels, message bodies) are
  canonical: the stored text is trimmed, non-empty and within its length bound, and building
  the value again from its own text gives the same value.\<close>

theorem trimmed_values_canonical:
  "(title_new s = Ok t \<longrightarrow> trimmed (title_as_str t) \<and> title_as_str t \<noteq> []
      \<and> length (title_as_str t) \<le> 200 \<and> title_new (title_as_str t) = Ok t)
   \<and> (label_new s = Ok l \<longrightarrow> trimmed (label_as_str l) \<and> label_as_str l \<noteq> []
      \<and> length (label_as_str l) \<le> 100 \<and> label_new (label_as_str l) = Ok l)
   \<and> (body_new s = Ok b \<longrightarrow> trimmed (body_as_str b) \<and> body_as_str b \<noteq> []
      \<and> length (body_as_str b) \<le> 2000 \<and> body_new (body_as_str b) = Ok b)"
proof (intro conjI)
  show "title_new s = Ok t \<longrightarrow> trimmed (title_as_str t) \<and> title_as_str t \<noteq> []
      \<and> length (title_as_str t) \<le> 200 \<and> title_new (title_as_str t) = Ok t"
    by (rule impI) (rule title_new_canonical)
  show "label_new s = Ok l \<longrightarrow> trimmed (label_as_str l) \<and> label_as_str l \<noteq> []
      \<and> length (label_as_str l) \<le> 100 \<and> label_new (label_as_str l) = Ok l"
    by (rule impI) (rule label_new_canonical)
  show "body_new s = Ok b \<longrightarrow> trimmed (body_as_str b) \<and> body_as_str b \<noteq> []
      \<and> length (body_as_str b) \<le> 2000 \<and> body_new (body_as_str b) = Ok b"
    by (rule impI) (rule body_new_canonical)
qed

lemma trimmed_values_canonical_witness:
  "title_new (title_as_str (MarketTitle (lit ''Will it rain?''))) = Ok (MarketTitle (lit ''Will it rain?''))
   \<and> label_new (label_as_str (OutcomeLabel (lit ''Yes''))) = Ok (OutcomeLabel (lit ''Yes''))
   \<and> body_new (body_as_str (MessageBody (lit ''hi''))) = Ok (MessageBody (lit ''hi''))"
proof -
  have "title_new (lit ''  Will it rain?  '') = Ok (MarketTitle (lit ''Will it rain?''))"
    and "label_new (lit '' Yes'') = Ok (OutcomeLabel (lit ''Yes''))"
    and "body_new (lit ''hi  '') = Ok (MessageBody (lit ''hi''))"
    by code_simp+
  then show ?thesis
    using trimmed_values_canonical [of "lit ''  Will it rain?  ''" "MarketTitle (lit ''Will it rain?'')"]
      trimmed_values_canonical [of "lit '' Yes''" _ "OutcomeLabel (lit ''Yes'')"]
      trimmed_values_canonical [of "lit ''hi  ''" _ _ "MessageBody (lit ''hi'')"]
    by blast
qed

text \<open>Emails are canonical on ASCII input: an accepted address has a non-empty local part
  before its first at-sign and a dotted host that neither starts nor ends with a dot, contains
  no upper-case letter and no outer whitespace, is accepted again as itself, and every spelling
  of it with other ASCII letter cases gives the same value, so uniqueness by \<open>Email\<close> equality is
  uniqueness up to case.\<close>

theorem email_canonical:
  assumes "ascii s" and "email_new lc s = Ok e"
  shows "email_new lc (email_as_str e) = Ok e
    \<and> trimmed (email_as_str e) \<and> list_all (\<lambda>c. \<not> (65 \<le> c \<and> c \<le> 90)) (email_as_str e)
    \<and> (\<exists>l h. email_as_str e = l @ 64 # h \<and> l \<noteq> [] \<and> 64 \<notin> set l \<and> 46 \<in> set h
        \<and> hd h \<noteq> 46 \<and> last h \<noteq> 46)
    \<and> (\<forall>s'. ascii s' \<and> map ascii_lower s' = map ascii_lower s \<longrightarrow> email_new lc s' = Ok e)"
proof -
  let ?v = "map ascii_lower (trim s)"
  have e: "e = Email ?v" and shape: "email_shape ?v"
    using assms by (auto simp: email_new_Ok to_lowercase_ascii)
  have low: "to_lowercase lc ?v = ?v" using assms(1) by (simp add: to_lowercase_ascii o_def)
  have tr: "trim ?v = ?v" by (simp add: trim_map_lower)
  have "email_new lc (email_as_str e) = Ok e" using shape low tr by (simp add: email_new_Ok e)
  moreover have "trimmed (email_as_str e) \<and> list_all (\<lambda>c. \<not> (65 \<le> c \<and> c \<le> 90)) (email_as_str e)"
    using trimmed_trim [of ?v] tr by (auto simp: e list_all_iff ascii_lower_def)
  moreover have "\<exists>l h. ?v = l @ 64 # h \<and> l \<noteq> [] \<and> 64 \<notin> set l \<and> 46 \<in> set h
      \<and> hd h \<noteq> 46 \<and> last h \<noteq> 46"
    using shape by (rule email_shapeD) blast
  moreover have "email_new lc s' = Ok e" if "ascii s'" "map ascii_lower s' = map ascii_lower s" for s'
    using that shape trim_map_lower [of s'] trim_map_lower [of s]
    by (simp add: email_new_Ok e to_lowercase_ascii)
  ultimately show ?thesis by (simp add: e)
qed

lemma email_canonical_witness:
  "email_new (\<lambda>_ _. []) (lit ''user@example.com'') = Ok (Email (lit ''user@example.com''))"
proof -
  have a: "ascii (lit '' User@Example.com'')"
    and b: "email_new (\<lambda>_ _. []) (lit '' User@Example.com'') = Ok (Email (lit ''user@example.com''))"
    by code_simp+
  show ?thesis using email_canonical [OF a b] by simp
qed

end
