(* ===== verification/Entities.thy ===== *)
theory Entities
  imports Values
begin

text \<open>
  The entities of \<open>src/crates/domain/src/entities\<close>: identifiers, statuses and roles with their
  string forms, and the records with the methods that change them.  A method on \<open>&mut self\<close>
  returns the changed record (and its result); fresh identifiers and the clock, which the code
  draws from \<open>Uuid::new_v4()\<close> and \<open>Utc::now()\<close>, are arguments.
\<close>

section \<open>Identifiers\<close>

datatype user_id = UserId uuid
datatype market_id = MarketId uuid
datatype outcome_id = OutcomeId uuid
datatype bet_id = BetId uuid
datatype message_id = MessageId uuid

fun user_uuid :: "user_id \<Rightarrow> uuid" where "user_uuid (UserId u) = u"
fun market_uuid :: "market_id \<Rightarrow> uuid" where "market_uuid (MarketId u) = u"
fun outcome_uuid :: "outcome_id \<Rightarrow> uuid" where "outcome_uuid (OutcomeId u) = u"
fun bet_uuid :: "bet_id \<Rightarrow> uuid" where "bet_uuid (BetId u) = u"
fun message_uuid :: "message_id \<Rightarrow> uuid" where "message_uuid (MessageId u) = u"

section \<open>Roles and statuses\<close>

datatype role = RUser | RAdmin

fun role_as_str :: "role \<Rightarrow> str" where
  "role_as_str RUser = lit ''user''"
| "role_as_str RAdmin = lit ''admin''"

definition role_from_str :: "str \<Rightarrow> (role, domain_error) result" where
  "role_from_str s = (if s = lit ''user'' then Ok RUser
     else if s = lit ''admin'' then Ok RAdmin
     else Err (Validation [Lit ''unknown role: '', TextF s]))"

datatype market_status = Open | Closed | Resolved

fun market_status_as_str :: "market_status \<Rightarrow> str" where
  "market_status_as_str Open = lit ''open''"
| "market_status_as_str Closed = lit ''closed''"
| "market_status_as_str Resolved = lit ''resolved''"

definition market_status_from_str :: "str \<Rightarrow> (market_status, domain_error) result" where
  "market_status_from_str s = (if s = lit ''open'' then Ok Open
     else if s = lit ''closed'' then Ok Closed
     else if s = lit ''resolved'' then Ok Resolved
     else Err (Validation [Lit ''unknown market status: '', TextF s]))"

datatype bet_status = Active | Won | Lost | Refunded

fun bet_status_as_str :: "bet_status \<Rightarrow> str" where
  "bet_status_as_str Active = lit ''active''"
| "bet_status_as_str Won = lit ''won''"
| "bet_status_as_str Lost = lit ''lost''"
| "bet_status_as_str Refunded = lit ''refunded''"

definition bet_status_from_str :: "str \<Rightarrow> (bet_status, domain_error) result" where
  "bet_status_from_str s = (if s = lit ''active'' then Ok Active
     else if s = lit ''won'' then Ok Won
     else if s = lit ''lost'' then Ok Lost
     else if s = lit ''refunded'' then Ok Refunded
     else Err (Validation [Lit ''unknown bet status: '', TextF s]))"

section \<open>Users\<close>

record user =
  u_id :: user_id
  u_username :: username
  u_email :: email
  u_password_hash :: password_hash
  u_avatar_url :: "str option"
  u_balance :: int
  u_role :: role
  u_created_at :: datetime
  u_updated_at :: datetime

definition starting_balance :: int where "starting_balance = 10000"

definition user_new :: "uuid \<Rightarrow> datetime \<Rightarrow> username \<Rightarrow> email \<Rightarrow> password_hash \<Rightarrow> user" where
  "user_new fresh now name mail hash = \<lparr>
     u_id = UserId fresh, u_username = name, u_email = mail, u_password_hash = hash,
     u_avatar_url = None, u_balance = starting_balance, u_role = RUser,
     u_created_at = now, u_updated_at = now\<rparr>"

definition set_avatar_url :: "datetime \<Rightarrow> str option \<Rightarrow> user \<Rightarrow> user" where
  "set_avatar_url now url u = u\<lparr>u_avatar_url := url, u_updated_at := now\<rparr>"

definition debit :: "datetime \<Rightarrow> int \<Rightarrow> user \<Rightarrow> (user, domain_error) result" where
  "debit now amount u =
     (if amount \<le> 0 then Err (Validation (msg ''debit amount must be positive''))
      else if u_balance u < amount then Err (RuleViolation (msg ''insufficient balance''))
      else Ok (u\<lparr>u_balance := wrap_i64 (u_balance u - amount), u_updated_at := now\<rparr>))"

definition credit :: "datetime \<Rightarrow> int \<Rightarrow> user \<Rightarrow> (user, domain_error) result" where
  "credit now amount u =
     (if amount \<le> 0 then Err (Validation (msg ''credit amount must be positive''))
      else Ok (u\<lparr>u_balance := sat_i64 (u_balance u + amount), u_updated_at := now\<rparr>))"

definition set_role :: "datetime \<Rightarrow> role \<Rightarrow> user \<Rightarrow> user" where
  "set_role now r u = u\<lparr>u_role := r, u_updated_at := now\<rparr>"

section \<open>Refresh tokens\<close>

record refresh_token =
  t_id :: uuid
  t_user_id :: user_id
  t_token_hash :: str
  t_expires_at :: datetime
  t_created_at :: datetime

definition refresh_token_new :: "uuid \<Rightarrow> datetime \<Rightarrow> user_id \<Rightarrow> str \<Rightarrow> datetime \<Rightarrow> refresh_token" where
  "refresh_token_new fresh now user hash expires = \<lparr>
     t_id = fresh, t_user_id = user, t_token_hash = hash, t_expires_at = expires,
     t_created_at = now\<rparr>"

definition is_expired :: "datetime \<Rightarrow> refresh_token \<Rightarrow> bool" where
  "is_expired now t \<longleftrightarrow> t_expires_at t \<le> now"

section \<open>Markets and outcomes\<close>

record market =
  m_id :: market_id
  m_title :: market_title
  m_description :: "str option"
  m_category :: "str option"
  m_thumbnail_url :: "str option"
  m_status :: market_status
  m_resolved_outcome_id :: "outcome_id option"
  m_total_volume :: int
  m_participants_count :: int
  m_created_at :: datetime
  m_closes_at :: "datetime option"

definition normalise_optional :: "str option \<Rightarrow> str option" where
  "normalise_optional v = (case map_option trim v of
     None \<Rightarrow> None | Some t \<Rightarrow> if t = [] then None else Some t)"

definition market_new :: "uuid \<Rightarrow> datetime \<Rightarrow> market_title \<Rightarrow> str option \<Rightarrow> str option
    \<Rightarrow> datetime option \<Rightarrow> market" where
  "market_new fresh now title description category closes = \<lparr>
     m_id = MarketId fresh, m_title = title, m_description = normalise_optional description,
     m_category = normalise_optional category, m_thumbnail_url = None, m_status = Open,
     m_resolved_outcome_id = None, m_total_volume = 0, m_participants_count = 0,
     m_created_at = now, m_closes_at = closes\<rparr>"

definition market_resolve :: "outcome_id \<Rightarrow> market \<Rightarrow> (market, domain_error) result" where
  "market_resolve winning m =
     (if m_status m = Resolved then Err (RuleViolation (msg ''market is already resolved''))
      else Ok (m\<lparr>m_status := Resolved, m_resolved_outcome_id := Some winning\<rparr>))"

definition record_stake :: "int \<Rightarrow> bool \<Rightarrow> market \<Rightarrow> market" where
  "record_stake amount new_participant m =
     (let m = m\<lparr>m_total_volume := sat_i64 (m_total_volume m + amount)\<rparr> in
      if new_participant then m\<lparr>m_participants_count := wrap_i32 (m_participants_count m + 1)\<rparr>
      else m)"

definition accepts_bets :: "datetime \<Rightarrow> market \<Rightarrow> bool" where
  "accepts_bets now m \<longleftrightarrow> m_status m = Open
     \<and> (case m_closes_at m of None \<Rightarrow> True | Some deadline \<Rightarrow> now < deadline)"

record outcome =
  o_id :: outcome_id
  o_market_id :: market_id
  o_label :: outcome_label
  o_thumbnail_url :: "str option"
  o_current_price :: price
  o_volume :: int

definition market_set_thumbnail_url :: "str option \<Rightarrow> market \<Rightarrow> market" where
  "market_set_thumbnail_url url m = m\<lparr>m_thumbnail_url := url\<rparr>"

definition outcome_new :: "uuid \<Rightarrow> market_id \<Rightarrow> outcome_label \<Rightarrow> price \<Rightarrow> outcome" where
  "outcome_new fresh market label price = \<lparr>
     o_id = OutcomeId fresh, o_market_id = market, o_label = label, o_thumbnail_url = None,
     o_current_price = price, o_volume = 0\<rparr>"

definition set_current_price :: "price \<Rightarrow> outcome \<Rightarrow> outcome" where
  "set_current_price p oc = oc\<lparr>o_current_price := p\<rparr>"

definition outcome_set_thumbnail_url :: "str option \<Rightarrow> outcome \<Rightarrow> outcome" where
  "outcome_set_thumbnail_url url oc = oc\<lparr>o_thumbnail_url := url\<rparr>"

definition add_volume :: "int \<Rightarrow> outcome \<Rightarrow> outcome" where
  "add_volume amount oc = oc\<lparr>o_volume := sat_i64 (o_volume oc + amount)\<rparr>"

record price_point =
  pp_outcome_id :: outcome_id
  pp_price :: price
  pp_recorded_at :: datetime

definition price_point_new :: "datetime \<Rightarrow> outcome_id \<Rightarrow> price \<Rightarrow> price_point" where
  "price_point_new now oid p = \<lparr>pp_outcome_id = oid, pp_price = p, pp_recorded_at = now\<rparr>"

section \<open>Bets\<close>

record bet =
  b_id :: bet_id
  b_user_id :: user_id
  b_market_id :: market_id
  b_outcome_id :: outcome_id
  b_amount :: int
  b_price :: price
  b_status :: bet_status
  b_payout :: "int option"
  b_created_at :: datetime

definition bet_place :: "uuid \<Rightarrow> datetime \<Rightarrow> user_id \<Rightarrow> market_id \<Rightarrow> outcome_id \<Rightarrow> int \<Rightarrow> price
    \<Rightarrow> (bet, domain_error) result" where
  "bet_place fresh now user market outcome amount price =
     (if amount \<le> 0 then Err (Validation (msg ''bet amount must be positive''))
      else if price = price_zero then Err (Validation (msg ''bet price must be above zero''))
      else Ok \<lparr>b_id = BetId fresh, b_user_id = user, b_market_id = market, b_outcome_id = outcome,
        b_amount = amount, b_price = price, b_status = Active, b_payout = None,
        b_created_at = now\<rparr>)"

definition ensure_active :: "bet \<Rightarrow> (unit, domain_error) result" where
  "ensure_active b = (if b_status b \<noteq> Active
     then Err (RuleViolation [Lit ''bet '', UuidF (bet_uuid (b_id b)), Lit '' is already settled''])
     else Ok ())"

definition settle_as_winner :: "bet \<Rightarrow> (int \<times> bet, domain_error) result" where
  "settle_as_winner b = and_then (ensure_active b) (\<lambda>_.
     and_then (div_i64 (sat_i64 (b_amount b * price_scale)) (as_ten_thousandths (b_price b)))
       (\<lambda>payout. Ok (payout, b\<lparr>b_status := Won, b_payout := Some payout\<rparr>)))"

definition settle_as_loser :: "bet \<Rightarrow> (bet, domain_error) result" where
  "settle_as_loser b = and_then (ensure_active b)
     (\<lambda>_. Ok (b\<lparr>b_status := Lost, b_payout := None\<rparr>))"

section \<open>Chat messages\<close>

datatype chat_channel = Global | Market market_id

fun channel_market_id :: "chat_channel \<Rightarrow> market_id option" where
  "channel_market_id Global = None"
| "channel_market_id (Market m) = Some m"

fun channel_of :: "market_id option \<Rightarrow> chat_channel" where
  "channel_of (Some m) = Market m"
| "channel_of None = Global"

record chat_message =
  c_id :: message_id
  c_author_id :: user_id
  c_channel :: chat_channel
  c_body :: message_body
  c_reply_to :: "message_id option"
  c_created_at :: datetime

definition chat_message_new :: "uuid \<Rightarrow> datetime \<Rightarrow> user_id \<Rightarrow> chat_channel \<Rightarrow> message_body
    \<Rightarrow> message_id option \<Rightarrow> chat_message" where
  "chat_message_new fresh now author channel body reply = \<lparr>
     c_id = MessageId fresh, c_author_id = author, c_channel = channel, c_body = body,
     c_reply_to = reply, c_created_at = now\<rparr>"

section \<open>Well-formed entities\<close>

text \<open>What the constructors establish and every method keeps.\<close>

definition user_wf :: "user \<Rightarrow> bool" where
  "user_wf u \<longleftrightarrow> username_wf (u_username u) \<and> 0 \<le> u_balance u \<and> u_balance u \<le> i64_max"

definition outcome_wf :: "outcome \<Rightarrow> bool" where
  "outcome_wf oc \<longleftrightarrow> price_wf (o_current_price oc) \<and> 0 \<le> o_volume oc \<and> o_volume oc \<le> i64_max"

definition bet_wf :: "bet \<Rightarrow> bool" where
  "bet_wf b \<longleftrightarrow> 0 < b_amount b \<and> b_amount b \<le> i64_max \<and> price_wf (b_price b)
     \<and> 0 < as_ten_thousandths (b_price b) \<and> (b_payout b \<noteq> None \<longleftrightarrow> b_status b = Won)"

text \<open>A market is resolved exactly when it names a winner.\<close>

definition market_wf :: "market \<Rightarrow> bool" where
  "market_wf m \<longleftrightarrow> (m_status m = Resolved \<longleftrightarrow> m_resolved_outcome_id m \<noteq> None)
     \<and> 0 \<le> m_total_volume m \<and> m_total_volume m \<le> i64_max"

lemma user_new_wf: "username_wf name \<Longrightarrow> user_wf (user_new fresh now name mail hash)"
  by (simp add: user_wf_def user_new_def starting_balance_def i64_max_def)

lemma debit_Ok_iff:
  "user_wf u \<Longrightarrow> debit now amount u = Ok u' \<longleftrightarrow>
     0 < amount \<and> amount \<le> u_balance u
     \<and> u' = u\<lparr>u_balance := u_balance u - amount, u_updated_at := now\<rparr>"
  by (auto simp: debit_def user_wf_def in_i64_def i64_min_def i64_max_def mach_simps)

lemma debit_wf: "user_wf u \<Longrightarrow> debit now amount u = Ok u' \<Longrightarrow> user_wf u'"
  by (auto simp: debit_Ok_iff) (auto simp: user_wf_def)

lemma debit_not_Panic [simp]: "debit now amount u \<noteq> Panic"
  by (simp add: debit_def)

lemma credit_not_Panic [simp]: "credit now amount u \<noteq> Panic"
  by (simp add: credit_def)

lemma credit_Ok_iff:
  "credit now amount u = Ok u' \<longleftrightarrow> 0 < amount
     \<and> u' = u\<lparr>u_balance := sat_i64 (u_balance u + amount), u_updated_at := now\<rparr>"
  by (auto simp: credit_def)

lemma credit_wf: "user_wf u \<Longrightarrow> credit now amount u = Ok u' \<Longrightarrow> user_wf u'"
  by (auto simp: credit_Ok_iff user_wf_def sat_i64_def i64_min_def i64_max_def)

lemma debit_credit_fields [simp]:
  assumes "debit now amount u = Ok u' \<or> credit now amount u = Ok u'"
  shows "u_id u' = u_id u" "u_username u' = u_username u" "u_email u' = u_email u"
    "u_role u' = u_role u" "u_password_hash u' = u_password_hash u"
  using assms by (auto simp: debit_def credit_def split: if_splits)

lemma bet_place_Ok_iff:
  "bet_place fresh now user market outcome amount price = Ok b \<longleftrightarrow>
     0 < amount \<and> price \<noteq> price_zero
     \<and> b = \<lparr>b_id = BetId fresh, b_user_id = user, b_market_id = market, b_outcome_id = outcome,
        b_amount = amount, b_price = price, b_status = Active, b_payout = None, b_created_at = now\<rparr>"
  by (auto simp: bet_place_def)

lemma bet_place_not_Panic [simp]:
  "bet_place fresh now user market outcome amount price \<noteq> Panic"
  by (simp add: bet_place_def)

lemma bet_place_wf:
  "bet_place fresh now user market outcome amount price = Ok b \<Longrightarrow> price_wf price \<Longrightarrow>
   amount \<le> i64_max \<Longrightarrow> bet_wf b"
  by (cases price) (auto simp: bet_place_Ok_iff bet_wf_def price_wf_def price_zero_def)

lemma settle_as_winner_eq:
  assumes "bet_wf b" "b_status b = Active"
  shows "settle_as_winner b =
    (let payout = sat_i64 (b_amount b * 10000) div as_ten_thousandths (b_price b)
     in Ok (payout, b\<lparr>b_status := Won, b_payout := Some payout\<rparr>))"
proof -
  have "0 \<le> sat_i64 (b_amount b * 10000)"
    using assms by (simp add: bet_wf_def sat_i64_def i64_max_def i64_min_def)
  then show ?thesis using assms
    by (simp add: settle_as_winner_def ensure_active_def bet_wf_def price_scale_def mach_simps Let_def)
qed

lemma settle_as_loser_eq:
  "b_status b = Active \<Longrightarrow> settle_as_loser b = Ok (b\<lparr>b_status := Lost, b_payout := None\<rparr>)"
  by (simp add: settle_as_loser_def ensure_active_def)

lemma settled_not_again:
  "b_status b \<noteq> Active \<Longrightarrow> settle_as_winner b = Err (RuleViolation
      [Lit ''bet '', UuidF (bet_uuid (b_id b)), Lit '' is already settled''])
   \<and> settle_as_loser b = Err (RuleViolation
      [Lit ''bet '', UuidF (bet_uuid (b_id b)), Lit '' is already settled''])"
  by (simp add: settle_as_winner_def settle_as_loser_def ensure_active_def)

text \<open>The payout is positive, and with a stake the scale cannot overflow it is the exact floor
  of \<open>amount / price\<close>, never less than the stake.\<close>

lemma payout_bounds:
  assumes "bet_wf b"
  defines "p \<equiv> as_ten_thousandths (b_price b)"
  defines "payout \<equiv> sat_i64 (b_amount b * 10000) div p"
  shows "0 < payout" "in_i64 payout" "payout * p \<le> b_amount b * 10000"
    and "b_amount b * 10000 \<le> i64_max \<Longrightarrow>
      payout = b_amount b * 10000 div p \<and> b_amount b \<le> payout \<and> b_amount b * 10000 < (payout + 1) * p"
proof -
  let ?s = "sat_i64 (b_amount b * 10000)"
  have p: "0 < p" "p \<le> 10000" and a: "0 < b_amount b" "b_amount b \<le> i64_max"
    using assms by (simp_all add: bet_wf_def price_wf_def price_scale_def)
  have s: "10000 \<le> ?s" "?s \<le> i64_max" "?s \<le> b_amount b * 10000"
    using a by (simp_all add: sat_i64_def i64_min_def i64_max_def)
  have "p div p \<le> ?s div p" by (rule zdiv_mono1) (use p s in simp_all)
  then show pos: "0 < payout" using p by (simp add: payout_def)
  have "?s div p \<le> ?s div 1" by (rule zdiv_mono2) (use p s in simp_all)
  then show "in_i64 payout"
    using pos s by (simp add: payout_def in_i64_def i64_min_def)
  have "payout * p \<le> ?s" unfolding payout_def
    using p div_mult_mod_eq [of ?s p] pos_mod_sign [of p ?s] by linarith
  then show "payout * p \<le> b_amount b * 10000" using s by simp
  assume big: "b_amount b * 10000 \<le> i64_max"
  have "?s = b_amount b * 10000"
    using a big by (simp add: sat_i64_id in_i64_def i64_min_def)
  then have eq: "payout = b_amount b * 10000 div p" by (simp add: payout_def)
  have "b_amount b * p div p \<le> b_amount b * 10000 div p"
    by (rule zdiv_mono1) (use p a in simp_all)
  then have "b_amount b \<le> payout" using p eq by simp
  moreover have "b_amount b * 10000 < (payout + 1) * p"
    using p div_mult_mod_eq [of "b_amount b * 10000" p] pos_mod_bound [of p "b_amount b * 10000"]
    unfolding eq distrib_right by linarith
  ultimately show "payout = b_amount b * 10000 div p \<and> b_amount b \<le> payout
      \<and> b_amount b * 10000 < (payout + 1) * p" using eq by simp
qed

lemma settle_as_winner_wf:
  "bet_wf b \<Longrightarrow> settle_as_winner b = Ok (p, b') \<Longrightarrow> bet_wf b'"
  by (auto simp: settle_as_winner_def ensure_active_def and_then_eq_Ok bet_wf_def split: if_splits)

lemma settle_as_loser_wf:
  "bet_wf b \<Longrightarrow> settle_as_loser b = Ok b' \<Longrightarrow> bet_wf b'"
  by (auto simp: settle_as_loser_def ensure_active_def and_then_eq_Ok bet_wf_def split: if_splits)

lemma market_resolve_wf: "market_wf m \<Longrightarrow> market_resolve w m = Ok m' \<Longrightarrow> market_wf m'"
  by (auto simp: market_resolve_def market_wf_def split: if_splits)

lemma record_stake_wf: "market_wf m \<Longrightarrow> 0 < amount \<Longrightarrow> market_wf (record_stake amount new m)"
  by (auto simp: record_stake_def market_wf_def Let_def sat_i64_def i64_min_def i64_max_def)

lemma add_volume_wf: "outcome_wf oc \<Longrightarrow> 0 < amount \<Longrightarrow> outcome_wf (add_volume amount oc)"
  by (auto simp: add_volume_def outcome_wf_def sat_i64_def i64_min_def i64_max_def)

lemma market_new_wf: "market_wf (market_new fresh now title d c closes)"
  by (simp add: market_wf_def market_new_def i64_max_def)

section \<open>Properties of the entities\<close>

text \<open>Roles and statuses are stored as strings without loss or ambiguity: parsing accepts a
  string exactly when it is the string of a value, and gives that value back.\<close>

theorem status_strings_roundtrip:
  "(\<forall>s r. role_from_str s = Ok r \<longleftrightarrow> s = role_as_str r)
   \<and> (\<forall>s m. market_status_from_str s = Ok m \<longleftrightarrow> s = market_status_as_str m)
   \<and> (\<forall>s b. bet_status_from_str s = Ok b \<longleftrightarrow> s = bet_status_as_str b)"
proof (intro conjI allI)
  show "role_from_str s = Ok r \<longleftrightarrow> s = role_as_str r" for s r
    by (cases r) (auto simp: role_from_str_def lit_def)
  show "market_status_from_str s = Ok m \<longleftrightarrow> s = market_status_as_str m" for s m
    by (cases m) (auto simp: market_status_from_str_def lit_def)
  show "bet_status_from_str s = Ok b \<longleftrightarrow> s = bet_status_as_str b" for s b
    by (cases b) (auto simp: bet_status_from_str_def lit_def)
qed

text \<open>C9: A winning bet is paid \<open>amount / price\<close> rounded down: settling an active, well-formed
  bet succeeds and marks it won with a positive payout; unless the scaled stake overflows
  64 bits, the payout is the exact floor and at least the stake, and a bet that is no longer
  active can never be settled again.\<close>

theorem winner_payout:
  assumes "bet_wf b"
  shows "(b_status b = Active \<longrightarrow> (\<exists>payout.
      settle_as_winner b = Ok (payout, b\<lparr>b_status := Won, b_payout := Some payout\<rparr>)
      \<and> 0 < payout \<and> in_i64 payout
      \<and> (b_amount b * 10000 \<le> i64_max \<longrightarrow> b_amount b \<le> payout
          \<and> payout * as_ten_thousandths (b_price b) \<le> b_amount b * 10000
          \<and> b_amount b * 10000 < (payout + 1) * as_ten_thousandths (b_price b))))
    \<and> (b_status b \<noteq> Active \<longrightarrow> \<not> is_ok (settle_as_winner b) \<and> \<not> is_ok (settle_as_loser b))"
  using payout_bounds [OF assms] settle_as_winner_eq [OF assms]
  by (auto simp: Let_def settled_not_again)

lemma winner_payout_witness:
  "\<exists>payout. settle_as_winner \<lparr>b_id = BetId 1, b_user_id = UserId 1, b_market_id = MarketId 1,
      b_outcome_id = OutcomeId 1, b_amount = 100, b_price = Price 2500, b_status = Active,
      b_payout = None, b_created_at = 0\<rparr>
    = Ok (payout, \<lparr>b_id = BetId 1, b_user_id = UserId 1, b_market_id = MarketId 1,
      b_outcome_id = OutcomeId 1, b_amount = 100, b_price = Price 2500, b_status = Won,
      b_payout = Some payout, b_created_at = 0\<rparr>) \<and> 100 \<le> payout"
proof -
  let ?b = "\<lparr>b_id = BetId 1, b_user_id = UserId 1, b_market_id = MarketId 1,
      b_outcome_id = OutcomeId 1, b_amount = 100, b_price = Price 2500, b_status = Active,
      b_payout = None, b_created_at = 0\<rparr>"
  have "bet_wf ?b" by (simp add: bet_wf_def price_wf_def price_scale_def i64_max_def)
  from winner_payout [OF this] show ?thesis by (auto simp: i64_max_def)
qed

end
