(* ===== verification/Pricing.thy ===== *)
theory Pricing
  imports Entities
begin

text \<open>
  The pricing and authorization services (\<open>src/crates/domain/src/services\<close>): prices are each
  outcome's share of the staked volume in ten-thousandths, the remainder of the divisions handed
  out one tick each from the front.
\<close>

section \<open>Authorization\<close>

definition can_manage_markets :: "role \<Rightarrow> bool" where
  "can_manage_markets r \<longleftrightarrow> r = RAdmin"

section \<open>Recalculation\<close>

text \<open>\<open>iter().sum::<i64>()\<close>, which wraps.\<close>

definition sum_i64 :: "int list \<Rightarrow> int" where
  "sum_i64 xs = fold (\<lambda>v acc. wrap_i64 (acc + v)) xs 0"

definition shares :: "outcome list \<Rightarrow> (int list, 'e) result" where
  "shares os = (let n = length os; total_volume = sum_i64 (map o_volume os) in
     if total_volume \<le> 0
     then and_then (div_i64 price_scale (wrap_i64 (int n))) (\<lambda>base. Ok (replicate n base))
     else collect_results
       (map (\<lambda>oc. div_i64 (wrap_i64 (o_volume oc * price_scale)) total_volume) os))"

text \<open>The loop that gives one unit to each of the first \<open>remainder\<close> shares; indexing past the
  end panics.\<close>

function hand_out :: "int \<Rightarrow> nat \<Rightarrow> int list \<Rightarrow> (int list, 'e) result" where
  "hand_out remainder i ss =
     (if remainder > 0
      then if i < length ss
        then hand_out (remainder - 1) (i + 1) (ss[i := wrap_i64 (ss ! i + 1)])
        else Panic
      else Ok ss)"
  by pat_completeness auto
termination by (relation "measure (\<lambda>(r, _, _). nat r)") auto

declare hand_out.simps [simp del]

definition apply_share :: "outcome \<times> int \<Rightarrow> outcome" where
  "apply_share os = (case from_ten_thousandths (wrap_i32 (snd os)) of
     Ok price \<Rightarrow> set_current_price price (fst os) | _ \<Rightarrow> fst os)"

definition recalculate_prices :: "outcome list \<Rightarrow> (outcome list, 'e) result" where
  "recalculate_prices os =
     (if os = [] then Ok []
      else and_then (shares os) (\<lambda>ss.
        and_then (hand_out (wrap_i64 (price_scale - sum_i64 ss)) 0 ss) (\<lambda>ss'.
        Ok (map apply_share (zip os ss')))))"

section \<open>The loop hands one unit to each of the first shares\<close>

definition bump :: "nat \<Rightarrow> int \<Rightarrow> int list \<Rightarrow> int list" where
  "bump i r ss = map (\<lambda>j. if i \<le> j \<and> int j < int i + r then ss ! j + 1 else ss ! j) [0..<length ss]"

lemma length_bump [simp]: "length (bump i r ss) = length ss"
  by (simp add: bump_def)

lemma nth_bump: "j < length ss \<Longrightarrow>
   bump i r ss ! j = (if i \<le> j \<and> int j < int i + r then ss ! j + 1 else ss ! j)"
  by (simp add: bump_def)

lemma bump_0 [simp]: "bump i 0 ss = ss"
  by (rule nth_equalityI) (auto simp: nth_bump)

lemma bump_step:
  "0 < r \<Longrightarrow> i < length ss \<Longrightarrow> bump i r ss = bump (Suc i) (r - 1) (ss[i := ss ! i + 1])"
  by (rule nth_equalityI) (auto simp: nth_bump nth_list_update)

lemma hand_out_eq:
  "0 \<le> r \<Longrightarrow> int i + r \<le> int (length ss) \<Longrightarrow>
   (\<And>j. i \<le> j \<Longrightarrow> j < length ss \<Longrightarrow> in_i64 (ss ! j + 1)) \<Longrightarrow>
   hand_out r i ss = (Ok (bump i r ss) :: (int list, 'e) result)"
proof (induction r i ss rule: hand_out.induct)
  case (1 r i ss)
  show ?case
  proof (cases "0 < r")
    case True
    then have i: "i < length ss" using 1 by linarith
    let ?ss = "ss[i := ss ! i + 1]"
    have "hand_out r i ss = (hand_out (r - 1) (i + 1) ?ss :: (int list, 'e) result)"
      using True i 1(4) [of i] by (simp add: hand_out.simps [of r] wrap_i64_id)
    also have "\<dots> = Ok (bump (i + 1) (r - 1) ?ss)"
      using 1(1) [OF True i] True i 1(2-4) wrap_i64_id [OF 1(4) [OF _ i]]
      by (auto simp: nth_list_update)
    finally show ?thesis using True i bump_step [of r i ss] by simp
  next
    case False
    then have "r = 0" using 1 by simp
    then show ?thesis by (simp add: hand_out.simps [of 0])
  qed
qed

lemma bump_Cons: "bump 0 r (s # ss) = (if 0 < r then s + 1 else s) # bump 0 (r - 1) ss"
proof (rule nth_equalityI)
  show "bump 0 r (s # ss) ! j = ((if 0 < r then s + 1 else s) # bump 0 (r - 1) ss) ! j"
    if "j < length (bump 0 r (s # ss))" for j
    using that by (cases j) (simp_all add: nth_bump)
qed simp

lemma sum_list_bump:
  "0 \<le> r \<Longrightarrow> r \<le> int (length ss) \<Longrightarrow> sum_list (bump 0 r ss) = sum_list ss + r"
proof (induction ss arbitrary: r)
  case (Cons s ss)
  then show ?case by (cases "r = 0") (simp_all add: bump_Cons)
qed simp

lemma bump_mem:
  "x \<in> set (bump 0 r ss) \<Longrightarrow> \<exists>s\<in>set ss. x = s \<or> (x = s + 1 \<and> 0 < r)"
proof (induction ss arbitrary: r)
  case (Cons s ss)
  then show ?case using Cons.IH [of "r - 1"] by (auto simp: bump_Cons split: if_splits)
qed (simp add: bump_def)

section \<open>Sums that do not overflow\<close>

lemma sum_i64_snoc: "sum_i64 (xs @ [x]) = wrap_i64 (sum_i64 xs + x)"
  by (simp add: sum_i64_def)

lemma sum_i64_exact:
  "\<forall>x\<in>set xs. 0 \<le> x \<Longrightarrow> sum_list xs \<le> i64_max \<Longrightarrow> sum_i64 xs = sum_list xs"
proof (induction xs rule: rev_induct)
  case Nil
  then show ?case by (simp add: sum_i64_def)
next
  case (snoc x xs)
  have "0 \<le> sum_list xs" using snoc.prems(1) by (intro sum_list_nonneg) simp
  then show ?case using snoc
    by (simp add: sum_i64_snoc wrap_i64_id in_i64_def i64_min_def)
qed

lemma sum_nonneg_int: "\<forall>x\<in>set xs. 0 \<le> x \<Longrightarrow> 0 \<le> sum_list (xs :: int list)"
  by (induction xs) auto

lemma member_le_sum_list_int:
  "\<forall>x\<in>set xs. 0 \<le> x \<Longrightarrow> x \<in> set xs \<Longrightarrow> x \<le> sum_list (xs :: int list)"
  using sum_nonneg_int by (induction xs) (auto simp: add_increasing)

section \<open>The shares and their remainder\<close>

text \<open>The volumes the arithmetic can scale: none negative, and the scaled total in 64 bits.\<close>

definition volumes_ok :: "outcome list \<Rightarrow> bool" where
  "volumes_ok os \<longleftrightarrow> (\<forall>oc\<in>set os. 0 \<le> o_volume oc)
     \<and> sum_list (map o_volume os) * price_scale \<le> i64_max
     \<and> int (length os) \<le> i64_max"

definition share_of :: "outcome list \<Rightarrow> outcome \<Rightarrow> int" where
  "share_of os oc = (let total = sum_list (map o_volume os) in
     if total \<le> 0 then price_scale div int (length os) else o_volume oc * price_scale div total)"

lemma sum_list_floor:
  fixes ws :: "int list"
  assumes "\<forall>w\<in>set ws. 0 \<le> w" "0 < t" "ws \<noteq> []"
  shows "sum_list (map (\<lambda>w. w div t) ws) \<le> sum_list ws div t"
    and "sum_list ws div t < sum_list (map (\<lambda>w. w div t) ws) + int (length ws)"
proof -
  let ?q = "sum_list (map (\<lambda>w. w div t) ws)"
  have split: "sum_list vs = sum_list (map (\<lambda>w. w div t) vs) * t + sum_list (map (\<lambda>w. w mod t) vs)"
    for vs :: "int list"
    by (induction vs) (auto simp: algebra_simps)
  have low: "0 \<le> sum_list (map (\<lambda>w. w mod t) vs)" for vs :: "int list"
    using assms(2) by (intro sum_list_nonneg) auto
  have high: "vs \<noteq> [] \<Longrightarrow> sum_list (map (\<lambda>w. w mod t) vs) < int (length vs) * t" for vs :: "int list"
  proof (induction vs)
    case (Cons v vs)
    have "v mod t < t" using assms(2) by simp
    then show ?case using Cons by (cases vs) (auto simp: algebra_simps)
  qed simp
  have "?q * t \<le> sum_list ws" using split [of ws] low [of ws] by linarith
  then show "?q \<le> sum_list ws div t" using assms(2) zdiv_mono1 [of "?q * t" "sum_list ws" t] by simp
  have "sum_list ws < (?q + int (length ws)) * t"
    using split [of ws] high [OF assms(3)] by (simp add: algebra_simps)
  moreover have "sum_list ws div t * t \<le> sum_list ws"
    using assms(2) div_mult_mod_eq [of "sum_list ws" t] pos_mod_sign [of t "sum_list ws"] by linarith
  ultimately have "sum_list ws div t * t < (?q + int (length ws)) * t" by linarith
  then show "sum_list ws div t < ?q + int (length ws)"
    using assms(2) mult_less_cancel_right_pos by blast
qed

lemma sum_list_map_mult: "sum_list (map (\<lambda>x. f x * (c::int)) xs) = sum_list (map f xs) * c"
  by (simp add: sum_list_mult_const)

lemma share_bounds:
  assumes "volumes_ok os" "os \<noteq> []"
  shows "sum_list (map (share_of os) os) \<le> price_scale"
    and "price_scale < sum_list (map (share_of os) os) + int (length os)"
    and "oc \<in> set os \<Longrightarrow> 0 \<le> share_of os oc"
proof -
  let ?T = "sum_list (map o_volume os)" and ?n = "int (length os)"
  have n: "0 < ?n" using assms(2) by simp
  have "sum_list (map (share_of os) os) \<le> price_scale
      \<and> price_scale < sum_list (map (share_of os) os) + ?n"
  proof (cases "?T \<le> 0")
    case True
    then have "share_of os = (\<lambda>_. price_scale div ?n)" by (auto simp: share_of_def Let_def)
    moreover have "sum_list (map (\<lambda>_. price_scale div ?n) os) = ?n * (price_scale div ?n)"
      by (simp add: sum_list_triv)
    moreover have "?n * (price_scale div ?n) \<le> price_scale"
      and "price_scale < ?n * (price_scale div ?n) + ?n"
      using n pos_mod_bound [OF n, of price_scale] pos_mod_sign [OF n, of price_scale]
        mult_div_mod_eq [of ?n price_scale] by linarith+
    ultimately show ?thesis by simp
  next
    case False
    let ?ws = "map (\<lambda>oc. o_volume oc * price_scale) os"
    have eq: "map (share_of os) os = map (\<lambda>w. w div ?T) ?ws"
      using False by (simp add: share_of_def Let_def)
    have "\<forall>w\<in>set ?ws. 0 \<le> w" "?ws \<noteq> []"
      using assms by (auto simp: volumes_ok_def price_scale_def)
    moreover have "sum_list ?ws div ?T = price_scale"
      using False by (simp add: sum_list_map_mult)
    ultimately show ?thesis using sum_list_floor [of ?ws ?T] False unfolding eq by (simp only: length_map) simp
  qed
  then show "sum_list (map (share_of os) os) \<le> price_scale"
    and "price_scale < sum_list (map (share_of os) os) + ?n" by auto
  show "0 \<le> share_of os oc" if "oc \<in> set os"
    using that assms n by (auto simp: share_of_def Let_def volumes_ok_def price_scale_def
        intro!: div_int_pos_iff [THEN iffD2])
qed

section \<open>Recalculated prices\<close>

lemma shares_eq:
  assumes "volumes_ok os" "os \<noteq> []"
  shows "shares os = (Ok (map (share_of os) os) :: (int list, 'e) result)"
proof -
  let ?T = "sum_list (map o_volume os)"
  have vols: "\<forall>v\<in>set (map o_volume os). 0 \<le> v" using assms by (simp add: volumes_ok_def)
  have T0: "0 \<le> ?T" using vols by (rule sum_nonneg_int)
  have T: "?T * 10000 \<le> i64_max" using assms by (simp add: volumes_ok_def price_scale_def)
  then have sum: "sum_i64 (map o_volume os) = ?T" using vols T0 by (simp add: sum_i64_exact)
  have n: "0 < int (length os)" "int (length os) \<le> i64_max"
    using assms by (auto simp: volumes_ok_def)
  show ?thesis
  proof (cases "?T \<le> 0")
    case True
    have "map (share_of os) os = replicate (length os) (price_scale div int (length os))"
      using True by (intro nth_equalityI) (simp_all add: share_of_def Let_def)
    then show ?thesis using True sum n
      by (simp add: shares_def Let_def wrap_i64_id in_i64_def i64_min_def div_i64_nonneg price_scale_def)
  next
    case False
    have "div_i64 (wrap_i64 (o_volume oc * price_scale)) ?T = (Ok (share_of os oc) :: (int, 'e) result)"
      if oc: "oc \<in> set os" for oc
    proof -
      have v: "0 \<le> o_volume oc" "o_volume oc \<le> ?T"
        using oc vols member_le_sum_list_int [of "map o_volume os" "o_volume oc"] by auto
      then have "in_i64 (o_volume oc * price_scale)"
        using T by (simp add: in_i64_def i64_min_def price_scale_def)
      then show ?thesis using v False
        by (simp add: wrap_i64_id div_i64_nonneg share_of_def Let_def price_scale_def)
    qed
    then have "map (\<lambda>oc. div_i64 (wrap_i64 (o_volume oc * price_scale)) ?T) os
        = (map Ok (map (share_of os) os) :: (int, 'e) result list)"
      by simp
    then show ?thesis using False sum
      by (simp add: shares_def Let_def collect_results_Ok del: map_map)
  qed
qed

text \<open>The prices after recalculation: the floored share, one more tick for the first
  outcomes, as many as the remainder counts.\<close>

definition remainder_of :: "outcome list \<Rightarrow> int" where
  "remainder_of os = price_scale - sum_list (map (share_of os) os)"

definition priced :: "outcome list \<Rightarrow> outcome list" where
  "priced os = map (\<lambda>(oc, v). oc\<lparr>o_current_price := Price v\<rparr>)
     (zip os (bump 0 (remainder_of os) (map (share_of os) os)))"

lemma bumped_range:
  assumes "volumes_ok os" "os \<noteq> []" "v \<in> set (bump 0 (remainder_of os) (map (share_of os) os))"
  shows "0 \<le> v" "v \<le> price_scale"
proof -
  let ?ss = "map (share_of os) os"
  have nn: "\<forall>s\<in>set ?ss. 0 \<le> s" using share_bounds(3) [OF assms(1,2)] by auto
  then have le: "s \<le> sum_list ?ss" if "s \<in> set ?ss" for s
    using that member_le_sum_list_int [of ?ss s] by simp
  obtain s where s: "s \<in> set ?ss" "v = s \<or> (v = s + 1 \<and> 0 < remainder_of os)"
    using bump_mem [OF assms(3)] by blast
  show "0 \<le> v" using s nn by auto
  show "v \<le> price_scale"
    using s le [OF s(1)] share_bounds(1) [OF assms(1,2)] by (auto simp: remainder_of_def)
qed

lemma recalculate_eq:
  assumes "volumes_ok os" "os \<noteq> []"
  shows "recalculate_prices os = (Ok (priced os) :: (outcome list, 'e) result)"
proof -
  let ?ss = "map (share_of os) os" and ?r = "remainder_of os"
  let ?b = "bump 0 ?r ?ss"
  have nn: "\<forall>s\<in>set ?ss. 0 \<le> s" using share_bounds(3) [OF assms] by auto
  have sum: "sum_list ?ss \<le> price_scale" "price_scale < sum_list ?ss + int (length os)"
    using share_bounds [OF assms] by auto
  have r: "0 \<le> ?r" "?r < int (length ?ss)" using sum by (simp_all add: remainder_of_def)
  have wsum: "sum_i64 ?ss = sum_list ?ss"
    using sum nn by (intro sum_i64_exact) (simp_all add: price_scale_def i64_max_def)
  have "in_i64 (price_scale - sum_list ?ss)"
    using sum sum_nonneg_int [OF nn] by (simp add: in_i64_def i64_min_def i64_max_def price_scale_def)
  then have wr: "wrap_i64 (price_scale - sum_i64 ?ss) = ?r"
    by (simp add: wsum remainder_of_def wrap_i64_id)
  have "in_i64 (?ss ! j + 1)" if "j < length ?ss" for j
  proof -
    have m: "?ss ! j \<in> set ?ss" using that by (metis nth_mem)
    then have "0 \<le> ?ss ! j" "?ss ! j \<le> sum_list ?ss"
      using nn member_le_sum_list_int [of ?ss "?ss ! j"] by auto
    then show ?thesis using sum by (simp add: in_i64_def i64_min_def i64_max_def price_scale_def)
  qed
  then have hand: "hand_out ?r 0 ?ss = (Ok ?b :: (int list, 'e) result)"
    using r by (intro hand_out_eq) auto
  have "apply_share (oc, v) = oc\<lparr>o_current_price := Price v\<rparr>" if "(oc, v) \<in> set (zip os ?b)" for oc v
  proof -
    have "v \<in> set ?b" using that by (auto dest: set_zip_rightD)
    then have "0 \<le> v" "v \<le> price_scale" using bumped_range [OF assms] by auto
    then show ?thesis
      by (simp add: apply_share_def from_ten_thousandths_def set_current_price_def
          wrap_i32_id in_i32_def price_scale_def)
  qed
  then have "map apply_share (zip os ?b) = priced os"
    by (auto simp: priced_def)
  then show ?thesis using assms hand
    by (simp add: recalculate_prices_def shares_eq wr)
qed

lemma length_priced [simp]: "length (priced os) = length os"
  by (simp add: priced_def)

lemma nth_priced:
  "j < length os \<Longrightarrow> priced os ! j = (os ! j)\<lparr>o_current_price :=
     Price (share_of os (os ! j) + (if int j < remainder_of os then 1 else 0))\<rparr>"
  by (simp add: priced_def nth_bump)

lemma priced_frame:
  assumes "\<And>oc p. f (oc\<lparr>o_current_price := p\<rparr>) = f oc"
  shows "map f (priced os) = map f os"
  using assms by (intro nth_equalityI) (simp_all add: nth_priced)

lemma priced_sum:
  assumes "volumes_ok os" "os \<noteq> []"
  shows "sum_list (map (\<lambda>oc. as_ten_thousandths (o_current_price oc)) (priced os)) = price_scale"
proof -
  let ?ss = "map (share_of os) os"
  have "map (\<lambda>oc. as_ten_thousandths (o_current_price oc)) (priced os) = bump 0 (remainder_of os) ?ss"
    by (intro nth_equalityI) (simp_all add: nth_priced nth_bump)
  moreover have "sum_list (bump 0 (remainder_of os) ?ss) = sum_list ?ss + remainder_of os"
    using share_bounds [OF assms] by (intro sum_list_bump) (simp_all add: remainder_of_def)
  ultimately show ?thesis by (simp add: remainder_of_def)
qed

lemma priced_wf:
  assumes "volumes_ok os" "\<forall>oc\<in>set os. outcome_wf oc" "oc \<in> set (priced os)"
  shows "outcome_wf oc"
proof -
  have ne: "os \<noteq> []" using assms(3) by (auto simp: priced_def)
  obtain oc' v where oc: "(oc', v) \<in> set (zip os (bump 0 (remainder_of os) (map (share_of os) os)))"
      "oc = oc'\<lparr>o_current_price := Price v\<rparr>"
    using assms(3) by (auto simp: priced_def)
  then have "0 \<le> v" "v \<le> price_scale" "oc' \<in> set os"
    using bumped_range [OF assms(1) ne] by (auto dest: set_zip_leftD set_zip_rightD)
  then show ?thesis using oc assms(2) by (auto simp: outcome_wf_def price_wf_def)
qed

section \<open>Properties of the pricing service\<close>

lemma share_of_cases:
  assumes "volumes_ok os" "oc \<in> set os" "0 < sum_list (map o_volume os)"
  shows "share_of os oc * sum_list (map o_volume os) \<le> o_volume oc * price_scale"
    and "o_volume oc * price_scale < (share_of os oc + 1) * sum_list (map o_volume os)"
proof -
  let ?T = "sum_list (map o_volume os)" and ?w = "o_volume oc * price_scale"
  have s: "share_of os oc = ?w div ?T" using assms by (simp add: share_of_def Let_def)
  show "share_of os oc * ?T \<le> ?w" unfolding s
    using div_mult_mod_eq [of ?w ?T] pos_mod_sign [OF assms(3), of ?w] by linarith
  show "?w < (share_of os oc + 1) * ?T"
    unfolding s distrib_right
    using div_mult_mod_eq [of ?w ?T] pos_mod_bound [OF assms(3), of ?w] by linarith
qed

text \<open>C8: Recalculation prices a market exactly: for volumes whose scaled total fits 64 bits it
  succeeds, keeps every outcome but its price, leaves prices in \<open>0..=10000\<close> that sum to exactly
  10000, and each price is within one ten-thousandth of the outcome's share of the volume.\<close>

theorem recalculate_prices_exact:
  assumes "volumes_ok os" "os \<noteq> []"
  shows "\<exists>os'. recalculate_prices os = Ok os'
    \<and> map (\<lambda>oc. (o_id oc, o_market_id oc, o_label oc, o_thumbnail_url oc, o_volume oc)) os'
      = map (\<lambda>oc. (o_id oc, o_market_id oc, o_label oc, o_thumbnail_url oc, o_volume oc)) os
    \<and> sum_list (map (\<lambda>oc. as_ten_thousandths (o_current_price oc)) os') = 10000
    \<and> (\<forall>oc\<in>set os'. price_wf (o_current_price oc))
    \<and> (0 < sum_list (map o_volume os) \<longrightarrow> (\<forall>j<length os.
         (as_ten_thousandths (o_current_price (os' ! j)) - 1) * sum_list (map o_volume os)
           \<le> o_volume (os ! j) * 10000
         \<and> o_volume (os ! j) * 10000
           < (as_ten_thousandths (o_current_price (os' ! j)) + 1) * sum_list (map o_volume os)))"
proof -
  let ?T = "sum_list (map o_volume os)"
  have wf: "\<forall>oc\<in>set (priced os). price_wf (o_current_price oc)"
    using bumped_range [OF assms] by (auto simp: priced_def price_wf_def dest: set_zip_rightD)
  have near: "(as_ten_thousandths (o_current_price (priced os ! j)) - 1) * ?T \<le> o_volume (os ! j) * 10000
      \<and> o_volume (os ! j) * 10000 < (as_ten_thousandths (o_current_price (priced os ! j)) + 1) * ?T"
    if "0 < ?T" "j < length os" for j
    using share_of_cases [OF assms(1) nth_mem [OF that(2)] that(1)] that
    by (auto simp: nth_priced price_scale_def distrib_right left_diff_distrib)
  show ?thesis
    using recalculate_eq [OF assms] priced_sum [OF assms] wf near
    by (intro exI [of _ "priced os"]) (auto simp: priced_frame price_scale_def)
qed

lemma recalculate_prices_exact_witness:
  "\<exists>os'. recalculate_prices
      [outcome_new 1 (MarketId 1) (OutcomeLabel []) price_zero,
       outcome_new 2 (MarketId 1) (OutcomeLabel []) price_zero,
       outcome_new 3 (MarketId 1) (OutcomeLabel []) price_zero] = Ok os'
    \<and> sum_list (map (\<lambda>oc. as_ten_thousandths (o_current_price oc)) os') = 10000"
  using recalculate_prices_exact [of "[outcome_new 1 (MarketId 1) (OutcomeLabel []) price_zero,
       outcome_new 2 (MarketId 1) (OutcomeLabel []) price_zero,
       outcome_new 3 (MarketId 1) (OutcomeLabel []) price_zero]"]
  by (auto simp: volumes_ok_def outcome_new_def i64_max_def)

text \<open>The scaling can overflow: with one outcome backed by \<open>10^15\<close> units the product wraps
  below zero, the remainder exceeds the number of outcomes, and the loop indexes past the end
  of the shares, so recalculation panics.\<close>

theorem recalculate_overflow_panics:
  "recalculate_prices
     [(outcome_new 1 (MarketId 1) (OutcomeLabel []) price_zero)\<lparr>o_volume := 10 ^ 15\<rparr>,
      (outcome_new 2 (MarketId 1) (OutcomeLabel []) price_zero)\<lparr>o_volume := 1\<rparr>] = Panic"
proof -
  have w: "wrap_i64 10000000000000000000 = - 8446744073709551616"
      "wrap_i64 1000000000000000 = 1000000000000000"
      "wrap_i64 1000000000000001 = 1000000000000001"
      "wrap_i64 10000 = 10000" "wrap_i64 (- 8446) = - 8446" "wrap_i64 18446 = 18446"
      "wrap_i64 (- 8445) = - 8445" "wrap_i64 1 = 1"
    by (simp_all add: wrap_i64_def signed_take_bit_eq_if_positive signed_take_bit_eq_if_negative)
  show ?thesis
    apply (simp add: recalculate_prices_def shares_def Let_def sum_i64_def outcome_new_def
        price_scale_def w div_i64_def i64_min_def signed_divide_int_def)
    apply (simp add: w hand_out.simps)
    done
qed

end
