(* ===== verification/Ports.thy ===== *)
theory Ports
  imports Pricing
begin

text \<open>
  The ports between the layers: domain events (\<open>domain/src/events\<close>), the repository traits
  (\<open>domain/src/repositories\<close>) as records of operations over an unspecified state, their filters
  and errors, and the application errors (\<open>application/src/error.rs\<close>, \<open>actor.rs\<close>).  A trait
  object \<open>Arc<dyn Repository>\<close> is a value of such a record; the locales state what the traits
  promise their callers.
\<close>

section \<open>Errors\<close>

datatype repo_error = Conflict message | Storage message

fun show_repo_error :: "repo_error \<Rightarrow> message" where
  "show_repo_error (Conflict m) = Lit ''entity already exists: '' # m"
| "show_repo_error (Storage m) = Lit ''storage error: '' # m"

datatype auth_port_error = InvalidToken | AuthInternal message

datatype storage_port_error = InvalidKey | StorageInternal message

fun show_storage_error :: "storage_port_error \<Rightarrow> message" where
  "show_storage_error InvalidKey = msg ''invalid storage key''"
| "show_storage_error (StorageInternal m) = m"

datatype app_error =
    Domain domain_error
  | NotFound message
  | AppConflict message
  | Unauthorized message
  | Forbidden message
  | Internal message

fun app_of_repo :: "repo_error \<Rightarrow> app_error" where
  "app_of_repo (Conflict m) = AppConflict m"
| "app_of_repo (Storage m) = Internal m"

fun app_of_auth :: "auth_port_error \<Rightarrow> app_error" where
  "app_of_auth InvalidToken = Unauthorized (msg ''invalid token'')"
| "app_of_auth (AuthInternal m) = Internal m"

definition app_of_storage :: "storage_port_error \<Rightarrow> app_error" where
  "app_of_storage e = Internal (show_storage_error e)"

record access_claims =
  ac_user_id :: user_id
  ac_role :: role

record actor =
  actor_user_id :: user_id
  actor_role :: role

definition actor_of_claims :: "access_claims \<Rightarrow> actor" where
  "actor_of_claims c = \<lparr>actor_user_id = ac_user_id c, actor_role = ac_role c\<rparr>"

section \<open>Domain events\<close>

datatype event =
    BetPlaced bet_id
  | ChatMessagePosted message_id
  | ChatReactionChanged message_id user_id str bool
  | MarketPricesUpdated market_id
  | UserBalanceChanged user_id

fun topic :: "event \<Rightarrow> str" where
  "topic (BetPlaced b) = lit ''bet.placed''"
| "topic (ChatMessagePosted m) = lit ''chat.message_posted''"
| "topic (ChatReactionChanged m u e a) = lit ''chat.reaction_changed''"
| "topic (MarketPricesUpdated m) = lit ''market.prices_updated''"
| "topic (UserBalanceChanged u) = lit ''user.balance_changed''"

section \<open>Filters and query results\<close>

datatype bet_sort = BetNewest | BetPopular

datatype bet_status_filter = AnyStatus | IsStatus bet_status | Settled

fun status_matches :: "bet_status_filter \<Rightarrow> bet_status \<Rightarrow> bool" where
  "status_matches AnyStatus status \<longleftrightarrow> True"
| "status_matches (IsStatus wanted) status \<longleftrightarrow> status = wanted"
| "status_matches Settled status \<longleftrightarrow> status \<noteq> Active"

record bet_filter =
  bf_status :: bet_status_filter
  bf_sort :: bet_sort
  bf_limit :: int
  bf_offset :: int

definition bet_filter_default :: bet_filter where
  "bet_filter_default = \<lparr>bf_status = AnyStatus, bf_sort = BetNewest, bf_limit = 20, bf_offset = 0\<rparr>"

record user_stats =
  us_total_bets :: int
  us_wins :: int
  us_losses :: int
  us_total_volume :: int

record active_position =
  ap_user_id :: user_id
  ap_outcome_id :: outcome_id
  ap_avg_price :: price

datatype market_sort = Popular | Newest | Volume | ClosingSoon

record market_filter =
  mf_sort :: market_sort
  mf_category :: "str option"
  mf_status :: "market_status option"
  mf_search :: "str option"
  mf_limit :: int
  mf_offset :: int

definition market_filter_default :: market_filter where
  "market_filter_default = \<lparr>mf_sort = Popular, mf_category = None, mf_status = None,
     mf_search = None, mf_limit = 20, mf_offset = 0\<rparr>"

datatype price_interval = Minute | Hour | Day

record price_history_query =
  phq_interval :: price_interval
  phq_from :: "datetime option"
  phq_to :: "datetime option"

record message_anchor =
  an_id :: message_id
  an_created_at :: datetime

definition anchor_of :: "chat_message \<Rightarrow> message_anchor" where
  "anchor_of m = \<lparr>an_id = c_id m, an_created_at = c_created_at m\<rparr>"

datatype message_cursor = Before message_anchor | After message_anchor

record reaction_tally =
  rt_emoji :: reaction_emoji
  rt_count :: int
  rt_reacted :: bool

section \<open>The repository traits\<close>

text \<open>\<open>now\<close> arguments stand for the clock reads the implementations make themselves.\<close>

record 's user_repo =
  ur_save :: "user \<Rightarrow> ('s, unit, repo_error) cmd"
  ur_find_by_id :: "user_id \<Rightarrow> ('s, user option, repo_error) cmd"
  ur_find_by_email :: "email \<Rightarrow> ('s, user option, repo_error) cmd"
  ur_find_by_username :: "username \<Rightarrow> ('s, user option, repo_error) cmd"
  ur_list :: "('s, user list, repo_error) cmd"

record 's token_repo =
  tr_save :: "refresh_token \<Rightarrow> ('s, unit, repo_error) cmd"
  tr_find_by_token_hash :: "str \<Rightarrow> ('s, refresh_token option, repo_error) cmd"
  tr_delete :: "uuid \<Rightarrow> ('s, bool, repo_error) cmd"
  tr_delete_all_for_user :: "user_id \<Rightarrow> ('s, unit, repo_error) cmd"

record 's market_repo =
  mr_create :: "datetime \<Rightarrow> market \<Rightarrow> outcome list \<Rightarrow> ('s, unit, repo_error) cmd"
  mr_find_by_id :: "market_id \<Rightarrow> ('s, market option, repo_error) cmd"
  mr_find_by_ids :: "market_id list \<Rightarrow> ('s, market list, repo_error) cmd"
  mr_outcomes_for :: "market_id \<Rightarrow> ('s, outcome list, repo_error) cmd"
  mr_outcome_by_id :: "outcome_id \<Rightarrow> ('s, outcome option, repo_error) cmd"
  mr_outcomes_for_markets :: "market_id list \<Rightarrow> ('s, outcome list, repo_error) cmd"
  mr_list :: "market_filter \<Rightarrow> ('s, market list, repo_error) cmd"
  mr_featured :: "('s, market option, repo_error) cmd"
  mr_resolve :: "market \<Rightarrow> ('s, unit, repo_error) cmd"
  mr_update_thumbnail :: "market \<Rightarrow> ('s, unit, repo_error) cmd"
  mr_update_outcome_thumbnail :: "outcome \<Rightarrow> ('s, unit, repo_error) cmd"
  mr_price_history :: "market_id \<Rightarrow> price_history_query \<Rightarrow> ('s, price_point list, repo_error) cmd"

record 's bet_repo =
  br_place :: "datetime \<Rightarrow> bet \<Rightarrow> outcome list \<Rightarrow> price_point list \<Rightarrow> ('s, unit, repo_error) cmd"
  br_active_for_market :: "market_id \<Rightarrow> ('s, bet list, repo_error) cmd"
  br_settle :: "datetime \<Rightarrow> market \<Rightarrow> bet list \<Rightarrow> ('s, unit, repo_error) cmd"
  br_find_by_id :: "bet_id \<Rightarrow> ('s, bet option, repo_error) cmd"
  br_find_by_user :: "user_id \<Rightarrow> bet_filter \<Rightarrow> ('s, bet list, repo_error) cmd"
  br_find_by_market :: "market_id \<Rightarrow> bet_filter \<Rightarrow> ('s, bet list, repo_error) cmd"
  br_feed :: "bet_filter \<Rightarrow> ('s, bet list, repo_error) cmd"
  br_stats_for_user :: "user_id \<Rightarrow> ('s, user_stats, repo_error) cmd"
  br_active_positions :: "(user_id \<times> outcome_id) list \<Rightarrow> ('s, active_position list, repo_error) cmd"

record 's chat_repo =
  cr_save :: "chat_message \<Rightarrow> ('s, unit, repo_error) cmd"
  cr_find_by_id :: "message_id \<Rightarrow> ('s, chat_message option, repo_error) cmd"
  cr_find_by_ids :: "message_id list \<Rightarrow> ('s, chat_message list, repo_error) cmd"
  cr_list_recent :: "chat_channel \<Rightarrow> int \<Rightarrow> message_cursor option \<Rightarrow> ('s, chat_message list, repo_error) cmd"
  cr_add_reaction :: "message_id \<Rightarrow> user_id \<Rightarrow> reaction_emoji \<Rightarrow> ('s, bool, repo_error) cmd"
  cr_remove_reaction :: "message_id \<Rightarrow> user_id \<Rightarrow> reaction_emoji \<Rightarrow> ('s, bool, repo_error) cmd"
  cr_reactions_for :: "message_id list \<Rightarrow> user_id \<Rightarrow>
    ('s, (message_id \<times> reaction_tally list) list, repo_error) cmd"

text \<open>A transaction scope: its repositories, \<open>commit\<close>, and what dropping the scope does.\<close>

record 's tx_scope =
  tx_users :: "'s user_repo"
  tx_refresh_tokens :: "'s token_repo"
  tx_commit :: "('s, unit, repo_error) cmd"
  tx_drop :: "'s \<Rightarrow> 's"

type_synonym 's unit_of_work = "('s, 's tx_scope, repo_error) cmd"

text \<open>A block that opens a scope: on every way out the scope is dropped.\<close>

definition with_scope :: "'s unit_of_work \<Rightarrow> ('s tx_scope \<Rightarrow> ('s, 'a, app_error) cmd)
    \<Rightarrow> ('s, 'a, app_error) cmd" where
  "with_scope uow body = bind_cmd (conv app_of_repo uow)
     (\<lambda>tx s. (case body tx s of (r, s') \<Rightarrow> (r, tx_drop tx s')))"

section \<open>What the traits promise\<close>

text \<open>
  A user store: \<open>lookup\<close> is the content behind it.  \<open>save\<close> replaces the user of that id and
  nothing else, the finders read, and a failing operation may be a backend failure.
\<close>

locale user_repository =
  fixes repo :: "'s user_repo"
    and lookup :: "'s \<Rightarrow> user_id \<Rightarrow> user option"
    and inv :: "'s \<Rightarrow> bool"
  assumes save: "\<And>s u s'. inv s \<Longrightarrow> ur_save repo u s = (Ok (), s') \<Longrightarrow>
      inv s' \<and> lookup s' = (lookup s)(u_id u \<mapsto> u)"
    and find_by_id: "\<And>s i r s'. inv s \<Longrightarrow> ur_find_by_id repo i s = (Ok r, s') \<Longrightarrow>
      inv s' \<and> lookup s' = lookup s \<and> r = lookup s i"
    and find_by_email: "\<And>s e r s'. inv s \<Longrightarrow> ur_find_by_email repo e s = (Ok r, s') \<Longrightarrow>
      inv s' \<and> lookup s' = lookup s
      \<and> (case r of Some u \<Rightarrow> lookup s (u_id u) = Some u \<and> u_email u = e
         | None \<Rightarrow> (\<forall>i u. lookup s i = Some u \<longrightarrow> u_email u \<noteq> e))"
    and find_by_username: "\<And>s n r s'. inv s \<Longrightarrow> ur_find_by_username repo n s = (Ok r, s') \<Longrightarrow>
      inv s' \<and> lookup s' = lookup s
      \<and> (case r of Some u \<Rightarrow> lookup s (u_id u) = Some u \<and> u_username u = n
         | None \<Rightarrow> (\<forall>i u. lookup s i = Some u \<longrightarrow> u_username u \<noteq> n))"

text \<open>A refresh-token store, keyed by the token's own id.\<close>

locale token_repository =
  fixes trepo :: "'s token_repo"
    and tokens :: "'s \<Rightarrow> uuid \<Rightarrow> refresh_token option"
    and tinv :: "'s \<Rightarrow> bool"
  assumes tsave: "\<And>s t s'. tinv s \<Longrightarrow> tr_save trepo t s = (Ok (), s') \<Longrightarrow>
      tinv s' \<and> tokens s' = (tokens s)(t_id t \<mapsto> t)"
    and tfind: "\<And>s h r s'. tinv s \<Longrightarrow> tr_find_by_token_hash trepo h s = (Ok r, s') \<Longrightarrow>
      tinv s' \<and> tokens s' = tokens s
      \<and> (case r of Some t \<Rightarrow> tokens s (t_id t) = Some t \<and> t_token_hash t = h
         | None \<Rightarrow> (\<forall>i t. tokens s i = Some t \<longrightarrow> t_token_hash t \<noteq> h))"
    and tdelete: "\<And>s i b s'. tinv s \<Longrightarrow> tr_delete trepo i s = (Ok b, s') \<Longrightarrow>
      tinv s' \<and> tokens s' = (tokens s)(i := None) \<and> (b \<longleftrightarrow> tokens s i \<noteq> None)"
    and tdelete_all: "\<And>s u s'. tinv s \<Longrightarrow> tr_delete_all_for_user trepo u s = (Ok (), s') \<Longrightarrow>
      tinv s' \<and> tokens s' = (\<lambda>i. case tokens s i of None \<Rightarrow> None
        | Some t \<Rightarrow> if t_user_id t = u then None else Some t)"

end
