(* ===== verification/Ledger.thy ===== *)
theory Ledger
  imports Ports "HOL-Library.Multiset"
begin

text \<open>
  The abstract betting ledger: what a store of users, markets, outcomes and bets holds,
  whatever keeps it, with the effect the repository trait promises of placing and settling
  bets (\<open>domain/src/repositories/bet_repository.rs\<close>) and the invariant of the books.
\<close>

record ledger =
  lg_users :: "user_id \<Rightarrow> user option"
  lg_markets :: "market_id \<Rightarrow> market option"
  lg_outcomes :: "outcome list"
  lg_bets :: "bet list"

section \<open>The promised effects\<close>

definition first_bet :: "user_id \<Rightarrow> market_id \<Rightarrow> bet list \<Rightarrow> bool" where
  "first_bet u mid bs \<longleftrightarrow> (\<forall>b\<in>set bs. \<not> (b_user_id b = u \<and> b_market_id b = mid))"

text \<open>Placing: debit the bettor (or refuse), store the bet, apply the recalculated outcomes, bump
  the market's aggregates.\<close>

definition ledger_place :: "datetime \<Rightarrow> bet \<Rightarrow> outcome list \<Rightarrow> ledger \<Rightarrow> ledger option" where
  "ledger_place now bet new_os L = (case lg_users L (b_user_id bet) of
       None \<Rightarrow> None
     | Some u \<Rightarrow> (case debit now (b_amount bet) u of
         Ok u' \<Rightarrow> Some (L\<lparr>
           lg_users := (lg_users L)(b_user_id bet \<mapsto> u'),
           lg_markets := (lg_markets L)(b_market_id bet := map_option
             (record_stake (b_amount bet) (first_bet (b_user_id bet) (b_market_id bet) (lg_bets L)))
             (lg_markets L (b_market_id bet))),
           lg_outcomes := map (overlay o_id new_os) (lg_outcomes L),
           lg_bets := lg_bets L @ [bet]\<rparr>)
       | _ \<Rightarrow> None))"

text \<open>Settling: replace each settled bet, credit each payout.\<close>

definition credit_user :: "datetime \<Rightarrow> bet \<Rightarrow> (user_id \<Rightarrow> user option) \<Rightarrow> user_id \<Rightarrow> user option" where
  "credit_user now b us = (case b_payout b of
       None \<Rightarrow> us
     | Some p \<Rightarrow> us(b_user_id b := map_option
         (\<lambda>u. u\<lparr>u_balance := sat_i64 (u_balance u + p), u_updated_at := now\<rparr>) (us (b_user_id b))))"

definition ledger_settle :: "datetime \<Rightarrow> market \<Rightarrow> bet list \<Rightarrow> ledger \<Rightarrow> ledger" where
  "ledger_settle now m settled L = L\<lparr>
     lg_users := fold (credit_user now) settled (lg_users L),
     lg_markets := (lg_markets L)(m_id m := map_option (\<lambda>_. m) (lg_markets L (m_id m))),
     lg_bets := map (overlay b_id settled) (lg_bets L)\<rparr>"

section \<open>The invariant of the books\<close>

definition staked :: "(bet \<Rightarrow> bool) \<Rightarrow> bet list \<Rightarrow> int" where
  "staked P bs = sum_list (map b_amount (filter P bs))"

definition bettors :: "market_id \<Rightarrow> bet list \<Rightarrow> user_id set" where
  "bettors mid bs = b_user_id ` {b \<in> set bs. b_market_id b = mid}"

definition users_ok :: "(user_id \<Rightarrow> user option) \<Rightarrow> bool" where
  "users_ok us \<longleftrightarrow> finite (dom us) \<and> (\<forall>i u. us i = Some u \<longrightarrow> u_id u = i \<and> user_wf u)"

text \<open>A market's aggregates are those of its bets, it is resolved exactly when it names a winner
  among its own outcomes, and then none of its bets is open.\<close>

definition market_ok :: "bet list \<Rightarrow> outcome list \<Rightarrow> market_id \<Rightarrow> market \<Rightarrow> bool" where
  "market_ok bs os mid m \<longleftrightarrow> m_id m = mid
     \<and> m_total_volume m = sat_i64 (staked (\<lambda>b. b_market_id b = mid) bs)
     \<and> m_participants_count m = wrap_i32 (int (card (bettors mid bs)))
     \<and> (m_status m = Resolved \<longleftrightarrow> m_resolved_outcome_id m \<noteq> None)
     \<and> (\<forall>w. m_resolved_outcome_id m = Some w \<longrightarrow> (\<exists>oc\<in>set os. o_id oc = w \<and> o_market_id oc = mid))
     \<and> (m_status m = Resolved \<longrightarrow> (\<forall>b\<in>set bs. b_market_id b = mid \<longrightarrow> b_status b \<noteq> Active))"

definition outcome_ok :: "bet list \<Rightarrow> outcome \<Rightarrow> bool" where
  "outcome_ok bs oc \<longleftrightarrow> price_wf (o_current_price oc)
     \<and> o_volume oc = sat_i64 (staked (\<lambda>b. b_outcome_id b = o_id oc) bs)"

definition bet_ok :: "(user_id \<Rightarrow> user option) \<Rightarrow> (market_id \<Rightarrow> market option) \<Rightarrow> outcome list \<Rightarrow> bet \<Rightarrow> bool" where
  "bet_ok us ms os b \<longleftrightarrow> bet_wf b \<and> us (b_user_id b) \<noteq> None \<and> ms (b_market_id b) \<noteq> None
     \<and> (\<exists>oc\<in>set os. o_id oc = b_outcome_id b \<and> o_market_id oc = b_market_id b)"

definition market_outcomes :: "market_id \<Rightarrow> outcome list \<Rightarrow> outcome list" where
  "market_outcomes mid os = filter (\<lambda>oc. o_market_id oc = mid) os"

text \<open>The board of a market sums to one whole whenever its volumes can be scaled.\<close>

definition board_ok :: "outcome list \<Rightarrow> bool" where
  "board_ok os \<longleftrightarrow> (os \<noteq> [] \<longrightarrow> volumes_ok os \<longrightarrow>
     sum_list (map (\<lambda>oc. as_ten_thousandths (o_current_price oc)) os) = price_scale)"

definition ledger_wf :: "ledger \<Rightarrow> bool" where
  "ledger_wf L \<longleftrightarrow> users_ok (lg_users L)
     \<and> (\<forall>mid m. lg_markets L mid = Some m \<longrightarrow> market_ok (lg_bets L) (lg_outcomes L) mid m)
     \<and> distinct (map o_id (lg_outcomes L))
     \<and> (\<forall>oc\<in>set (lg_outcomes L). outcome_ok (lg_bets L) oc)
     \<and> distinct (map b_id (lg_bets L))
     \<and> (\<forall>b\<in>set (lg_bets L). bet_ok (lg_users L) (lg_markets L) (lg_outcomes L) b)
     \<and> (\<forall>mid. board_ok (market_outcomes mid (lg_outcomes L)))"

section \<open>Balances\<close>

text \<open>The money users hold, and the money in open bets.\<close>

definition cash :: "ledger \<Rightarrow> int" where
  "cash L = (\<Sum>i\<in>dom (lg_users L). u_balance (the (lg_users L i)))"

definition open_stakes :: "ledger \<Rightarrow> int" where
  "open_stakes L = staked (\<lambda>b. b_status b = Active) (lg_bets L)"

lemma staked_nonneg: "\<forall>b\<in>set bs. bet_wf b \<Longrightarrow> 0 \<le> staked P bs"
  by (induction bs) (auto simp: staked_def bet_wf_def)

lemma staked_append: "staked P (xs @ ys) = staked P xs + staked P ys"
  by (simp add: staked_def)

lemma staked_single: "staked P [b] = (if P b then b_amount b else 0)"
  by (simp add: staked_def)

lemma staked_cong:
  "(\<And>b. b \<in> set bs \<Longrightarrow> b_amount (f b) = b_amount b \<and> P (f b) = Q b) \<Longrightarrow>
   staked P (map f bs) = staked Q bs"
  by (induction bs) (auto simp: staked_def)

lemma bettors_append: "bettors mid (bs @ [b]) =
    (if b_market_id b = mid then insert (b_user_id b) (bettors mid bs) else bettors mid bs)"
  by (auto simp: bettors_def)

lemma bettors_Cons: "bettors mid (b # bs) =
    (if b_market_id b = mid then insert (b_user_id b) (bettors mid bs) else bettors mid bs)"
  by (auto simp: bettors_def)

lemma bettors_map:
  "(\<And>b. b_user_id (g b) = b_user_id b \<and> b_market_id (g b) = b_market_id b) \<Longrightarrow>
   bettors mid (map g bs) = bettors mid bs"
proof (induction bs)
  case Nil
  then show ?case by (simp add: bettors_def)
qed (simp add: bettors_Cons)

lemma finite_bettors [simp]: "finite (bettors mid bs)"
  by (simp add: bettors_def)

lemma first_bet_iff: "first_bet u mid bs \<longleftrightarrow> u \<notin> bettors mid bs"
  by (auto simp: first_bet_def bettors_def)

section \<open>Recalculation keeps the books\<close>

text \<open>What recalculation does to a board whether or not its volumes can be scaled.\<close>

definition frame :: "outcome \<Rightarrow> outcome_id \<times> market_id \<times> int \<times> outcome_label \<times> str option" where
  "frame oc = (o_id oc, o_market_id oc, o_volume oc, o_label oc, o_thumbnail_url oc)"

definition repriced :: "outcome list \<Rightarrow> outcome list \<Rightarrow> bool" where
  "repriced os os' \<longleftrightarrow> map frame os' = map frame os
     \<and> (\<forall>oc\<in>set os'. price_wf (o_current_price oc)) \<and> board_ok os'"

lemma hand_out_length: "hand_out r i ss = Ok ss' \<Longrightarrow> length ss' = length ss"
proof (induction r i ss rule: hand_out.induct)
  case (1 r i ss)
  then show ?case by (simp add: hand_out.simps [of r] split: if_splits)
qed

lemma collect_results_length: "collect_results rs = Ok xs \<Longrightarrow> length xs = length rs"
  by (simp add: collect_results_Ok)

lemma shares_length: "shares os = Ok ss \<Longrightarrow> length ss = length os"
  by (auto simp: shares_def Let_def and_then_eq_Ok dest: collect_results_length split: if_splits)

lemma frame_apply_share [simp]: "frame (apply_share (oc, v)) = frame oc"
  by (auto simp: apply_share_def set_current_price_def frame_def split: result.splits)

lemma price_wf_apply_share:
  "price_wf (o_current_price oc) \<Longrightarrow> price_wf (o_current_price (apply_share (oc, v)))"
  by (auto simp: apply_share_def set_current_price_def from_ten_thousandths_def price_wf_def
      split: result.splits if_splits)

lemma volumes_ok_frame: "map frame os' = map frame os \<Longrightarrow> volumes_ok os' = volumes_ok os"
proof -
  assume eq: "map frame os' = map frame os"
  have "map o_volume xs = map (\<lambda>t. fst (snd (snd t))) (map frame xs)" for xs by (simp add: frame_def)
  then have v: "map o_volume os' = map o_volume os" using eq by metis
  have "length os' = length os" using eq by (metis length_map)
  moreover have "(\<forall>oc\<in>set xs. 0 \<le> o_volume oc) = (\<forall>w\<in>set (map o_volume xs). 0 \<le> w)" for xs
    by simp
  ultimately show ?thesis using v unfolding volumes_ok_def by metis
qed

lemma recalculate_repriced:
  assumes "recalculate_prices os = (Ok os' :: (outcome list, 'e) result)"
    and "\<forall>oc\<in>set os. price_wf (o_current_price oc)"
  shows "repriced os os'"
proof (cases "os = []")
  case True
  then show ?thesis using assms by (simp add: recalculate_prices_def repriced_def board_ok_def)
next
  case False
  then obtain ss where len: "length ss = length os" and os': "os' = map apply_share (zip os ss)"
    using assms by (auto simp: recalculate_prices_def and_then_eq_Ok
        dest!: shares_length hand_out_length)
  have fr: "map frame os' = map frame os"
    by (rule nth_equalityI) (auto simp: os' len)
  have "board_ok os'"
    unfolding board_ok_def
  proof (intro impI)
    assume "volumes_ok os'"
    then have v: "volumes_ok os" using volumes_ok_frame [OF fr] by simp
    have "(Ok os' :: (outcome list, 'e) result) = Ok (priced os)"
      using recalculate_eq [OF v False] assms(1) by metis
    then have "os' = priced os" by simp
    then show "sum_list (map (\<lambda>oc. as_ten_thousandths (o_current_price oc)) os') = price_scale"
      using priced_sum [OF v False] by simp
  qed
  moreover have "\<forall>oc\<in>set os'. price_wf (o_current_price oc)"
    using assms(2) by (auto simp: os' intro!: price_wf_apply_share dest: set_zip_leftD)
  ultimately show ?thesis using fr by (simp add: repriced_def)
qed

section \<open>Placing a bet keeps the books\<close>

definition backed :: "bet \<Rightarrow> outcome \<Rightarrow> outcome" where
  "backed bet oc = (if o_id oc = b_outcome_id bet then add_volume (b_amount bet) oc else oc)"

lemma frame_backed: "frame (backed bet oc) = (o_id oc, o_market_id oc,
    if o_id oc = b_outcome_id bet then sat_i64 (o_volume oc + b_amount bet) else o_volume oc, o_label oc, o_thumbnail_url oc)"
  by (simp add: backed_def frame_def add_volume_def)

lemma repriced_ids:
  "repriced (map (backed bet) bs) os \<Longrightarrow> map o_id os = map o_id bs"
proof -
  assume "repriced (map (backed bet) bs) os"
  then have "map fst (map frame os) = map fst (map frame (map (backed bet) bs))"
    by (simp only: repriced_def)
  then show ?thesis by (simp add: o_def frame_backed) (simp add: frame_def)
qed

lemma overlay_repriced:
  assumes d: "distinct (map o_id os)"
    and rp: "repriced (map (backed bet) (market_outcomes mid os)) os'"
  shows "market_outcomes mid (map (overlay o_id os') os) = os'"
    and "mid' \<noteq> mid \<Longrightarrow>
      market_outcomes mid' (map (overlay o_id os') os) = market_outcomes mid' os"
    and "oc \<in> set os \<Longrightarrow> frame (overlay o_id os' oc) =
      (if o_market_id oc = mid then frame (backed bet oc) else frame oc)"
    and "oc \<in> set os \<Longrightarrow> price_wf (o_current_price oc) \<Longrightarrow>
      price_wf (o_current_price (overlay o_id os' oc))"
proof -
  let ?f = "overlay o_id os'" and ?b = "market_outcomes mid os"
  have fr: "map frame os' = map frame (map (backed bet) ?b)" using rp by (simp add: repriced_def)
  have "map o_id xs = map fst (map frame xs)" for xs by (simp add: frame_def)
  moreover have "map fst (map frame (map (backed bet) ?b)) = map o_id ?b"
    by (simp add: frame_backed)
  ultimately have ids: "map o_id os' = map o_id ?b" using fr by metis
  have db: "distinct (map o_id ?b)" using d by (simp add: market_outcomes_def distinct_map_filter)
  then have aligned: "map ?f ?b = os'"
    using overlay_aligned [of o_id os' ?b] unfolding ids by blast
  then have "map frame (map ?f ?b) = map frame (map (backed bet) ?b)" using fr by simp
  then have in_b: "frame (?f oc) = frame (backed bet oc)" if "oc \<in> set ?b" for oc
    using that by (simp add: map_eq_conv)
  have out_b: "?f oc = oc" if "oc \<in> set os" "o_market_id oc \<noteq> mid" for oc
  proof (rule overlay_other)
    show "o_id oc \<notin> o_id ` set os'"
    proof
      assume "o_id oc \<in> o_id ` set os'"
      then have "o_id oc \<in> set (map o_id ?b)" using ids by (metis set_map)
      then obtain oc' where "oc' \<in> set os" "o_market_id oc' = mid" "o_id oc' = o_id oc"
        by (auto simp: market_outcomes_def)
      then show False using that d by (metis inj_on_def distinct_map)
    qed
  qed
  show fr_all: "frame (?f oc) = (if o_market_id oc = mid then frame (backed bet oc) else frame oc)"
    if "oc \<in> set os" for oc
    using that in_b out_b by (simp add: market_outcomes_def)
  then have mids: "o_market_id (?f oc) = o_market_id oc" if "oc \<in> set os" for oc
    using arg_cong [OF fr_all [OF that], of "\<lambda>t. fst (snd t)"]
    by (simp add: frame_def backed_def add_volume_def split: if_splits)
  have fil: "market_outcomes m (map ?f os) = map ?f (market_outcomes m os)" for m
    by (simp add: market_outcomes_def filter_map o_def mids cong: filter_cong)
  then show "market_outcomes mid (map ?f os) = os'" using aligned by simp
  show "market_outcomes mid' (map ?f os) = market_outcomes mid' os" if "mid' \<noteq> mid"
    using that out_b by (simp add: fil) (auto simp: market_outcomes_def intro!: map_idI)
  show "price_wf (o_current_price (?f oc))" if "oc \<in> set os" "price_wf (o_current_price oc)" for oc
    using that rp overlay_cases [of o_id os' oc] by (auto simp: repriced_def)
qed

lemma market_ok_other:
  assumes "market_ok bs os mid m" "b_market_id bet \<noteq> mid"
    and "\<And>oc. oc \<in> set os \<Longrightarrow> o_id (f oc) = o_id oc \<and> o_market_id (f oc) = o_market_id oc"
  shows "market_ok (bs @ [bet]) (map f os) mid m"
  using assms by (force simp: market_ok_def staked_append staked_single bettors_append)

lemma market_ok_stake:
  assumes ok: "market_ok bs os (b_market_id bet) m" and st: "m_status m \<noteq> Resolved"
    and bs: "\<forall>b\<in>set bs. bet_wf b" and bet: "bet_wf bet"
  shows "market_ok (bs @ [bet]) (map f os) (b_market_id bet)
    (record_stake (b_amount bet) (first_bet (b_user_id bet) (b_market_id bet) bs) m)"
proof -
  let ?mid = "b_market_id bet" and ?u = "b_user_id bet"
  have "0 \<le> staked (\<lambda>b. b_market_id b = ?mid) bs" "0 \<le> b_amount bet"
    using staked_nonneg [OF bs] bet by (auto simp: bet_wf_def)
  then have vol: "sat_i64 (sat_i64 (staked (\<lambda>b. b_market_id b = ?mid) bs) + b_amount bet)
      = sat_i64 (staked (\<lambda>b. b_market_id b = ?mid) (bs @ [bet]))"
    by (simp add: sat_i64_add staked_append staked_single)
  have "card (bettors ?mid (bs @ [bet])) =
      (if first_bet ?u ?mid bs then Suc (card (bettors ?mid bs)) else card (bettors ?mid bs))"
    by (simp add: bettors_append first_bet_iff card_insert_if)
  then have "(if first_bet ?u ?mid bs then wrap_i32 (wrap_i32 (int (card (bettors ?mid bs))) + 1)
       else wrap_i32 (int (card (bettors ?mid bs)))) = wrap_i32 (int (card (bettors ?mid (bs @ [bet]))))"
    by (simp add: wrap_i32_Suc' add.commute)
  then show ?thesis using ok st vol
    by (auto simp: market_ok_def record_stake_def Let_def)
qed

lemma outcome_ok_stake:
  assumes "outcome_ok bs oc" "\<forall>b\<in>set bs. bet_wf b" "bet_wf bet"
    and fr: "frame oc' = frame (backed bet oc)" and "price_wf (o_current_price oc')"
  shows "outcome_ok (bs @ [bet]) oc'"
proof -
  have "o_id oc' = o_id oc"
    and vol: "o_volume oc' = (if o_id oc = b_outcome_id bet
        then sat_i64 (o_volume oc + b_amount bet) else o_volume oc)"
    using fr by (auto simp: frame_backed) (auto simp: frame_def)
  moreover have "0 \<le> staked (\<lambda>b. b_outcome_id b = o_id oc) bs" "0 \<le> b_amount bet"
    using staked_nonneg assms(2,3) by (auto simp: bet_wf_def)
  ultimately show ?thesis using assms(1,5)
    by (auto simp: outcome_ok_def sat_i64_add staked_append staked_single)
qed

lemma frame_other: "o_id oc \<noteq> b_outcome_id bet \<Longrightarrow> frame (backed bet oc) = frame oc"
  by (simp add: backed_def)

lemma frame_ids: "frame oc' = frame (backed bet oc) \<or> frame oc' = frame oc \<Longrightarrow>
    o_id oc' = o_id oc \<and> o_market_id oc' = o_market_id oc"
  by (auto simp: frame_def backed_def add_volume_def split: if_splits)

text \<open>What a placement may assume: a fresh, well-formed active bet on an outcome of an
  unresolved market, and the recalculated board of that market.\<close>

definition placeable :: "ledger \<Rightarrow> bet \<Rightarrow> outcome list \<Rightarrow> bool" where
  "placeable L bet os' \<longleftrightarrow> bet_wf bet \<and> b_status bet = Active \<and> b_id bet \<notin> b_id ` set (lg_bets L)
     \<and> (\<exists>m. lg_markets L (b_market_id bet) = Some m \<and> m_status m \<noteq> Resolved)
     \<and> (\<exists>oc\<in>set (lg_outcomes L). o_id oc = b_outcome_id bet \<and> o_market_id oc = b_market_id bet)
     \<and> repriced (map (backed bet) (market_outcomes (b_market_id bet) (lg_outcomes L))) os'"

theorem ledger_place_wf:
  assumes wf: "ledger_wf L" and pl: "placeable L bet os'"
    and step: "ledger_place now bet os' L = Some L'"
  shows "ledger_wf L'"
proof -
  let ?mid = "b_market_id bet" and ?os = "lg_outcomes L" and ?bs = "lg_bets L"
  let ?f = "overlay o_id os'"
  have bet: "bet_wf bet" "b_status bet = Active" and fresh: "b_id bet \<notin> b_id ` set ?bs"
    and rp: "repriced (map (backed bet) (market_outcomes ?mid ?os)) os'"
    and has: "\<exists>oc\<in>set ?os. o_id oc = b_outcome_id bet \<and> o_market_id oc = ?mid"
    using pl by (auto simp: placeable_def)
  obtain m where m: "lg_markets L ?mid = Some m" "m_status m \<noteq> Resolved"
    using pl by (auto simp: placeable_def)
  obtain u u' where u: "lg_users L (b_user_id bet) = Some u" "debit now (b_amount bet) u = Ok u'"
    and L': "L' = L\<lparr>lg_users := (lg_users L)(b_user_id bet \<mapsto> u'),
      lg_markets := (lg_markets L)(?mid \<mapsto>
        record_stake (b_amount bet) (first_bet (b_user_id bet) ?mid ?bs) m),
      lg_outcomes := map ?f ?os, lg_bets := ?bs @ [bet]\<rparr>"
    using step m by (auto simp: ledger_place_def split: option.splits result.splits)
  have d: "distinct (map o_id ?os)" and uok: "users_ok (lg_users L)"
    and mok: "\<And>i m. lg_markets L i = Some m \<Longrightarrow> market_ok ?bs ?os i m"
    and ook: "\<And>oc. oc \<in> set ?os \<Longrightarrow> outcome_ok ?bs oc"
    and bok: "\<And>b. b \<in> set ?bs \<Longrightarrow> bet_ok (lg_users L) (lg_markets L) ?os b"
    using wf by (auto simp: ledger_wf_def)
  have bs: "\<forall>b\<in>set ?bs. bet_wf b" using bok by (auto simp: bet_ok_def)
  note ov = overlay_repriced [OF d rp]
  have ids: "o_id (?f oc) = o_id oc \<and> o_market_id (?f oc) = o_market_id oc" if "oc \<in> set ?os" for oc
    by (rule frame_ids [of _ bet]) (use ov(3) [OF that] in \<open>auto split: if_splits\<close>)
  have fr: "frame (?f oc) = frame (backed bet oc)" if oc: "oc \<in> set ?os" for oc
  proof (cases "o_id oc = b_outcome_id bet")
    case True
    obtain oc' where "oc' \<in> set ?os" "o_id oc' = b_outcome_id bet" "o_market_id oc' = ?mid"
      using has by auto
    then have "oc' = oc" using True oc d by (metis inj_on_def distinct_map)
    then show ?thesis using ov(3) [OF oc] \<open>o_market_id oc' = ?mid\<close> by simp
  next
    case False
    then show ?thesis using ov(3) [OF oc] by (simp add: frame_other split: if_splits)
  qed
  have "users_ok (lg_users L')"
    using uok u debit_wf [of u] debit_credit_fields(1) [of now "b_amount bet" u u']
    by (auto simp: users_ok_def L')
  moreover have "market_ok (lg_bets L') (lg_outcomes L') i m'" if "lg_markets L' i = Some m'" for i m'
    using that market_ok_stake [OF mok [OF m(1)] m(2) bs bet(1), of ?f]
      market_ok_other [OF mok [of i m'], of bet ?f] ids
    by (auto simp: L' split: if_splits)
  moreover have "distinct (map o_id (lg_outcomes L'))" using d by (simp add: L' o_def)
  moreover have "outcome_ok (lg_bets L') oc" if "oc \<in> set (lg_outcomes L')" for oc
    using that outcome_ok_stake [OF ook bs bet(1)] fr ov(4) ook
    by (fastforce simp: L' outcome_ok_def)
  moreover have "distinct (map b_id (lg_bets L'))" using wf fresh by (simp add: L' ledger_wf_def)
  moreover have "bet_ok (lg_users L') (lg_markets L') (lg_outcomes L') b" if "b \<in> set (lg_bets L')" for b
  proof -
    have "b_user_id b \<in> dom (lg_users L) \<and> b_market_id b \<in> dom (lg_markets L) \<and> bet_wf b
        \<and> (\<exists>oc\<in>set ?os. o_id oc = b_outcome_id b \<and> o_market_id oc = b_market_id b)"
      using that bok [of b] bet u m has by (auto simp: L' bet_ok_def)
    then show ?thesis using ids by (fastforce simp: bet_ok_def L')
  qed
  moreover have "board_ok (market_outcomes i (lg_outcomes L'))" for i
    using ov(1) ov(2) [of i] rp wf by (cases "i = ?mid") (auto simp: L' repriced_def ledger_wf_def)
  ultimately show ?thesis by (simp add: ledger_wf_def)
qed

text \<open>A stake moves from the bettor's balance into the open bets; nobody else's balance
  changes.\<close>

lemma ledger_place_money:
  assumes wf: "ledger_wf L" and "bet_wf bet" "b_status bet = Active"
    and step: "ledger_place now bet os' L = Some L'"
  shows "cash L' = cash L - b_amount bet" "open_stakes L' = open_stakes L + b_amount bet"
    and "i \<noteq> b_user_id bet \<Longrightarrow> lg_users L' i = lg_users L i"
proof -
  obtain u u' where u: "lg_users L (b_user_id bet) = Some u" "debit now (b_amount bet) u = Ok u'"
    and L': "lg_users L' = (lg_users L)(b_user_id bet \<mapsto> u')" "lg_bets L' = lg_bets L @ [bet]"
    using step by (auto simp: ledger_place_def split: option.splits result.splits)
  have "user_wf u" "finite (dom (lg_users L))" using wf u by (auto simp: ledger_wf_def users_ok_def)
  then have bal: "u_balance u' = u_balance u - b_amount bet" using u by (auto simp: debit_Ok_iff)
  let ?D = "dom (lg_users L)" and ?i = "b_user_id bet"
  have D: "?i \<in> ?D" "finite ?D" using u \<open>finite ?D\<close> by auto
  have "dom (lg_users L') = ?D" using D L' by auto
  then have "cash L' = u_balance (the (lg_users L' ?i)) + (\<Sum>i\<in>?D - {?i}. u_balance (the (lg_users L' i)))"
    using sum.remove [OF D(2,1), of "\<lambda>i. u_balance (the (lg_users L' i))"] by (simp add: cash_def)
  also have "(\<Sum>i\<in>?D - {?i}. u_balance (the (lg_users L' i)))
      = (\<Sum>i\<in>?D - {?i}. u_balance (the (lg_users L i)))"
    using L' by (intro sum.cong) auto
  also have "u_balance (the (lg_users L' ?i)) + \<dots> = cash L - b_amount bet"
    using sum.remove [OF D(2,1), of "\<lambda>i. u_balance (the (lg_users L i))"] u bal L'
    by (simp add: cash_def)
  finally show "cash L' = cash L - b_amount bet" .
  show "open_stakes L' = open_stakes L + b_amount bet"
    using assms(3) L' by (simp add: open_stakes_def staked_append staked_single)
  show "lg_users L' i = lg_users L i" if "i \<noteq> ?i" using that L' by simp
qed

section \<open>Settling a market keeps the books\<close>

definition payout_of :: "bet \<Rightarrow> int" where
  "payout_of b = sat_i64 (b_amount b * 10000) div as_ten_thousandths (b_price b)"

definition settled_as :: "outcome_id \<Rightarrow> bet \<Rightarrow> bet" where
  "settled_as w b = (if b_outcome_id b = w then b\<lparr>b_status := Won, b_payout := Some (payout_of b)\<rparr>
     else b\<lparr>b_status := Lost, b_payout := None\<rparr>)"

definition open_bets :: "market_id \<Rightarrow> ledger \<Rightarrow> bet list" where
  "open_bets mid L = filter (\<lambda>b. b_market_id b = mid \<and> b_status b = Active) (lg_bets L)"

definition credited :: "user_id \<Rightarrow> bet list \<Rightarrow> int" where
  "credited i bs = sum_list (map (\<lambda>b. case b_payout b of None \<Rightarrow> 0
     | Some p \<Rightarrow> if b_user_id b = i then p else 0) bs)"

lemma settled_as_fields [simp]:
  "b_id (settled_as w b) = b_id b" "b_user_id (settled_as w b) = b_user_id b"
  "b_market_id (settled_as w b) = b_market_id b" "b_outcome_id (settled_as w b) = b_outcome_id b"
  "b_amount (settled_as w b) = b_amount b" "b_price (settled_as w b) = b_price b"
  "b_status (settled_as w b) \<noteq> Active"
  by (simp_all add: settled_as_def)

lemma settled_as_wf: "bet_wf b \<Longrightarrow> bet_wf (settled_as w b)"
  by (auto simp: settled_as_def bet_wf_def)

lemma payout_of_pos: "bet_wf b \<Longrightarrow> 0 < payout_of b"
  unfolding payout_of_def by (rule payout_bounds(1))

definition paying :: "bet list \<Rightarrow> bool" where
  "paying bs \<longleftrightarrow> (\<forall>b\<in>set bs. \<forall>p. b_payout b = Some p \<longrightarrow> 0 < p)"

lemma credited_nonneg: "paying bs \<Longrightarrow> 0 \<le> credited i bs"
  by (induction bs) (force simp: credited_def paying_def split: option.splits)+

lemma sat_balance: "user_wf u \<Longrightarrow> sat_i64 (u_balance u) = u_balance u"
  by (simp add: user_wf_def sat_i64_def i64_min_def i64_max_def)

lemma sat_range: "0 \<le> x \<Longrightarrow> 0 \<le> sat_i64 x \<and> sat_i64 x \<le> i64_max"
  by (simp add: sat_i64_def i64_min_def i64_max_def)

lemma credit_user_ok:
  "users_ok us \<Longrightarrow> \<forall>p. b_payout b = Some p \<longrightarrow> 0 < p \<Longrightarrow> users_ok (credit_user now b us)"
  by (auto simp: users_ok_def credit_user_def user_wf_def sat_range split: option.splits)

lemma credit_all:
  assumes "users_ok us" "paying bs"
  shows "(us i = None \<longrightarrow> fold (credit_user now) bs us i = None)
    \<and> (\<forall>u. us i = Some u \<longrightarrow> (\<exists>t. fold (credit_user now) bs us i =
        Some (u\<lparr>u_balance := sat_i64 (u_balance u + credited i bs), u_updated_at := t\<rparr>)))"
  using assms
proof (induction bs arbitrary: us)
  case Nil
  have "sat_i64 (u_balance u) = u_balance u" if "us i = Some u" for u
    using Nil that by (intro sat_balance) (auto simp: users_ok_def)
  then show ?case by (auto simp: credited_def intro!: exI [of _ "u_updated_at (the (us i))"])
next
  case (Cons b bs)
  have pay: "paying bs" "\<forall>p. b_payout b = Some p \<longrightarrow> 0 < p" using Cons.prems by (auto simp: paying_def)
  let ?us = "credit_user now b us"
  have ok: "users_ok ?us" using Cons.prems(1) pay(2) by (rule credit_user_ok)
  have c: "0 \<le> credited i bs" using credited_nonneg [OF pay(1)] .
  show ?case
  proof (intro conjI impI allI)
    assume "us i = None"
    then have "?us i = None" by (auto simp: credit_user_def split: option.splits)
    then show "fold (credit_user now) (b # bs) us i = None" using Cons.IH [OF ok pay(1)] by simp
  next
    fix u assume u: "us i = Some u"
    then have b0: "0 \<le> u_balance u" using Cons.prems by (auto simp: users_ok_def user_wf_def)
    obtain t p where us: "?us i = Some (u\<lparr>u_balance := sat_i64 (u_balance u + p), u_updated_at := t\<rparr>)"
      and p: "0 \<le> p" "credited i (b # bs) = p + credited i bs"
    proof (cases "\<exists>p. b_payout b = Some p \<and> b_user_id b = i")
      case True
      then show ?thesis using that u pay by (force simp: credit_user_def credited_def)
    next
      case False
      have "sat_i64 (u_balance u) = u_balance u"
        using u Cons.prems by (intro sat_balance) (auto simp: users_ok_def)
      then show ?thesis using that [of "u_updated_at u" 0] u False
        by (auto simp: credit_user_def credited_def split: option.splits)
    qed
    let ?u = "u\<lparr>u_balance := sat_i64 (u_balance u + p), u_updated_at := t\<rparr>"
    obtain t' where "fold (credit_user now) bs ?us i =
        Some (?u\<lparr>u_balance := sat_i64 (u_balance ?u + credited i bs), u_updated_at := t'\<rparr>)"
      using Cons.IH [OF ok pay(1)] us by blast
    moreover have "sat_i64 (sat_i64 (u_balance u + p) + credited i bs)
        = sat_i64 (u_balance u + credited i (b # bs))"
      using sat_i64_add [of "u_balance u + p" "credited i bs"] p b0 c by (simp add: add.assoc)
    ultimately show "\<exists>t. fold (credit_user now) (b # bs) us i =
        Some (u\<lparr>u_balance := sat_i64 (u_balance u + credited i (b # bs)), u_updated_at := t\<rparr>)"
      by (intro exI [of _ t']) simp
  qed
qed

lemma users_ok_credit: "users_ok us \<Longrightarrow> paying bs \<Longrightarrow> users_ok (fold (credit_user now) bs us)"
proof (induction bs arbitrary: us)
  case (Cons b bs)
  have "users_ok (credit_user now b us)"
    using Cons.prems by (intro credit_user_ok) (auto simp: paying_def)
  then show ?case using Cons by (auto simp: paying_def)
qed simp

lemma dom_credit: "users_ok us \<Longrightarrow> paying bs \<Longrightarrow> dom (fold (credit_user now) bs us) = dom us"
  using credit_all [of us bs _ now] by (auto simp: dom_def) (metis option.exhaust)+

text \<open>The order in which a settlement credits its bets does not show.\<close>

lemma credit_commute:
  assumes "users_ok us" "paying [a, b]"
  shows "credit_user now a (credit_user now b us) = credit_user now b (credit_user now a us)"
proof -
  have "sat_i64 (sat_i64 (u_balance u + p) + q) = sat_i64 (sat_i64 (u_balance u + q) + p)"
    if "us i = Some u" "0 < p" "0 < q" for i u p q
  proof -
    have "0 \<le> u_balance u" using assms(1) that(1) by (auto simp: users_ok_def user_wf_def)
    then show ?thesis using that(2,3) sat_i64_add [of "u_balance u + p" q] sat_i64_add [of "u_balance u + q" p]
      by (simp add: ac_simps)
  qed
  then show ?thesis using assms(2)
    by (cases "us (b_user_id a)") (auto simp: credit_user_def paying_def fun_eq_iff split: option.splits)
qed

lemma credit_front:
  assumes "users_ok us" "paying (xs @ x # ys)"
  shows "fold (credit_user now) (xs @ x # ys) us = fold (credit_user now) (x # xs @ ys) us"
  using assms
proof (induction xs arbitrary: us)
  case (Cons b xs)
  have "users_ok (credit_user now b us)"
    using Cons.prems by (intro credit_user_ok) (auto simp: paying_def)
  then have "fold (credit_user now) ((b # xs) @ x # ys) us
      = fold (credit_user now) (xs @ ys) (credit_user now x (credit_user now b us))"
    using Cons.IH Cons.prems(2) by (simp add: paying_def)
  then show ?case using credit_commute [of us x b now] Cons.prems by (simp add: paying_def)
qed simp

lemma credit_perm:
  assumes "users_ok us" "paying bs" "mset bs = mset cs"
  shows "fold (credit_user now) bs us = fold (credit_user now) cs us"
  using assms
proof (induction bs arbitrary: cs us)
  case (Cons b bs)
  have same: "set cs = insert b (set bs)" using mset_eq_setD [OF Cons.prems(3)] by simp
  then obtain xs ys where cs: "cs = xs @ b # ys" using split_list [of b cs] by auto
  have "mset bs = mset (xs @ ys)" using Cons.prems(3) cs by simp
  moreover have "users_ok (credit_user now b us)" "paying bs"
    using Cons.prems by (auto intro!: credit_user_ok simp: paying_def)
  ultimately have "fold (credit_user now) (b # bs) us = fold (credit_user now) (b # xs @ ys) us"
    using Cons.IH [of "credit_user now b us" "xs @ ys"] by simp
  moreover have "paying (xs @ b # ys)" using Cons.prems(2) same cs by (simp add: paying_def)
  ultimately show ?case using credit_front [OF Cons.prems(1)] cs by metis
qed simp

lemma overlay_in:
  assumes "distinct (map k ps)" "p \<in> set ps" "k p = k x"
  shows "overlay k ps x = p"
proof -
  have "find (\<lambda>q. k q = k x) ps = Some p"
    using assms by (induction ps) (fastforce simp: image_iff)+
  then show ?thesis by (simp add: overlay_def)
qed

lemma overlay_perm:
  assumes "distinct (map k ps)" "mset ps = mset qs"
  shows "overlay k ps = overlay k qs"
proof
  fix x
  have set: "set ps = set qs" using assms(2) by (rule mset_eq_setD)
  have "mset (map k ps) = mset (map k qs)" using assms(2) by simp
  then have d: "distinct (map k qs)" using assms(1) mset_eq_imp_distinct_iff by blast
  show "overlay k ps x = overlay k qs x"
  proof (cases "k x \<in> k ` set ps")
    case True
    then obtain p where "p \<in> set ps" "k p = k x" by auto
    then show ?thesis using overlay_in [OF assms(1)] overlay_in [OF d] set by simp
  next
    case False
    then show ?thesis using set by (simp add: overlay_other)
  qed
qed

text \<open>The resolution a ledger may take: an unresolved market, one of its own outcomes, and the
  settlement of exactly its open bets.\<close>

definition resolvable :: "ledger \<Rightarrow> market_id \<Rightarrow> outcome_id \<Rightarrow> market \<Rightarrow> bool" where
  "resolvable L mid w m \<longleftrightarrow> lg_markets L mid = Some m \<and> m_status m \<noteq> Resolved
     \<and> (\<exists>oc\<in>set (lg_outcomes L). o_id oc = w \<and> o_market_id oc = mid)"

definition resolved_ledger :: "datetime \<Rightarrow> market_id \<Rightarrow> outcome_id \<Rightarrow> market \<Rightarrow> ledger \<Rightarrow> ledger" where
  "resolved_ledger now mid w m L =
     ledger_settle now (m\<lparr>m_status := Resolved, m_resolved_outcome_id := Some w\<rparr>)
       (map (settled_as w) (open_bets mid L)) L"

lemma paying_settled: "ledger_wf L \<Longrightarrow> paying (map (settled_as w) (open_bets mid L))"
  by (auto simp: paying_def open_bets_def settled_as_def ledger_wf_def bet_ok_def payout_of_pos
      split: if_splits)

lemma resolved_bets:
  assumes "ledger_wf L" "resolvable L mid w m"
  shows "lg_bets (resolved_ledger now mid w m L) =
    map (\<lambda>b. if b_market_id b = mid \<and> b_status b = Active then settled_as w b else b) (lg_bets L)"
proof -
  have "distinct (map b_id (lg_bets L))" using assms by (simp add: ledger_wf_def)
  then show ?thesis
    by (simp add: resolved_ledger_def ledger_settle_def open_bets_def overlay_map_filter)
qed

lemma ledger_settle_perm:
  assumes wf: "ledger_wf L" and perm: "mset bs = mset (open_bets mid L)"
  shows "ledger_settle now (m\<lparr>m_status := Resolved, m_resolved_outcome_id := Some w\<rparr>) (map (settled_as w) bs) L
    = resolved_ledger now mid w m L"
proof -
  have p: "mset (map (settled_as w) bs) = mset (map (settled_as w) (open_bets mid L))" using perm by simp
  have "distinct (map b_id (lg_bets L))" using wf by (simp add: ledger_wf_def)
  then have "distinct (map b_id (map (settled_as w) (open_bets mid L)))"
    by (simp add: open_bets_def distinct_map_filter o_def)
  note bs = overlay_perm [OF this p [symmetric]]
  have "users_ok (lg_users L)" using wf by (simp add: ledger_wf_def)
  note us = credit_perm [OF this paying_settled [OF wf] p [symmetric], of now]
  show ?thesis unfolding resolved_ledger_def ledger_settle_def us bs by (rule refl)
qed

lemma resolved_users:
  "lg_users (resolved_ledger now mid w m L) =
     fold (credit_user now) (map (settled_as w) (open_bets mid L)) (lg_users L)"
  by (simp add: resolved_ledger_def ledger_settle_def)

lemma resolved_markets:
  "resolvable L mid w m \<Longrightarrow> m_id m = mid \<Longrightarrow> lg_markets (resolved_ledger now mid w m L) =
     (lg_markets L)(mid \<mapsto> m\<lparr>m_status := Resolved, m_resolved_outcome_id := Some w\<rparr>)"
  by (auto simp: resolved_ledger_def ledger_settle_def resolvable_def)

lemma resolved_outcomes [simp]: "lg_outcomes (resolved_ledger now mid w m L) = lg_outcomes L"
  by (simp add: resolved_ledger_def ledger_settle_def)

theorem ledger_settle_wf:
  assumes wf: "ledger_wf L" and rs: "resolvable L mid w m"
  shows "ledger_wf (resolved_ledger now mid w m L)"
proof -
  let ?L = "resolved_ledger now mid w m L"
  let ?g = "\<lambda>b. if b_market_id b = mid \<and> b_status b = Active then settled_as w b else b"
  have m: "lg_markets L mid = Some m" and mok: "market_ok (lg_bets L) (lg_outcomes L) mid m"
    using wf rs by (auto simp: ledger_wf_def resolvable_def)
  then have mid: "m_id m = mid" by (simp add: market_ok_def)
  note bets = resolved_bets [OF wf rs, of now] and mkts = resolved_markets [OF rs mid, of now]
  have uok: "users_ok (lg_users L)" using wf by (simp add: ledger_wf_def)
  have st: "staked P (map ?g (lg_bets L)) = staked P (lg_bets L)"
    if "\<And>b. P (settled_as w b) = P b" for P
    using that by (intro staked_cong) auto
  have bt: "bettors i (map ?g (lg_bets L)) = bettors i (lg_bets L)" for i
    by (rule bettors_map) simp
  have "market_ok (lg_bets ?L) (lg_outcomes ?L) i m'" if "lg_markets ?L i = Some m'" for i m'
  proof (cases "i = mid")
    case True
    then have "m' = m\<lparr>m_status := Resolved, m_resolved_outcome_id := Some w\<rparr>"
      using that mkts by simp
    then show ?thesis using mok rs True
      by (auto simp: market_ok_def bets st bt resolvable_def)
  next
    case False
    then have "lg_markets L i = Some m'" using that mkts by simp
    then have "market_ok (lg_bets L) (lg_outcomes L) i m'" using wf by (simp add: ledger_wf_def)
    then show ?thesis by (auto simp: market_ok_def bets st bt)
  qed
  moreover have "outcome_ok (lg_bets ?L) oc" if "oc \<in> set (lg_outcomes ?L)" for oc
    using that wf by (simp add: outcome_ok_def bets st ledger_wf_def)
  moreover have "distinct (map b_id (lg_bets ?L))"
  proof -
    have "map b_id (lg_bets ?L) = map b_id (lg_bets L)" by (simp add: bets)
    then show ?thesis using wf by (simp add: ledger_wf_def)
  qed
  moreover have "bet_ok (lg_users ?L) (lg_markets ?L) (lg_outcomes ?L) b" if "b \<in> set (lg_bets ?L)" for b
  proof -
    have "b \<in> ?g ` set (lg_bets L)" using that unfolding bets by (simp only: set_map)
    then obtain b' where b': "b' \<in> set (lg_bets L)" "b = ?g b'" by blast
    then have "bet_ok (lg_users L) (lg_markets L) (lg_outcomes L) b'" using wf by (simp add: ledger_wf_def)
    moreover have "lg_users ?L i \<noteq> None \<longleftrightarrow> lg_users L i \<noteq> None" for i
      using dom_credit [OF uok paying_settled [OF wf]] resolved_users by (metis domIff)
    ultimately show ?thesis using b' m by (auto simp: bet_ok_def mkts settled_as_wf)
  qed
  ultimately show ?thesis
    using wf users_ok_credit [OF uok paying_settled [OF wf]]
    by (simp add: ledger_wf_def resolved_users)
qed

text \<open>Settlement pays each user exactly the payouts of their winning open bets on the market.\<close>

lemma credited_settled:
  "credited i (map (settled_as w) bs) =
     sum_list (map payout_of (filter (\<lambda>b. b_user_id b = i \<and> b_outcome_id b = w) bs))"
  by (induction bs) (auto simp: credited_def settled_as_def)

lemma ledger_settle_pays:
  assumes wf: "ledger_wf L" and u: "lg_users L i = Some u"
  shows "\<exists>t. lg_users (resolved_ledger now mid w m L) i = Some (u\<lparr>u_balance :=
      sat_i64 (u_balance u + sum_list (map payout_of
        (filter (\<lambda>b. b_user_id b = i \<and> b_outcome_id b = w) (open_bets mid L)))), u_updated_at := t\<rparr>)"
  using credit_all [OF _ paying_settled [OF wf], of "lg_users L" i now w mid] u wf
  by (simp add: resolved_users credited_settled ledger_wf_def)

lemma ledger_settle_stakes:
  assumes wf: "ledger_wf L" and rs: "resolvable L mid w m"
  shows "open_stakes (resolved_ledger now mid w m L) =
    open_stakes L - sum_list (map b_amount (open_bets mid L))"
proof -
  have "staked (\<lambda>b. b_status b = Active)
      (map (\<lambda>b. if b_market_id b = mid \<and> b_status b = Active then settled_as w b else b) bs)
    = staked (\<lambda>b. b_status b = Active) bs
      - sum_list (map b_amount (filter (\<lambda>b. b_market_id b = mid \<and> b_status b = Active) bs))" for bs
    by (induction bs) (auto simp: staked_def)
  then show ?thesis by (simp add: open_stakes_def resolved_bets [OF wf rs] open_bets_def)
qed

end
