(* ===== verification/MemUsers.thy ===== *)
theory MemUsers
  imports Ports
begin

text \<open>
  The in-memory stores (\<open>infrastructure/src/persistence/in_memory\<close>): the state they share, the
  user and refresh-token repositories, and the unit of work over them.  A \<open>HashMap\<close> is an
  association list with distinct keys; the locks of the stores make each operation atomic.
\<close>

section \<open>The shared state\<close>

record reaction =
  r_message_id :: message_id
  r_user_id :: user_id
  r_emoji :: reaction_emoji

record store =
  users :: "(user_id \<times> user) list"
  refresh_tokens :: "(uuid \<times> refresh_token) list"
  markets :: "market list"
  outcomes :: "outcome list"
  price_points :: "price_point list"
  bets :: "bet list"
  messages :: "chat_message list"
  reactions :: "reaction list"

text \<open>The world around the stores: what the event handlers write (the message broker and its
  subscribers), of a type of its own.  A handler reads the stores and changes only that part.\<close>

record 'z world = store +
  outer :: 'z

type_synonym 'z bus = "event \<Rightarrow> store \<Rightarrow> 'z \<Rightarrow> 'z"

text \<open>\<open>events: Option<Arc<InMemoryEventBus>>\<close>: dispatching runs the bus when one is attached.\<close>

definition dispatch :: "'z bus option \<Rightarrow> event \<Rightarrow> ('z world, unit, repo_error) cmd" where
  "dispatch events e = (case events of
     None \<Rightarrow> ret ()
   | Some bus \<Rightarrow> writes (\<lambda>s. s\<lparr>outer := bus e (store.truncate s) (outer s)\<rparr>))"

section \<open>Users\<close>

definition mem_user_save :: "user \<Rightarrow> ('z world, unit, repo_error) cmd" where
  "mem_user_save u = writes (\<lambda>s. s\<lparr>users := AList.update (u_id u) u (users s)\<rparr>)"

definition mem_user_find_by_id :: "user_id \<Rightarrow> ('z world, user option, repo_error) cmd" where
  "mem_user_find_by_id i = reads (\<lambda>s. map_of (users s) i)"

definition mem_user_find_by_email :: "email \<Rightarrow> ('z world, user option, repo_error) cmd" where
  "mem_user_find_by_email e = reads (\<lambda>s. find (\<lambda>u. u_email u = e) (map snd (users s)))"

definition mem_user_find_by_username :: "username \<Rightarrow> ('z world, user option, repo_error) cmd" where
  "mem_user_find_by_username n = reads (\<lambda>s. find (\<lambda>u. u_username u = n) (map snd (users s)))"

definition mem_user_list :: "('z world, user list, repo_error) cmd" where
  "mem_user_list = reads (\<lambda>s. sort_key u_created_at (map snd (users s)))"

definition mem_user_repo :: "'z world user_repo" where
  "mem_user_repo = \<lparr>ur_save = mem_user_save, ur_find_by_id = mem_user_find_by_id,
     ur_find_by_email = mem_user_find_by_email, ur_find_by_username = mem_user_find_by_username,
     ur_list = mem_user_list\<rparr>"

section \<open>Refresh tokens\<close>

definition mem_token_save :: "refresh_token \<Rightarrow> ('z world, unit, repo_error) cmd" where
  "mem_token_save t = writes (\<lambda>s. s\<lparr>refresh_tokens := AList.update (t_id t) t (refresh_tokens s)\<rparr>)"

definition mem_token_find_by_hash :: "str \<Rightarrow> ('z world, refresh_token option, repo_error) cmd" where
  "mem_token_find_by_hash h =
     reads (\<lambda>s. find (\<lambda>t. t_token_hash t = h) (map snd (refresh_tokens s)))"

definition mem_token_delete :: "uuid \<Rightarrow> ('z world, bool, repo_error) cmd" where
  "mem_token_delete i s = (Ok (map_of (refresh_tokens s) i \<noteq> None),
     s\<lparr>refresh_tokens := AList.delete i (refresh_tokens s)\<rparr>)"

definition mem_token_delete_all_for_user :: "user_id \<Rightarrow> ('z world, unit, repo_error) cmd" where
  "mem_token_delete_all_for_user u =
     writes (\<lambda>s. s\<lparr>refresh_tokens := filter (\<lambda>(_, t). t_user_id t \<noteq> u) (refresh_tokens s)\<rparr>)"

definition mem_token_repo :: "'z world token_repo" where
  "mem_token_repo = \<lparr>tr_save = mem_token_save, tr_find_by_token_hash = mem_token_find_by_hash,
     tr_delete = mem_token_delete, tr_delete_all_for_user = mem_token_delete_all_for_user\<rparr>"

text \<open>The in-memory unit of work: writes apply immediately, dropping a scope undoes nothing.\<close>

definition mem_scope :: "'z world tx_scope" where
  "mem_scope = \<lparr>tx_users = mem_user_repo, tx_refresh_tokens = mem_token_repo,
     tx_commit = ret (), tx_drop = (\<lambda>s. s)\<rparr>"

definition mem_unit_of_work :: "'z world unit_of_work" where
  "mem_unit_of_work = ret mem_scope"

named_theorems mem_simps \<open>the in-memory operations unfolded\<close>

declare mem_user_save_def [mem_simps] mem_user_find_by_id_def [mem_simps]
  mem_user_find_by_email_def [mem_simps] mem_user_find_by_username_def [mem_simps]
  mem_user_list_def [mem_simps] mem_user_repo_def [mem_simps] mem_token_save_def [mem_simps]
  mem_token_find_by_hash_def [mem_simps] mem_token_delete_def [mem_simps]
  mem_token_delete_all_for_user_def [mem_simps] mem_token_repo_def [mem_simps]
  mem_scope_def [mem_simps] mem_unit_of_work_def [mem_simps]

section \<open>The stores keep the contracts\<close>

text \<open>A user map holds each user once, under its own id.\<close>

definition user_map_wf :: "(user_id \<times> user) list \<Rightarrow> bool" where
  "user_map_wf us \<longleftrightarrow> distinct (map fst us) \<and> (\<forall>(i, u)\<in>set us. u_id u = i)"

definition users_wf :: "'z world \<Rightarrow> bool" where
  "users_wf s \<longleftrightarrow> user_map_wf (users s)"

definition tokens_wf :: "'z world \<Rightarrow> bool" where
  "tokens_wf s \<longleftrightarrow> distinct (map fst (refresh_tokens s))
     \<and> (\<forall>(i, t)\<in>set (refresh_tokens s). t_id t = i)"

definition lookup_user :: "'z world \<Rightarrow> user_id \<Rightarrow> user option" where
  "lookup_user s = map_of (users s)"

definition lookup_token :: "'z world \<Rightarrow> uuid \<Rightarrow> refresh_token option" where
  "lookup_token s = map_of (refresh_tokens s)"

lemma keyed_update:
  "distinct (map fst xs) \<and> (\<forall>(i, v)\<in>set xs. k v = i) \<Longrightarrow>
   distinct (map fst (AList.update (k v) v xs)) \<and> (\<forall>(i, v)\<in>set (AList.update (k v) v xs). k v = i)"
proof (induction xs)
  case (Cons x xs)
  then show ?case using update_keys [of "k v" v xs] by (cases x) (force split: if_splits)
qed simp

lemma keyed_delete:
  "distinct (map fst xs) \<and> (\<forall>(i, v)\<in>set xs. k v = i) \<Longrightarrow>
   distinct (map fst (AList.delete a xs)) \<and> (\<forall>(i, v)\<in>set (AList.delete a xs). k v = i)"
  by (auto simp: distinct_delete AList.delete_eq [of a] distinct_map_filter)

lemma map_of_filter_snd:
  "distinct (map fst xs) \<Longrightarrow> map_of (filter (\<lambda>(_, v). P v) xs) i =
     (case map_of xs i of None \<Rightarrow> None | Some v \<Rightarrow> if P v then Some v else None)"
proof (induction xs)
  case (Cons x xs)
  then show ?case by (cases x) (force split: option.splits dest: map_of_SomeD)
qed simp

lemma keyed_find:
  assumes "distinct (map fst xs) \<and> (\<forall>(i, v)\<in>set xs. k v = i)"
  shows "case find P (map snd xs) of
      Some v \<Rightarrow> map_of xs (k v) = Some v \<and> P v
    | None \<Rightarrow> (\<forall>i v. map_of xs i = Some v \<longrightarrow> \<not> P v)"
proof (cases "find P (map snd xs)")
  case None
  then have "\<forall>x\<in>set xs. \<not> P (snd x)" by (auto simp: find_None_iff)
  then show ?thesis using None by (auto dest!: map_of_SomeD)
next
  case (Some v)
  then obtain i where "(i, v) \<in> set xs" "P v" by (auto dest!: find_SomeD)
  then show ?thesis using assms Some by auto
qed

lemma user_map_wf_update: "user_map_wf us \<Longrightarrow> user_map_wf (AList.update (u_id u) u us)"
  unfolding user_map_wf_def by (rule keyed_update)

interpretation mem_users: user_repository mem_user_repo lookup_user users_wf
proof
  fix s s' :: "'z world" and u
  assume "users_wf s" "ur_save mem_user_repo u s = (Ok (), s')"
  then show "users_wf s' \<and> lookup_user s' = (lookup_user s)(u_id u \<mapsto> u)"
    by (auto simp: users_wf_def lookup_user_def mem_simps cmd_simps user_map_wf_update update_conv')
next
  fix s s' :: "'z world" and i r
  assume "users_wf s" "ur_find_by_id mem_user_repo i s = (Ok r, s')"
  then show "users_wf s' \<and> lookup_user s' = lookup_user s \<and> r = lookup_user s i"
    by (auto simp: lookup_user_def mem_simps cmd_simps)
next
  fix s s' :: "'z world" and e r
  assume wf: "users_wf s" and f: "ur_find_by_email mem_user_repo e s = (Ok r, s')"
  show "users_wf s' \<and> lookup_user s' = lookup_user s
      \<and> (case r of Some u \<Rightarrow> lookup_user s (u_id u) = Some u \<and> u_email u = e
         | None \<Rightarrow> (\<forall>i u. lookup_user s i = Some u \<longrightarrow> u_email u \<noteq> e))"
    using wf f keyed_find [of "users s" u_id "\<lambda>u. u_email u = e"]
    by (auto simp: users_wf_def user_map_wf_def lookup_user_def mem_simps cmd_simps
        split: option.splits)
next
  fix s s' :: "'z world" and n r
  assume wf: "users_wf s" and f: "ur_find_by_username mem_user_repo n s = (Ok r, s')"
  show "users_wf s' \<and> lookup_user s' = lookup_user s
      \<and> (case r of Some u \<Rightarrow> lookup_user s (u_id u) = Some u \<and> u_username u = n
         | None \<Rightarrow> (\<forall>i u. lookup_user s i = Some u \<longrightarrow> u_username u \<noteq> n))"
    using wf f keyed_find [of "users s" u_id "\<lambda>u. u_username u = n"]
    by (auto simp: users_wf_def user_map_wf_def lookup_user_def mem_simps cmd_simps
        split: option.splits)
qed

interpretation mem_tokens: token_repository mem_token_repo lookup_token tokens_wf
proof
  fix s s' :: "'z world" and t
  assume "tokens_wf s" "tr_save mem_token_repo t s = (Ok (), s')"
  then show "tokens_wf s' \<and> lookup_token s' = (lookup_token s)(t_id t \<mapsto> t)"
    using keyed_update [of "refresh_tokens s" t_id t]
    by (auto simp: tokens_wf_def lookup_token_def mem_simps cmd_simps update_conv')
next
  fix s s' :: "'z world" and h r
  assume wf: "tokens_wf s" and f: "tr_find_by_token_hash mem_token_repo h s = (Ok r, s')"
  show "tokens_wf s' \<and> lookup_token s' = lookup_token s
      \<and> (case r of Some t \<Rightarrow> lookup_token s (t_id t) = Some t \<and> t_token_hash t = h
         | None \<Rightarrow> (\<forall>i t. lookup_token s i = Some t \<longrightarrow> t_token_hash t \<noteq> h))"
    using wf f keyed_find [of "refresh_tokens s" t_id "\<lambda>t. t_token_hash t = h"]
    by (auto simp: tokens_wf_def lookup_token_def mem_simps cmd_simps split: option.splits)
next
  fix s s' :: "'z world" and i b
  assume "tokens_wf s" "tr_delete mem_token_repo i s = (Ok b, s')"
  then show "tokens_wf s' \<and> lookup_token s' = (lookup_token s)(i := None)
      \<and> (b \<longleftrightarrow> lookup_token s i \<noteq> None)"
    using keyed_delete [of "refresh_tokens s" t_id i]
    by (auto simp: tokens_wf_def lookup_token_def mem_simps cmd_simps delete_conv')
next
  fix s s' :: "'z world" and u
  assume "tokens_wf s" "tr_delete_all_for_user mem_token_repo u s = (Ok (), s')"
  then show "tokens_wf s' \<and> lookup_token s' = (\<lambda>i. case lookup_token s i of None \<Rightarrow> None
        | Some t \<Rightarrow> if t_user_id t = u then None else Some t)"
    by (auto simp: tokens_wf_def lookup_token_def mem_simps cmd_simps distinct_map_filter
        map_of_filter_snd intro!: ext split: option.splits)
qed

end
