(* ===== verification/MemMarkets.thy ===== *)
theory MemMarkets
  imports MemUsers Ledger
begin

text \<open>
  The in-memory market repository
  (\<open>infrastructure/src/persistence/in_memory/market_repository.rs\<close>): markets, outcomes and price
  points in vectors, filtered, sorted and paged in the program.  The Unicode case tables of the
  title search are the argument \<open>lc\<close>.
\<close>

section \<open>Operations\<close>

definition popularity :: "market \<Rightarrow> int" where
  "popularity m = wrap_i64 (m_total_volume m + m_participants_count m)"

definition apply_bet :: "market_id \<Rightarrow> int \<Rightarrow> bool \<Rightarrow> outcome list \<Rightarrow> price_point list
    \<Rightarrow> 'z world \<Rightarrow> 'z world" where
  "apply_bet mid amount new_participant priced_outcomes points s =
     (let s = s\<lparr>markets := update_first (\<lambda>m. m_id m = mid) (record_stake amount new_participant)
          (markets s)\<rparr>;
        s = s\<lparr>outcomes := fold (replace_by o_id) priced_outcomes (outcomes s)\<rparr>
      in s\<lparr>price_points := price_points s @ points\<rparr>)"

definition mem_market_create :: "datetime \<Rightarrow> market \<Rightarrow> outcome list \<Rightarrow> ('z world, unit, repo_error) cmd" where
  "mem_market_create now m os = seq_cmd (writes (\<lambda>s. s\<lparr>markets := markets s @ [m]\<rparr>))
     (for_each (\<lambda>oc. writes (\<lambda>s. s\<lparr>outcomes := outcomes s @ [oc],
        price_points := price_points s @ [price_point_new now (o_id oc) (o_current_price oc)]\<rparr>)) os)"

definition mem_market_find_by_id :: "market_id \<Rightarrow> ('z world, market option, repo_error) cmd" where
  "mem_market_find_by_id mid = reads (\<lambda>s. find (\<lambda>m. m_id m = mid) (markets s))"

definition mem_market_find_by_ids :: "market_id list \<Rightarrow> ('z world, market list, repo_error) cmd" where
  "mem_market_find_by_ids ids = reads (\<lambda>s. filter (\<lambda>m. m_id m \<in> set ids) (markets s))"

definition mem_outcomes_for :: "market_id \<Rightarrow> ('z world, outcome list, repo_error) cmd" where
  "mem_outcomes_for mid = reads (\<lambda>s. filter (\<lambda>oc. o_market_id oc = mid) (outcomes s))"

definition mem_outcome_by_id :: "outcome_id \<Rightarrow> ('z world, outcome option, repo_error) cmd" where
  "mem_outcome_by_id i = reads (\<lambda>s. find (\<lambda>oc. o_id oc = i) (outcomes s))"

definition mem_outcomes_for_markets :: "market_id list \<Rightarrow> ('z world, outcome list, repo_error) cmd" where
  "mem_outcomes_for_markets ids = reads (\<lambda>s. filter (\<lambda>oc. o_market_id oc \<in> set ids) (outcomes s))"

text \<open>The filter, order and page of a listing.\<close>

definition market_matches :: "case_table \<Rightarrow> market_filter \<Rightarrow> market \<Rightarrow> bool" where
  "market_matches lc f m \<longleftrightarrow>
     (case mf_status f of None \<Rightarrow> True | Some status \<Rightarrow> m_status m = status)
     \<and> (case mf_category f of None \<Rightarrow> True | Some c \<Rightarrow> m_category m = Some c)
     \<and> (case mf_search f of None \<Rightarrow> True
        | Some q \<Rightarrow> contains_str (to_lowercase lc (title_as_str (m_title m))) (to_lowercase lc q))"

text \<open>\<open>sort_by_key(Reverse(k))\<close> is the stable sort by \<open>-k\<close>; closing dates sort before none.\<close>

definition closing_key :: "market \<Rightarrow> int \<times> int" where
  "closing_key m = (case m_closes_at m of Some t \<Rightarrow> (0, t) | None \<Rightarrow> (1, 0))"

fun sort_markets :: "market_sort \<Rightarrow> market list \<Rightarrow> market list" where
  "sort_markets Popular ms = sort_key (\<lambda>m. - popularity m) ms"
| "sort_markets Newest ms = sort_key (\<lambda>m. - m_created_at m) ms"
| "sort_markets Volume ms = sort_key (\<lambda>m. - m_total_volume m) ms"
| "sort_markets ClosingSoon ms = sort_key closing_key ms"

definition page :: "int \<Rightarrow> int \<Rightarrow> 'a list \<Rightarrow> 'a list" where
  "page offset limit xs = take (nat (max limit 0)) (drop (nat (max offset 0)) xs)"

definition mem_market_list :: "case_table \<Rightarrow> market_filter \<Rightarrow> ('z world, market list, repo_error) cmd" where
  "mem_market_list lc f = reads (\<lambda>s.
     page (mf_offset f) (mf_limit f) (sort_markets (mf_sort f) (filter (market_matches lc f) (markets s))))"

text \<open>\<open>max_by_key\<close>: the last of the maximal elements.\<close>

fun max_by_key :: "('a \<Rightarrow> int) \<Rightarrow> 'a list \<Rightarrow> 'a option" where
  "max_by_key k [] = None"
| "max_by_key k (x # xs) = (case max_by_key k xs of None \<Rightarrow> Some x
     | Some y \<Rightarrow> if k x > k y then Some x else Some y)"

definition mem_market_featured :: "('z world, market option, repo_error) cmd" where
  "mem_market_featured =
     reads (\<lambda>s. max_by_key popularity (filter (\<lambda>m. m_status m = Open) (markets s)))"

definition mem_market_resolve :: "market \<Rightarrow> ('z world, unit, repo_error) cmd" where
  "mem_market_resolve m =
     writes (\<lambda>s. s\<lparr>markets := replace_by m_id m (markets s)\<rparr>)"

definition mem_update_thumbnail :: "market \<Rightarrow> ('z world, unit, repo_error) cmd" where
  "mem_update_thumbnail m = writes (\<lambda>s. s\<lparr>markets := update_first (\<lambda>x. m_id x = m_id m)
     (\<lambda>x. x\<lparr>m_thumbnail_url := m_thumbnail_url m\<rparr>) (markets s)\<rparr>)"

definition mem_update_outcome_thumbnail :: "outcome \<Rightarrow> ('z world, unit, repo_error) cmd" where
  "mem_update_outcome_thumbnail oc = writes (\<lambda>s. s\<lparr>outcomes := update_first (\<lambda>x. o_id x = o_id oc)
     (\<lambda>x. x\<lparr>o_thumbnail_url := o_thumbnail_url oc\<rparr>) (outcomes s)\<rparr>)"

definition mem_price_history :: "market_id \<Rightarrow> price_history_query
    \<Rightarrow> ('z world, price_point list, repo_error) cmd" where
  "mem_price_history mid q = reads (\<lambda>s.
     let ids = map o_id (filter (\<lambda>oc. o_market_id oc = mid) (outcomes s));
       points = filter (\<lambda>p. pp_outcome_id p \<in> set ids
         \<and> (case phq_from q of None \<Rightarrow> True | Some from \<Rightarrow> from \<le> pp_recorded_at p)
         \<and> (case phq_to q of None \<Rightarrow> True | Some to \<Rightarrow> pp_recorded_at p \<le> to)) (price_points s)
     in sort_key pp_recorded_at points)"

definition mem_market_repo :: "case_table \<Rightarrow> 'z world market_repo" where
  "mem_market_repo lc = \<lparr>mr_create = mem_market_create, mr_find_by_id = mem_market_find_by_id,
     mr_find_by_ids = mem_market_find_by_ids, mr_outcomes_for = mem_outcomes_for,
     mr_outcome_by_id = mem_outcome_by_id, mr_outcomes_for_markets = mem_outcomes_for_markets,
     mr_list = mem_market_list lc, mr_featured = mem_market_featured,
     mr_resolve = mem_market_resolve, mr_update_thumbnail = mem_update_thumbnail,
     mr_update_outcome_thumbnail = mem_update_outcome_thumbnail,
     mr_price_history = mem_price_history\<rparr>"

declare mem_market_create_def [mem_simps] mem_market_find_by_id_def [mem_simps]
  mem_market_find_by_ids_def [mem_simps] mem_outcomes_for_def [mem_simps]
  mem_outcome_by_id_def [mem_simps] mem_outcomes_for_markets_def [mem_simps]
  mem_market_list_def [mem_simps] mem_market_featured_def [mem_simps]
  mem_market_resolve_def [mem_simps] mem_update_thumbnail_def [mem_simps]
  mem_update_outcome_thumbnail_def [mem_simps] mem_price_history_def [mem_simps]
  mem_market_repo_def [mem_simps]

section \<open>Stored vectors\<close>

definition lookup_market :: "'z world \<Rightarrow> market_id \<Rightarrow> market option" where
  "lookup_market s mid = find (\<lambda>m. m_id m = mid) (markets s)"

definition outcomes_of :: "market_id \<Rightarrow> 'z world \<Rightarrow> outcome list" where
  "outcomes_of mid s = filter (\<lambda>oc. o_market_id oc = mid) (outcomes s)"

end
