(* ===== verification/MemBets.thy ===== *)
theory MemBets
  imports MemMarkets
begin

text \<open>
  The in-memory bet repository (\<open>infrastructure/src/persistence/in_memory/bet_repository.rs\<close>):
  placing a bet debits the bettor, stores the bet and moves the market's numbers; settling
  records the resolution and credits the winners.  Events go through the attached bus in the
  order the code dispatches them.
\<close>

section \<open>Placing and settling\<close>

definition debit_error :: "domain_error \<Rightarrow> repo_error" where
  "debit_error _ = Conflict (msg ''balance no longer covers the stake'')"

definition mem_place :: "'z bus option \<Rightarrow> datetime \<Rightarrow> bet \<Rightarrow> outcome list \<Rightarrow> price_point list
    \<Rightarrow> ('z world, unit, repo_error) cmd" where
  "mem_place events now bet priced_outcomes points =
     bind_cmd (mem_user_find_by_id (b_user_id bet)) (\<lambda>found.
     bind_cmd (lift (ok_or found (Storage
       [Lit ''bettor '', UuidF (user_uuid (b_user_id bet)), Lit '' not found'']))) (\<lambda>user.
     bind_cmd (lift (map_err debit_error (debit now (b_amount bet) user))) (\<lambda>user.
     seq_cmd (mem_user_save user) (
     bind_cmd (reads (\<lambda>s. \<not> list_ex (\<lambda>b. b_user_id b = b_user_id bet \<and> b_market_id b = b_market_id bet)
       (bets s))) (\<lambda>new_participant.
     seq_cmd (writes (\<lambda>s. s\<lparr>bets := bets s @ [bet]\<rparr>)) (
     seq_cmd (writes (apply_bet (b_market_id bet) (b_amount bet) new_participant priced_outcomes points)) (
     seq_cmd (dispatch events (UserBalanceChanged (b_user_id bet))) (
     seq_cmd (dispatch events (BetPlaced (b_id bet))) (
     dispatch events (MarketPricesUpdated (b_market_id bet)))))))))))"

definition mem_active_for_market :: "market_id \<Rightarrow> ('z world, bet list, repo_error) cmd" where
  "mem_active_for_market mid =
     reads (\<lambda>s. filter (\<lambda>b. b_market_id b = mid \<and> b_status b = Active) (bets s))"

definition credit_error :: "domain_error \<Rightarrow> repo_error" where
  "credit_error e = Storage (Lit ''payout failed: '' # show_domain_error e)"

definition settle_one :: "datetime \<Rightarrow> bet \<Rightarrow> ('z world, unit, repo_error) cmd" where
  "settle_one now bet =
     seq_cmd (writes (\<lambda>s. s\<lparr>bets := replace_by b_id bet (bets s)\<rparr>))
     (case b_payout bet of
        None \<Rightarrow> ret ()
      | Some payout \<Rightarrow>
          bind_cmd (mem_user_find_by_id (b_user_id bet)) (\<lambda>found.
          bind_cmd (lift (ok_or found (Storage
            [Lit ''winner '', UuidF (user_uuid (b_user_id bet)), Lit '' not found'']))) (\<lambda>user.
          bind_cmd (lift (map_err credit_error (credit now payout user))) (\<lambda>user.
          mem_user_save user))))"

definition paid_users :: "bet list \<Rightarrow> user_id list" where
  "paid_users settled = remdups (map b_user_id (filter (\<lambda>b. b_payout b \<noteq> None) settled))"

definition mem_settle :: "'z bus option \<Rightarrow> datetime \<Rightarrow> market \<Rightarrow> bet list
    \<Rightarrow> ('z world, unit, repo_error) cmd" where
  "mem_settle events now m settled =
     seq_cmd (mem_market_resolve m)
     (seq_cmd (for_each (settle_one now) settled)
       (for_each (\<lambda>u. dispatch events (UserBalanceChanged u)) (paid_users settled)))"

section \<open>Queries\<close>

definition mem_bet_find_by_id :: "bet_id \<Rightarrow> ('z world, bet option, repo_error) cmd" where
  "mem_bet_find_by_id i = reads (\<lambda>s. find (\<lambda>b. b_id b = i) (bets s))"

fun sort_bets :: "bet_sort \<Rightarrow> bet list \<Rightarrow> bet list" where
  "sort_bets BetNewest bs = sort_key (\<lambda>b. - b_created_at b) bs"
| "sort_bets BetPopular bs = sort_key (\<lambda>b. (- b_amount b, - b_created_at b)) bs"

definition mem_bets_filtered :: "(bet \<Rightarrow> bool) \<Rightarrow> bet_filter \<Rightarrow> ('z world, bet list, repo_error) cmd" where
  "mem_bets_filtered keep f = reads (\<lambda>s. page (bf_offset f) (bf_limit f) (sort_bets (bf_sort f)
     (filter (\<lambda>b. status_matches (bf_status f) (b_status b)) (filter keep (bets s)))))"

definition mem_find_by_user :: "user_id \<Rightarrow> bet_filter \<Rightarrow> ('z world, bet list, repo_error) cmd" where
  "mem_find_by_user u f = mem_bets_filtered (\<lambda>b. b_user_id b = u) f"

definition mem_find_by_market :: "market_id \<Rightarrow> bet_filter \<Rightarrow> ('z world, bet list, repo_error) cmd" where
  "mem_find_by_market mid f = mem_bets_filtered (\<lambda>b. b_market_id b = mid) f"

definition mem_feed :: "bet_filter \<Rightarrow> ('z world, bet list, repo_error) cmd" where
  "mem_feed f = mem_bets_filtered (\<lambda>_. True) f"

definition count_bet :: "bet \<Rightarrow> user_stats \<Rightarrow> user_stats" where
  "count_bet b st =
     (let st = st\<lparr>us_total_bets := wrap_i64 (us_total_bets st + 1),
         us_total_volume := wrap_i64 (us_total_volume st + b_amount b)\<rparr> in
      case b_status b of
        Won \<Rightarrow> st\<lparr>us_wins := wrap_i64 (us_wins st + 1)\<rparr>
      | Lost \<Rightarrow> st\<lparr>us_losses := wrap_i64 (us_losses st + 1)\<rparr>
      | Active \<Rightarrow> st | Refunded \<Rightarrow> st)"

definition empty_stats :: user_stats where
  "empty_stats = \<lparr>us_total_bets = 0, us_wins = 0, us_losses = 0, us_total_volume = 0\<rparr>"

definition mem_stats_for_user :: "user_id \<Rightarrow> ('z world, user_stats, repo_error) cmd" where
  "mem_stats_for_user u = reads (\<lambda>s. fold count_bet (filter (\<lambda>b. b_user_id b = u) (bets s)) empty_stats)"

text \<open>The stake-weighted average over the active bets of a (user, outcome) pair, accumulated
  in 128 bits.\<close>

definition weigh :: "bet \<Rightarrow> int \<times> int \<Rightarrow> int \<times> int" where
  "weigh b acc = (wrap_i128 (fst acc + wrap_i128 (b_amount b * as_ten_thousandths (b_price b))),
     wrap_i128 (snd acc + b_amount b))"

definition position_bets :: "user_id \<Rightarrow> outcome_id \<Rightarrow> bet list \<Rightarrow> bet list" where
  "position_bets u oc bs = filter (\<lambda>b. b_user_id b = u \<and> b_outcome_id b = oc \<and> b_status b = Active) bs"

definition price_error :: "domain_error \<Rightarrow> repo_error" where
  "price_error e = Storage (Lit ''corrupt average price: '' # show_domain_error e)"

definition position_average :: "int \<times> int \<Rightarrow> (price, repo_error) result" where
  "position_average ws = and_then (div_i128 (fst ws) (snd ws))
     (\<lambda>q. map_err price_error (from_ten_thousandths (wrap_i32 q)))"

fun positions :: "bet list \<Rightarrow> (user_id \<times> outcome_id) list \<Rightarrow> (active_position list, repo_error) result" where
  "positions bs [] = Ok []"
| "positions bs ((u, oc) # pairs) =
     (let ws = fold weigh (position_bets u oc bs) (0, 0) in
      if snd ws = 0 then positions bs pairs
      else and_then (position_average ws) (\<lambda>avg.
        and_then (positions bs pairs) (\<lambda>ps.
        Ok (\<lparr>ap_user_id = u, ap_outcome_id = oc, ap_avg_price = avg\<rparr> # ps))))"

definition mem_active_positions :: "(user_id \<times> outcome_id) list
    \<Rightarrow> ('z world, active_position list, repo_error) cmd" where
  "mem_active_positions pairs s = (positions (bets s) pairs, s)"

definition mem_bet_repo :: "'z bus option \<Rightarrow> 'z world bet_repo" where
  "mem_bet_repo events = \<lparr>br_place = mem_place events, br_active_for_market = mem_active_for_market,
     br_settle = mem_settle events, br_find_by_id = mem_bet_find_by_id,
     br_find_by_user = mem_find_by_user, br_find_by_market = mem_find_by_market,
     br_feed = mem_feed, br_stats_for_user = mem_stats_for_user,
     br_active_positions = mem_active_positions\<rparr>"

declare mem_active_for_market_def [mem_simps] mem_bet_find_by_id_def [mem_simps]
  mem_find_by_user_def [mem_simps] mem_find_by_market_def [mem_simps] mem_feed_def [mem_simps]
  mem_bets_filtered_def [mem_simps] mem_stats_for_user_def [mem_simps]
  mem_active_positions_def [mem_simps] mem_bet_repo_def [mem_simps]

section \<open>The average price of a position\<close>

definition weighted :: "bet list \<Rightarrow> int" where
  "weighted bs = sum_list (map (\<lambda>b. b_amount b * as_ten_thousandths (b_price b)) bs)"

definition total_stake :: "bet list \<Rightarrow> int" where
  "total_stake bs = sum_list (map b_amount bs)"

text \<open>A stake is below \<open>2^63\<close> and a price at most \<open>10^4\<close>, so \<open>2^49\<close> bets fit the accumulator.\<close>

lemma weigh_step:
  assumes b: "bet_wf b" and acc: "0 \<le> w" "w \<le> k * 2 ^ 77" "0 \<le> st" "st \<le> k * 2 ^ 63"
    and k: "k + 1 \<le> 2 ^ 49"
  shows "weigh b (w, st) = (w + b_amount b * as_ten_thousandths (b_price b), st + b_amount b)"
    and "w + b_amount b * as_ten_thousandths (b_price b) \<le> (k + 1) * 2 ^ 77"
    and "st + b_amount b \<le> (k + 1) * 2 ^ 63"
proof -
  let ?a = "b_amount b" and ?p = "as_ten_thousandths (b_price b)"
  have a: "0 < ?a" "?a \<le> 2 ^ 63" and p: "0 < ?p" "?p \<le> 2 ^ 14"
    using b by (auto simp: bet_wf_def price_wf_def price_scale_def i64_max_def)
  have "?a * ?p \<le> 2 ^ 63 * 2 ^ 14" using a p by (intro mult_mono) auto
  then have ap: "0 \<le> ?a * ?p" "?a * ?p \<le> 2 ^ 77" using a p by auto
  show le: "w + ?a * ?p \<le> (k + 1) * 2 ^ 77" "st + ?a \<le> (k + 1) * 2 ^ 63"
    using acc ap a by auto
  have "(k + 1) * 2 ^ 77 \<le> 2 ^ 49 * (2 ^ 77 :: int)" "(k + 1) * 2 ^ 63 \<le> 2 ^ 49 * (2 ^ 63 :: int)"
    using k by auto
  then show "weigh b (w, st) = (w + ?a * ?p, st + ?a)"
    using le acc ap a by (simp add: weigh_def wrap_i128_id)
qed

lemma fold_weigh:
  "\<forall>b\<in>set bs. bet_wf b \<Longrightarrow> 0 \<le> w \<Longrightarrow> w \<le> k * 2 ^ 77 \<Longrightarrow> 0 \<le> st \<Longrightarrow> st \<le> k * 2 ^ 63 \<Longrightarrow>
   k + int (length bs) \<le> 2 ^ 49 \<Longrightarrow>
   fold weigh bs (w, st) = (w + weighted bs, st + total_stake bs)"
proof (induction bs arbitrary: w st k)
  case (Cons b bs)
  let ?w = "w + b_amount b * as_ten_thousandths (b_price b)" and ?st = "st + b_amount b"
  note step = weigh_step [of b w k st]
  have ge: "0 \<le> ?w" "0 \<le> ?st"
    using Cons.prems by (auto simp: bet_wf_def price_wf_def)
  have "fold weigh (b # bs) (w, st) = fold weigh bs (?w, ?st)"
    using step(1) Cons.prems by simp
  also have "\<dots> = (?w + weighted bs, ?st + total_stake bs)"
    using Cons.prems ge step(2,3) by (intro Cons.IH [of ?w "k + 1" ?st]) auto
  finally show ?case by (simp add: weighted_def total_stake_def add.assoc)
qed (simp add: weighted_def total_stake_def)

lemma weighted_bounds:
  "\<forall>b\<in>set bs. bet_wf b \<Longrightarrow> total_stake bs \<le> weighted bs \<and> weighted bs \<le> 10000 * total_stake bs"
proof (induction bs)
  case (Cons b bs)
  have "0 < b_amount b" "1 \<le> as_ten_thousandths (b_price b)" "as_ten_thousandths (b_price b) \<le> 10000"
    using Cons.prems by (auto simp: bet_wf_def price_wf_def price_scale_def)
  then have "b_amount b * 1 \<le> b_amount b * as_ten_thousandths (b_price b)"
      "b_amount b * as_ten_thousandths (b_price b) \<le> b_amount b * 10000"
    by (auto intro!: mult_left_mono)
  then show ?case using Cons by (simp add: weighted_def total_stake_def algebra_simps)
qed (simp add: weighted_def total_stake_def)

lemma total_stake_pos: "\<forall>b\<in>set bs. bet_wf b \<Longrightarrow> bs \<noteq> [] \<Longrightarrow> 0 < total_stake bs"
proof (induction bs)
  case (Cons b bs)
  then show ?case by (cases "bs = []") (auto simp: total_stake_def bet_wf_def)
qed simp

definition average_price :: "bet list \<Rightarrow> price" where
  "average_price bs = Price (weighted bs div total_stake bs)"

lemma average_price_bounds:
  assumes "\<forall>b\<in>set bs. bet_wf b" "bs \<noteq> []"
  shows "1 \<le> weighted bs div total_stake bs" "weighted bs div total_stake bs \<le> 10000"
proof -
  note pos = total_stake_pos [OF assms] and wb = weighted_bounds [OF assms(1)]
  have "total_stake bs div total_stake bs \<le> weighted bs div total_stake bs"
    using pos wb by (intro zdiv_mono1) auto
  then show "1 \<le> weighted bs div total_stake bs" using pos by simp
  have "weighted bs div total_stake bs \<le> (10000 * total_stake bs) div total_stake bs"
    using pos wb by (intro zdiv_mono1) auto
  then show "weighted bs div total_stake bs \<le> 10000" using pos by simp
qed

lemma position_average_eq:
  assumes wf: "\<forall>b\<in>set bs. bet_wf b" and len: "int (length bs) \<le> 2 ^ 49" and ne: "bs \<noteq> []"
  shows "position_average (fold weigh bs (0, 0)) = Ok (average_price bs)"
    and "snd (fold weigh bs (0, 0)) = total_stake bs"
proof -
  have eq: "fold weigh bs (0, 0) = (weighted bs, total_stake bs)"
    using fold_weigh [OF wf, of 0 0 0] len by simp
  then show "snd (fold weigh bs (0, 0)) = total_stake bs" by simp
  note pos = total_stake_pos [OF wf ne] and wb = weighted_bounds [OF wf]
  have "0 \<le> weighted bs" using pos wb by simp
  then show "position_average (fold weigh bs (0, 0)) = Ok (average_price bs)"
    using average_price_bounds [OF wf ne] pos
    by (simp add: eq position_average_def div_i128_nonneg wrap_i32_id in_i32_def
        from_ten_thousandths_def price_scale_def average_price_def)
qed

lemma positions_eq:
  assumes wf: "\<forall>b\<in>set bs. bet_wf b" and len: "int (length bs) \<le> 2 ^ 49"
  shows "positions bs pairs = Ok (map (\<lambda>(u, oc). \<lparr>ap_user_id = u, ap_outcome_id = oc,
      ap_avg_price = average_price (position_bets u oc bs)\<rparr>)
    (filter (\<lambda>(u, oc). position_bets u oc bs \<noteq> []) pairs))"
proof (induction pairs)
  case (Cons p pairs)
  obtain u oc where p: "p = (u, oc)" by fastforce
  let ?bs = "position_bets u oc bs"
  have wf': "\<forall>b\<in>set ?bs. bet_wf b" using wf by (auto simp: position_bets_def)
  have "length ?bs \<le> length bs" by (simp add: position_bets_def)
  then have len': "int (length ?bs) \<le> 2 ^ 49" using len by linarith
  show ?case
  proof (cases "?bs = []")
    case True
    then show ?thesis using Cons p by simp
  next
    case False
    then show ?thesis
      using Cons p position_average_eq [OF wf' len' False] total_stake_pos [OF wf' False]
      by (simp add: Let_def)
  qed
qed simp

section \<open>Properties of the bet queries\<close>

text \<open>A listed position is exact: over well-formed bets (at most \<open>2^49\<close> of them) the query
  never fails, answers precisely the pairs that hold an active bet, and each average is the
  floored stake-weighted mean of the prices of those bets, between one tick and one.\<close>

theorem active_positions_exact:
  assumes "\<forall>b\<in>set (bets s). bet_wf b" "int (length (bets s)) \<le> 2 ^ 49"
  shows "\<exists>ps. mem_active_positions pairs s = (Ok ps, s)
    \<and> map (\<lambda>p. (ap_user_id p, ap_outcome_id p)) ps
      = filter (\<lambda>(u, oc). \<exists>b\<in>set (bets s). b_user_id b = u \<and> b_outcome_id b = oc \<and> b_status b = Active) pairs
    \<and> (\<forall>p\<in>set ps. let bs = position_bets (ap_user_id p) (ap_outcome_id p) (bets s) in
        as_ten_thousandths (ap_avg_price p)
          = sum_list (map (\<lambda>b. b_amount b * as_ten_thousandths (b_price b)) bs) div sum_list (map b_amount bs)
        \<and> 1 \<le> as_ten_thousandths (ap_avg_price p) \<and> as_ten_thousandths (ap_avg_price p) \<le> 10000)"
proof -
  have held: "position_bets u oc (bets s) \<noteq> [] \<longleftrightarrow>
      (\<exists>b\<in>set (bets s). b_user_id b = u \<and> b_outcome_id b = oc \<and> b_status b = Active)" for u oc
    by (auto simp: position_bets_def filter_empty_conv)
  have "\<forall>b\<in>set (position_bets u oc (bets s)). bet_wf b" for u oc
    using assms(1) by (auto simp: position_bets_def)
  note av = average_price_bounds [OF this]
  show ?thesis
    unfolding mem_active_positions_def positions_eq [OF assms]
    by (rule exI, rule conjI [OF refl])
      (use av in \<open>auto simp: held o_def split_def Let_def average_price_def weighted_def total_stake_def
        intro!: map_idI\<close>)
qed

lemma active_positions_exact_witness:
  "\<exists>ps. mem_active_positions [(UserId 1, OutcomeId 1)] (\<lparr>users = [], refresh_tokens = [], markets = [],
      outcomes = [], price_points = [], bets = [\<lparr>b_id = BetId 1, b_user_id = UserId 1,
        b_market_id = MarketId 1, b_outcome_id = OutcomeId 1, b_amount = 100, b_price = Price 2500,
        b_status = Active, b_payout = None, b_created_at = 0\<rparr>], messages = [], reactions = [],
      outer = ()\<rparr> :: unit world) = (Ok ps, \<lparr>users = [], refresh_tokens = [], markets = [],
      outcomes = [], price_points = [], bets = [\<lparr>b_id = BetId 1, b_user_id = UserId 1,
        b_market_id = MarketId 1, b_outcome_id = OutcomeId 1, b_amount = 100, b_price = Price 2500,
        b_status = Active, b_payout = None, b_created_at = 0\<rparr>], messages = [], reactions = [],
      outer = ()\<rparr>) \<and> length ps = 1"
proof -
  let ?s = "\<lparr>users = [], refresh_tokens = [], markets = [],
      outcomes = [], price_points = [], bets = [\<lparr>b_id = BetId 1, b_user_id = UserId 1,
        b_market_id = MarketId 1, b_outcome_id = OutcomeId 1, b_amount = 100, b_price = Price 2500,
        b_status = Active, b_payout = None, b_created_at = 0\<rparr>], messages = [], reactions = [],
      outer = ()\<rparr> :: unit world"
  have "\<forall>b\<in>set (bets ?s). bet_wf b" "int (length (bets ?s)) \<le> 2 ^ 49"
    by (simp_all add: bet_wf_def price_wf_def price_scale_def i64_max_def)
  from active_positions_exact [OF this, of "[(UserId 1, OutcomeId 1)]"]
  show ?thesis by (force dest: arg_cong [of _ _ length])
qed

end
