(* ===== verification/UseBets.thy ===== *)
theory UseBets
  imports Ports
begin

text \<open>
  The bet use cases (\<open>application/src/use_cases/bet\<close>) over any implementation of the ports:
  placing a bet and the enriched listings.  \<open>clock i\<close> is the \<open>i\<close>-th clock read of an execution
  and \<open>fresh\<close> the identifier it draws.
\<close>

type_synonym clock = "nat \<Rightarrow> datetime"

record bet_view =
  bv_bet :: bet
  bv_username :: str
  bv_market_title :: str
  bv_outcome_label :: str
  bv_avg_price :: price

definition view_for :: "bet \<Rightarrow> market \<Rightarrow> outcome \<Rightarrow> str \<Rightarrow> price \<Rightarrow> bet_view" where
  "view_for b m oc name avg = \<lparr>bv_bet = b, bv_username = name,
     bv_market_title = title_as_str (m_title m), bv_outcome_label = label_as_str (o_label oc),
     bv_avg_price = avg\<rparr>"

record new_bet =
  nb_outcome_id :: outcome_id
  nb_amount :: int

section \<open>Placing a bet\<close>

definition not_found :: "string \<Rightarrow> uuid \<Rightarrow> app_error" where
  "not_found what i = NotFound [Lit what, UuidF i]"

definition rule_violation :: "string \<Rightarrow> app_error" where
  "rule_violation s = Domain (RuleViolation (msg s))"

definition stake_points :: "clock \<Rightarrow> outcome list \<Rightarrow> price_point list" where
  "stake_points clock os =
     map (\<lambda>(i, oc). price_point_new (clock (i + 2)) (o_id oc) (o_current_price oc)) (enumerate 0 os)"

text \<open>The part after the reads: price the bet, move the volumes, record it, read back.\<close>

definition commit_bet :: "'s bet_repo \<Rightarrow> clock \<Rightarrow> uuid \<Rightarrow> actor \<Rightarrow> new_bet \<Rightarrow> market \<Rightarrow> outcome list
    \<Rightarrow> nat \<Rightarrow> user \<Rightarrow> ('s, bet_view, app_error) cmd" where
  "commit_bet brepo clock fresh actor input m os chosen user =
     bind_cmd (lift (map_err Domain (bet_place fresh (clock 1) (actor_user_id actor) (m_id m)
       (nb_outcome_id input) (nb_amount input) (max (o_current_price (os ! chosen)) min_tick)))) (\<lambda>bet.
     bind_cmd (lift (recalculate_prices (os[chosen := add_volume (b_amount bet) (os ! chosen)]))) (\<lambda>os.
     seq_cmd (conv app_of_repo (br_place brepo (clock (length os + 2)) bet os (stake_points clock os)))
     (bind_cmd (conv app_of_repo (br_active_positions brepo [(actor_user_id actor, nb_outcome_id input)]))
       (\<lambda>positions.
     ret (view_for bet m (os ! chosen) (username_as_str (u_username user))
       (case positions of [] \<Rightarrow> b_price bet | p # _ \<Rightarrow> ap_avg_price p))))))"

definition place_bet :: "'s market_repo \<Rightarrow> 's bet_repo \<Rightarrow> 's user_repo \<Rightarrow> clock \<Rightarrow> uuid \<Rightarrow> actor
    \<Rightarrow> new_bet \<Rightarrow> ('s, bet_view, app_error) cmd" where
  "place_bet mrepo brepo urepo clock fresh actor input =
     bind_cmd (conv app_of_repo (mr_outcome_by_id mrepo (nb_outcome_id input))) (\<lambda>found.
     bind_cmd (lift (ok_or found (not_found ''outcome '' (outcome_uuid (nb_outcome_id input))))) (\<lambda>oc.
     bind_cmd (conv app_of_repo (mr_find_by_id mrepo (o_market_id oc))) (\<lambda>found.
     bind_cmd (lift (ok_or found (not_found ''market '' (market_uuid (o_market_id oc))))) (\<lambda>m.
     if \<not> accepts_bets (clock 0) m then fail (rule_violation ''market is not accepting bets'')
     else
     bind_cmd (conv app_of_repo (mr_outcomes_for mrepo (m_id m))) (\<lambda>os.
     bind_cmd (lift (ok_or (position (\<lambda>x. o_id x = nb_outcome_id input) os) (Domain (RuleViolation
       [Lit ''outcome '', UuidF (outcome_uuid (nb_outcome_id input)),
        Lit '' does not belong to market '', UuidF (market_uuid (m_id m))])))) (\<lambda>chosen.
     bind_cmd (conv app_of_repo (ur_find_by_id urepo (actor_user_id actor))) (\<lambda>found.
     bind_cmd (lift (ok_or found (not_found ''user '' (user_uuid (actor_user_id actor))))) (\<lambda>user.
     if u_balance user < nb_amount input then fail (rule_violation ''insufficient balance'')
     else commit_bet brepo clock fresh actor input m os chosen user))))))))"

section \<open>Enriched listings\<close>

definition broken_link :: "message \<Rightarrow> app_error" where
  "broken_link what = Internal (Lit ''bet references missing '' # what)"

text \<open>The username cache of \<open>enrich\<close>: one lookup per distinct bettor.\<close>

fun resolve_usernames :: "'s user_repo \<Rightarrow> user_id list \<Rightarrow> (user_id \<times> str) list
    \<Rightarrow> ('s, (user_id \<times> str) list, app_error) cmd" where
  "resolve_usernames urepo [] cache = ret cache"
| "resolve_usernames urepo (i # is) cache =
     (if map_of cache i \<noteq> None then resolve_usernames urepo is cache
      else bind_cmd (conv app_of_repo (ur_find_by_id urepo i)) (\<lambda>found.
        bind_cmd (lift (ok_or found (broken_link [Lit ''user '', UuidF (user_uuid i)]))) (\<lambda>user.
        resolve_usernames urepo is (AList.update i (username_as_str (u_username user)) cache))))"

definition bet_row :: "(market_id \<times> market) list \<Rightarrow> (outcome_id \<times> str) list
    \<Rightarrow> ((user_id \<times> outcome_id) \<times> price) list \<Rightarrow> (user_id \<times> str) list \<Rightarrow> bet
    \<Rightarrow> (bet_view, app_error) result" where
  "bet_row markets_by_id labels_by_id avg_prices usernames b =
     and_then (ok_or (map_of markets_by_id (b_market_id b))
       (broken_link [Lit ''market '', UuidF (market_uuid (b_market_id b))])) (\<lambda>m.
     and_then (ok_or (map_of labels_by_id (b_outcome_id b))
       (broken_link [Lit ''outcome '', UuidF (outcome_uuid (b_outcome_id b))])) (\<lambda>label.
     case map_of usernames (b_user_id b) of
       None \<Rightarrow> Panic
     | Some name \<Rightarrow> Ok \<lparr>bv_bet = b, bv_username = name, bv_market_title = title_as_str (m_title m),
         bv_outcome_label = label,
         bv_avg_price = (case map_of avg_prices (b_user_id b, b_outcome_id b) of
           None \<Rightarrow> b_price b | Some p \<Rightarrow> p)\<rparr>))"

definition enrich :: "bet list \<Rightarrow> 's bet_repo \<Rightarrow> 's market_repo \<Rightarrow> 's user_repo
    \<Rightarrow> ('s, bet_view list, app_error) cmd" where
  "enrich bs brepo mrepo urepo =
     (let market_ids = remdups (map b_market_id bs);
          position_keys = remdups (map (\<lambda>b. (b_user_id b, b_outcome_id b)) bs) in
     bind_cmd (conv app_of_repo (mr_find_by_ids mrepo market_ids)) (\<lambda>ms.
     bind_cmd (conv app_of_repo (mr_outcomes_for_markets mrepo market_ids)) (\<lambda>os.
     bind_cmd (conv app_of_repo (br_active_positions brepo position_keys)) (\<lambda>ps.
     bind_cmd (resolve_usernames urepo (map b_user_id bs) []) (\<lambda>usernames.
     lift (collect_results (map (bet_row
       (collect_map (map (\<lambda>m. (m_id m, m)) ms))
       (collect_map (map (\<lambda>oc. (o_id oc, label_as_str (o_label oc))) os))
       (collect_map (map (\<lambda>p. ((ap_user_id p, ap_outcome_id p), ap_avg_price p)) ps))
       usernames) bs)))))))"

definition list_bet_feed :: "'s bet_repo \<Rightarrow> 's market_repo \<Rightarrow> 's user_repo \<Rightarrow> bet_filter
    \<Rightarrow> ('s, bet_view list, app_error) cmd" where
  "list_bet_feed brepo mrepo urepo f =
     bind_cmd (conv app_of_repo (br_feed brepo f)) (\<lambda>bs. enrich bs brepo mrepo urepo)"

definition list_market_bets :: "'s bet_repo \<Rightarrow> 's market_repo \<Rightarrow> 's user_repo \<Rightarrow> market_id \<Rightarrow> bet_filter
    \<Rightarrow> ('s, bet_view list, app_error) cmd" where
  "list_market_bets brepo mrepo urepo mid f =
     bind_cmd (conv app_of_repo (mr_find_by_id mrepo mid)) (\<lambda>found.
     if found = None then fail (not_found ''market '' (market_uuid mid))
     else bind_cmd (conv app_of_repo (br_find_by_market brepo mid f))
       (\<lambda>bs. enrich bs brepo mrepo urepo))"

definition list_user_bets :: "'s bet_repo \<Rightarrow> 's market_repo \<Rightarrow> 's user_repo \<Rightarrow> user_id \<Rightarrow> bet_filter
    \<Rightarrow> ('s, bet_view list, app_error) cmd" where
  "list_user_bets brepo mrepo urepo u f =
     bind_cmd (conv app_of_repo (ur_find_by_id urepo u)) (\<lambda>found.
     if found = None then fail (not_found ''user '' (user_uuid u))
     else bind_cmd (conv app_of_repo (br_find_by_user brepo u f))
       (\<lambda>bs. enrich bs brepo mrepo urepo))"

end
