(* ===== verification/UseMarkets.thy ===== *)
theory UseMarkets
  imports UseBets
begin

text \<open>
  The market use cases (\<open>application/src/use_cases/market\<close>) over any implementation of the ports:
  creating, resolving, reading and listing markets and their price history.
\<close>

record market_view =
  mv_market :: market
  mv_outcomes :: "outcome list"

record new_market =
  nm_title :: str
  nm_description :: "str option"
  nm_category :: "str option"
  nm_closes_at :: "datetime option"
  nm_outcomes :: "str list"

definition admin_required :: app_error where
  "admin_required = Forbidden (msg ''admin role required'')"

text \<open>The outcomes of a new market; \<open>ids i\<close> is the identifier drawn for the \<open>i\<close>-th one.\<close>

definition new_outcomes :: "(nat \<Rightarrow> uuid) \<Rightarrow> market_id \<Rightarrow> str list \<Rightarrow> (outcome list, domain_error) result" where
  "new_outcomes ids mid labels = collect_results (map (\<lambda>(i, label).
     and_then (label_new label) (\<lambda>l. Ok (outcome_new (ids i) mid l price_zero))) (enumerate 0 labels))"

definition create_market :: "'s market_repo \<Rightarrow> clock \<Rightarrow> uuid \<Rightarrow> (nat \<Rightarrow> uuid) \<Rightarrow> actor \<Rightarrow> new_market
    \<Rightarrow> ('s, market_view, app_error) cmd" where
  "create_market mrepo clock fresh ids actor input =
     (if \<not> can_manage_markets (actor_role actor) then fail admin_required
      else if length (nm_outcomes input) < 2
      then fail (Domain (Validation (msg ''a market needs at least two outcomes'')))
      else
      bind_cmd (lift (map_err Domain (title_new (nm_title input)))) (\<lambda>title.
      let m = market_new fresh (clock 0) title (nm_description input) (nm_category input)
        (nm_closes_at input) in
      bind_cmd (lift (map_err Domain (new_outcomes ids (m_id m) (nm_outcomes input)))) (\<lambda>os.
      bind_cmd (lift (recalculate_prices os)) (\<lambda>os.
      seq_cmd (conv app_of_repo (mr_create mrepo (clock 1) m os))
        (ret \<lparr>mv_market = m, mv_outcomes = os\<rparr>)))))"

text \<open>The settlement loop of \<open>ResolveMarket\<close>.\<close>

definition settle_bet :: "outcome_id \<Rightarrow> bet \<Rightarrow> (bet, domain_error) result" where
  "settle_bet winning b =
     (if b_outcome_id b = winning then and_then (settle_as_winner b) (\<lambda>(_, b'). Ok b')
      else settle_as_loser b)"

definition resolve_market :: "'s market_repo \<Rightarrow> 's bet_repo \<Rightarrow> clock \<Rightarrow> actor \<Rightarrow> market_id \<Rightarrow> outcome_id
    \<Rightarrow> ('s, market_view, app_error) cmd" where
  "resolve_market mrepo brepo clock actor mid winning =
     (if \<not> can_manage_markets (actor_role actor) then fail admin_required
      else
      bind_cmd (conv app_of_repo (mr_find_by_id mrepo mid)) (\<lambda>found.
      bind_cmd (lift (ok_or found (not_found ''market '' (market_uuid mid)))) (\<lambda>m.
      bind_cmd (conv app_of_repo (mr_outcomes_for mrepo mid)) (\<lambda>os.
      if \<not> list_ex (\<lambda>oc. o_id oc = winning) os
      then fail (Domain (RuleViolation [Lit ''outcome '', UuidF (outcome_uuid winning),
        Lit '' does not belong to market '', UuidF (market_uuid mid)]))
      else
      bind_cmd (lift (map_err Domain (market_resolve winning m))) (\<lambda>m.
      bind_cmd (conv app_of_repo (br_active_for_market brepo mid)) (\<lambda>open_bets.
      bind_cmd (lift (map_err Domain (collect_results (map (settle_bet winning) open_bets)))) (\<lambda>settled.
      seq_cmd (conv app_of_repo (br_settle brepo (clock 0) m settled))
        (ret \<lparr>mv_market = m, mv_outcomes = os\<rparr>))))))))"

definition get_market :: "'s market_repo \<Rightarrow> market_id \<Rightarrow> ('s, market_view, app_error) cmd" where
  "get_market mrepo mid =
     bind_cmd (conv app_of_repo (mr_find_by_id mrepo mid)) (\<lambda>found.
     bind_cmd (lift (ok_or found (not_found ''market '' (market_uuid mid)))) (\<lambda>m.
     bind_cmd (conv app_of_repo (mr_outcomes_for mrepo mid)) (\<lambda>os.
     ret \<lparr>mv_market = m, mv_outcomes = os\<rparr>)))"

definition get_featured_market :: "'s market_repo \<Rightarrow> ('s, market_view, app_error) cmd" where
  "get_featured_market mrepo =
     bind_cmd (conv app_of_repo (mr_featured mrepo)) (\<lambda>found.
     bind_cmd (lift (ok_or found (NotFound (msg ''featured market'')))) (\<lambda>m.
     bind_cmd (conv app_of_repo (mr_outcomes_for mrepo (m_id m))) (\<lambda>os.
     ret \<lparr>mv_market = m, mv_outcomes = os\<rparr>)))"

definition get_price_history :: "'s market_repo \<Rightarrow> market_id \<Rightarrow> price_history_query
    \<Rightarrow> ('s, price_point list, app_error) cmd" where
  "get_price_history mrepo mid q =
     bind_cmd (conv app_of_repo (mr_find_by_id mrepo mid)) (\<lambda>found.
     if found = None then fail (not_found ''market '' (market_uuid mid))
     else conv app_of_repo (mr_price_history mrepo mid q))"

text \<open>The grouping loop of \<open>ListMarkets\<close> and the map over the markets, which takes each
  group out of the map as it uses it.\<close>

definition push_group :: "outcome \<Rightarrow> (market_id \<times> outcome list) list \<Rightarrow> (market_id \<times> outcome list) list" where
  "push_group oc groups = AList.update (o_market_id oc)
     ((case map_of groups (o_market_id oc) of None \<Rightarrow> [] | Some os \<Rightarrow> os) @ [oc]) groups"

definition group_by_market :: "outcome list \<Rightarrow> (market_id \<times> outcome list) list" where
  "group_by_market os = fold push_group os []"

fun attach_outcomes :: "market list \<Rightarrow> (market_id \<times> outcome list) list \<Rightarrow> market_view list" where
  "attach_outcomes [] groups = []"
| "attach_outcomes (m # ms) groups =
     \<lparr>mv_market = m, mv_outcomes = (case map_of groups (m_id m) of None \<Rightarrow> [] | Some os \<Rightarrow> os)\<rparr>
     # attach_outcomes ms (AList.delete (m_id m) groups)"

definition list_markets :: "'s market_repo \<Rightarrow> market_filter \<Rightarrow> ('s, market_view list, app_error) cmd" where
  "list_markets mrepo f =
     bind_cmd (conv app_of_repo (mr_list mrepo f)) (\<lambda>ms.
     if ms = [] then ret []
     else bind_cmd (conv app_of_repo (mr_outcomes_for_markets mrepo (map m_id ms))) (\<lambda>os.
       ret (attach_outcomes ms (group_by_market os))))"

end
