(* ===== verification/BetLedger.thy ===== *)
theory BetLedger
  imports UseMarkets Ledger
begin

text \<open>
  The contract between the betting use cases and the repositories that keep the ledger, as a
  locale, and what the use cases guarantee over any such repositories: placing a bet is one
  ledger placement or none, resolving a market is one settlement or none, and the books stay
  well-formed.
\<close>

locale bet_ledger =
  fixes mrepo :: "'s market_repo" and brepo :: "'s bet_repo" and urepo :: "'s user_repo"
    and view :: "'s \<Rightarrow> ledger" and inv :: "'s \<Rightarrow> bool"
  assumes outcome_by_id: "\<And>i. answers inv view (mr_outcome_by_id mrepo i)
      (\<lambda>L r. r = find (\<lambda>oc. o_id oc = i) (lg_outcomes L))"
    and market_by_id: "\<And>i. answers inv view (mr_find_by_id mrepo i) (\<lambda>L r. r = lg_markets L i)"
    and outcomes_for: "\<And>i. answers inv view (mr_outcomes_for mrepo i)
      (\<lambda>L r. r = market_outcomes i (lg_outcomes L))"
    and user_by_id: "\<And>i. answers inv view (ur_find_by_id urepo i) (\<lambda>L r. r = lg_users L i)"
    and active_for_market: "\<And>i. answers inv view (br_active_for_market brepo i)
      (\<lambda>L r. mset r = mset (open_bets i L))"
    and active_positions: "\<And>ps. answers inv view (br_active_positions brepo ps) (\<lambda>L r. True)"
    and place: "\<And>s now bet os points. inv s \<Longrightarrow> ledger_wf (view s) \<Longrightarrow> placeable (view s) bet os \<Longrightarrow>
      wp (br_place brepo now bet os points) (\<lambda>r t. inv t
        \<and> (if is_ok r then ledger_place now bet os (view s) = Some (view t) else view t = view s)) s"
    and settle: "\<And>s now mid w m bs. inv s \<Longrightarrow> ledger_wf (view s) \<Longrightarrow> resolvable (view s) mid w m \<Longrightarrow>
      mset bs = mset (open_bets mid (view s)) \<Longrightarrow>
      wp (br_settle brepo now (m\<lparr>m_status := Resolved, m_resolved_outcome_id := Some w\<rparr>)
        (map (settled_as w) bs)) (\<lambda>r t. inv t \<and> (if is_ok r
          then view t = ledger_settle now (m\<lparr>m_status := Resolved, m_resolved_outcome_id := Some w\<rparr>)
            (map (settled_as w) bs) (view s)
          else view t = view s)) s"

section \<open>The bet of an execution\<close>

text \<open>The bet \<open>PlaceBet\<close> builds from the outcome's price on the board.\<close>

definition the_bet :: "clock \<Rightarrow> uuid \<Rightarrow> actor \<Rightarrow> new_bet \<Rightarrow> market \<Rightarrow> outcome \<Rightarrow> bet" where
  "the_bet clock fresh actor input m oc = \<lparr>b_id = BetId fresh, b_user_id = actor_user_id actor,
     b_market_id = m_id m, b_outcome_id = nb_outcome_id input, b_amount = nb_amount input,
     b_price = max (o_current_price oc) min_tick, b_status = Active, b_payout = None,
     b_created_at = clock 1\<rparr>"

lemma max_min_tick:
  "price_wf p \<Longrightarrow> price_wf (max p min_tick) \<and> 0 < as_ten_thousandths (max p min_tick)"
  by (cases p) (auto simp: max_def less_eq_price_def min_tick_def price_wf_def price_scale_def)

lemma backed_update:
  assumes "distinct (map o_id os)" "i < length os" "o_id (os ! i) = b_outcome_id bet"
  shows "os[i := add_volume (b_amount bet) (os ! i)] = map (backed bet) os"
proof (rule nth_equalityI)
  fix j assume "j < length (os[i := add_volume (b_amount bet) (os ! i)])"
  then have j: "j < length os" by simp
  have "o_id (os ! j) = b_outcome_id bet \<longleftrightarrow> j = i"
    using assms j nth_eq_iff_index_eq [OF assms(1), of j i] by auto
  then show "os[i := add_volume (b_amount bet) (os ! i)] ! j = map (backed bet) os ! j"
    using j assms(3) by (auto simp: backed_def nth_list_update)
qed simp

text \<open>What placing asks of the ledger: an open market before its deadline, an outcome of that
  market, and a positive stake the user's balance covers.\<close>

definition accepted :: "ledger \<Rightarrow> clock \<Rightarrow> actor \<Rightarrow> new_bet \<Rightarrow> market \<Rightarrow> outcome \<Rightarrow> user \<Rightarrow> bool" where
  "accepted L clock actor input m oc u \<longleftrightarrow>
     oc \<in> set (lg_outcomes L) \<and> o_id oc = nb_outcome_id input
     \<and> lg_markets L (o_market_id oc) = Some m \<and> accepts_bets (clock 0) m
     \<and> lg_users L (actor_user_id actor) = Some u \<and> 0 < nb_amount input \<and> nb_amount input \<le> u_balance u"

lemma accepted_placeable:
  assumes wf: "ledger_wf L" and ac: "accepted L clock actor input m oc u"
    and fresh: "BetId fresh \<notin> b_id ` set (lg_bets L)"
    and rp: "repriced (map (backed (the_bet clock fresh actor input m oc))
      (market_outcomes (m_id m) (lg_outcomes L))) os'"
  shows "placeable L (the_bet clock fresh actor input m oc) os'"
proof -
  have m: "m_id m = o_market_id oc" "m_status m \<noteq> Resolved" "lg_markets L (o_market_id oc) = Some m"
    using wf ac by (auto simp: ledger_wf_def market_ok_def accepted_def accepts_bets_def)
  have "price_wf (o_current_price oc)" using wf ac by (auto simp: ledger_wf_def outcome_ok_def accepted_def)
  moreover have "nb_amount input \<le> i64_max"
    using wf ac by (force simp: ledger_wf_def users_ok_def user_wf_def accepted_def)
  ultimately have "bet_wf (the_bet clock fresh actor input m oc)"
    using max_min_tick ac by (auto simp: bet_wf_def the_bet_def accepted_def)
  then show ?thesis using m ac fresh rp
    by (auto simp: placeable_def the_bet_def accepted_def)
qed

text \<open>One accepted bet was recorded, at the price on the board.\<close>

definition placed_once :: "clock \<Rightarrow> uuid \<Rightarrow> actor \<Rightarrow> new_bet \<Rightarrow> ledger \<Rightarrow> ledger \<Rightarrow> bet \<Rightarrow> bool" where
  "placed_once clock fresh actor input L L' b \<longleftrightarrow> (\<exists>m oc u os'.
     accepted L clock actor input m oc u \<and> b = the_bet clock fresh actor input m oc
     \<and> recalculate_prices (map (backed b) (market_outcomes (m_id m) (lg_outcomes L)))
       = (Ok os' :: (outcome list, app_error) result)
     \<and> placeable L b os'
     \<and> ledger_place (clock (length os' + 2)) b os' L = Some L')"

lemma settle_open:
  assumes wf: "ledger_wf L" and bs: "set bs \<subseteq> set (open_bets mid L)"
  shows "collect_results (map (settle_bet w) bs) = Ok (map (settled_as w) bs)"
proof -
  have "settle_bet w b = Ok (settled_as w b)" if "b \<in> set bs" for b
  proof -
    have "bet_wf b" "b_status b = Active"
      using that wf bs by (auto simp: open_bets_def ledger_wf_def bet_ok_def)
    then show ?thesis
      by (simp add: settle_bet_def settled_as_def settle_as_winner_eq settle_as_loser_eq payout_of_def Let_def)
  qed
  then show ?thesis by (simp add: collect_results_Ok)
qed

section \<open>The use cases over any ledger repositories\<close>

context bet_ledger
begin

lemma commit_bet_refines:
  assumes i: "inv s" and wf: "ledger_wf (view s)" and fresh: "BetId fresh \<notin> b_id ` set (lg_bets (view s))"
    and oc: "oc \<in> set (lg_outcomes (view s))" "o_id oc = nb_outcome_id input"
    and m: "lg_markets (view s) (o_market_id oc) = Some m" "accepts_bets (clock 0) m"
    and os: "os = market_outcomes (m_id m) (lg_outcomes (view s))" "chosen < length os" "os ! chosen = oc"
    and u: "lg_users (view s) (actor_user_id actor) = Some u" "nb_amount input \<le> u_balance u"
  shows "wp (commit_bet brepo clock fresh actor input m os chosen u)
    (\<lambda>r t. inv t \<and> (view t = view s \<and> \<not> is_ok r
      \<or> (\<exists>b. placed_once clock fresh actor input (view s) (view t) b \<and> (\<forall>v. r = Ok v \<longrightarrow> bv_bet v = b)))) s"
  unfolding commit_bet_def os(3)
proof (rule wp_lift, goal_cases placed refused)
  case (refused r)
  then show ?case using i by simp
next
  case (placed bet)
  let ?b = "the_bet clock fresh actor input m oc"
  have d: "distinct (map o_id os)"
    using wf by (simp add: os ledger_wf_def market_outcomes_def distinct_map_filter)
  have bet: "bet = ?b" and amount: "0 < nb_amount input"
    using placed by (auto simp: bet_place_Ok_iff the_bet_def)
  have ac: "accepted (view s) clock actor input m oc u"
    using oc m u amount by (simp add: accepted_def)
  have upd: "os[chosen := add_volume (b_amount bet) oc] = map (backed ?b) os"
    using backed_update [OF d os(2), of ?b] os(3) oc bet by (simp add: the_bet_def)
  show ?case unfolding upd
  proof (rule wp_lift, goal_cases priced overflow)
    case (overflow r)
    then show ?case using i by simp
  next
    case (priced os')
    have "\<forall>x\<in>set (map (backed ?b) os). price_wf (o_current_price x)"
      using wf by (auto simp: os ledger_wf_def outcome_ok_def market_outcomes_def backed_def add_volume_def)
    then have rp: "repriced (map (backed ?b) os) os'" using recalculate_repriced [OF priced] by simp
    have pl: "placeable (view s) ?b os'"
      using accepted_placeable [OF wf ac fresh] rp by (simp add: os)
    show ?case unfolding seq_cmd_def bet
    proof (rule wp_effect [OF place [OF i wf pl]], goal_cases stored failed)
      case (failed r0 r t)
      then show ?case by simp
    next
      case (stored x t)
      then have t: "inv t" and one: "placed_once clock fresh actor input (view s) (view t) ?b"
        using ac priced pl os(1) by (auto simp: placed_once_def)
      show ?case
        by (rule wp_query [OF active_positions t]) (use one in \<open>auto simp: view_for_def intro: wp_ret\<close>)
    qed
  qed
qed

text \<open>Placing a bet: either nothing changed and the caller got no result, or one accepted bet
  was recorded; a result always means the latter.\<close>

lemma place_bet_refines:
  assumes i: "inv s" and wf: "ledger_wf (view s)" and fresh: "BetId fresh \<notin> b_id ` set (lg_bets (view s))"
  shows "wp (place_bet mrepo brepo urepo clock fresh actor input)
    (\<lambda>r t. inv t \<and> (view t = view s \<and> \<not> is_ok r
      \<or> (\<exists>b. placed_once clock fresh actor input (view s) (view t) b \<and> (\<forall>v. r = Ok v \<longrightarrow> bv_bet v = b)))) s"
  unfolding place_bet_def
  apply (rule wp_query [OF outcome_by_id i])
   apply (rule wp_lift)
    apply (rule wp_query [OF market_by_id], assumption)
     apply (rule wp_lift)
      apply (rule wp_if)
       apply (rule wp_fail, simp)
      apply (rule wp_query [OF outcomes_for], assumption)
       apply (rule wp_lift)
        apply (rule wp_query [OF user_by_id], assumption)
         apply (rule wp_lift)
          apply (rule wp_if)
           apply (rule wp_fail, simp)
  subgoal premises p for found t1 oc found1 t2 m os t3 chosen found2 t4 u
  proof -
    have v: "view t4 = view s" "inv t4" using p by simp_all
    have oc: "oc \<in> set (lg_outcomes (view s))" "o_id oc = nb_outcome_id input"
      using p by (auto dest!: find_SomeD)
    have m: "lg_markets (view s) (o_market_id oc) = Some m" "accepts_bets (clock 0) m" using p by simp_all
    have os: "os = market_outcomes (m_id m) (lg_outcomes (view s))" using p by simp
    have ch: "chosen < length os" "o_id (os ! chosen) = nb_outcome_id input"
      using p by (auto dest!: position_Some)
    have "os ! chosen \<in> set (lg_outcomes (view s))"
      using nth_mem [OF ch(1)] os by (simp add: market_outcomes_def)
    moreover have "inj_on o_id (set (lg_outcomes (view s)))"
      using wf by (simp add: ledger_wf_def distinct_map)
    ultimately have "os ! chosen = oc" using oc ch(2) inj_onD by fastforce
    moreover have "lg_users (view s) (actor_user_id actor) = Some u" "nb_amount input \<le> u_balance u"
      using p by simp_all
    ultimately show ?thesis
      using commit_bet_refines [of t4 fresh oc input m clock os chosen actor u] v wf fresh oc m os ch
      by simp
  qed
  by simp_all

text \<open>Resolving a market: nothing, or one settlement of all its open bets.\<close>

lemma resolve_market_refines:
  assumes i: "inv s" and wf: "ledger_wf (view s)"
  shows "wp (resolve_market mrepo brepo clock actor mid w)
    (\<lambda>r t. inv t \<and> (if is_ok r
      then actor_role actor = RAdmin \<and> (\<exists>m. resolvable (view s) mid w m
        \<and> view t = resolved_ledger (clock 0) mid w m (view s))
      else view t = view s)) s"
  unfolding resolve_market_def
  apply (rule wp_if)
   apply (rule wp_fail, use i in simp)
  apply (rule wp_query [OF market_by_id i])
   apply (rule wp_lift)
    apply (rule wp_query [OF outcomes_for], assumption)
     apply (rule wp_if)
      apply (rule wp_fail, simp)
     apply (rule wp_lift)
      apply (rule wp_query [OF active_for_market], assumption)
       apply (rule wp_lift)
  subgoal premises p for found t1 m os t2 m' bs t3 settled
  proof -
    have v: "view t3 = view s" "inv t3" using p by simp_all
    have m: "m_status m \<noteq> Resolved" "m' = m\<lparr>m_status := Resolved, m_resolved_outcome_id := Some w\<rparr>"
      using p by (auto simp: market_resolve_def split: if_splits)
    have rs: "resolvable (view t3) mid w m"
      using p m v by (auto simp: resolvable_def list_ex_iff market_outcomes_def)
    have perm: "mset bs = mset (open_bets mid (view t3))" using p v by simp
    then have st: "settled = map (settled_as w) bs"
      using p settle_open [OF wf, of bs mid w] v mset_eq_setD [OF perm] by simp
    have wf3: "ledger_wf (view t3)" using v wf by simp
    show ?thesis unfolding seq_cmd_def st m(2)
      by (rule wp_effect [OF settle [OF v(2) wf3 rs perm]])
        (use p v rs ledger_settle_perm [OF wf3 perm] in \<open>auto simp: can_manage_markets_def intro!: wp_ret\<close>)
  qed
  by simp_all

text \<open>Both keep the books well-formed.\<close>

lemma place_bet_wf:
  assumes "inv s" "ledger_wf (view s)" "BetId fresh \<notin> b_id ` set (lg_bets (view s))"
  shows "wp (place_bet mrepo brepo urepo clock fresh actor input) (\<lambda>r t. inv t \<and> ledger_wf (view t)) s"
  by (rule wp_mono [OF place_bet_refines [OF assms]])
    (use assms in \<open>auto simp: placed_once_def intro: ledger_place_wf\<close>)

lemma resolve_market_wf:
  assumes "inv s" "ledger_wf (view s)"
  shows "wp (resolve_market mrepo brepo clock actor mid w) (\<lambda>r t. inv t \<and> ledger_wf (view t)) s"
  by (rule wp_mono [OF resolve_market_refines [OF assms]])
    (use assms in \<open>auto intro: ledger_settle_wf split: if_splits\<close>)

end

end
