(* ===== verification/MemLedger.thy ===== *)
theory MemLedger
  imports MemBets BetLedger
begin

text \<open>
  The in-memory repositories keep the ledger: the interpretation of the betting contract on
  \<open>MemUsers\<close>, \<open>MemMarkets\<close> and \<open>MemBets\<close>, and the properties of placing and resolving that rest
  on it.
\<close>

section \<open>The view of the world\<close>

definition ledger_of :: "'z world \<Rightarrow> ledger" where
  "ledger_of s = \<lparr>lg_users = lookup_user s, lg_markets = lookup_market s,
     lg_outcomes = outcomes s, lg_bets = bets s\<rparr>"

definition mem_inv :: "'z world \<Rightarrow> bool" where
  "mem_inv s \<longleftrightarrow> users_wf s \<and> distinct (map m_id (markets s))"

text \<open>A dispatch changes nothing the repositories hold.\<close>

definition notify :: "'z bus option \<Rightarrow> event \<Rightarrow> 'z world \<Rightarrow> 'z world" where
  "notify events e s = (case events of None \<Rightarrow> s
     | Some bus \<Rightarrow> s\<lparr>outer := bus e (store.truncate s) (outer s)\<rparr>)"

lemma dispatch_eq: "dispatch events e s = (Ok (), notify events e s)"
  by (simp add: dispatch_def notify_def cmd_simps split: option.split)

lemma seq_dispatch: "seq_cmd (dispatch events e) k s = k (notify events e s)"
  by (simp add: seq_cmd_def bind_cmd_def dispatch_eq)

lemma notify_fields [simp]:
  "users (notify events e s) = users s" "refresh_tokens (notify events e s) = refresh_tokens s"
  "markets (notify events e s) = markets s" "outcomes (notify events e s) = outcomes s"
  "price_points (notify events e s) = price_points s" "bets (notify events e s) = bets s"
  "messages (notify events e s) = messages s" "reactions (notify events e s) = reactions s"
  by (simp_all add: notify_def split: option.split)

lemma view_cong:
  "users t = users s \<Longrightarrow> markets t = markets s \<Longrightarrow> outcomes t = outcomes s \<Longrightarrow> bets t = bets s \<Longrightarrow>
   ledger_of t = ledger_of s \<and> mem_inv t = mem_inv s"
  by (simp add: ledger_of_def mem_inv_def users_wf_def lookup_user_def lookup_market_def fun_eq_iff)

lemma m_id_record_stake [simp]: "m_id (record_stake a n m) = m_id m"
  by (simp add: record_stake_def Let_def)

lemma lookup_update_first:
  assumes "\<And>m. m_id (f m) = m_id m"
  shows "(\<lambda>i. find (\<lambda>m. m_id m = i) (update_first (\<lambda>m. m_id m = mid) f ms))
    = (\<lambda>i. find (\<lambda>m. m_id m = i) ms)(mid := map_option f (find (\<lambda>m. m_id m = mid) ms))"
  using assms by (auto simp: fun_eq_iff find_update_first_eq find_update_first_neq)

section \<open>Placing\<close>

definition stored :: "'z bus option \<Rightarrow> bet \<Rightarrow> outcome list \<Rightarrow> price_point list \<Rightarrow> user \<Rightarrow> 'z world \<Rightarrow> 'z world" where
  "stored events bet os points u s =
     notify events (MarketPricesUpdated (b_market_id bet)) (notify events (BetPlaced (b_id bet))
     (notify events (UserBalanceChanged (b_user_id bet))
     (apply_bet (b_market_id bet) (b_amount bet) (first_bet (b_user_id bet) (b_market_id bet) (bets s))
       os points (s\<lparr>users := AList.update (u_id u) u (users s), bets := bets s @ [bet]\<rparr>))))"

lemma mem_place_eq:
  "mem_place events now bet os points s = (case map_of (users s) (b_user_id bet) of
       None \<Rightarrow> (Err (Storage [Lit ''bettor '', UuidF (user_uuid (b_user_id bet)), Lit '' not found'']), s)
     | Some u \<Rightarrow> (case debit now (b_amount bet) u of
         Ok u' \<Rightarrow> (Ok (), stored events bet os points u' s)
       | _ \<Rightarrow> (Err (Conflict (msg ''balance no longer covers the stake'')), s)))"
proof (cases "map_of (users s) (b_user_id bet)")
  case None
  then show ?thesis by (simp add: mem_place_def mem_simps cmd_simps)
next
  case (Some u)
  have fb: "(\<not> list_ex (\<lambda>b. b_user_id b = b_user_id bet \<and> b_market_id b = b_market_id bet) bs)
      = first_bet (b_user_id bet) (b_market_id bet) bs" for bs
    by (auto simp: first_bet_def list_ex_iff)
  show ?thesis
  proof (cases "debit now (b_amount bet) u")
    case (Ok u')
    then show ?thesis using Some
      by (simp add: mem_place_def mem_simps cmd_simps dispatch_eq stored_def fb)
  next
    case (Err e)
    then show ?thesis using Some by (simp add: mem_place_def mem_simps cmd_simps debit_error_def)
  qed simp
qed

lemma mem_place_ledger:
  assumes i: "mem_inv s" and wf: "ledger_wf (ledger_of s)" and pl: "placeable (ledger_of s) bet os"
  shows "wp (mem_place events now bet os points) (\<lambda>r t. mem_inv t
    \<and> (if is_ok r then ledger_place now bet os (ledger_of s) = Some (ledger_of t)
       else ledger_of t = ledger_of s)) s"
proof (cases "lookup_user s (b_user_id bet)")
  case None
  then show ?thesis using i by (simp add: wp_def mem_place_eq lookup_user_def)
next
  case (Some u)
  show ?thesis
  proof (cases "debit now (b_amount bet) u")
    case (Err e)
    then show ?thesis using i Some by (simp add: wp_def mem_place_eq lookup_user_def)
  next
    case (Ok u')
    let ?t = "stored events bet os points u' s"
    have uid: "u_id u' = b_user_id bet"
      using Some i debit_credit_fields(1) [of now "b_amount bet" u u'] Ok
      by (auto simp: mem_inv_def users_wf_def user_map_wf_def lookup_user_def dest!: map_of_SomeD)
    have d: "distinct (map o_id (outcomes s))" using wf by (simp add: ledger_wf_def ledger_of_def)
    have "distinct (map o_id os)"
    proof -
      have "map o_id os = map o_id (market_outcomes (b_market_id bet) (outcomes s))"
        using pl by (intro repriced_ids [of bet]) (simp add: placeable_def ledger_of_def)
      then show ?thesis using d by (simp add: market_outcomes_def distinct_map_filter)
    qed
    then have os: "outcomes ?t = map (overlay o_id os) (outcomes s)"
      using d by (simp add: stored_def apply_bet_def Let_def fold_replace_by)
    have us: "lookup_user ?t = (lookup_user s)(b_user_id bet \<mapsto> u')"
      by (simp add: lookup_user_def stored_def apply_bet_def Let_def uid update_conv')
    have ms: "lookup_market ?t = (lookup_market s)(b_market_id bet := map_option
        (record_stake (b_amount bet) (first_bet (b_user_id bet) (b_market_id bet) (bets s)))
        (lookup_market s (b_market_id bet)))"
      using lookup_update_first [of "record_stake (b_amount bet)
          (first_bet (b_user_id bet) (b_market_id bet) (bets s))" "b_market_id bet" "markets s"]
      by (simp add: lookup_market_def stored_def apply_bet_def Let_def fun_eq_iff)
    have "mem_inv ?t"
      using i by (simp add: mem_inv_def users_wf_def stored_def apply_bet_def Let_def
          user_map_wf_update map_update_first)
    moreover have "ledger_place now bet os (ledger_of s) = Some (ledger_of ?t)"
      using Some Ok by (simp add: ledger_place_def ledger_of_def us ms os)
        (simp add: stored_def apply_bet_def Let_def)
    ultimately show ?thesis using Some Ok by (simp add: wp_def mem_place_eq lookup_user_def)
  qed simp
qed

section \<open>Settling\<close>

lemma settle_one_eq:
  assumes "\<And>p. b_payout b = Some p \<Longrightarrow> 0 < p \<and> lookup_user s (b_user_id b) \<noteq> None"
    and "users_wf s"
  shows "\<exists>t. settle_one now b s = (Ok (), t) \<and> users_wf t
    \<and> lookup_user t = credit_user now b (lookup_user s) \<and> bets t = replace_by b_id b (bets s)
    \<and> markets t = markets s \<and> outcomes t = outcomes s"
proof (cases "b_payout b")
  case None
  then show ?thesis using assms(2)
    by (simp add: settle_one_def cmd_simps credit_user_def users_wf_def lookup_user_def)
next
  case (Some p)
  then obtain u where u: "map_of (users s) (b_user_id b) = Some u" "0 < p"
    using assms(1) by (auto simp: lookup_user_def)
  then have uid: "u_id u = b_user_id b"
    using assms(2) by (auto simp: users_wf_def user_map_wf_def dest!: map_of_SomeD)
  let ?u = "u\<lparr>u_balance := sat_i64 (u_balance u + p), u_updated_at := now\<rparr>"
  let ?t = "s\<lparr>bets := replace_by b_id b (bets s), users := AList.update (u_id ?u) ?u (users s)\<rparr>"
  let ?s1 = "s\<lparr>bets := replace_by b_id b (bets s)\<rparr>"
  have "settle_one now b s = bind_cmd (lift (map_err credit_error (credit now p u))) mem_user_save ?s1"
    using u by (simp add: settle_one_def Some seq_cmd_def bind_cmd_def writes_def reads_def lift_def
        mem_user_find_by_id_def)
  also have "\<dots> = mem_user_save ?u ?s1"
    by (rule bind_cmd_Ok) (use u in \<open>simp add: credit_def lift_def\<close>)
  also have "\<dots> = (Ok (), ?t)" by (simp add: mem_user_save_def writes_def)
  finally have "settle_one now b s = (Ok (), ?t)" .
  moreover have "users_wf ?t"
    using assms(2) user_map_wf_update [of "users s" ?u] by (simp add: users_wf_def)
  moreover have "lookup_user ?t = credit_user now b (lookup_user s)"
    using u uid Some by (simp add: lookup_user_def credit_user_def update_conv')
  ultimately show ?thesis by simp
qed

lemma settle_loop:
  assumes "\<forall>b\<in>set bs. \<forall>p. b_payout b = Some p \<longrightarrow> 0 < p \<and> lookup_user s (b_user_id b) \<noteq> None"
    and "users_wf s"
  shows "\<exists>t. for_each (settle_one now) bs s = (Ok (), t) \<and> users_wf t
    \<and> lookup_user t = fold (credit_user now) bs (lookup_user s)
    \<and> bets t = fold (replace_by b_id) bs (bets s)
    \<and> markets t = markets s \<and> outcomes t = outcomes s"
  using assms
proof (induction bs arbitrary: s)
  case Nil
  then show ?case by (simp add: ret_def)
next
  case (Cons b bs)
  obtain t where t: "settle_one now b s = (Ok (), t)" "users_wf t"
      "lookup_user t = credit_user now b (lookup_user s)" "bets t = replace_by b_id b (bets s)"
      "markets t = markets s" "outcomes t = outcomes s"
    using settle_one_eq [of b s now] Cons.prems by auto
  have "lookup_user t i \<noteq> None \<longleftrightarrow> lookup_user s i \<noteq> None" for i
    by (auto simp: t(3) credit_user_def split: option.splits)
  then have "\<forall>b\<in>set bs. \<forall>p. b_payout b = Some p \<longrightarrow> 0 < p \<and> lookup_user t (b_user_id b) \<noteq> None"
    using Cons.prems by auto
  then show ?case using Cons.IH [of t] t by (simp add: seq_cmd_def bind_cmd_def)
qed

lemma dispatch_loop:
  "\<exists>t. for_each (\<lambda>u. dispatch events (UserBalanceChanged u)) us s = (Ok (), t)
    \<and> users t = users s \<and> markets t = markets s \<and> outcomes t = outcomes s \<and> bets t = bets s"
proof (induction us arbitrary: s)
  case Nil
  then show ?case by (simp add: ret_def)
next
  case (Cons u us)
  obtain t where "for_each (\<lambda>u. dispatch events (UserBalanceChanged u)) us
        (notify events (UserBalanceChanged u) s) = (Ok (), t)"
      "users t = users s" "markets t = markets s" "outcomes t = outcomes s" "bets t = bets s"
    using Cons.IH [of "notify events (UserBalanceChanged u) s"] by auto
  then show ?case by (simp add: seq_dispatch)
qed

text \<open>Under a well-formed ledger the settlement of a resolvable market cannot fail.\<close>

lemma mem_settle_any_order:
  assumes i: "mem_inv s" and wf: "ledger_wf (ledger_of s)" and rs: "resolvable (ledger_of s) mid w m"
    and perm: "mset bs = mset (open_bets mid (ledger_of s))"
  shows "\<exists>t. mem_settle events now (m\<lparr>m_status := Resolved, m_resolved_outcome_id := Some w\<rparr>)
      (map (settled_as w) bs) s = (Ok (), t)
    \<and> mem_inv t \<and> ledger_of t = ledger_settle now (m\<lparr>m_status := Resolved, m_resolved_outcome_id := Some w\<rparr>)
        (map (settled_as w) bs) (ledger_of s)"
proof -
  let ?m = "m\<lparr>m_status := Resolved, m_resolved_outcome_id := Some w\<rparr>"
  let ?bs = "map (settled_as w) bs"
  have set: "set bs = set (open_bets mid (ledger_of s))" using perm by (rule mset_eq_setD)
  let ?s1 = "s\<lparr>markets := replace_by m_id ?m (markets s)\<rparr>"
  have pay: "\<forall>b\<in>set ?bs. \<forall>p. b_payout b = Some p \<longrightarrow> 0 < p \<and> lookup_user ?s1 (b_user_id b) \<noteq> None"
  proof (intro ballI allI impI conjI)
    fix b p assume b: "b \<in> set ?bs" "b_payout b = Some p"
    show "0 < p" using paying_settled [OF wf, of w mid] b set by (auto simp: paying_def)
    obtain b' where "b' \<in> set (bets s)" "b = settled_as w b'"
      using b(1) set by (auto simp: open_bets_def ledger_of_def)
    then show "lookup_user ?s1 (b_user_id b) \<noteq> None"
      using wf by (auto simp: ledger_wf_def ledger_of_def bet_ok_def lookup_user_def)
  qed
  have "users_wf ?s1" using i by (simp add: mem_inv_def users_wf_def)
  then obtain t where t: "for_each (settle_one now) ?bs ?s1 = (Ok (), t)" "users_wf t"
      "lookup_user t = fold (credit_user now) ?bs (lookup_user ?s1)"
      "bets t = fold (replace_by b_id) ?bs (bets s)"
      "markets t = markets ?s1" "outcomes t = outcomes s"
    using settle_loop [OF pay, of now] by auto
  obtain t' where t': "for_each (\<lambda>u. dispatch events (UserBalanceChanged u)) (paid_users ?bs) t = (Ok (), t')"
      "users t' = users t" "markets t' = markets t" "outcomes t' = outcomes t" "bets t' = bets t"
    using dispatch_loop [of events "paid_users ?bs" t] by auto
  have "distinct (map b_id (bets s))" using wf by (simp add: ledger_wf_def ledger_of_def)
  then have "distinct (map b_id (open_bets mid (ledger_of s)))"
    by (simp add: open_bets_def ledger_of_def distinct_map_filter)
  moreover have "mset (map b_id bs) = mset (map b_id (open_bets mid (ledger_of s)))" using perm by simp
  ultimately have "distinct (map b_id ?bs)"
    using mset_eq_imp_distinct_iff by (fastforce simp: o_def)
  then have bs: "bets t = map (overlay b_id ?bs) (bets s)"
    using t(4) \<open>distinct (map b_id (bets s))\<close> by (simp add: fold_replace_by)
  have mid: "m_id m = mid" using rs wf by (simp add: resolvable_def ledger_wf_def market_ok_def)
  have "m_id (if m_id x = mid then ?m else x) = m_id x" for x using mid by simp
  then have "find (\<lambda>x. m_id x = i) (replace_by m_id ?m (markets s))
      = ((\<lambda>i. find (\<lambda>m. m_id m = i) (markets s))(mid := map_option (\<lambda>_. ?m) (lookup_market s mid))) i" for i
    unfolding replace_by_def using mid
    by (cases "i = mid") (simp_all add: find_update_first_eq find_update_first_neq lookup_market_def)
  then have ms: "lookup_market t = (lookup_market s)(mid := map_option (\<lambda>_. ?m) (lookup_market s mid))"
    by (simp add: lookup_market_def t(5) fun_eq_iff)
  have "mem_inv t" using i t(2,5) by (simp add: mem_inv_def)
  moreover have "ledger_of t = ledger_settle now ?m ?bs (ledger_of s)"
    using t(3,6) bs ms mid
    by (simp add: ledger_of_def ledger_settle_def lookup_user_def)
  moreover have "ledger_of t' = ledger_of t" "mem_inv t' = mem_inv t"
    using view_cong [of t' t] t' by auto
  moreover have "mem_settle events now ?m ?bs s = (Ok (), t')"
    using t(1) t'(1) by (simp add: mem_settle_def seq_cmd_def bind_cmd_def mem_simps writes_def)
  ultimately show ?thesis by auto
qed

lemma mem_settle_ledger:
  assumes i: "mem_inv s" and wf: "ledger_wf (ledger_of s)" and rs: "resolvable (ledger_of s) mid w m"
  shows "\<exists>t. mem_settle events now (m\<lparr>m_status := Resolved, m_resolved_outcome_id := Some w\<rparr>)
      (map (settled_as w) (open_bets mid (ledger_of s))) s = (Ok (), t)
    \<and> mem_inv t \<and> ledger_of t = resolved_ledger now mid w m (ledger_of s)"
  using mem_settle_any_order [OF assms refl] by (simp add: resolved_ledger_def)

section \<open>The contract holds\<close>

interpretation mem: bet_ledger "mem_market_repo lc" "mem_bet_repo events" mem_user_repo ledger_of mem_inv
proof
  show "answers mem_inv ledger_of (mr_outcome_by_id (mem_market_repo lc) i)
      (\<lambda>L r. r = find (\<lambda>oc. o_id oc = i) (lg_outcomes L))" for i
    by (rule answers_read) (simp add: mem_simps reads_def ledger_of_def)
  show "answers mem_inv ledger_of (mr_find_by_id (mem_market_repo lc) i) (\<lambda>L r. r = lg_markets L i)" for i
    by (rule answers_read) (simp add: mem_simps reads_def ledger_of_def lookup_market_def)
  show "answers mem_inv ledger_of (mr_outcomes_for (mem_market_repo lc) i)
      (\<lambda>L r. r = market_outcomes i (lg_outcomes L))" for i
    by (rule answers_read) (simp add: mem_simps reads_def ledger_of_def market_outcomes_def)
  show "answers mem_inv ledger_of (ur_find_by_id mem_user_repo i) (\<lambda>L r. r = lg_users L i)" for i
    by (rule answers_read) (simp add: mem_simps reads_def ledger_of_def lookup_user_def)
  show "answers mem_inv ledger_of (br_active_for_market (mem_bet_repo events) i)
      (\<lambda>L r. mset r = mset (open_bets i L))" for i
    by (simp add: answers_def wp_def mem_simps reads_def ledger_of_def open_bets_def)
  show "answers mem_inv ledger_of (br_active_positions (mem_bet_repo events) ps) (\<lambda>L r. True)" for ps
    by (simp add: answers_def wp_def mem_simps)
next
  fix s :: "'a world" and now bet os points
  assume "mem_inv s" "ledger_wf (ledger_of s)" "placeable (ledger_of s) bet os"
  then show "wp (br_place (mem_bet_repo events) now bet os points) (\<lambda>r t. mem_inv t
      \<and> (if is_ok r then ledger_place now bet os (ledger_of s) = Some (ledger_of t)
         else ledger_of t = ledger_of s)) s"
    unfolding mem_bet_repo_def bet_repo.simps by (rule mem_place_ledger)
next
  fix s :: "'a world" and now mid w m bs
  assume "mem_inv s" "ledger_wf (ledger_of s)" "resolvable (ledger_of s) mid w m"
    "mset bs = mset (open_bets mid (ledger_of s))"
  then show "wp (br_settle (mem_bet_repo events) now (m\<lparr>m_status := Resolved, m_resolved_outcome_id := Some w\<rparr>)
      (map (settled_as w) bs)) (\<lambda>r t. mem_inv t \<and> (if is_ok r
        then ledger_of t = ledger_settle now (m\<lparr>m_status := Resolved, m_resolved_outcome_id := Some w\<rparr>)
          (map (settled_as w) bs) (ledger_of s)
        else ledger_of t = ledger_of s)) s"
    using mem_settle_any_order [of s mid w m bs events now] by (auto simp: wp_def mem_bet_repo_def)
qed

end
