(* ===== verification/Betting.thy ===== *)
theory Betting
  imports MemLedger
begin

text \<open>
  The betting properties over the in-memory repositories: every branch of \<open>PlaceBet\<close> and
  \<open>ResolveMarket\<close>, their effect on balances, bets and aggregates, and the money they move.
\<close>

abbreviation mem_place_bet where
  "mem_place_bet lc events \<equiv> place_bet (mem_market_repo lc) (mem_bet_repo events) mem_user_repo"

abbreviation mem_resolve_market where
  "mem_resolve_market lc events \<equiv> resolve_market (mem_market_repo lc) (mem_bet_repo events)"

abbreviation books_ok where
  "books_ok s \<equiv> mem_inv s \<and> ledger_wf (ledger_of s)"

lemma ledger_of_sel [simp]:
  "lg_users (ledger_of s) = lookup_user s" "lg_markets (ledger_of s) = lookup_market s"
  "lg_outcomes (ledger_of s) = outcomes s" "lg_bets (ledger_of s) = bets s"
  by (simp_all add: ledger_of_def)

section \<open>A small world\<close>

definition sample_user :: "nat \<Rightarrow> role \<Rightarrow> user" where
  "sample_user i r = \<lparr>u_id = UserId (of_nat i), u_username = Username (lit ''alice''),
     u_email = Email (lit ''a@b.c''), u_password_hash = PasswordHash [], u_avatar_url = None,
     u_balance = 10000, u_role = r, u_created_at = 0, u_updated_at = 0\<rparr>"

definition sample_market :: market where
  "sample_market = market_new 1 0 (MarketTitle (lit ''Rain?'')) None None None"

definition sample_outcome :: "nat \<Rightarrow> outcome" where
  "sample_outcome i = outcome_new (of_nat i) (MarketId 1) (OutcomeLabel (lit ''Yes'')) (Price 5000)"

definition sample_world :: "unit world" where
  "sample_world = \<lparr>users = [(UserId 1, sample_user 1 RUser), (UserId 2, sample_user 2 RAdmin)],
     refresh_tokens = [], markets = [sample_market], outcomes = [sample_outcome 1, sample_outcome 2],
     price_points = [], bets = [], messages = [], reactions = [], outer = ()\<rparr>"

lemma sample_user_wf: "user_wf (sample_user i r)"
  by (simp add: user_wf_def sample_user_def username_wf_def lit_def is_ascii_alphanumeric_def
      is_ascii_digit_def i64_max_def)

lemma sample_lookup_market: "lookup_market sample_world = (\<lambda>_. None)(MarketId 1 := Some sample_market)"
  by (rule ext) (simp add: lookup_market_def sample_world_def sample_market_def market_new_def)

lemma sample_books: "books_ok sample_world"
proof
  show "mem_inv sample_world"
    by (simp add: mem_inv_def users_wf_def user_map_wf_def sample_world_def sample_user_def)
  have vol: "sat_i64 0 = 0" "wrap_i32 0 = 0"
    by (simp_all add: sat_i64_def i64_min_def i64_max_def wrap_i32_def)
  have "users_ok (lookup_user sample_world)"
    by (auto simp: users_ok_def lookup_user_def sample_world_def sample_user_wf split: if_splits)
      (simp_all add: sample_user_def)
  moreover have "market_ok [] (outcomes sample_world) i m" if "lookup_market sample_world i = Some m" for i m
    using that by (auto simp: sample_lookup_market market_ok_def staked_def bettors_def vol
        sample_market_def market_new_def split: if_splits)
  moreover have "board_ok (market_outcomes i (outcomes sample_world))" for i
    by (simp add: board_ok_def market_outcomes_def sample_world_def sample_outcome_def outcome_new_def
        price_scale_def)
  ultimately show "ledger_wf (ledger_of sample_world)"
    by (simp add: ledger_wf_def)
      (simp add: sample_world_def sample_outcome_def outcome_new_def outcome_ok_def price_wf_def
        price_scale_def staked_def vol)
qed

text \<open>The same world with one bet in it: user 1 has 100 on outcome 1.\<close>

definition sample_bet :: bet where
  "sample_bet = \<lparr>b_id = BetId 3, b_user_id = UserId 1, b_market_id = MarketId 1,
     b_outcome_id = OutcomeId 1, b_amount = 100, b_price = Price 5000, b_status = Active,
     b_payout = None, b_created_at = 0\<rparr>"

definition backed_world :: "unit world" where
  "backed_world = sample_world\<lparr>
     markets := [sample_market\<lparr>m_total_volume := 100, m_participants_count := 1\<rparr>],
     outcomes := [(sample_outcome 1)\<lparr>o_volume := 100\<rparr>, sample_outcome 2], bets := [sample_bet]\<rparr>"

lemma backed_lookup_market: "lookup_market backed_world = (\<lambda>_. None)(MarketId 1 \<mapsto>
    sample_market\<lparr>m_total_volume := 100, m_participants_count := 1\<rparr>)"
  by (rule ext) (simp add: lookup_market_def backed_world_def sample_market_def market_new_def)

lemma backed_books: "books_ok backed_world"
proof
  have us: "lookup_user backed_world = lookup_user sample_world"
    by (simp add: lookup_user_def backed_world_def)
  show "mem_inv backed_world"
    by (simp add: mem_inv_def users_wf_def user_map_wf_def backed_world_def sample_world_def sample_user_def)
  have vol: "sat_i64 0 = 0" "sat_i64 100 = 100" "wrap_i32 0 = 0" "wrap_i32 1 = 1"
    by (simp_all add: sat_i64_def i64_min_def i64_max_def wrap_i32_def)
  have bets: "bets backed_world = [sample_bet]" by (simp add: backed_world_def)
  have one: "bettors (MarketId 1) [sample_bet] = {UserId 1}" "staked (\<lambda>b. b_market_id b = MarketId 1) [sample_bet] = 100"
    by (simp_all add: bettors_def staked_def sample_bet_def conj_commute cong: conj_cong)
  have "users_ok (lookup_user backed_world)"
    using sample_books by (simp add: us ledger_wf_def)
  moreover have "market_ok (bets backed_world) (outcomes backed_world) i m"
    if "lookup_market backed_world i = Some m" for i m
  proof -
    have "i = MarketId 1 \<and> m = sample_market\<lparr>m_total_volume := 100, m_participants_count := 1\<rparr>"
      using that by (simp add: backed_lookup_market split: if_splits)
    then show ?thesis
      by (simp add: market_ok_def bets one vol) (simp add: sample_market_def market_new_def)
  qed
  moreover have "board_ok (market_outcomes i (outcomes backed_world))" for i
    by (simp add: board_ok_def market_outcomes_def backed_world_def sample_outcome_def outcome_new_def
        price_scale_def)
  moreover have "bet_ok (lookup_user backed_world) (lookup_market backed_world) (outcomes backed_world) sample_bet"
    unfolding us
    by (simp add: bet_ok_def backed_lookup_market lookup_user_def)
      (simp add: backed_world_def sample_world_def sample_bet_def sample_outcome_def outcome_new_def
        bet_wf_def price_wf_def price_scale_def i64_max_def)
  ultimately show "ledger_wf (ledger_of backed_world)"
    by (simp add: ledger_wf_def)
      (simp add: backed_world_def sample_outcome_def outcome_new_def outcome_ok_def price_wf_def
        price_scale_def staked_def vol sample_bet_def)
qed

section \<open>Every refusal of a bet\<close>

lemma place_bet_unfold:
  fixes s :: "'z world"
  assumes oc: "find (\<lambda>x. o_id x = nb_outcome_id input) (outcomes s) = Some oc"
    and m: "lookup_market s (o_market_id oc) = Some m"
  shows "mem_place_bet lc events clock fresh actor input s =
    (if \<not> accepts_bets (clock 0) m
     then (Err (Domain (RuleViolation (msg ''market is not accepting bets''))), s)
     else case position (\<lambda>x. o_id x = nb_outcome_id input) (outcomes_of (m_id m) s) of
       None \<Rightarrow> (Err (Domain (RuleViolation
         [Lit ''outcome '', UuidF (outcome_uuid (nb_outcome_id input)),
          Lit '' does not belong to market '', UuidF (market_uuid (m_id m))])), s)
     | Some chosen \<Rightarrow> (case lookup_user s (actor_user_id actor) of
         None \<Rightarrow> (Err (NotFound [Lit ''user '', UuidF (user_uuid (actor_user_id actor))]), s)
       | Some u \<Rightarrow> if u_balance u < nb_amount input
           then (Err (Domain (RuleViolation (msg ''insufficient balance''))), s)
           else commit_bet (mem_bet_repo events) clock fresh actor input m
             (outcomes_of (m_id m) s) chosen u s))"
  using assms
  by (simp add: place_bet_def mem_simps cmd_simps lookup_market_def lookup_user_def outcomes_of_def
      not_found_def rule_violation_def split: option.split)

lemma position_own:
  assumes "mem_inv s" "find (\<lambda>x. o_id x = i) (outcomes s) = Some oc"
    and "lookup_market s (o_market_id oc) = Some m"
  shows "\<exists>chosen. position (\<lambda>x. o_id x = i) (outcomes_of (m_id m) s) = Some chosen
    \<and> chosen < length (outcomes_of (m_id m) s) \<and> o_id (outcomes_of (m_id m) s ! chosen) = i"
proof -
  have "m_id m = o_market_id oc" using assms(3) by (auto simp: lookup_market_def dest: find_SomeD)
  then have "oc \<in> set (outcomes_of (m_id m) s)" "o_id oc = i"
    using assms(2) by (auto simp: outcomes_of_def dest: find_SomeD)
  then have "position (\<lambda>x. o_id x = i) (outcomes_of (m_id m) s) \<noteq> None"
    by (auto simp: position_None)
  then show ?thesis using position_Some by fastforce
qed

text \<open>C4: Every guard of \<open>PlaceBet\<close> refuses with its own error and changes nothing at all: an
  unknown outcome, an outcome whose market is gone, a market that is closed or past its deadline,
  an unknown bettor, a stake above the balance, and a stake that is not positive.\<close>

theorem place_bet_refusals:
  assumes "mem_inv s"
  shows "(find (\<lambda>x. o_id x = nb_outcome_id input) (outcomes s) = None \<longrightarrow>
      mem_place_bet lc events clock fresh actor input s =
        (Err (NotFound [Lit ''outcome '', UuidF (outcome_uuid (nb_outcome_id input))]), s))
    \<and> (\<forall>oc. find (\<lambda>x. o_id x = nb_outcome_id input) (outcomes s) = Some oc \<longrightarrow>
      (lookup_market s (o_market_id oc) = None \<longrightarrow>
        mem_place_bet lc events clock fresh actor input s =
          (Err (NotFound [Lit ''market '', UuidF (market_uuid (o_market_id oc))]), s))
      \<and> (\<forall>m. lookup_market s (o_market_id oc) = Some m \<longrightarrow>
        (\<not> accepts_bets (clock 0) m \<longrightarrow>
          mem_place_bet lc events clock fresh actor input s =
            (Err (Domain (RuleViolation (msg ''market is not accepting bets''))), s))
        \<and> (accepts_bets (clock 0) m \<longrightarrow> lookup_user s (actor_user_id actor) = None \<longrightarrow>
          mem_place_bet lc events clock fresh actor input s =
            (Err (NotFound [Lit ''user '', UuidF (user_uuid (actor_user_id actor))]), s))
        \<and> (\<forall>u. accepts_bets (clock 0) m \<longrightarrow> lookup_user s (actor_user_id actor) = Some u \<longrightarrow>
          (u_balance u < nb_amount input \<longrightarrow>
            mem_place_bet lc events clock fresh actor input s =
              (Err (Domain (RuleViolation (msg ''insufficient balance''))), s))
          \<and> (nb_amount input \<le> u_balance u \<longrightarrow> nb_amount input \<le> 0 \<longrightarrow>
            mem_place_bet lc events clock fresh actor input s =
              (Err (Domain (Validation (msg ''bet amount must be positive''))), s)))))"
proof (intro conjI allI impI)
  assume "find (\<lambda>x. o_id x = nb_outcome_id input) (outcomes s) = None"
  then show "mem_place_bet lc events clock fresh actor input s =
      (Err (NotFound [Lit ''outcome '', UuidF (outcome_uuid (nb_outcome_id input))]), s)"
    by (simp add: place_bet_def mem_simps cmd_simps not_found_def)
next
  fix oc assume "find (\<lambda>x. o_id x = nb_outcome_id input) (outcomes s) = Some oc"
    "lookup_market s (o_market_id oc) = None"
  then show "mem_place_bet lc events clock fresh actor input s =
      (Err (NotFound [Lit ''market '', UuidF (market_uuid (o_market_id oc))]), s)"
    by (simp add: place_bet_def mem_simps cmd_simps not_found_def lookup_market_def)
next
  fix oc m assume found: "find (\<lambda>x. o_id x = nb_outcome_id input) (outcomes s) = Some oc"
    "lookup_market s (o_market_id oc) = Some m"
  note eq = place_bet_unfold [OF found]
  obtain chosen where ch: "position (\<lambda>x. o_id x = nb_outcome_id input) (outcomes_of (m_id m) s) = Some chosen"
    using position_own [OF assms found] by auto
  {
    assume "\<not> accepts_bets (clock 0) m"
    then show "mem_place_bet lc events clock fresh actor input s =
        (Err (Domain (RuleViolation (msg ''market is not accepting bets''))), s)" by (simp add: eq)
  }
  {
    assume "accepts_bets (clock 0) m" "lookup_user s (actor_user_id actor) = None"
    then show "mem_place_bet lc events clock fresh actor input s =
        (Err (NotFound [Lit ''user '', UuidF (user_uuid (actor_user_id actor))]), s)" by (simp add: eq ch)
  }
  fix u assume u: "accepts_bets (clock 0) m" "lookup_user s (actor_user_id actor) = Some u"
  {
    assume "u_balance u < nb_amount input"
    then show "mem_place_bet lc events clock fresh actor input s =
        (Err (Domain (RuleViolation (msg ''insufficient balance''))), s)" using u by (simp add: eq ch)
  }
  assume "nb_amount input \<le> u_balance u" "nb_amount input \<le> 0"
  then show "mem_place_bet lc events clock fresh actor input s =
      (Err (Domain (Validation (msg ''bet amount must be positive''))), s)"
    using u by (simp add: eq ch commit_bet_def bet_place_def bind_cmd_def lift_def)
qed

lemma place_bet_refusals_witness:
  "mem_place_bet (\<lambda>_ _. []) None (\<lambda>_. 0) 9 \<lparr>actor_user_id = UserId 1, actor_role = RUser\<rparr>
     \<lparr>nb_outcome_id = OutcomeId 7, nb_amount = 10\<rparr> sample_world
   = (Err (NotFound [Lit ''outcome '', UuidF 7]), sample_world)"
proof -
  have "mem_inv sample_world" using sample_books by blast
  from place_bet_refusals [OF this, of "\<lparr>nb_outcome_id = OutcomeId 7, nb_amount = 10\<rparr>"]
  show ?thesis by (simp add: sample_world_def sample_outcome_def outcome_new_def)
qed

section \<open>A bet that goes through\<close>

lemma place_bet_run:
  assumes ok: "books_ok s" and fresh: "BetId fresh \<notin> b_id ` set (bets s)"
    and run: "mem_place_bet lc events clock fresh actor input s = (Ok v, t)"
  shows "\<exists>m oc u. accepts_bets (clock 0) m \<and> lookup_market s (m_id m) = Some m
    \<and> oc \<in> set (outcomes s) \<and> o_id oc = nb_outcome_id input \<and> o_market_id oc = m_id m
    \<and> lookup_user s (actor_user_id actor) = Some u
    \<and> 0 < nb_amount input \<and> nb_amount input \<le> u_balance u
    \<and> bets t = bets s @ [bv_bet v]
    \<and> bv_bet v = \<lparr>b_id = BetId fresh, b_user_id = actor_user_id actor, b_market_id = m_id m,
        b_outcome_id = nb_outcome_id input, b_amount = nb_amount input,
        b_price = max (o_current_price oc) min_tick, b_status = Active, b_payout = None,
        b_created_at = clock 1\<rparr>
    \<and> (\<exists>at. lookup_user t = (lookup_user s)(actor_user_id actor \<mapsto>
        u\<lparr>u_balance := u_balance u - nb_amount input, u_updated_at := at\<rparr>))
    \<and> lookup_market t = (lookup_market s)(m_id m \<mapsto>
        m\<lparr>m_total_volume := sat_i64 (m_total_volume m + nb_amount input),
          m_participants_count := (if \<forall>b\<in>set (bets s). \<not> (b_user_id b = actor_user_id actor
              \<and> b_market_id b = m_id m)
            then wrap_i32 (m_participants_count m + 1) else m_participants_count m)\<rparr>)
    \<and> map (\<lambda>x. (o_id x, o_market_id x, o_volume x)) (outcomes t) =
        map (\<lambda>x. (o_id x, o_market_id x, if o_id x = nb_outcome_id input
          then sat_i64 (o_volume x + nb_amount input) else o_volume x)) (outcomes s)
    \<and> (\<forall>x\<in>set (outcomes s). o_market_id x \<noteq> m_id m \<longrightarrow> x \<in> set (outcomes t))"
proof -
  have i: "mem_inv s" and wf: "ledger_wf (ledger_of s)" using ok by auto
  have "\<exists>b. placed_once clock fresh actor input (ledger_of s) (ledger_of t) b \<and> bv_bet v = b"
    using wpD [OF mem.place_bet_refines [OF i wf, of fresh lc events clock actor input] run] fresh by auto
  then obtain m oc u os' where ac: "accepted (ledger_of s) clock actor input m oc u"
    and v: "bv_bet v = the_bet clock fresh actor input m oc"
    and pl: "placeable (ledger_of s) (bv_bet v) os'"
    and step: "ledger_place (clock (length os' + 2)) (bv_bet v) os' (ledger_of s) = Some (ledger_of t)"
    by (auto simp: placed_once_def)
  let ?b = "bv_bet v" and ?os = "outcomes s"
  have mid: "m_id m = o_market_id oc" and uwf: "user_wf u"
    using ac wf by (auto simp: accepted_def ledger_wf_def market_ok_def users_ok_def)
  have d: "distinct (map o_id ?os)" using wf by (simp add: ledger_wf_def)
  have rp: "repriced (map (backed ?b) (market_outcomes (m_id m) ?os)) os'"
    using pl v by (simp add: placeable_def the_bet_def)
  note ov = overlay_repriced [OF d rp]
  have t: "bets t = bets s @ [?b]" "outcomes t = map (overlay o_id os') ?os"
    and mt: "lookup_market t = (lookup_market s)(m_id m \<mapsto> record_stake (nb_amount input)
        (first_bet (actor_user_id actor) (m_id m) (bets s)) m)"
    and ut: "lookup_user t = (lookup_user s)(actor_user_id actor \<mapsto>
        u\<lparr>u_balance := u_balance u - nb_amount input, u_updated_at := clock (length os' + 2)\<rparr>)"
    using step ac mid uwf
    by (auto simp: ledger_place_def accepted_def v the_bet_def debit_Ok_iff ledger_of_def
        split: option.splits result.splits)
  have "frame (overlay o_id os' x) = (o_id x, o_market_id x, if o_id x = nb_outcome_id input
      then sat_i64 (o_volume x + nb_amount input) else o_volume x, o_label x, o_thumbnail_url x)" if x: "x \<in> set ?os" for x
  proof (cases "o_market_id x = m_id m")
    case True
    then show ?thesis using ov(3) [OF x] by (simp add: frame_backed v the_bet_def)
  next
    case False
    have "inj_on o_id (set ?os)" using d by (simp add: distinct_map)
    moreover have "oc \<in> set ?os" "o_id oc = nb_outcome_id input" using ac by (simp_all add: accepted_def)
    ultimately have "o_id x \<noteq> nb_outcome_id input"
      using False x mid inj_onD [of o_id "set ?os" x oc] by auto
    then show ?thesis using False ov(3) [OF x] by (simp add: frame_def)
  qed
  then have vols: "map (\<lambda>x. (o_id x, o_market_id x, o_volume x)) (outcomes t) =
      map (\<lambda>x. (o_id x, o_market_id x, if o_id x = nb_outcome_id input
        then sat_i64 (o_volume x + nb_amount input) else o_volume x)) ?os"
    by (simp add: t(2) frame_def)
  have other: "x \<in> set (outcomes t)" if "x \<in> set ?os" "o_market_id x \<noteq> m_id m" for x
    using ov(2) [of "o_market_id x"] that unfolding t(2) market_outcomes_def
    by (metis (mono_tags, lifting) mem_Collect_eq set_filter)
  have mt': "lookup_market t = (lookup_market s)(m_id m \<mapsto>
      m\<lparr>m_total_volume := sat_i64 (m_total_volume m + nb_amount input),
        m_participants_count := (if \<forall>b\<in>set (bets s). \<not> (b_user_id b = actor_user_id actor
            \<and> b_market_id b = m_id m)
          then wrap_i32 (m_participants_count m + 1) else m_participants_count m)\<rparr>)"
    unfolding mt record_stake_def first_bet_def Let_def by simp blast
  show ?thesis
    by (rule exI [of _ m], rule exI [of _ oc], rule exI [of _ u], intro conjI)
      (use ac mid t(1) mt' vols other in \<open>simp_all add: accepted_def v the_bet_def ut\<close>, blast)
qed

text \<open>What an accepted bet writes: the stored bet, the board it was priced on and the points drawn from
  it, and what it leaves alone.\<close>

lemma place_bet_stored:
  assumes "mem_place_bet lc events clock fresh actor input s = (Ok v, t)"
  shows "\<exists>chosen os now. b_outcome_id (bv_bet v) = nb_outcome_id input
    \<and> position (\<lambda>x. o_id x = nb_outcome_id input) (outcomes_of (b_market_id (bv_bet v)) s) = Some chosen
    \<and> recalculate_prices ((outcomes_of (b_market_id (bv_bet v)) s)
        [chosen := add_volume (b_amount (bv_bet v)) (outcomes_of (b_market_id (bv_bet v)) s ! chosen)])
      = (Ok os :: (outcome list, app_error) result)
    \<and> mem_place events now (bv_bet v) os (stake_points clock os) s = (Ok (), t)"
  using assms
  by (auto simp: place_bet_def commit_bet_def run_Ok mem_simps reads_def view_for_def split: if_splits)
    (auto simp: outcomes_of_def bet_place_Ok_iff)

lemma market_outcomes_of: "market_outcomes i (outcomes s) = outcomes_of i s"
  by (simp add: market_outcomes_def outcomes_of_def)

lemma place_bet_board:
  assumes ok: "books_ok s" and fresh: "BetId fresh \<notin> b_id ` set (bets s)"
    and run: "mem_place_bet lc events clock fresh actor input s = (Ok v, t)"
  defines "mid \<equiv> b_market_id (bv_bet v)"
  shows "recalculate_prices (map (backed (bv_bet v)) (outcomes_of mid s)) = (Ok (outcomes_of mid t) :: (outcome list, app_error) result)"
    and "filter (\<lambda>x. o_market_id x \<noteq> mid) (outcomes t) = filter (\<lambda>x. o_market_id x \<noteq> mid) (outcomes s)"
    and "map frame (outcomes t) = map (\<lambda>x. frame (backed (bv_bet v) x)) (outcomes s)"
    and "price_points t = price_points s @ stake_points clock (outcomes_of mid t)"
    and "messages t = messages s \<and> reactions t = reactions s \<and> refresh_tokens t = refresh_tokens s"
proof -
  have i: "mem_inv s" and wf: "ledger_wf (ledger_of s)" using ok by auto
  let ?b = "bv_bet v" and ?os = "outcomes s"
  obtain chosen os now where st: "position (\<lambda>x. o_id x = nb_outcome_id input) (outcomes_of mid s) = Some chosen"
      "b_outcome_id ?b = nb_outcome_id input"
      "recalculate_prices ((outcomes_of mid s)[chosen := add_volume (b_amount ?b) (outcomes_of mid s ! chosen)])
        = (Ok os :: (outcome list, app_error) result)"
      "mem_place events now ?b os (stake_points clock os) s = (Ok (), t)"
    using place_bet_stored [OF run] unfolding mid_def by blast
  have d: "distinct (map o_id ?os)" using wf by (simp add: ledger_wf_def)
  then have dm: "distinct (map o_id (outcomes_of mid s))" by (simp add: outcomes_of_def distinct_map_filter)
  have ch: "chosen < length (outcomes_of mid s)" "o_id (outcomes_of mid s ! chosen) = nb_outcome_id input"
    using position_Some [OF st(1)] by simp_all
  have rc: "recalculate_prices (map (backed ?b) (outcomes_of mid s)) = (Ok os :: (outcome list, app_error) result)"
    using st(3) backed_update [OF dm ch(1), of ?b] ch(2) st(2) by simp
  have "\<forall>x\<in>set (map (backed ?b) (outcomes_of mid s)). price_wf (o_current_price x)"
    using wf by (auto simp: ledger_wf_def outcome_ok_def outcomes_of_def backed_def add_volume_def)
  then have rp: "repriced (map (backed ?b) (market_outcomes mid ?os)) os"
    using recalculate_repriced [OF rc] by (simp add: market_outcomes_of)
  have "map o_id os = map o_id (market_outcomes mid ?os)" by (rule repriced_ids [OF rp])
  then have dos: "distinct (map o_id os)" using dm by (simp add: market_outcomes_of)
  obtain u where t: "t = stored events ?b os (stake_points clock os) u s"
    using st(4) by (auto simp: mem_place_eq split: option.splits result.splits)
  have ot: "outcomes t = map (overlay o_id os) ?os"
    using d dos by (simp add: t stored_def apply_bet_def Let_def fold_replace_by)
  note ov = overlay_repriced [OF d rp]
  have os: "outcomes_of mid t = os" using ov(1) by (simp add: ot market_outcomes_of [symmetric])
  show "recalculate_prices (map (backed ?b) (outcomes_of mid s)) = (Ok (outcomes_of mid t) :: (outcome list, app_error) result)"
    using rc os by simp
  show "price_points t = price_points s @ stake_points clock (outcomes_of mid t)"
    unfolding os by (simp add: t stored_def apply_bet_def Let_def)
  show "messages t = messages s \<and> reactions t = reactions s \<and> refresh_tokens t = refresh_tokens s"
    by (simp add: t stored_def apply_bet_def Let_def)
  have inj: "inj_on o_id (set ?os)" using d by (simp add: distinct_map)
  have mine: "x \<in> set ?os \<Longrightarrow> o_id x \<in> o_id ` set (outcomes_of mid s) \<Longrightarrow> o_market_id x = mid" for x
    using inj_onD [OF inj] by (force simp: outcomes_of_def)
  have "o_id ` set os = o_id ` set (outcomes_of mid s)"
    using arg_cong [OF repriced_ids [OF rp], of set] by (simp add: market_outcomes_of)
  then have same: "overlay o_id os x = x" if "x \<in> set ?os" "o_market_id x \<noteq> mid" for x
    using mine [OF that(1)] that(2) by (intro overlay_other) auto
  have "o_id (outcomes_of mid s ! chosen) \<in> o_id ` set (outcomes_of mid s)" using ch(1) by simp
  then have other: "backed ?b x = x" if "x \<in> set ?os" "o_market_id x \<noteq> mid" for x
    using mine [OF that(1)] that(2) ch(2) st(2) by (auto simp: backed_def)
  have fr: "frame (overlay o_id os x) = frame (backed ?b x)" if x: "x \<in> set ?os" for x
    using ov(3) [OF x] other [OF x] by simp
  then show "map frame (outcomes t) = map (\<lambda>x. frame (backed ?b x)) (outcomes s)" by (simp add: ot)
  have "o_market_id (overlay o_id os x) = o_market_id x" if x: "x \<in> set ?os" for x
    using fr [OF x] by (simp add: frame_backed) (simp add: frame_def)
  then have "filter (\<lambda>x. o_market_id x \<noteq> mid) (outcomes t)
      = map (overlay o_id os) (filter (\<lambda>x. o_market_id x \<noteq> mid) ?os)"
    by (simp add: ot filter_map cong: filter_cong)
  then show "filter (\<lambda>x. o_market_id x \<noteq> mid) (outcomes t) = filter (\<lambda>x. o_market_id x \<noteq> mid) (outcomes s)"
    using same by (auto intro!: map_idI)
qed

text \<open>C3: An accepted bet does exactly this: the bettor was solvent and the market open before its
  deadline; the bettor's balance falls by the stake and nobody else's changes; the bet is stored
  last, active, at the price on the board (never below one tick); the market's volume grows by the
  stake and its participants by one exactly for a bettor new to it, and no other market changes.
  The backed outcome's volume grows by the stake; every outcome keeps its market, label, thumbnail
  and place, and every other outcome its volume.  The market's own outcomes end at exactly the prices
  \<open>recalculate_prices\<close> gives the new volumes, each recorded as one new price point, and the outcomes
  of other markets stay as they were.  Messages, reactions and refresh tokens stay as they were.\<close>

theorem place_bet_effect:
  assumes "books_ok s" and "BetId fresh \<notin> b_id ` set (bets s)"
    and "mem_place_bet lc events clock fresh actor input s = (Ok v, t)"
  shows "\<exists>m oc u. accepts_bets (clock 0) m \<and> lookup_market s (m_id m) = Some m
    \<and> oc \<in> set (outcomes s) \<and> o_id oc = nb_outcome_id input \<and> o_market_id oc = m_id m
    \<and> lookup_user s (actor_user_id actor) = Some u
    \<and> 0 < nb_amount input \<and> nb_amount input \<le> u_balance u
    \<and> bets t = bets s @ [bv_bet v]
    \<and> bv_bet v = \<lparr>b_id = BetId fresh, b_user_id = actor_user_id actor, b_market_id = m_id m,
        b_outcome_id = nb_outcome_id input, b_amount = nb_amount input,
        b_price = max (o_current_price oc) min_tick, b_status = Active, b_payout = None,
        b_created_at = clock 1\<rparr>
    \<and> (\<exists>at. lookup_user t = (lookup_user s)(actor_user_id actor \<mapsto>
        u\<lparr>u_balance := u_balance u - nb_amount input, u_updated_at := at\<rparr>))
    \<and> lookup_market t = (lookup_market s)(m_id m \<mapsto>
        m\<lparr>m_total_volume := sat_i64 (m_total_volume m + nb_amount input),
          m_participants_count := (if \<forall>b\<in>set (bets s). \<not> (b_user_id b = actor_user_id actor
              \<and> b_market_id b = m_id m)
            then wrap_i32 (m_participants_count m + 1) else m_participants_count m)\<rparr>)
    \<and> map (\<lambda>x. (o_id x, o_market_id x, o_volume x, o_label x, o_thumbnail_url x)) (outcomes t) =
        map (\<lambda>x. (o_id x, o_market_id x, if o_id x = nb_outcome_id input
          then sat_i64 (o_volume x + nb_amount input) else o_volume x, o_label x, o_thumbnail_url x)) (outcomes s)
    \<and> recalculate_prices (map (\<lambda>x. if o_id x = nb_outcome_id input then add_volume (nb_amount input) x else x)
        (outcomes_of (m_id m) s)) = (Ok (outcomes_of (m_id m) t) :: (outcome list, app_error) result)
    \<and> price_points t = price_points s @ stake_points clock (outcomes_of (m_id m) t)
    \<and> filter (\<lambda>x. o_market_id x \<noteq> m_id m) (outcomes t) = filter (\<lambda>x. o_market_id x \<noteq> m_id m) (outcomes s)
    \<and> messages t = messages s \<and> reactions t = reactions s \<and> refresh_tokens t = refresh_tokens s"
proof -
  note board = place_bet_board [OF assms]
  obtain m oc u where e: "accepts_bets (clock 0) m" "lookup_market s (m_id m) = Some m"
      "oc \<in> set (outcomes s)" "o_id oc = nb_outcome_id input" "o_market_id oc = m_id m"
      "lookup_user s (actor_user_id actor) = Some u" "0 < nb_amount input" "nb_amount input \<le> u_balance u"
      "bets t = bets s @ [bv_bet v]"
      "bv_bet v = \<lparr>b_id = BetId fresh, b_user_id = actor_user_id actor, b_market_id = m_id m,
        b_outcome_id = nb_outcome_id input, b_amount = nb_amount input,
        b_price = max (o_current_price oc) min_tick, b_status = Active, b_payout = None,
        b_created_at = clock 1\<rparr>"
      "\<exists>at. lookup_user t = (lookup_user s)(actor_user_id actor \<mapsto>
        u\<lparr>u_balance := u_balance u - nb_amount input, u_updated_at := at\<rparr>)"
      "lookup_market t = (lookup_market s)(m_id m \<mapsto>
        m\<lparr>m_total_volume := sat_i64 (m_total_volume m + nb_amount input),
          m_participants_count := (if \<forall>b\<in>set (bets s). \<not> (b_user_id b = actor_user_id actor
              \<and> b_market_id b = m_id m)
            then wrap_i32 (m_participants_count m + 1) else m_participants_count m)\<rparr>)"
    using place_bet_run [OF assms] by (elim exE conjE) (rule that, (assumption | rule exI)+)
  have b: "b_market_id (bv_bet v) = m_id m" "b_outcome_id (bv_bet v) = nb_outcome_id input" "b_amount (bv_bet v) = nb_amount input"
    by (simp_all add: e(10))
  have "backed (bv_bet v) = (\<lambda>x. if o_id x = nb_outcome_id input then add_volume (nb_amount input) x else x)"
    by (rule ext) (simp only: backed_def b)
  note board' = board [unfolded b(1), unfolded this]
  have vols: "map (\<lambda>x. (o_id x, o_market_id x, o_volume x, o_label x, o_thumbnail_url x)) (outcomes t) =
      map (\<lambda>x. (o_id x, o_market_id x, if o_id x = nb_outcome_id input
        then sat_i64 (o_volume x + nb_amount input) else o_volume x, o_label x, o_thumbnail_url x)) (outcomes s)"
    using board(3) [unfolded frame_backed b] by (simp only: frame_def [abs_def])
  show ?thesis
    by (rule exI [of _ m], rule exI [of _ oc], rule exI [of _ u], intro conjI)
      (rule e board' vols board(5) [THEN conjunct1] board(5) [THEN conjunct2, THEN conjunct1]
        board(5) [THEN conjunct2, THEN conjunct2])+
qed

section \<open>When a bet goes through\<close>

lemma commit_bet_ok:
  assumes ok: "books_ok s" and fresh: "BetId fresh \<notin> b_id ` set (bets s)"
    and ac: "accepted (ledger_of s) clock actor input m oc u"
    and ch: "chosen < length (outcomes_of (m_id m) s)" "outcomes_of (m_id m) s ! chosen = oc"
    and room: "volumes_ok (map (backed (the_bet clock fresh actor input m oc)) (outcomes_of (m_id m) s))"
    and few: "int (length (bets s)) < 2 ^ 49"
  shows "\<exists>v t. commit_bet (mem_bet_repo events) clock fresh actor input m
      (outcomes_of (m_id m) s) chosen u s = (Ok v, t)
    \<and> bv_avg_price v = average_price (position_bets (actor_user_id actor) (nb_outcome_id input)
        (bets s @ [the_bet clock fresh actor input m oc]))"
proof -
  let ?b = "the_bet clock fresh actor input m oc" and ?os = "outcomes_of (m_id m) s"
  let ?rep = "map (backed ?b) ?os"
  have wf: "ledger_wf (ledger_of s)" and i: "mem_inv s" using ok by auto
  have eqs: "market_outcomes (m_id m) (outcomes s) = ?os"
    by (simp add: market_outcomes_def outcomes_of_def)
  have d: "distinct (map o_id ?os)"
    using wf by (simp add: ledger_wf_def outcomes_of_def distinct_map_filter)
  have oc: "o_id oc = nb_outcome_id input" "0 < nb_amount input" using ac by (auto simp: accepted_def)
  have "price_wf (o_current_price oc)" using wf ac by (auto simp: accepted_def ledger_wf_def outcome_ok_def)
  note tick = max_min_tick [OF this]
  have bet: "bet_place fresh (clock 1) (actor_user_id actor) (m_id m) (nb_outcome_id input)
      (nb_amount input) (max (o_current_price oc) min_tick) = Ok ?b"
    using oc tick by (auto simp: bet_place_Ok_iff the_bet_def price_zero_def)
  have upd: "?os[chosen := add_volume (b_amount ?b) oc] = ?rep"
    using backed_update [OF d ch(1), of ?b] ch(2) oc by (simp add: the_bet_def)
  have ne: "?rep \<noteq> []" using ch(1) by auto
  have rec: "recalculate_prices ?rep = (Ok (priced ?rep) :: (outcome list, app_error) result)"
    by (rule recalculate_eq [OF room ne])
  have "\<forall>x\<in>set ?rep. price_wf (o_current_price x)"
    using wf by (auto simp: ledger_wf_def outcome_ok_def outcomes_of_def backed_def add_volume_def)
  then have rp: "repriced ?rep (priced ?rep)" by (rule recalculate_repriced [OF rec])
  have pl: "placeable (ledger_of s) ?b (priced ?rep)"
    by (rule accepted_placeable [OF wf ac]) (use fresh rp eqs in simp_all)
  have u: "lookup_user s (b_user_id ?b) = Some u" "nb_amount input \<le> u_balance u" "user_wf u"
    using ac wf by (auto simp: accepted_def the_bet_def ledger_wf_def users_ok_def)
  then have db: "\<exists>u'. debit now (b_amount ?b) u = Ok u'" for now
    using oc by (simp add: debit_Ok_iff the_bet_def)
  have place: "\<exists>t. mem_place events now ?b os points s = (Ok (), t) \<and> bets t = bets s @ [?b]" for now os points
    using db [of now] u(1)
    by (auto simp: mem_place_eq lookup_user_def stored_def apply_bet_def Let_def)
  let ?now = "clock (length (priced ?rep) + 2)" and ?pts = "stake_points clock (priced ?rep)"
  obtain t where t: "mem_place events ?now ?b (priced ?rep) ?pts s = (Ok (), t)" "bets t = bets s @ [?b]"
    using place by blast
  have mine: "?b \<in> set (position_bets (actor_user_id actor) (nb_outcome_id input) (bets t))"
    by (simp add: position_bets_def t(2)) (simp add: the_bet_def)
  have "\<forall>b\<in>set (bets t). bet_wf b"
    using wf pl by (auto simp: t(2) ledger_wf_def bet_ok_def placeable_def)
  then have ps: "positions (bets t) [(actor_user_id actor, nb_outcome_id input)]
      = Ok [\<lparr>ap_user_id = actor_user_id actor, ap_outcome_id = nb_outcome_id input,
        ap_avg_price = average_price (position_bets (actor_user_id actor) (nb_outcome_id input) (bets t))\<rparr>]"
    using mine few t(2) by (subst positions_eq) auto
  let ?v = "view_for ?b m (priced ?rep ! chosen) (username_as_str (u_username u))
    (average_price (position_bets (actor_user_id actor) (nb_outcome_id input) (bets t)))"
  have "commit_bet (mem_bet_repo events) clock fresh actor input m ?os chosen u s = (Ok ?v, t)"
    using bet rec t(1) ps
    by (simp add: commit_bet_def ch(2) upd bind_cmd_def seq_cmd_def lift_def conv_def mem_bet_repo_def
        mem_active_positions_def ret_def)
  then show ?thesis by (intro exI [of _ ?v] exI [of _ t]) (simp add: view_for_def t(2))
qed


lemma place_bet_ok:
  assumes ok: "books_ok s" and fresh: "BetId fresh \<notin> b_id ` set (bets s)"
    and ac: "accepted (ledger_of s) clock actor input m oc u"
    and room: "volumes_ok (map (backed (the_bet clock fresh actor input m oc)) (outcomes_of (m_id m) s))"
    and few: "int (length (bets s)) < 2 ^ 49"
  shows "\<exists>v t. mem_place_bet lc events clock fresh actor input s = (Ok v, t)
    \<and> bv_avg_price v = average_price (position_bets (actor_user_id actor) (nb_outcome_id input)
        (bets s @ [the_bet clock fresh actor input m oc]))"
proof -
  have i: "mem_inv s" and wf: "ledger_wf (ledger_of s)" using ok by auto
  have d: "distinct (map o_id (outcomes s))" using wf by (simp add: ledger_wf_def)
  have oc: "oc \<in> set (outcomes s)" "o_id oc = nb_outcome_id input"
    and m: "lookup_market s (o_market_id oc) = Some m" "accepts_bets (clock 0) m"
    and u: "lookup_user s (actor_user_id actor) = Some u" "nb_amount input \<le> u_balance u"
    using ac by (auto simp: accepted_def)
  have found: "find (\<lambda>x. o_id x = nb_outcome_id input) (outcomes s) = Some oc"
    using find_key_Some [OF d oc] .
  obtain chosen where ch: "position (\<lambda>x. o_id x = nb_outcome_id input) (outcomes_of (m_id m) s) = Some chosen"
      "chosen < length (outcomes_of (m_id m) s)"
      "o_id (outcomes_of (m_id m) s ! chosen) = nb_outcome_id input"
    using position_own [OF i found m(1)] by auto
  have "outcomes_of (m_id m) s ! chosen \<in> set (outcomes s)"
    using nth_mem [OF ch(2)] by (simp add: outcomes_of_def)
  moreover have "inj_on o_id (set (outcomes s))" using d by (simp add: distinct_map)
  ultimately have "outcomes_of (m_id m) s ! chosen = oc"
    using oc ch(3) inj_onD [of o_id "set (outcomes s)" "outcomes_of (m_id m) s ! chosen" oc] by simp
  from commit_bet_ok [OF ok fresh ac ch(2) this room few, of events]
  show ?thesis using place_bet_unfold [OF found m(1), of lc events clock fresh actor] m(2) u ch(1)
    by simp
qed

text \<open>C5: A valid bet is taken: on an open market before its deadline, with a positive stake the
  balance covers, a board whose volumes leave room for the stake and fewer than \<open>2^49\<close> bets in
  the store, \<open>PlaceBet\<close> answers, and the average price it reports is the stake-weighted mean of
  the bettor's active bets on that outcome, the new bet included.\<close>

theorem place_bet_succeeds:
  assumes ok: "books_ok s" and fresh: "BetId fresh \<notin> b_id ` set (bets s)"
    and ac: "accepted (ledger_of s) clock actor input m oc u"
    and room: "volumes_ok (map (backed (the_bet clock fresh actor input m oc)) (outcomes_of (m_id m) s))"
    and few: "int (length (bets s)) < 2 ^ 49"
  shows "\<exists>v t. mem_place_bet lc events clock fresh actor input s = (Ok v, t)
    \<and> bv_avg_price v = average_price (position_bets (actor_user_id actor) (nb_outcome_id input)
        (bets s @ [the_bet clock fresh actor input m oc]))"
  by (rule place_bet_ok [OF assms])

definition sample_bettor :: actor where
  "sample_bettor = \<lparr>actor_user_id = UserId 1, actor_role = RUser\<rparr>"

definition sample_input :: new_bet where
  "sample_input = \<lparr>nb_outcome_id = OutcomeId 1, nb_amount = 100\<rparr>"

lemma sample_accepted:
  "accepted (ledger_of sample_world) (\<lambda>_. 5) sample_bettor sample_input sample_market
     (sample_outcome 1) (sample_user 1 RUser)"
  by (simp add: accepted_def sample_lookup_market sample_bettor_def sample_input_def)
    (simp add: sample_world_def sample_outcome_def outcome_new_def sample_market_def market_new_def
      accepts_bets_def lookup_user_def sample_user_def)

lemma sample_room:
  "volumes_ok (map (backed (the_bet (\<lambda>_. 5) 9 sample_bettor sample_input sample_market (sample_outcome 1)))
     (outcomes_of (m_id sample_market) sample_world))"
  by (simp add: volumes_ok_def backed_def the_bet_def sample_bettor_def sample_input_def
      outcomes_of_def sample_world_def sample_outcome_def outcome_new_def sample_market_def
      market_new_def add_volume_def price_scale_def sat_i64_def i64_min_def i64_max_def)

lemma place_bet_succeeds_witness:
  "\<exists>v t. mem_place_bet (\<lambda>_ _. []) None (\<lambda>_. 5) 9 sample_bettor sample_input sample_world = (Ok v, t)
     \<and> bv_avg_price v = Price 5000"
proof -
  have few: "int (length (bets sample_world)) < 2 ^ 49" "BetId 9 \<notin> b_id ` set (bets sample_world)"
    by (simp_all add: sample_world_def)
  have "average_price (position_bets (actor_user_id sample_bettor) (nb_outcome_id sample_input)
      (bets sample_world @ [the_bet (\<lambda>_. 5) 9 sample_bettor sample_input sample_market (sample_outcome 1)]))
      = Price 5000"
    by (simp add: sample_world_def position_bets_def average_price_def the_bet_def sample_bettor_def
        sample_input_def weighted_def total_stake_def sample_outcome_def outcome_new_def min_tick_def
        max_def less_eq_price_def)
  then show ?thesis
    using place_bet_succeeds [OF sample_books few(2) sample_accepted sample_room few(1)] by metis
qed

lemma place_bet_effect_witness:
  "\<exists>v t u. mem_place_bet (\<lambda>_ _. []) None (\<lambda>_. 5) 9 sample_bettor sample_input sample_world = (Ok v, t)
     \<and> lookup_user t (UserId 1) = Some u \<and> u_balance u = 9900 \<and> length (bets t) = 1"
proof -
  have few: "int (length (bets sample_world)) < 2 ^ 49" and fresh: "BetId 9 \<notin> b_id ` set (bets sample_world)"
    by (simp_all add: sample_world_def)
  obtain v t where run: "mem_place_bet (\<lambda>_ _. []) None (\<lambda>_. 5) 9 sample_bettor sample_input sample_world = (Ok v, t)"
    using place_bet_ok [OF sample_books fresh sample_accepted sample_room few] by blast
  have u: "lookup_user sample_world (UserId 1) = Some (sample_user 1 RUser)"
    by (simp add: lookup_user_def sample_world_def)
  from place_bet_effect [OF sample_books fresh run] u
  have "\<exists>u. lookup_user t (UserId 1) = Some u \<and> u_balance u = 9900" "length (bets t) = 1"
    by (auto simp: sample_bettor_def sample_input_def sample_user_def) (simp add: sample_world_def)
  then show ?thesis using run by blast
qed

end
