(* ===== verification/Settlement.thy ===== *)
theory Settlement
  imports Betting
begin

text \<open>
  Resolving a market over the in-memory repositories: every branch of \<open>ResolveMarket\<close>, the money
  placing and resolving move, and what a resolution closes for good.
\<close>

section \<open>The books through both use cases\<close>

text \<open>C6: Whatever \<open>PlaceBet\<close> answers, the books stay in order: users, markets, outcomes and
  bets keep referring to each other, every market's volume and participant count are those of
  its bets, every outcome's volume is the stakes on it, every board sums to one, and no bet is
  left open on a resolved market.\<close>

theorem place_bet_keeps_books:
  assumes "books_ok s" "BetId fresh \<notin> b_id ` set (bets s)"
  shows "books_ok (snd (mem_place_bet lc events clock fresh actor input s))"
proof -
  have "BetId fresh \<notin> b_id ` set (lg_bets (ledger_of s))" using assms by simp
  then show ?thesis
    using mem.place_bet_wf [of s fresh lc events clock actor input] assms(1)
    by (simp add: wp_def split_beta)
qed

lemma place_bet_keeps_books_witness:
  "books_ok (snd (mem_place_bet (\<lambda>_ _. []) None (\<lambda>_. 5) 9 sample_bettor sample_input sample_world))"
proof -
  have "BetId 9 \<notin> b_id ` set (bets sample_world)" by (simp add: sample_world_def)
  from place_bet_keeps_books [OF sample_books this] show ?thesis .
qed

text \<open>C7: Placing a bet neither mints nor burns money, whatever it answers: balances plus open
  stakes are the same before and after, and no balance but the bettor's moves.\<close>

theorem place_bet_conserves:
  assumes ok: "books_ok s" and fresh: "BetId fresh \<notin> b_id ` set (bets s)"
    and run: "mem_place_bet lc events clock fresh actor input s = (r, t)"
  shows "cash (ledger_of t) + open_stakes (ledger_of t) = cash (ledger_of s) + open_stakes (ledger_of s)
    \<and> (\<forall>i. i \<noteq> actor_user_id actor \<longrightarrow> lookup_user t i = lookup_user s i)"
proof -
  have i: "mem_inv s" and wf: "ledger_wf (ledger_of s)" using ok by auto
  from wpD [OF mem.place_bet_refines [OF i wf, of fresh lc events clock actor input] run] fresh
  consider "ledger_of t = ledger_of s"
    | b where "placed_once clock fresh actor input (ledger_of s) (ledger_of t) b" by auto
  then show ?thesis
  proof cases
    case 1
    then show ?thesis by (simp add: ledger_of_def)
  next
    case 2
    then obtain os' m oc where step: "ledger_place (clock (length os' + 2)) b os' (ledger_of s) = Some (ledger_of t)"
      and pl: "placeable (ledger_of s) b os'" and b: "b = the_bet clock fresh actor input m oc"
      by (auto simp: placed_once_def)
    have "bet_wf b" "b_status b = Active" using pl by (auto simp: placeable_def)
    note money = ledger_place_money [OF wf this step]
    have "b_user_id b = actor_user_id actor" using b by (simp add: the_bet_def)
    then show ?thesis using money by simp
  qed
qed

lemma place_bet_conserves_witness:
  "\<exists>r t. mem_place_bet (\<lambda>_ _. []) None (\<lambda>_. 5) 9 sample_bettor sample_input sample_world = (r, t)
     \<and> lookup_user t (UserId 2) = lookup_user sample_world (UserId 2)"
proof -
  obtain r t where run: "mem_place_bet (\<lambda>_ _. []) None (\<lambda>_. 5) 9 sample_bettor sample_input sample_world = (r, t)"
    by fastforce
  have fresh: "BetId 9 \<notin> b_id ` set (bets sample_world)" by (simp add: sample_world_def)
  from place_bet_conserves [OF sample_books fresh run] run
  show ?thesis by (auto simp: sample_bettor_def)
qed

section \<open>Resolving\<close>

lemma resolve_unfold:
  fixes s :: "'z world"
  shows "mem_resolve_market lc events clock actor mid w s =
    (if actor_role actor \<noteq> RAdmin then (Err (Forbidden (msg ''admin role required'')), s)
     else case lookup_market s mid of
       None \<Rightarrow> (Err (NotFound [Lit ''market '', UuidF (market_uuid mid)]), s)
     | Some m \<Rightarrow>
         if \<not> list_ex (\<lambda>oc. o_id oc = w) (outcomes_of mid s)
         then (Err (Domain (RuleViolation [Lit ''outcome '', UuidF (outcome_uuid w),
           Lit '' does not belong to market '', UuidF (market_uuid mid)])), s)
         else if m_status m = Resolved
         then (Err (Domain (RuleViolation (msg ''market is already resolved''))), s)
         else bind_cmd (lift (map_err Domain (collect_results
             (map (settle_bet w) (open_bets mid (ledger_of s)))))) (\<lambda>settled.
           seq_cmd (conv app_of_repo (mem_settle events (clock 0)
               (m\<lparr>m_status := Resolved, m_resolved_outcome_id := Some w\<rparr>) settled))
             (ret \<lparr>mv_market = m\<lparr>m_status := Resolved, m_resolved_outcome_id := Some w\<rparr>,
               mv_outcomes = outcomes_of mid s\<rparr>)) s)"
proof (cases "actor_role actor = RAdmin")
  case False
  then show ?thesis by (simp add: resolve_market_def can_manage_markets_def admin_required_def fail_def)
next
  case True
  show ?thesis
  proof (cases "lookup_market s mid")
    case None
    then show ?thesis using True
      by (simp add: resolve_market_def can_manage_markets_def mem_simps cmd_simps not_found_def
          lookup_market_def)
  next
    case (Some m)
    then show ?thesis using True
      by (cases "m_status m = Resolved")
        (simp_all add: resolve_market_def can_manage_markets_def mem_simps cmd_simps
          lookup_market_def market_resolve_def open_bets_def outcomes_of_def)
  qed
qed

text \<open>On well-formed books: the refusals in their order, and otherwise a settlement that cannot
  fail.\<close>

lemma resolve_market_ok:
  assumes ok: "books_ok s" and rs: "resolvable (ledger_of s) mid w m" and "actor_role actor = RAdmin"
  shows "\<exists>t. mem_resolve_market lc events clock actor mid w s =
      (Ok \<lparr>mv_market = m\<lparr>m_status := Resolved, m_resolved_outcome_id := Some w\<rparr>,
         mv_outcomes = outcomes_of mid s\<rparr>, t)
    \<and> books_ok t \<and> ledger_of t = resolved_ledger (clock 0) mid w m (ledger_of s)"
proof -
  have i: "mem_inv s" and wf: "ledger_wf (ledger_of s)" using ok by auto
  obtain t where t: "mem_settle events (clock 0) (m\<lparr>m_status := Resolved, m_resolved_outcome_id := Some w\<rparr>)
      (map (settled_as w) (open_bets mid (ledger_of s))) s = (Ok (), t)"
      "mem_inv t" "ledger_of t = resolved_ledger (clock 0) mid w m (ledger_of s)"
    using mem_settle_ledger [OF i wf rs] by blast
  have "list_ex (\<lambda>oc. o_id oc = w) (outcomes_of mid s)" "lookup_market s mid = Some m" "m_status m \<noteq> Resolved"
    using rs by (auto simp: resolvable_def list_ex_iff outcomes_of_def)
  moreover have "ledger_wf (ledger_of t)" using t(3) ledger_settle_wf [OF wf rs] by simp
  ultimately show ?thesis using t assms(3)
    by (simp add: resolve_unfold settle_open [OF wf subset_refl] bind_cmd_def seq_cmd_def conv_def lift_def ret_def)
qed

text \<open>\<open>ResolveMarket\<close> refuses in this order and changes nothing when it does: a caller who is
  not an administrator, an unknown market, an outcome that is not one of the market's, and a
  market that is already resolved.\<close>

theorem resolve_market_refusals:
  "(actor_role actor \<noteq> RAdmin \<longrightarrow> mem_resolve_market lc events clock actor mid w s =
      (Err (Forbidden (msg ''admin role required'')), s))
   \<and> (actor_role actor = RAdmin \<longrightarrow> lookup_market s mid = None \<longrightarrow>
      mem_resolve_market lc events clock actor mid w s =
        (Err (NotFound [Lit ''market '', UuidF (market_uuid mid)]), s))
   \<and> (actor_role actor = RAdmin \<longrightarrow> lookup_market s mid = Some m \<longrightarrow>
      (\<forall>oc\<in>set (outcomes s). o_id oc = w \<longrightarrow> o_market_id oc \<noteq> mid) \<longrightarrow>
      mem_resolve_market lc events clock actor mid w s =
        (Err (Domain (RuleViolation [Lit ''outcome '', UuidF (outcome_uuid w),
           Lit '' does not belong to market '', UuidF (market_uuid mid)])), s))
   \<and> (actor_role actor = RAdmin \<longrightarrow> lookup_market s mid = Some m \<longrightarrow>
      (\<exists>oc\<in>set (outcomes s). o_id oc = w \<and> o_market_id oc = mid) \<longrightarrow> m_status m = Resolved \<longrightarrow>
      mem_resolve_market lc events clock actor mid w s =
        (Err (Domain (RuleViolation (msg ''market is already resolved''))), s))"
  by (auto simp: resolve_unfold list_ex_iff outcomes_of_def)

lemma resolve_market_refusals_witness:
  "mem_resolve_market (\<lambda>_ _. []) None (\<lambda>_. 5) \<lparr>actor_user_id = UserId 1, actor_role = RUser\<rparr> (MarketId 1)
     (OutcomeId 1) sample_world = (Err (Forbidden (msg ''admin role required'')), sample_world)"
  using resolve_market_refusals [of "\<lparr>actor_user_id = UserId 1, actor_role = RUser\<rparr>"] by simp

text \<open>C1: Resolving an unresolved market to one of its own outcomes always succeeds on
  well-formed books, and does exactly this: the market is resolved to that outcome; each of its
  open bets becomes won, with the payout \<open>stake * 10000 / price\<close> rounded down (the product capped
  at the largest 64-bit integer), or lost, with none; no other bet, market or outcome changes;
  and every user is credited the payouts of their own winning bets, capped at the largest
  balance.  The books stay in order.\<close>

theorem resolve_market_settles:
  assumes ok: "books_ok s" and admin: "actor_role actor = RAdmin"
    and m: "lookup_market s mid = Some m" "m_status m \<noteq> Resolved"
    and oc: "oc \<in> set (outcomes s)" "o_id oc = w" "o_market_id oc = mid"
  shows "\<exists>t. mem_resolve_market lc events clock actor mid w s =
      (Ok \<lparr>mv_market = m\<lparr>m_status := Resolved, m_resolved_outcome_id := Some w\<rparr>,
         mv_outcomes = outcomes_of mid s\<rparr>, t)
    \<and> books_ok t \<and> outcomes t = outcomes s
    \<and> lookup_market t = (lookup_market s)(mid \<mapsto>
        m\<lparr>m_status := Resolved, m_resolved_outcome_id := Some w\<rparr>)
    \<and> bets t = map (\<lambda>b. if b_market_id b = mid \<and> b_status b = Active
        then if b_outcome_id b = w
          then b\<lparr>b_status := Won, b_payout := Some (sat_i64 (b_amount b * 10000)
            div as_ten_thousandths (b_price b))\<rparr>
          else b\<lparr>b_status := Lost, b_payout := None\<rparr>
        else b) (bets s)
    \<and> (\<forall>i u. lookup_user s i = Some u \<longrightarrow> (\<exists>at. lookup_user t i = Some (u\<lparr>
        u_balance := sat_i64 (u_balance u + sum_list (map
          (\<lambda>b. sat_i64 (b_amount b * 10000) div as_ten_thousandths (b_price b))
          (filter (\<lambda>b. b_user_id b = i \<and> b_market_id b = mid \<and> b_status b = Active
            \<and> b_outcome_id b = w) (bets s)))), u_updated_at := at\<rparr>)))"
proof -
  have wf: "ledger_wf (ledger_of s)" using ok by simp
  have rs: "resolvable (ledger_of s) mid w m" using m oc by (auto simp: resolvable_def)
  have mid: "m_id m = mid" using wf m by (auto simp: ledger_wf_def market_ok_def)
  obtain t where t: "mem_resolve_market lc events clock actor mid w s =
      (Ok \<lparr>mv_market = m\<lparr>m_status := Resolved, m_resolved_outcome_id := Some w\<rparr>,
         mv_outcomes = outcomes_of mid s\<rparr>, t)"
    and tok: "books_ok t" and L: "ledger_of t = resolved_ledger (clock 0) mid w m (ledger_of s)"
    using resolve_market_ok [OF ok rs admin, of lc events clock] by blast
  have "filter (\<lambda>b. b_user_id b = i \<and> b_outcome_id b = w) (open_bets mid (ledger_of s))
      = filter (\<lambda>b. b_user_id b = i \<and> b_market_id b = mid \<and> b_status b = Active \<and> b_outcome_id b = w)
        (bets s)" for i
    by (simp add: open_bets_def) (rule filter_cong, auto)
  then have paid: "\<exists>at. lookup_user t i = Some (u\<lparr>u_balance := sat_i64 (u_balance u + sum_list (map
          (\<lambda>b. sat_i64 (b_amount b * 10000) div as_ten_thousandths (b_price b))
          (filter (\<lambda>b. b_user_id b = i \<and> b_market_id b = mid \<and> b_status b = Active
            \<and> b_outcome_id b = w) (bets s)))), u_updated_at := at\<rparr>)" if "lookup_user s i = Some u" for i u
    using ledger_settle_pays [OF wf, of i u "clock 0" mid w m] that arg_cong [OF L, of lg_users]
    by (simp add: payout_of_def [abs_def])
  show ?thesis
    using t tok paid resolved_bets [OF wf rs, of "clock 0"] resolved_markets [OF rs mid, of "clock 0"]
      arg_cong [OF L, of lg_bets] arg_cong [OF L, of lg_markets] arg_cong [OF L, of lg_outcomes]
    by (intro exI [of _ t]) (simp add: settled_as_def payout_of_def)
qed

lemma backed_resolvable:
  "resolvable (ledger_of backed_world) (MarketId 1) (OutcomeId 1)
     (sample_market\<lparr>m_total_volume := 100, m_participants_count := 1\<rparr>)"
  by (simp add: resolvable_def backed_lookup_market)
    (simp add: backed_world_def sample_outcome_def outcome_new_def sample_market_def market_new_def)

lemma resolve_market_settles_witness:
  "\<exists>v t u. mem_resolve_market (\<lambda>_ _. []) None (\<lambda>_. 5) \<lparr>actor_user_id = UserId 2, actor_role = RAdmin\<rparr>
     (MarketId 1) (OutcomeId 1) backed_world = (Ok v, t)
     \<and> lookup_user t (UserId 1) = Some u \<and> u_balance u = 10200"
proof -
  let ?m = "sample_market\<lparr>m_total_volume := 100, m_participants_count := 1\<rparr>"
  have oc: "(sample_outcome 1)\<lparr>o_volume := 100\<rparr> \<in> set (outcomes backed_world)"
      "o_id ((sample_outcome 1)\<lparr>o_volume := 100\<rparr>) = OutcomeId 1"
      "o_market_id ((sample_outcome 1)\<lparr>o_volume := 100\<rparr>) = MarketId 1"
    by (simp_all add: backed_world_def sample_outcome_def outcome_new_def)
  have m: "lookup_market backed_world (MarketId 1) = Some ?m" "m_status ?m \<noteq> Resolved"
    by (simp add: backed_lookup_market) (simp add: sample_market_def market_new_def)
  have u: "lookup_user backed_world (UserId 1) = Some (sample_user 1 RUser)"
    by (simp add: lookup_user_def backed_world_def sample_world_def)
  from resolve_market_settles [OF backed_books _ m oc, of "\<lparr>actor_user_id = UserId 2, actor_role = RAdmin\<rparr>"
      "\<lambda>_ _. []" None "\<lambda>_. 5"]
  obtain v t where run: "mem_resolve_market (\<lambda>_ _. []) None (\<lambda>_. 5)
      \<lparr>actor_user_id = UserId 2, actor_role = RAdmin\<rparr> (MarketId 1) (OutcomeId 1) backed_world = (Ok v, t)"
    and paid: "\<And>i u. lookup_user backed_world i = Some u \<Longrightarrow> \<exists>at. lookup_user t i = Some (u\<lparr>
        u_balance := sat_i64 (u_balance u + sum_list (map
          (\<lambda>b. sat_i64 (b_amount b * 10000) div as_ten_thousandths (b_price b))
          (filter (\<lambda>b. b_user_id b = i \<and> b_market_id b = MarketId 1 \<and> b_status b = Active
            \<and> b_outcome_id b = OutcomeId 1) (bets backed_world)))), u_updated_at := at\<rparr>)"
    by auto
  have "sat_i64 10200 = 10200" "sat_i64 1000000 = 1000000"
    by (simp_all add: sat_i64_def i64_min_def i64_max_def)
  with paid [OF u] run show ?thesis
    by (force simp: backed_world_def sample_bet_def sample_user_def)
qed

section \<open>A resolution is final\<close>

lemma resolved_market_refuses:
  assumes ok: "books_ok s" and m: "lookup_market s mid = Some m" "m_status m = Resolved"
  shows "\<not> is_ok (fst (mem_resolve_market lc events clock actor mid w s))"
    and "snd (mem_resolve_market lc events clock actor mid w s) = s"
    and "oc \<in> set (outcomes s) \<Longrightarrow> o_id oc = nb_outcome_id input \<Longrightarrow> o_market_id oc = mid \<Longrightarrow>
      mem_place_bet lc events clock fresh actor input s =
        (Err (Domain (RuleViolation (msg ''market is not accepting bets''))), s)"
proof -
  show "\<not> is_ok (fst (mem_resolve_market lc events clock actor mid w s))"
      "snd (mem_resolve_market lc events clock actor mid w s) = s"
    using m by (auto simp: resolve_unfold)
  assume oc: "oc \<in> set (outcomes s)" "o_id oc = nb_outcome_id input" "o_market_id oc = mid"
  have "distinct (map o_id (outcomes s))" using ok by (simp add: ledger_wf_def)
  then have "find (\<lambda>x. o_id x = nb_outcome_id input) (outcomes s) = Some oc"
    using oc by (simp add: find_key_Some)
  then show "mem_place_bet lc events clock fresh actor input s =
      (Err (Domain (RuleViolation (msg ''market is not accepting bets''))), s)"
    using m oc by (simp add: place_bet_unfold accepts_bets_def)
qed

text \<open>C2: A market is settled at most once and then closed: after a successful \<open>ResolveMarket\<close> no
  bet on it is open, every later \<open>ResolveMarket\<close> of it, by anyone and to any outcome, fails
  without changing anything, and every bet on any of its outcomes is refused.\<close>

theorem resolve_market_once:
  assumes ok: "books_ok s" and run: "mem_resolve_market lc events clock actor mid w s = (Ok v, t)"
  shows "(\<forall>b\<in>set (bets t). b_market_id b = mid \<longrightarrow> b_status b \<noteq> Active)
    \<and> (\<forall>clock' actor' w'. \<not> is_ok (fst (mem_resolve_market lc events clock' actor' mid w' t))
        \<and> snd (mem_resolve_market lc events clock' actor' mid w' t) = t)
    \<and> (\<forall>clock' fresh actor' oc amount. oc \<in> set (outcomes t) \<longrightarrow> o_market_id oc = mid \<longrightarrow>
        mem_place_bet lc events clock' fresh actor' \<lparr>nb_outcome_id = o_id oc, nb_amount = amount\<rparr> t =
          (Err (Domain (RuleViolation (msg ''market is not accepting bets''))), t))"
proof -
  have admin: "actor_role actor = RAdmin" using run by (auto simp: resolve_unfold split: if_splits)
  obtain m where rs: "resolvable (ledger_of s) mid w m"
    using run by (auto simp: resolve_unfold resolvable_def list_ex_iff outcomes_of_def
        split: if_splits option.splits)
  have tok: "books_ok t" and L: "ledger_of t = resolved_ledger (clock 0) mid w m (ledger_of s)"
    using resolve_market_ok [OF ok rs admin, of lc events clock] run by auto
  have "m_id m = mid" using ok rs by (auto simp: resolvable_def ledger_wf_def market_ok_def)
  then have m: "lookup_market t mid = Some (m\<lparr>m_status := Resolved, m_resolved_outcome_id := Some w\<rparr>)"
    using resolved_markets [OF rs, of "clock 0"] arg_cong [OF L, of lg_markets] by simp
  have "market_ok (bets t) (outcomes t) mid (m\<lparr>m_status := Resolved, m_resolved_outcome_id := Some w\<rparr>)"
    using tok m by (simp add: ledger_wf_def)
  then have "\<forall>b\<in>set (bets t). b_market_id b = mid \<longrightarrow> b_status b \<noteq> Active"
    by (simp add: market_ok_def)
  then show ?thesis using resolved_market_refuses [OF tok m] by simp
qed

lemma resolve_market_once_witness:
  "\<exists>v t. mem_resolve_market (\<lambda>_ _. []) None (\<lambda>_. 5) \<lparr>actor_user_id = UserId 2, actor_role = RAdmin\<rparr>
     (MarketId 1) (OutcomeId 2) sample_world = (Ok v, t)
     \<and> snd (mem_resolve_market (\<lambda>_ _. []) None (\<lambda>_. 6) \<lparr>actor_user_id = UserId 2, actor_role = RAdmin\<rparr>
         (MarketId 1) (OutcomeId 1) t) = t"
proof -
  have "resolvable (ledger_of sample_world) (MarketId 1) (OutcomeId 2) sample_market"
    by (simp add: resolvable_def sample_lookup_market)
      (simp add: sample_world_def sample_outcome_def outcome_new_def sample_market_def market_new_def)
  then obtain v t where run: "mem_resolve_market (\<lambda>_ _. []) None (\<lambda>_. 5)
      \<lparr>actor_user_id = UserId 2, actor_role = RAdmin\<rparr> (MarketId 1) (OutcomeId 2) sample_world = (Ok v, t)"
    using resolve_market_ok [OF sample_books, of "MarketId 1" "OutcomeId 2" sample_market
        "\<lparr>actor_user_id = UserId 2, actor_role = RAdmin\<rparr>"] by force
  from resolve_market_once [OF sample_books run] run show ?thesis by blast
qed

section \<open>Two executions that interleave\<close>

lemma mem_settle_users:
  assumes "\<forall>b\<in>set bs. \<forall>p. b_payout b = Some p \<longrightarrow> 0 < p \<and> lookup_user s (b_user_id b) \<noteq> None"
    and "users_wf s"
  shows "\<exists>t. mem_settle events now m bs s = (Ok (), t) \<and> users_wf t
    \<and> lookup_user t = fold (credit_user now) bs (lookup_user s)"
proof -
  let ?s1 = "s\<lparr>markets := replace_by m_id m (markets s)\<rparr>"
  have "users_wf ?s1" "lookup_user ?s1 = lookup_user s"
    using assms(2) by (simp_all add: users_wf_def lookup_user_def)
  then obtain t where t: "for_each (settle_one now) bs ?s1 = (Ok (), t)" "users_wf t"
      "lookup_user t = fold (credit_user now) bs (lookup_user s)"
    using settle_loop [of bs ?s1 now] assms(1) by auto
  obtain t' where t': "for_each (\<lambda>u. dispatch events (UserBalanceChanged u)) (paid_users bs) t = (Ok (), t')"
      "users t' = users t"
    using dispatch_loop [of events "paid_users bs" t] by auto
  have "users_wf t'" "lookup_user t' = lookup_user t"
    using t(2) t'(2) by (simp_all add: users_wf_def lookup_user_def)
  then show ?thesis using t t'(1)
    by (simp add: mem_settle_def seq_cmd_def bind_cmd_def mem_simps writes_def)
qed

text \<open>Nothing orders two concurrent resolutions.  When a second \<open>ResolveMarket\<close> has read the
  market and its open bets before the first one settled, its own settlement still goes through
  and pays every winner a second time: each balance ends at the initial one plus twice the
  payouts (capped).\<close>

theorem stale_settlement_pays_twice:
  assumes ok: "books_ok s" and rs: "resolvable (ledger_of s) mid w m"
    and bs: "bs = map (settled_as w) (open_bets mid (ledger_of s))"
    and m': "m' = m\<lparr>m_status := Resolved, m_resolved_outcome_id := Some w\<rparr>"
  shows "\<exists>t t'. mem_settle events now m' bs s = (Ok (), t) \<and> mem_settle events now' m' bs t = (Ok (), t')
    \<and> (\<forall>i u. lookup_user s i = Some u \<longrightarrow> (\<exists>u'. lookup_user t' i = Some u'
        \<and> u_balance u' = sat_i64 (u_balance u + 2 * credited i bs)))"
proof -
  have i: "mem_inv s" and wf: "ledger_wf (ledger_of s)" using ok by auto
  have pay: "paying bs" using paying_settled [OF wf] by (simp add: bs)
  have known: "\<forall>b\<in>set bs. lookup_user s (b_user_id b) \<noteq> None"
    using wf by (auto simp: bs open_bets_def ledger_wf_def bet_ok_def)
  have us: "users_wf s" using i by (simp add: mem_inv_def)
  have uok: "users_ok (lookup_user s)" using wf by (simp add: ledger_wf_def)
  obtain t where t: "mem_settle events now m' bs s = (Ok (), t)" "users_wf t"
      "lookup_user t = fold (credit_user now) bs (lookup_user s)"
    using mem_settle_users [OF _ us] pay known by (force simp: paying_def)
  have tok: "users_ok (lookup_user t)" using users_ok_credit [OF uok pay] t(3) by simp
  have "dom (lookup_user t) = dom (lookup_user s)" using dom_credit [OF uok pay] t(3) by simp
  then have "\<forall>b\<in>set bs. lookup_user t (b_user_id b) \<noteq> None" using known by (auto simp: dom_def)
  then obtain t' where t': "mem_settle events now' m' bs t = (Ok (), t')"
      "lookup_user t' = fold (credit_user now') bs (lookup_user t)"
    using mem_settle_users [OF _ t(2)] pay by (force simp: paying_def)
  have "\<exists>u'. lookup_user t' i = Some u' \<and> u_balance u' = sat_i64 (u_balance u + 2 * credited i bs)"
    if u: "lookup_user s i = Some u" for i u
  proof -
    obtain a where a: "lookup_user t i = Some (u\<lparr>u_balance := sat_i64 (u_balance u + credited i bs),
        u_updated_at := a\<rparr>)"
      using credit_all [OF uok pay, of i now] u t(3) by auto
    obtain u' where u': "lookup_user t' i = Some u'"
        "u_balance u' = sat_i64 (sat_i64 (u_balance u + credited i bs) + credited i bs)"
      using credit_all [OF tok pay, of i now'] a t'(2) by auto
    have "0 \<le> u_balance u" "0 \<le> credited i bs"
      using uok u credited_nonneg [OF pay] by (auto simp: users_ok_def user_wf_def)
    then have "sat_i64 (sat_i64 (u_balance u + credited i bs) + credited i bs)
        = sat_i64 (u_balance u + credited i bs + credited i bs)"
      by (intro sat_i64_add) simp_all
    moreover have "u_balance u + credited i bs + credited i bs = u_balance u + 2 * credited i bs" by simp
    ultimately show ?thesis using u' by metis
  qed
  then show ?thesis using t(1) t'(1) by blast
qed

lemma stale_settlement_pays_twice_witness:
  "let m' = sample_market\<lparr>m_total_volume := 100, m_participants_count := 1, m_status := Resolved,
       m_resolved_outcome_id := Some (OutcomeId 1)\<rparr>;
     bs = [settled_as (OutcomeId 1) sample_bet] in
   \<exists>t t' u. mem_settle None 5 m' bs backed_world = (Ok (), t) \<and> mem_settle None 6 m' bs t = (Ok (), t')
     \<and> lookup_user t' (UserId 1) = Some u \<and> u_balance u = 10400"
proof -
  have u: "lookup_user backed_world (UserId 1) = Some (sample_user 1 RUser)"
    by (simp add: lookup_user_def backed_world_def sample_world_def)
  have bs: "map (settled_as (OutcomeId 1)) (open_bets (MarketId 1) (ledger_of backed_world))
      = [settled_as (OutcomeId 1) sample_bet]"
    by (simp add: open_bets_def) (simp add: backed_world_def sample_bet_def)
  have "sat_i64 1000000 = 1000000" "sat_i64 10400 = 10400"
    by (simp_all add: sat_i64_def i64_min_def i64_max_def)
  then have "credited (UserId 1) [settled_as (OutcomeId 1) sample_bet] = 200" "sat_i64 10400 = 10400"
    by (simp_all add: credited_def settled_as_def payout_of_def sample_bet_def)
  then show ?thesis
    using stale_settlement_pays_twice [OF backed_books backed_resolvable bs [symmetric] refl, of None 5 6] u
    by (fastforce simp: Let_def sample_user_def)
qed

end
