(* ===== verification/Catalogue.thy ===== *)
theory Catalogue
  imports Settlement
begin

text \<open>
  The market catalogue over the in-memory repositories: creating markets, and what the
  listings, the featured market and the price history answer.
\<close>

section \<open>Creating a market\<close>

definition valid_label :: "str \<Rightarrow> bool" where
  "valid_label s \<longleftrightarrow> trim s \<noteq> [] \<and> length (trim s) \<le> label_max"

definition fresh_outcomes :: "(nat \<Rightarrow> uuid) \<Rightarrow> market_id \<Rightarrow> str list \<Rightarrow> outcome list" where
  "fresh_outcomes ids mid labels = map (\<lambda>(i, label).
     outcome_new (ids i) mid (OutcomeLabel (trim label)) price_zero) (enumerate 0 labels)"

lemma new_outcomes_Ok:
  "new_outcomes ids mid labels = Ok os \<longleftrightarrow>
     (\<forall>l\<in>set labels. valid_label l) \<and> os = fresh_outcomes ids mid labels"
proof -
  let ?f = "\<lambda>(i, label). and_then (label_new label) (\<lambda>l. Ok (outcome_new (ids i) mid l price_zero))
    :: (outcome, domain_error) result"
  have one: "?f (i, l) = Ok oc \<longleftrightarrow> valid_label l \<and> oc = outcome_new (ids i) mid (OutcomeLabel (trim l)) price_zero"
    for i l oc
    by (auto simp: and_then_eq_Ok label_new_Ok valid_label_def)
  have "collect_results (map ?f (enumerate n ls)) = Ok os \<longleftrightarrow> (\<forall>l\<in>set ls. valid_label l)
      \<and> os = map (\<lambda>(i, l). outcome_new (ids i) mid (OutcomeLabel (trim l)) price_zero) (enumerate n ls)"
    for n ls os
  proof (induction ls arbitrary: n os)
    case (Cons l ls)
    have "collect_results (map ?f (enumerate n (l # ls))) = Ok os \<longleftrightarrow>
        (\<exists>oc rest. ?f (n, l) = Ok oc \<and> collect_results (map ?f (enumerate (Suc n) ls)) = Ok rest
          \<and> os = oc # rest)"
      by (simp add: and_then_eq_Ok) blast
    then show ?case using one [of n l] Cons.IH [of "Suc n"] by auto
  qed auto
  then show ?thesis by (simp add: new_outcomes_def fresh_outcomes_def)
qed

lemma new_outcomes_Err:
  assumes "\<exists>l\<in>set labels. \<not> valid_label l"
  shows "\<exists>e. new_outcomes ids mid labels = Err (Validation e)"
proof -
  let ?f = "\<lambda>(i, label). and_then (label_new label) (\<lambda>l. Ok (outcome_new (ids i) mid l price_zero))
    :: (outcome, domain_error) result"
  have bad: "\<exists>e. label_new l = Err (Validation e)" if "\<not> valid_label l" for l
    using that by (auto simp: label_new_def valid_label_def Let_def)
  have good: "\<exists>v. label_new l = Ok v" if "valid_label l" for l
    using that by (auto simp: label_new_Ok valid_label_def)
  have "\<exists>e. collect_results (map ?f (enumerate n ls)) = Err (Validation e)"
    if "\<exists>l\<in>set ls. \<not> valid_label l" for n ls
    using that
  proof (induction ls arbitrary: n)
    case (Cons l ls)
    show ?case
    proof (cases "valid_label l")
      case True
      then obtain v e where "label_new l = Ok v"
          "collect_results (map ?f (enumerate (Suc n) ls)) = Err (Validation e)"
        using good Cons by force
      then show ?thesis by simp
    next
      case False
      then show ?thesis using bad by force
    qed
  qed simp
  then show ?thesis using assms by (simp add: new_outcomes_def)
qed

lemma store_outcomes:
  fixes s :: "'z world"
  shows "(for_each (\<lambda>oc. writes (\<lambda>s. s\<lparr>outcomes := outcomes s @ [oc],
      price_points := price_points s @ [price_point_new now (o_id oc) (o_current_price oc)]\<rparr>)) os
      :: ('z world, unit, repo_error) cmd) s
    = (Ok (), s\<lparr>outcomes := outcomes s @ os, price_points := price_points s
        @ map (\<lambda>oc. price_point_new now (o_id oc) (o_current_price oc)) os\<rparr>)"
  by (induction os arbitrary: s) (simp_all add: cmd_simps)

lemma mem_market_create_eq:
  "mem_market_create now m os s = (Ok (), s\<lparr>markets := markets s @ [m], outcomes := outcomes s @ os,
     price_points := price_points s @ map (\<lambda>oc. price_point_new now (o_id oc) (o_current_price oc)) os\<rparr>)"
  by (simp add: mem_market_create_def cmd_simps store_outcomes)

abbreviation mem_create_market where
  "mem_create_market lc \<equiv> create_market (mem_market_repo lc)"

lemma fresh_outcomes_fields:
  "length (fresh_outcomes ids mid labels) = length labels"
  "map o_label (fresh_outcomes ids mid labels) = map (\<lambda>l. OutcomeLabel (trim l)) labels"
  "map o_id (fresh_outcomes ids mid labels) = map (\<lambda>i. OutcomeId (ids i)) [0..<length labels]"
  "oc \<in> set (fresh_outcomes ids mid labels) \<Longrightarrow> o_market_id oc = mid \<and> o_volume oc = 0
     \<and> price_wf (o_current_price oc)"
proof -
  show "map o_label (fresh_outcomes ids mid labels) = map (\<lambda>l. OutcomeLabel (trim l)) labels"
    by (rule nth_equalityI)
      (auto simp: fresh_outcomes_def outcome_new_def nth_enumerate_eq)
  show "map o_id (fresh_outcomes ids mid labels) = map (\<lambda>i. OutcomeId (ids i)) [0..<length labels]"
    by (rule nth_equalityI) (auto simp: fresh_outcomes_def outcome_new_def nth_enumerate_eq)
  show "oc \<in> set (fresh_outcomes ids mid labels) \<Longrightarrow> o_market_id oc = mid \<and> o_volume oc = 0
     \<and> price_wf (o_current_price oc)"
    by (auto simp: fresh_outcomes_def outcome_new_def price_zero_def price_wf_def price_scale_def)
qed (simp add: fresh_outcomes_def)

lemma fresh_total: "sum_list (map o_volume (fresh_outcomes ids mid labels)) = 0"
proof -
  have "map o_volume (fresh_outcomes ids mid labels) = map (\<lambda>_. 0) (fresh_outcomes ids mid labels)"
    using fresh_outcomes_fields(4) by (intro map_cong) auto
  then show ?thesis by (metis sum_list_0)
qed

lemma fresh_volumes:
  "int (length labels) \<le> i64_max \<Longrightarrow> volumes_ok (fresh_outcomes ids mid labels)"
  using fresh_outcomes_fields fresh_total [of ids mid labels] by (auto simp: volumes_ok_def i64_max_def)

text \<open>The even split: equal shares, the remainder as single ticks to the first outcomes.\<close>

lemma fresh_prices:
  assumes "labels \<noteq> []" "i \<le> j" "j < length labels"
  shows "let p = \<lambda>k. as_ten_thousandths (o_current_price (priced (fresh_outcomes ids mid labels) ! k)) in
    p j \<le> p i \<and> p i \<le> p j + 1 \<and> 10000 div int (length labels) \<le> p j"
proof -
  let ?os = "fresh_outcomes ids mid labels"
  have "share_of ?os oc = 10000 div int (length labels)" for oc
    by (simp add: share_of_def Let_def price_scale_def fresh_outcomes_fields fresh_total)
  then show ?thesis using assms fresh_outcomes_fields(1) by (auto simp: nth_priced Let_def)
qed

lemma ledger_create_wf:
  assumes wf: "ledger_wf L" and mid: "lg_markets L mid = None" "m_id m = mid"
    and new: "m_total_volume m = 0" "m_participants_count m = 0" "m_status m = Open"
      "m_resolved_outcome_id m = None"
    and os: "distinct (map o_id os)" "o_id ` set os \<inter> o_id ` set (lg_outcomes L) = {}"
      "\<forall>oc\<in>set os. o_market_id oc = mid \<and> o_volume oc = 0 \<and> price_wf (o_current_price oc)" "board_ok os"
    and free: "\<forall>oc\<in>set (lg_outcomes L). o_market_id oc \<noteq> mid"
  shows "ledger_wf (L\<lparr>lg_markets := (lg_markets L)(mid \<mapsto> m), lg_outcomes := lg_outcomes L @ os\<rparr>)"
proof -
  have bets: "bet_ok (lg_users L) (lg_markets L) (lg_outcomes L) b" if "b \<in> set (lg_bets L)" for b
    using wf that by (simp add: ledger_wf_def)
  then have unused: "b_market_id b \<noteq> mid" "b_outcome_id b \<notin> o_id ` set os" if "b \<in> set (lg_bets L)" for b
    using that mid os(2) by (force simp: bet_ok_def)+
  then have none: "staked (\<lambda>b. b_market_id b = mid) (lg_bets L) = 0" "bettors mid (lg_bets L) = {}"
    by (auto simp: staked_def bettors_def cong: filter_cong)
  have vol: "sat_i64 0 = 0" "wrap_i32 0 = 0"
    by (simp_all add: sat_i64_def i64_min_def i64_max_def wrap_i32_def)
  have "market_ok (lg_bets L) (lg_outcomes L @ os) i m'" if "((lg_markets L)(mid \<mapsto> m)) i = Some m'" for i m'
    using that wf new mid(2) none vol unused
    by (cases "i = mid") (fastforce simp: market_ok_def ledger_wf_def)+
  moreover have "outcome_ok (lg_bets L) oc" if "oc \<in> set (lg_outcomes L @ os)" for oc
  proof (cases "oc \<in> set os")
    case True
    have "b_outcome_id b \<noteq> o_id oc" if "b \<in> set (lg_bets L)" for b
      using unused(2) [OF that] True by auto
    then have "staked (\<lambda>b. b_outcome_id b = o_id oc) (lg_bets L) = 0"
      by (simp add: staked_def cong: filter_cong)
    then show ?thesis using True os(3) vol by (simp add: outcome_ok_def)
  next
    case False
    then show ?thesis using that wf by (simp add: ledger_wf_def)
  qed
  moreover have "bet_ok (lg_users L) ((lg_markets L)(mid \<mapsto> m)) (lg_outcomes L @ os) b"
    if "b \<in> set (lg_bets L)" for b
    using bets [OF that] by (auto simp: bet_ok_def)
  moreover have "board_ok (market_outcomes i (lg_outcomes L @ os))" for i
  proof (cases "i = mid")
    case True
    then have "market_outcomes i (lg_outcomes L @ os) = os"
      using free os(3) by (simp add: market_outcomes_def)
    then show ?thesis using os(4) by simp
  next
    case False
    then have "market_outcomes i (lg_outcomes L @ os) = market_outcomes i (lg_outcomes L)"
      using os(3) by (simp add: market_outcomes_def)
    then show ?thesis using wf by (simp add: ledger_wf_def)
  qed
  ultimately show ?thesis using wf os(1,2) by (auto simp: ledger_wf_def)
qed

lemma create_market_run:
  fixes s :: "'z world"
  assumes ok: "books_ok s" and admin: "actor_role actor = RAdmin"
    and labels: "nm_outcomes input = labels" "2 \<le> length labels" "int (length labels) \<le> i64_max"
      "\<forall>l\<in>set labels. trim l \<noteq> [] \<and> length (trim l) \<le> 100"
    and title: "trim (nm_title input) \<noteq> []" "length (trim (nm_title input)) \<le> 200"
    and fresh: "lookup_market s (MarketId fresh) = None"
      "\<forall>oc\<in>set (outcomes s). o_market_id oc \<noteq> MarketId fresh"
    and ids: "distinct (map ids [0..<length labels])"
      "\<forall>i<length labels. OutcomeId (ids i) \<notin> o_id ` set (outcomes s)"
  shows "\<exists>m os t. mem_create_market lc clock fresh ids actor input s
      = (Ok \<lparr>mv_market = m, mv_outcomes = os\<rparr>, t)
    \<and> m = market_new fresh (clock 0) (MarketTitle (trim (nm_title input))) (nm_description input)
        (nm_category input) (nm_closes_at input)
    \<and> markets t = markets s @ [m] \<and> outcomes t = outcomes s @ os
    \<and> price_points t = price_points s
        @ map (\<lambda>oc. price_point_new (clock 1) (o_id oc) (o_current_price oc)) os
    \<and> map o_label os = map (\<lambda>l. OutcomeLabel (trim l)) labels
    \<and> map o_id os = map (\<lambda>i. OutcomeId (ids i)) [0..<length labels]
    \<and> (\<forall>oc\<in>set os. o_market_id oc = MarketId fresh \<and> o_volume oc = 0)
    \<and> sum_list (map (\<lambda>oc. as_ten_thousandths (o_current_price oc)) os) = 10000
    \<and> (\<forall>i j. i \<le> j \<and> j < length os \<longrightarrow>
        as_ten_thousandths (o_current_price (os ! j)) \<le> as_ten_thousandths (o_current_price (os ! i))
        \<and> as_ten_thousandths (o_current_price (os ! i)) \<le> as_ten_thousandths (o_current_price (os ! j)) + 1)
    \<and> books_ok t"
proof -
  let ?m = "market_new fresh (clock 0) (MarketTitle (trim (nm_title input))) (nm_description input)
        (nm_category input) (nm_closes_at input)"
  let ?f = "fresh_outcomes ids (MarketId fresh) labels"
  let ?os = "priced ?f"
  let ?t = "s\<lparr>markets := markets s @ [?m], outcomes := outcomes s @ ?os, price_points := price_points s
    @ map (\<lambda>oc. price_point_new (clock 1) (o_id oc) (o_current_price oc)) ?os\<rparr>"
  have ne: "labels \<noteq> []" using labels(2) by auto
  then have fne: "?f \<noteq> []" using fresh_outcomes_fields(1) [of ids "MarketId fresh" labels] by auto
  note vols = fresh_volumes [OF labels(3), of ids "MarketId fresh"]
  have rec: "recalculate_prices ?f = (Ok ?os :: (outcome list, app_error) result)"
    by (rule recalculate_eq [OF vols fne])
  have "new_outcomes ids (MarketId fresh) labels = Ok ?f"
    using labels(4) by (simp add: new_outcomes_Ok valid_label_def label_max_def)
  moreover have "title_new (nm_title input) = Ok (MarketTitle (trim (nm_title input)))"
    using title by (simp add: title_new_Ok title_max_def)
  moreover have mid: "m_id ?m = MarketId fresh" by (simp add: market_new_def)
  ultimately have run: "mem_create_market lc clock fresh ids actor input s
      = (Ok \<lparr>mv_market = ?m, mv_outcomes = ?os\<rparr>, ?t)"
    using admin labels(1,2) rec
    by (simp add: create_market_def can_manage_markets_def bind_cmd_def lift_def seq_cmd_def conv_def
        ret_def mem_market_repo_def mem_market_create_eq Let_def)
  have labs: "map o_label ?os = map (\<lambda>l. OutcomeLabel (trim l)) labels"
    and idl: "map o_id ?os = map (\<lambda>i. OutcomeId (ids i)) [0..<length labels]"
    by (simp_all add: priced_frame fresh_outcomes_fields)
  have vol: "map (\<lambda>oc. (o_market_id oc, o_volume oc)) ?os = map (\<lambda>oc. (o_market_id oc, o_volume oc)) ?f"
    by (rule priced_frame) simp
  have own: "o_market_id oc = MarketId fresh \<and> o_volume oc = 0" if "oc \<in> set ?os" for oc
  proof -
    have "(o_market_id oc, o_volume oc) \<in> set (map (\<lambda>oc. (o_market_id oc, o_volume oc)) ?os)"
      using that by auto
    then show ?thesis unfolding vol using fresh_outcomes_fields(4) by auto
  qed
  have sum: "sum_list (map (\<lambda>oc. as_ten_thousandths (o_current_price oc)) ?os) = 10000"
    using priced_sum [OF vols fne] by (simp add: price_scale_def)
  have even: "as_ten_thousandths (o_current_price (?os ! j)) \<le> as_ten_thousandths (o_current_price (?os ! i))
      \<and> as_ten_thousandths (o_current_price (?os ! i)) \<le> as_ten_thousandths (o_current_price (?os ! j)) + 1"
    if "i \<le> j \<and> j < length ?os" for i j
    using fresh_prices [OF ne, of i j ids "MarketId fresh"] that fresh_outcomes_fields(1) by (simp add: Let_def)
  have rp: "repriced ?f ?os"
    by (rule recalculate_repriced [OF rec]) (use fresh_outcomes_fields(4) in blast)
  have look: "lookup_market ?t = (lookup_market s)(MarketId fresh \<mapsto> ?m)"
    using fresh(1) mid by (auto simp: lookup_market_def fun_eq_iff find_append split: option.splits)
  have "ledger_wf ((ledger_of s)\<lparr>lg_markets := (lg_markets (ledger_of s))(MarketId fresh \<mapsto> ?m),
      lg_outcomes := lg_outcomes (ledger_of s) @ ?os\<rparr>)"
  proof (rule ledger_create_wf)
    show "ledger_wf (ledger_of s)" using ok by simp
    show "distinct (map o_id ?os)" using ids(1) by (simp add: idl distinct_map inj_on_def)
    have "o_id ` set ?os = (\<lambda>i. OutcomeId (ids i)) ` {0..<length labels}"
      using arg_cong [OF idl, of set] by simp
    then show "o_id ` set ?os \<inter> o_id ` set (lg_outcomes (ledger_of s)) = {}" using ids(2) by auto
    show "\<forall>oc\<in>set ?os. o_market_id oc = MarketId fresh \<and> o_volume oc = 0 \<and> price_wf (o_current_price oc)"
      using own rp by (simp add: repriced_def)
    show "board_ok ?os" using rp by (simp add: repriced_def)
  qed (use fresh in \<open>simp_all add: market_new_def\<close>)
  moreover have "ledger_of ?t = (ledger_of s)\<lparr>lg_markets := (lg_markets (ledger_of s))(MarketId fresh \<mapsto> ?m),
      lg_outcomes := lg_outcomes (ledger_of s) @ ?os\<rparr>"
    using look by (simp add: ledger_of_def lookup_user_def)
  moreover have "mem_inv ?t"
    using ok fresh(1) mid by (auto simp: mem_inv_def users_wf_def lookup_market_def find_None_iff)
  ultimately have "books_ok ?t" by simp
  then show ?thesis
    by (intro exI [of _ ?m] exI [of _ ?os] exI [of _ ?t]) (use run labs idl own sum even in simp)
qed

text \<open>C15: An administrator's valid market is created whole: the market is stored last, open, with
  no volume and no participants; its outcomes are stored last in the order and under the trimmed
  labels given, each with one price point; their prices sum to exactly 10000, no price differs
  from another by more than one tick, and an earlier outcome is never cheaper than a later one.
  The books stay in order.\<close>

theorem create_market_effect:
  fixes s :: "'z world"
  assumes ok: "books_ok s" and admin: "actor_role actor = RAdmin"
    and labels: "nm_outcomes input = labels" "2 \<le> length labels" "int (length labels) \<le> i64_max"
      "\<forall>l\<in>set labels. trim l \<noteq> [] \<and> length (trim l) \<le> 100"
    and title: "trim (nm_title input) \<noteq> []" "length (trim (nm_title input)) \<le> 200"
    and fresh: "lookup_market s (MarketId fresh) = None"
      "\<forall>oc\<in>set (outcomes s). o_market_id oc \<noteq> MarketId fresh"
    and ids: "distinct (map ids [0..<length labels])"
      "\<forall>i<length labels. OutcomeId (ids i) \<notin> o_id ` set (outcomes s)"
  shows "\<exists>m os t. mem_create_market lc clock fresh ids actor input s
      = (Ok \<lparr>mv_market = m, mv_outcomes = os\<rparr>, t)
    \<and> m = market_new fresh (clock 0) (MarketTitle (trim (nm_title input))) (nm_description input)
        (nm_category input) (nm_closes_at input)
    \<and> markets t = markets s @ [m] \<and> outcomes t = outcomes s @ os
    \<and> price_points t = price_points s
        @ map (\<lambda>oc. price_point_new (clock 1) (o_id oc) (o_current_price oc)) os
    \<and> map o_label os = map (\<lambda>l. OutcomeLabel (trim l)) labels
    \<and> map o_id os = map (\<lambda>i. OutcomeId (ids i)) [0..<length labels]
    \<and> (\<forall>oc\<in>set os. o_market_id oc = MarketId fresh \<and> o_volume oc = 0)
    \<and> sum_list (map (\<lambda>oc. as_ten_thousandths (o_current_price oc)) os) = 10000
    \<and> (\<forall>i j. i \<le> j \<and> j < length os \<longrightarrow>
        as_ten_thousandths (o_current_price (os ! j)) \<le> as_ten_thousandths (o_current_price (os ! i))
        \<and> as_ten_thousandths (o_current_price (os ! i)) \<le> as_ten_thousandths (o_current_price (os ! j)) + 1)
    \<and> books_ok t"
  using assms by (rule create_market_run)

lemma create_market_effect_witness:
  "\<exists>v t. mem_create_market (\<lambda>_ _. []) (\<lambda>_. 5) 8 (\<lambda>i. 10 + of_nat i) \<lparr>actor_user_id = UserId 2, actor_role = RAdmin\<rparr>
      \<lparr>nm_title = lit '' Snow? '', nm_description = None, nm_category = None, nm_closes_at = None,
        nm_outcomes = [lit ''Yes'', lit '' No'', lit ''Maybe'']\<rparr> backed_world = (Ok v, t)
     \<and> map o_label (mv_outcomes v) = [OutcomeLabel (lit ''Yes''), OutcomeLabel (lit ''No''), OutcomeLabel (lit ''Maybe'')]
     \<and> length (markets t) = 2"
proof -
  let ?a = "\<lparr>actor_user_id = UserId 2, actor_role = RAdmin\<rparr>"
  let ?in = "\<lparr>nm_title = lit '' Snow? '', nm_description = None, nm_category = None, nm_closes_at = None,
        nm_outcomes = [lit ''Yes'', lit '' No'', lit ''Maybe'']\<rparr>"
  have t: "trim (lit '' Snow? '') = lit ''Snow?''" "trim (lit ''Yes'') = lit ''Yes''"
      "trim (lit '' No'') = lit ''No''" "trim (lit ''Maybe'') = lit ''Maybe''"
    by (simp_all add: trim_def is_whitespace_def lit_def)
  have lab: "\<forall>l\<in>set (nm_outcomes ?in). trim l \<noteq> [] \<and> length (trim l) \<le> 100"
    and ti: "trim (nm_title ?in) \<noteq> []" "length (trim (nm_title ?in)) \<le> 200"
    by (simp_all add: t) (simp_all add: lit_def)
  have len: "2 \<le> length (nm_outcomes ?in)" "int (length (nm_outcomes ?in)) \<le> i64_max"
    by (simp_all add: i64_max_def)
  have fr: "lookup_market backed_world (MarketId 8) = None"
      "\<forall>oc\<in>set (outcomes backed_world). o_market_id oc \<noteq> MarketId 8"
    by (simp add: backed_lookup_market) (simp add: backed_world_def sample_outcome_def outcome_new_def)
  have ids: "distinct (map (\<lambda>i. 10 + of_nat i :: uuid) [0..<length (nm_outcomes ?in)])"
      "\<forall>i<length (nm_outcomes ?in). OutcomeId (10 + of_nat i) \<notin> o_id ` set (outcomes backed_world)"
    by (simp add: upt_rec)
      (auto simp: backed_world_def sample_outcome_def outcome_new_def less_Suc_eq numeral_3_eq_3)
  from create_market_effect [OF backed_books _ refl len lab ti fr ids, of ?a "\<lambda>_ _. []" "\<lambda>_. 5"]
  obtain m os t' where "mem_create_market (\<lambda>_ _. []) (\<lambda>_. 5) 8 (\<lambda>i. 10 + of_nat i) ?a ?in backed_world
        = (Ok \<lparr>mv_market = m, mv_outcomes = os\<rparr>, t')" "markets t' = markets backed_world @ [m]"
      "map o_label os = map (\<lambda>l. OutcomeLabel (trim l)) (nm_outcomes ?in)"
    by auto
  then show ?thesis using t by (simp add: backed_world_def)
qed

text \<open>What \<open>CreateMarket\<close> refuses, in this order and without storing anything: a caller who
  is not an administrator, fewer than two outcomes, a blank or overlong title, and a blank or
  overlong outcome label.\<close>

theorem create_market_refusals:
  "(actor_role actor \<noteq> RAdmin \<longrightarrow> mem_create_market lc clock fresh ids actor input s =
      (Err (Forbidden (msg ''admin role required'')), s))
   \<and> (actor_role actor = RAdmin \<longrightarrow> length (nm_outcomes input) < 2 \<longrightarrow>
      mem_create_market lc clock fresh ids actor input s =
        (Err (Domain (Validation (msg ''a market needs at least two outcomes''))), s))
   \<and> (actor_role actor = RAdmin \<longrightarrow> 2 \<le> length (nm_outcomes input) \<longrightarrow>
      trim (nm_title input) = [] \<or> 200 < length (trim (nm_title input)) \<or>
      (\<exists>l\<in>set (nm_outcomes input). trim l = [] \<or> 100 < length (trim l)) \<longrightarrow>
      (\<exists>e. mem_create_market lc clock fresh ids actor input s = (Err (Domain (Validation e)), s)))"
proof (intro conjI impI)
  show "actor_role actor \<noteq> RAdmin \<Longrightarrow> mem_create_market lc clock fresh ids actor input s =
      (Err (Forbidden (msg ''admin role required'')), s)"
    by (simp add: create_market_def can_manage_markets_def admin_required_def fail_def)
  show "actor_role actor = RAdmin \<Longrightarrow> length (nm_outcomes input) < 2 \<Longrightarrow>
      mem_create_market lc clock fresh ids actor input s =
        (Err (Domain (Validation (msg ''a market needs at least two outcomes''))), s)"
    by (simp add: create_market_def can_manage_markets_def fail_def)
  assume a: "actor_role actor = RAdmin" "2 \<le> length (nm_outcomes input)"
    and bad: "trim (nm_title input) = [] \<or> 200 < length (trim (nm_title input)) \<or>
      (\<exists>l\<in>set (nm_outcomes input). trim l = [] \<or> 100 < length (trim l))"
  show "\<exists>e. mem_create_market lc clock fresh ids actor input s = (Err (Domain (Validation e)), s)"
  proof (cases "title_new (nm_title input)")
    case (Ok t)
    then have "\<exists>l\<in>set (nm_outcomes input). \<not> valid_label l"
      using bad by (force simp: title_new_Ok title_max_def valid_label_def label_max_def)
    then obtain e where "new_outcomes ids (MarketId fresh) (nm_outcomes input) = Err (Validation e)"
      using new_outcomes_Err by blast
    then show ?thesis using a Ok
      by (simp add: create_market_def can_manage_markets_def bind_cmd_def lift_def Let_def market_new_def)
  next
    case (Err e)
    then have "\<exists>e'. e = Validation e'" by (auto simp: title_new_def Let_def split: if_splits)
    then show ?thesis using a Err
      by (auto simp: create_market_def can_manage_markets_def bind_cmd_def lift_def)
  qed simp
qed

lemma create_market_refusals_witness:
  "\<exists>e. mem_create_market (\<lambda>_ _. []) (\<lambda>_. 5) 8 (\<lambda>i. of_nat i) \<lparr>actor_user_id = UserId 2, actor_role = RAdmin\<rparr>
      \<lparr>nm_title = [], nm_description = None, nm_category = None, nm_closes_at = None,
        nm_outcomes = [lit ''Yes'', lit ''No'']\<rparr> backed_world = (Err (Domain (Validation e)), backed_world)"
  using create_market_refusals [of "\<lparr>actor_user_id = UserId 2, actor_role = RAdmin\<rparr>" "\<lambda>_ _. []" "\<lambda>_. 5" 8 of_nat
      "\<lparr>nm_title = [], nm_description = None, nm_category = None, nm_closes_at = None,
        nm_outcomes = [lit ''Yes'', lit ''No'']\<rparr>" backed_world]
  by (simp add: trim_def)

end
