(* ===== verification/Listings.thy ===== *)
theory Listings
  imports Catalogue "HOL-Library.Multiset"
begin

text \<open>
  What the read-only use cases answer over the in-memory repositories: the market listing with
  its filter, order and page, the featured market, and the enriched bet listings.
\<close>

section \<open>Grouping outcomes\<close>

definition grouped :: "outcome list \<Rightarrow> (market_id \<times> outcome list) list \<Rightarrow> market_id \<Rightarrow> outcome list" where
  "grouped os groups mid = (case map_of groups mid of None \<Rightarrow> [] | Some g \<Rightarrow> g)
     @ filter (\<lambda>oc. o_market_id oc = mid) os"

lemma group_loop:
  "(case map_of (fold push_group os groups) mid of None \<Rightarrow> [] | Some g \<Rightarrow> g) = grouped os groups mid"
proof (induction os arbitrary: groups)
  case (Cons oc os)
  have "grouped os (push_group oc groups) mid = grouped (oc # os) groups mid"
    by (auto simp: grouped_def push_group_def update_conv' split: option.splits)
  then show ?case using Cons by simp
qed (simp add: grouped_def)

lemma group_by_market_lookup:
  "(case map_of (group_by_market os) mid of None \<Rightarrow> [] | Some g \<Rightarrow> g)
     = filter (\<lambda>oc. o_market_id oc = mid) os"
  unfolding group_by_market_def group_loop by (simp add: grouped_def)

text \<open>Taking each group out of the map loses nothing as long as no market is listed twice.\<close>

lemma attach_outcomes_eq:
  assumes "distinct (map m_id ms)"
  shows "attach_outcomes ms groups = map (\<lambda>m. \<lparr>mv_market = m, mv_outcomes =
    (case map_of groups (m_id m) of None \<Rightarrow> [] | Some os \<Rightarrow> os)\<rparr>) ms"
  using assms
proof (induction ms arbitrary: groups)
  case (Cons m ms)
  have "map_of (AList.delete (m_id m) groups) (m_id x) = map_of groups (m_id x)" if "x \<in> set ms" for x
  proof -
    have "m_id x \<noteq> m_id m" using Cons.prems that by (auto simp: image_iff)
    then show ?thesis by (simp add: delete_conv')
  qed
  then show ?case using Cons by simp
qed simp

section \<open>Pages and orders\<close>

definition before :: "market_sort \<Rightarrow> market \<Rightarrow> market \<Rightarrow> bool" where
  "before order a b \<longleftrightarrow> (case order of
     Popular \<Rightarrow> popularity b \<le> popularity a
   | Newest \<Rightarrow> m_created_at b \<le> m_created_at a
   | Volume \<Rightarrow> m_total_volume b \<le> m_total_volume a
   | ClosingSoon \<Rightarrow> (case m_closes_at b of None \<Rightarrow> True
       | Some y \<Rightarrow> (case m_closes_at a of None \<Rightarrow> False | Some x \<Rightarrow> x \<le> y)))"

lemma sorted_wrt_key: "sorted_wrt (\<lambda>a b. k a \<le> k b) (sort_key k xs)"
  by (simp add: sorted_wrt_map [symmetric] sorted_sort_key)

lemma sort_markets_props:
  "mset (sort_markets order ms) = mset ms" "sorted_wrt (before order) (sort_markets order ms)"
proof -
  show "mset (sort_markets order ms) = mset ms" by (cases order) simp_all
  have "before order = (\<lambda>a b. closing_key a \<le> closing_key b)" if "order = ClosingSoon"
    using that by (auto simp: fun_eq_iff before_def closing_key_def less_eq_prod_def split: option.splits)
  then show "sorted_wrt (before order) (sort_markets order ms)"
    using sorted_wrt_key [of closing_key ms] sorted_wrt_key [of "\<lambda>m. - popularity m" ms]
      sorted_wrt_key [of "\<lambda>m. - m_created_at m" ms] sorted_wrt_key [of "\<lambda>m. - m_total_volume m" ms]
    by (cases order) (simp_all add: before_def [abs_def])
qed

lemma distinct_page: "distinct (map k xs) \<Longrightarrow> distinct (map k (page off lim xs))"
  by (simp add: page_def take_map [symmetric] drop_map [symmetric])

lemma set_page: "set (page off lim xs) \<subseteq> set xs"
  unfolding page_def by (meson set_drop_subset set_take_subset subset_trans)

section \<open>The market listing\<close>

text \<open>A market listing answers exactly the asked page: of the stored markets that match the
  status, the category and the title search, in the asked order, the \<open>limit\<close> after the first
  \<open>offset\<close> (both read as 0 when negative), each with all of its outcomes in stored order.\<close>

theorem list_markets_exact:
  assumes "mem_inv s"
  shows "\<exists>ranked. list_markets (mem_market_repo lc) f s =
      (Ok (map (\<lambda>m. \<lparr>mv_market = m, mv_outcomes = filter (\<lambda>oc. o_market_id oc = m_id m) (outcomes s)\<rparr>)
        (take (nat (mf_limit f)) (drop (nat (mf_offset f)) ranked))), s)
    \<and> mset ranked = filter_mset (market_matches lc f) (mset (markets s))
    \<and> sorted_wrt (before (mf_sort f)) ranked"
proof -
  let ?r = "sort_markets (mf_sort f) (filter (market_matches lc f) (markets s))"
  let ?p = "page (mf_offset f) (mf_limit f) ?r"
  have "distinct (map m_id (filter (market_matches lc f) (markets s)))"
    using assms by (simp add: mem_inv_def distinct_map_filter)
  then have "distinct (map m_id ?r)"
    using mset_eq_imp_distinct_iff [of "map m_id ?r"] sort_markets_props(1) by (metis mset_map)
  then have d: "distinct (map m_id ?p)" by (rule distinct_page)
  have own: "filter (\<lambda>oc. o_market_id oc = m_id m) (filter (\<lambda>oc. o_market_id oc \<in> set (map m_id ?p)) (outcomes s))
      = filter (\<lambda>oc. o_market_id oc = m_id m) (outcomes s)" if "m \<in> set ?p" for m
    unfolding filter_filter using that by (intro filter_cong) auto
  have nat0: "nat (max x 0) = nat x" for x by (simp add: max_def)
  have "list_markets (mem_market_repo lc) f s = (Ok (map (\<lambda>m. \<lparr>mv_market = m,
      mv_outcomes = filter (\<lambda>oc. o_market_id oc = m_id m) (outcomes s)\<rparr>) ?p), s)"
    using own
    by (simp add: list_markets_def mem_simps cmd_simps attach_outcomes_eq [OF d]
        group_by_market_lookup del: set_map)
  then show ?thesis
    by (intro exI [of _ ?r]) (simp add: sort_markets_props page_def nat0)
qed

lemma list_markets_exact_witness:
  "\<exists>ranked. list_markets (mem_market_repo (\<lambda>_ _. [])) market_filter_default backed_world =
      (Ok (map (\<lambda>m. \<lparr>mv_market = m, mv_outcomes = filter (\<lambda>oc. o_market_id oc = m_id m) (outcomes backed_world)\<rparr>)
        (take 20 ranked)), backed_world)
    \<and> mset ranked = mset (markets backed_world)"
proof -
  have "mem_inv backed_world" using backed_books by simp
  from list_markets_exact [OF this, of "\<lambda>_ _. []" market_filter_default]
  obtain ranked where "list_markets (mem_market_repo (\<lambda>_ _. [])) market_filter_default backed_world =
      (Ok (map (\<lambda>m. \<lparr>mv_market = m, mv_outcomes = filter (\<lambda>oc. o_market_id oc = m_id m) (outcomes backed_world)\<rparr>)
        (take (nat (mf_limit market_filter_default)) (drop (nat (mf_offset market_filter_default)) ranked))), backed_world)"
      "mset ranked = filter_mset (market_matches (\<lambda>_ _. []) market_filter_default) (mset (markets backed_world))"
    by blast
  moreover have "market_matches (\<lambda>_ _. []) market_filter_default = (\<lambda>_. True)"
    by (simp add: market_matches_def market_filter_default_def fun_eq_iff)
  moreover have "nat (mf_limit market_filter_default) = 20" "nat (mf_offset market_filter_default) = 0"
    by (simp_all add: market_filter_default_def)
  ultimately show ?thesis by (intro exI [of _ ranked]) simp
qed

section \<open>The featured market\<close>

lemma max_by_key_props:
  "(max_by_key k xs = None \<longleftrightarrow> xs = []) \<and>
   (\<forall>x. max_by_key k xs = Some x \<longrightarrow> x \<in> set xs \<and> (\<forall>y\<in>set xs. k y \<le> k x))"
  by (induction xs) (fastforce split: option.splits if_splits)+

text \<open>The featured market is an open market no other open market outranks in volume plus
  participants, with its own outcomes; only when no market is open is there none, and then the
  answer is not found.\<close>

theorem featured_market_exact:
  "(\<exists>v. get_featured_market (mem_market_repo lc) s = (Ok v, s)
      \<and> mv_market v \<in> set (markets s) \<and> m_status (mv_market v) = Open
      \<and> (\<forall>m\<in>set (markets s). m_status m = Open \<longrightarrow> popularity m \<le> popularity (mv_market v))
      \<and> mv_outcomes v = filter (\<lambda>oc. o_market_id oc = m_id (mv_market v)) (outcomes s))
   \<or> ((\<forall>m\<in>set (markets s). m_status m \<noteq> Open)
      \<and> get_featured_market (mem_market_repo lc) s = (Err (NotFound (msg ''featured market'')), s))"
proof (cases "max_by_key popularity (filter (\<lambda>m. m_status m = Open) (markets s))")
  case None
  then have "filter (\<lambda>m. m_status m = Open) (markets s) = []" using max_by_key_props by metis
  then have "\<forall>m\<in>set (markets s). m_status m \<noteq> Open" by (simp add: filter_empty_conv)
  then show ?thesis using None
    by (simp add: get_featured_market_def mem_simps cmd_simps)
next
  case (Some m)
  then show ?thesis
    using max_by_key_props [of popularity "filter (\<lambda>m. m_status m = Open) (markets s)"]
    by (simp add: get_featured_market_def mem_simps cmd_simps)
qed

lemma featured_market_exact_witness:
  "\<exists>v. get_featured_market (mem_market_repo (\<lambda>_ _. [])) backed_world = (Ok v, backed_world)
     \<and> length (mv_outcomes v) = 2"
proof -
  have "\<exists>m\<in>set (markets backed_world). m_status m = Open"
    by (simp add: backed_world_def sample_market_def market_new_def)
  then obtain v where v: "get_featured_market (mem_market_repo (\<lambda>_ _. [])) backed_world = (Ok v, backed_world)"
      "mv_market v \<in> set (markets backed_world)"
      "mv_outcomes v = filter (\<lambda>oc. o_market_id oc = m_id (mv_market v)) (outcomes backed_world)"
    using featured_market_exact [of "\<lambda>_ _. []" backed_world] by blast
  then have "m_id (mv_market v) = MarketId 1"
    by (simp add: backed_world_def sample_market_def market_new_def)
  then show ?thesis using v by (simp add: backed_world_def sample_outcome_def outcome_new_def)
qed

section \<open>Enriched bets\<close>

definition name_of :: "'z world \<Rightarrow> user_id \<Rightarrow> str option" where
  "name_of s i = map_option (\<lambda>u. username_as_str (u_username u)) (lookup_user s i)"

lemma usernames_step:
  "map_of cache i = None \<Longrightarrow> lookup_user s i = Some u \<Longrightarrow>
   resolve_usernames mem_user_repo (i # js) cache s =
     resolve_usernames mem_user_repo js (AList.update i (username_as_str (u_username u)) cache) s"
  by (simp add: mem_simps cmd_simps lookup_user_def)

lemma usernames_loop:
  assumes "\<forall>i\<in>set is. lookup_user s i \<noteq> None"
    and "\<forall>i. map_of cache i = None \<or> map_of cache i = name_of s i"
  shows "\<exists>cache'. resolve_usernames mem_user_repo is cache s = (Ok cache', s)
    \<and> (\<forall>i. i \<in> set is \<or> map_of cache i \<noteq> None \<longrightarrow> map_of cache' i = name_of s i)"
  using assms
proof (induction "is" arbitrary: cache)
  case Nil
  then show ?case by (simp add: ret_def) (metis option.distinct(1))
next
  case (Cons i js)
  show ?case
  proof (cases "map_of cache i")
    case None
    obtain u where u: "lookup_user s i = Some u" using Cons.prems(1) by auto
    let ?c = "AList.update i (username_as_str (u_username u)) cache"
    have up: "map_of ?c = (map_of cache)(i \<mapsto> username_as_str (u_username u))" by (rule update_conv')
    have name: "name_of s i = Some (username_as_str (u_username u))" using u by (simp add: name_of_def)
    have "\<forall>j. map_of ?c j = None \<or> map_of ?c j = name_of s j"
      using Cons.prems(2) name by (simp add: up)
    then obtain c' where c': "resolve_usernames mem_user_repo js ?c s = (Ok c', s)"
        "\<forall>j. j \<in> set js \<or> map_of ?c j \<noteq> None \<longrightarrow> map_of c' j = name_of s j"
      using Cons.IH [of ?c] Cons.prems(1) by auto
    have "\<forall>j. j \<in> set (i # js) \<or> map_of cache j \<noteq> None \<longrightarrow> map_of c' j = name_of s j"
      using c'(2) by (auto simp: up)
    then show ?thesis using usernames_step [OF None u] c'(1) by metis
  next
    case (Some name)
    then have "resolve_usernames mem_user_repo (i # js) cache = resolve_usernames mem_user_repo js cache"
      by simp
    moreover obtain c' where "resolve_usernames mem_user_repo js cache s = (Ok c', s)"
        "\<forall>j. j \<in> set js \<or> map_of cache j \<noteq> None \<longrightarrow> map_of c' j = name_of s j"
      using Cons.IH [of cache] Cons.prems by auto
    ultimately show ?thesis using Some by (intro exI [of _ c']) auto
  qed
qed

text \<open>Over well-formed books the join never fails: every reference resolves.\<close>

definition enriched :: "'z world \<Rightarrow> bet \<Rightarrow> bet_view \<Rightarrow> bool" where
  "enriched s b v \<longleftrightarrow> bv_bet v = b
     \<and> (\<exists>u. lookup_user s (b_user_id b) = Some u \<and> bv_username v = username_as_str (u_username u))
     \<and> (\<exists>m. lookup_market s (b_market_id b) = Some m \<and> bv_market_title v = title_as_str (m_title m))
     \<and> (\<exists>oc\<in>set (outcomes s). o_id oc = b_outcome_id b \<and> bv_outcome_label v = label_as_str (o_label oc))
     \<and> bv_avg_price v = (if \<exists>b'\<in>set (bets s). b_user_id b' = b_user_id b
           \<and> b_outcome_id b' = b_outcome_id b \<and> b_status b' = Active
         then average_price (position_bets (b_user_id b) (b_outcome_id b) (bets s)) else b_price b)"

lemma positions_lookup:
  assumes wf: "\<forall>b\<in>set bs. bet_wf b" and len: "int (length bs) \<le> 2 ^ 49"
    and keys: "distinct keys" "(u, oc) \<in> set keys"
  shows "\<exists>ps. positions bs keys = Ok ps
    \<and> map_of (collect_map (map (\<lambda>p. ((ap_user_id p, ap_outcome_id p), ap_avg_price p)) ps)) (u, oc)
      = (if position_bets u oc bs = [] then None else Some (average_price (position_bets u oc bs)))"
proof -
  let ?mk = "\<lambda>(u, oc). \<lparr>ap_user_id = u, ap_outcome_id = oc, ap_avg_price = average_price (position_bets u oc bs)\<rparr>"
  let ?held = "filter (\<lambda>(u, oc). position_bets u oc bs \<noteq> []) keys"
  let ?k = "\<lambda>p. (ap_user_id p, ap_outcome_id p)"
  have key: "?k (?mk q) = q" for q by (cases q) simp
  have d: "distinct (map ?k (map ?mk ?held))"
    using keys(1) by (simp add: o_def key cong: map_cong)
  have "find (\<lambda>p. ?k p = (u, oc)) (map ?mk ?held)
      = (if position_bets u oc bs = [] then None else Some (?mk (u, oc)))"
  proof (cases "position_bets u oc bs = []")
    case True
    then show ?thesis using key by (auto simp: find_None_iff)
  next
    case False
    then show ?thesis using find_key_Some [OF d, of "?mk (u, oc)" "(u, oc)"] keys(2) key by force
  qed
  then show ?thesis
    using positions_eq [OF wf len, of keys] collect_keyed [OF d, of ap_avg_price "(u, oc)"] by auto
qed

lemma collect_rows:
  assumes "\<forall>b\<in>set bs. \<exists>v. f b = Ok v \<and> P b v"
  shows "\<exists>vs. collect_results (map f bs) = Ok vs \<and> list_all2 P bs vs"
  using assms
proof (induction bs)
  case (Cons b bs)
  obtain v where v: "f b = Ok v" "P b v" using Cons.prems by auto
  obtain vs where vs: "collect_results (map f bs) = Ok vs" "list_all2 P bs vs" using Cons by auto
  show ?case by (intro exI [of _ "v # vs"]) (simp add: v vs)
qed simp

lemma enrich_ok:
  assumes ok: "books_ok s" and few: "int (length (bets s)) \<le> 2 ^ 49" and bs: "set bs \<subseteq> set (bets s)"
  shows "\<exists>vs. enrich bs (mem_bet_repo events) (mem_market_repo lc) mem_user_repo s = (Ok vs, s)
    \<and> list_all2 (enriched s) bs vs"
proof -
  let ?ids = "remdups (map b_market_id bs)" and ?keys = "remdups (map (\<lambda>b. (b_user_id b, b_outcome_id b)) bs)"
  let ?ms = "filter (\<lambda>m. m_id m \<in> set ?ids) (markets s)"
  let ?os = "filter (\<lambda>oc. o_market_id oc \<in> set ?ids) (outcomes s)"
  have i: "mem_inv s" and wf: "ledger_wf (ledger_of s)" using ok by auto
  have bok: "bet_ok (lookup_user s) (lookup_market s) (outcomes s) b" if "b \<in> set bs" for b
    using wf bs that by (auto simp: ledger_wf_def)
  have bwf: "\<forall>b\<in>set (bets s). bet_wf b" using wf by (auto simp: ledger_wf_def bet_ok_def)
  have dm: "distinct (map m_id ?ms)" using i by (simp add: mem_inv_def distinct_map_filter)
  have dos: "distinct (map o_id ?os)" using wf by (simp add: ledger_wf_def distinct_map_filter)
  let ?M = "collect_map (map (\<lambda>m. (m_id m, m)) ?ms)"
  let ?O = "collect_map (map (\<lambda>oc. (o_id oc, label_as_str (o_label oc))) ?os)"
  have M: "map_of ?M (b_market_id b) = lookup_market s (b_market_id b)" if "b \<in> set bs" for b
    unfolding collect_keyed [OF dm] using that by (simp add: find_filter_key lookup_market_def option.map_ident)
  have O: "\<exists>oc\<in>set (outcomes s). o_id oc = b_outcome_id b
      \<and> map_of ?O (b_outcome_id b) = Some (label_as_str (o_label oc))" if b: "b \<in> set bs" for b
  proof -
    obtain oc where oc: "oc \<in> set (outcomes s)" "o_id oc = b_outcome_id b" "o_market_id oc = b_market_id b"
      using bok [OF b] by (auto simp: bet_ok_def)
    then have "find (\<lambda>x. o_id x = b_outcome_id b) ?os = Some oc"
      using b by (intro find_key_Some [OF dos]) auto
    then have "map_of ?O (b_outcome_id b) = Some (label_as_str (o_label oc))"
      unfolding collect_keyed [OF dos] by simp
    then show ?thesis using oc by blast
  qed
  have pos: "\<exists>ps. positions (bets s) ?keys = Ok ps" using positions_eq [OF bwf few] by auto
  then obtain ps where ps: "positions (bets s) ?keys = Ok ps" by blast
  let ?A = "collect_map (map (\<lambda>p. ((ap_user_id p, ap_outcome_id p), ap_avg_price p)) ps)"
  have A: "map_of ?A (b_user_id b, b_outcome_id b) =
      (if position_bets (b_user_id b) (b_outcome_id b) (bets s) = [] then None
       else Some (average_price (position_bets (b_user_id b) (b_outcome_id b) (bets s))))"
    if "b \<in> set bs" for b
    using positions_lookup [OF bwf few, of ?keys "b_user_id b" "b_outcome_id b"] ps that by auto
  obtain names where names: "resolve_usernames mem_user_repo (map b_user_id bs) [] s = (Ok names, s)"
      "\<forall>i. i \<in> set (map b_user_id bs) \<or> map_of [] i \<noteq> (None :: str option) \<longrightarrow> map_of names i = name_of s i"
    using usernames_loop [of "map b_user_id bs" s "[]"] bok by (auto simp: bet_ok_def)
  have row: "\<exists>v. bet_row ?M ?O ?A names b = Ok v \<and> enriched s b v" if b: "b \<in> set bs" for b
  proof -
    obtain u m where u: "lookup_user s (b_user_id b) = Some u" and m: "lookup_market s (b_market_id b) = Some m"
      using bok [OF b] by (auto simp: bet_ok_def)
    have n: "map_of names (b_user_id b) = Some (username_as_str (u_username u))"
      using names(2) b u by (simp add: name_of_def)
    have held: "position_bets (b_user_id b) (b_outcome_id b) (bets s) = [] \<longleftrightarrow>
        \<not> (\<exists>b'\<in>set (bets s). b_user_id b' = b_user_id b \<and> b_outcome_id b' = b_outcome_id b \<and> b_status b' = Active)"
      by (auto simp: position_bets_def filter_empty_conv)
    obtain oc where "oc \<in> set (outcomes s)" "o_id oc = b_outcome_id b"
        "map_of ?O (b_outcome_id b) = Some (label_as_str (o_label oc))" using O [OF b] by blast
    then show ?thesis
      using M [OF b] A [OF b] u m n held
      by (auto simp: bet_row_def enriched_def simp del: map_of_collect_map)
  qed
  obtain vs where vs: "collect_results (map (bet_row ?M ?O ?A names) bs) = Ok vs" "list_all2 (enriched s) bs vs"
    using collect_rows [of bs "bet_row ?M ?O ?A names" "enriched s"] row by blast
  have "enrich bs (mem_bet_repo events) (mem_market_repo lc) mem_user_repo s = (Ok vs, s)"
    using ps names(1) vs(1)
    by (simp add: enrich_def Let_def mem_market_repo_def mem_bet_repo_def bind_cmd_def conv_def
        lift_def mem_market_find_by_ids_def mem_outcomes_for_markets_def mem_active_positions_def reads_def)
  then show ?thesis using vs(2) by blast
qed

definition bet_order :: "bet_sort \<Rightarrow> bet \<Rightarrow> bet \<Rightarrow> bool" where
  "bet_order order a b \<longleftrightarrow> (case order of
     BetNewest \<Rightarrow> b_created_at b \<le> b_created_at a
   | BetPopular \<Rightarrow> b_amount b < b_amount a \<or> (b_amount b = b_amount a \<and> b_created_at b \<le> b_created_at a))"

lemma sort_bets_props:
  "mset (sort_bets order bs) = mset bs" "sorted_wrt (bet_order order) (sort_bets order bs)"
proof -
  show "mset (sort_bets order bs) = mset bs" by (cases order) simp_all
  have "bet_order BetPopular = (\<lambda>a b. (- b_amount a, - b_created_at a) \<le> (- b_amount b, - b_created_at b))"
    by (auto simp: fun_eq_iff bet_order_def less_eq_prod_def)
  then show "sorted_wrt (bet_order order) (sort_bets order bs)"
    using sorted_wrt_key [of "\<lambda>b. (- b_amount b, - b_created_at b)" bs] sorted_wrt_key [of "\<lambda>b. - b_created_at b" bs]
    by (cases order) (simp_all add: bet_order_def [abs_def])
qed

text \<open>On well-formed books (of at most \<open>2^49\<close> bets) a user's bet history always loads: for a
  known user it answers the asked page of their bets with the asked status in the asked order,
  each joined with its own bettor's name, market title and outcome label and with the average
  price of the position it belongs to (its own price once that is closed); an unknown user is not
  found.  Nothing changes.\<close>

theorem user_bets_exact:
  assumes ok: "books_ok s" and few: "int (length (bets s)) \<le> 2 ^ 49"
  shows "if lookup_user s u = None
    then list_user_bets (mem_bet_repo events) (mem_market_repo lc) mem_user_repo u f s
      = (Err (NotFound [Lit ''user '', UuidF (user_uuid u)]), s)
    else \<exists>ranked vs. list_user_bets (mem_bet_repo events) (mem_market_repo lc) mem_user_repo u f s = (Ok vs, s)
      \<and> list_all2 (enriched s) (take (nat (bf_limit f)) (drop (nat (bf_offset f)) ranked)) vs
      \<and> mset ranked = filter_mset (\<lambda>b. b_user_id b = u \<and> status_matches (bf_status f) (b_status b)) (mset (bets s))
      \<and> sorted_wrt (bet_order (bf_sort f)) ranked"
proof (cases "lookup_user s u")
  case None
  then show ?thesis
    by (simp add: list_user_bets_def mem_simps cmd_simps not_found_def lookup_user_def)
next
  case (Some user)
  let ?r = "sort_bets (bf_sort f) (filter (\<lambda>b. status_matches (bf_status f) (b_status b))
      (filter (\<lambda>b. b_user_id b = u) (bets s)))"
  let ?p = "page (bf_offset f) (bf_limit f) ?r"
  have "set ?r = set (filter (\<lambda>b. status_matches (bf_status f) (b_status b))
      (filter (\<lambda>b. b_user_id b = u) (bets s)))"
    using sort_bets_props(1) by (metis set_mset_mset)
  then have "set ?p \<subseteq> set (bets s)" using set_page [of "bf_offset f" "bf_limit f" ?r] by auto
  then obtain vs where vs: "enrich ?p (mem_bet_repo events) (mem_market_repo lc) mem_user_repo s = (Ok vs, s)"
      "list_all2 (enriched s) ?p vs"
    using enrich_ok [OF ok few] by blast
  have nat0: "nat (max x 0) = nat x" for x by (simp add: max_def)
  have "list_user_bets (mem_bet_repo events) (mem_market_repo lc) mem_user_repo u f s
      = enrich ?p (mem_bet_repo events) (mem_market_repo lc) mem_user_repo s"
    using Some
    by (simp add: list_user_bets_def bind_cmd_def conv_def mem_user_repo_def mem_user_find_by_id_def
        reads_def lookup_user_def mem_bet_repo_def mem_find_by_user_def mem_bets_filtered_def)
  moreover have "mset ?r = filter_mset (\<lambda>b. b_user_id b = u \<and> status_matches (bf_status f) (b_status b)) (mset (bets s))"
    by (simp add: sort_bets_props filter_filter_mset conj_commute flip: mset_filter)
  ultimately show ?thesis
    using Some vs sort_bets_props(2) [of "bf_sort f"] by (fastforce simp: page_def nat0)
qed

lemma user_bets_exact_witness:
  "\<exists>vs. list_user_bets (mem_bet_repo None) (mem_market_repo (\<lambda>_ _. [])) mem_user_repo (UserId 1)
      bet_filter_default backed_world = (Ok vs, backed_world) \<and> length vs = 1"
proof -
  have few: "int (length (bets backed_world)) \<le> 2 ^ 49" and u: "lookup_user backed_world (UserId 1) \<noteq> None"
    by (simp_all add: backed_world_def lookup_user_def sample_world_def)
  from user_bets_exact [OF backed_books few, of "UserId 1" None "\<lambda>_ _. []" bet_filter_default] u
  obtain ranked vs where run: "list_user_bets (mem_bet_repo None) (mem_market_repo (\<lambda>_ _. [])) mem_user_repo (UserId 1)
      bet_filter_default backed_world = (Ok vs, backed_world)"
    and "list_all2 (enriched backed_world) (take (nat (bf_limit bet_filter_default))
      (drop (nat (bf_offset bet_filter_default)) ranked)) vs"
    and "mset ranked = filter_mset (\<lambda>b. b_user_id b = UserId 1
      \<and> status_matches (bf_status bet_filter_default) (b_status b)) (mset (bets backed_world))"
    by auto
  moreover from this(3) have "size (mset ranked) = 1"
    by (simp add: bet_filter_default_def backed_world_def sample_bet_def)
  then have "length ranked = 1" by simp
  ultimately have "length vs = 1" by (auto simp: bet_filter_default_def dest: list_all2_lengthD)
  then show ?thesis using run by blast
qed

end
