(* ===== verification/UseAuth.thy ===== *)
theory UseAuth
  imports Ports
begin

text \<open>
  The account use cases (\<open>application/src/use_cases/auth\<close>, \<open>user/get_user.rs\<close>,
  \<open>user/update_user.rs\<close>) over any implementation of the ports.  The password hasher, the
  access-token signer and the digest of a refresh token are arguments: they are external code
  (Argon2, JWT, SHA-256 in hex).  Random identifiers and token texts are inputs of an execution.
\<close>

section \<open>Authentication ports\<close>

text \<open>\<open>hash\<close> salts at random; an execution calls it once, so its salt is part of the argument.\<close>

record password_hasher =
  ph_hash :: "password \<Rightarrow> (password_hash, auth_port_error) result"
  ph_verify :: "password \<Rightarrow> password_hash \<Rightarrow> (bool, auth_port_error) result"

record access_tokens =
  at_issue :: "user_id \<Rightarrow> role \<Rightarrow> (str, auth_port_error) result"
  at_verify :: "str \<Rightarrow> (access_claims, auth_port_error) result"

section \<open>Sessions\<close>

record auth_session =
  as_user :: user
  as_access_token :: str
  as_refresh_token :: str
  as_refresh_expires_at :: datetime

record session_issuer =
  si_access_tokens :: access_tokens
  si_refresh_ttl :: int

text \<open>What issuing a session draws: the raw refresh token, the identifier of its record and two
  clock reads.\<close>

record draws =
  dr_raw :: str
  dr_id :: uuid
  dr_expiry_base :: datetime
  dr_created :: datetime

definition issue_session :: "session_issuer \<Rightarrow> (str \<Rightarrow> str) \<Rightarrow> draws \<Rightarrow> user \<Rightarrow> 's token_repo
    \<Rightarrow> ('s, auth_session, app_error) cmd" where
  "issue_session si digest dr user trepo =
     bind_cmd (lift (map_err app_of_auth (at_issue (si_access_tokens si) (u_id user) (u_role user)))) (\<lambda>access.
     let record = refresh_token_new (dr_id dr) (dr_created dr) (u_id user) (digest (dr_raw dr))
       (dr_expiry_base dr + si_refresh_ttl si) in
     seq_cmd (conv app_of_repo (tr_save trepo record))
       (ret \<lparr>as_user = user, as_access_token = access, as_refresh_token = dr_raw dr,
         as_refresh_expires_at = t_expires_at record\<rparr>))"

text \<open>\<open>simple\<close> prints an identifier as 32 hexadecimal digits.\<close>

definition generate_refresh_token :: "(uuid \<Rightarrow> str) \<Rightarrow> uuid \<Rightarrow> uuid \<Rightarrow> str" where
  "generate_refresh_token simple a b = simple a @ simple b"

section \<open>Registering\<close>

record register_input =
  ri_username :: str
  ri_email :: str
  ri_password :: str

definition register_in :: "'s tx_scope \<Rightarrow> session_issuer \<Rightarrow> (str \<Rightarrow> str) \<Rightarrow> uuid \<Rightarrow> datetime \<Rightarrow> draws
    \<Rightarrow> username \<Rightarrow> email \<Rightarrow> password_hash \<Rightarrow> ('s, auth_session, app_error) cmd" where
  "register_in tx si digest fresh now dr name mail hash =
     bind_cmd (conv app_of_repo (ur_find_by_email (tx_users tx) mail)) (\<lambda>found.
     if found \<noteq> None
     then fail (AppConflict [Lit ''user with email '', TextF (email_as_str mail), Lit '' already exists''])
     else
     bind_cmd (conv app_of_repo (ur_find_by_username (tx_users tx) name)) (\<lambda>found.
     if found \<noteq> None
     then fail (AppConflict [Lit ''username '', TextF (username_as_str name), Lit '' is already taken''])
     else
     let user = user_new fresh now name mail hash in
     seq_cmd (conv app_of_repo (ur_save (tx_users tx) user)) (
     bind_cmd (issue_session si digest dr user (tx_refresh_tokens tx)) (\<lambda>session.
     seq_cmd (conv app_of_repo (tx_commit tx)) (ret session)))))"

definition register :: "case_table \<Rightarrow> 's unit_of_work \<Rightarrow> password_hasher \<Rightarrow> session_issuer \<Rightarrow> (str \<Rightarrow> str)
    \<Rightarrow> uuid \<Rightarrow> datetime \<Rightarrow> draws \<Rightarrow> register_input \<Rightarrow> ('s, auth_session, app_error) cmd" where
  "register lc uow hasher si digest fresh now dr input =
     bind_cmd (lift (map_err Domain (username_new (ri_username input)))) (\<lambda>name.
     bind_cmd (lift (map_err Domain (email_new lc (ri_email input)))) (\<lambda>mail.
     bind_cmd (lift (map_err Domain (password_new (ri_password input)))) (\<lambda>password.
     bind_cmd (lift (map_err app_of_auth (ph_hash hasher password))) (\<lambda>hash.
     with_scope uow (\<lambda>tx. register_in tx si digest fresh now dr name mail hash)))))"

section \<open>Logging in and out\<close>

record login_input =
  li_email :: str
  li_password :: str

definition invalid_credentials :: app_error where
  "invalid_credentials = Unauthorized (msg ''invalid credentials'')"

definition login :: "case_table \<Rightarrow> 's user_repo \<Rightarrow> 's token_repo \<Rightarrow> password_hasher \<Rightarrow> session_issuer
    \<Rightarrow> (str \<Rightarrow> str) \<Rightarrow> draws \<Rightarrow> login_input \<Rightarrow> ('s, auth_session, app_error) cmd" where
  "login lc urepo trepo hasher si digest dr input =
     bind_cmd (lift (map_err (\<lambda>_. invalid_credentials) (email_new lc (li_email input)))) (\<lambda>mail.
     bind_cmd (lift (map_err (\<lambda>_. invalid_credentials) (password_new (li_password input)))) (\<lambda>password.
     bind_cmd (conv app_of_repo (ur_find_by_email urepo mail)) (\<lambda>found.
     bind_cmd (lift (ok_or found invalid_credentials)) (\<lambda>user.
     bind_cmd (lift (map_err app_of_auth (ph_verify hasher password (u_password_hash user)))) (\<lambda>verified.
     if \<not> verified then fail invalid_credentials
     else issue_session si digest dr user trepo)))))"

definition logout :: "'s token_repo \<Rightarrow> (str \<Rightarrow> str) \<Rightarrow> str \<Rightarrow> ('s, unit, app_error) cmd" where
  "logout trepo digest raw =
     bind_cmd (conv app_of_repo (tr_find_by_token_hash trepo (digest raw))) (\<lambda>found.
     case found of
       None \<Rightarrow> ret ()
     | Some record \<Rightarrow> seq_cmd (conv app_of_repo (tr_delete trepo (t_id record))) (ret ()))"

section \<open>Refreshing\<close>

definition invalid_refresh :: app_error where
  "invalid_refresh = Unauthorized (msg ''invalid refresh token'')"

definition refresh_in :: "'s tx_scope \<Rightarrow> session_issuer \<Rightarrow> (str \<Rightarrow> str) \<Rightarrow> datetime \<Rightarrow> draws \<Rightarrow> str
    \<Rightarrow> ('s, auth_session, app_error) cmd" where
  "refresh_in tx si digest now dr raw =
     bind_cmd (conv app_of_repo (tr_find_by_token_hash (tx_refresh_tokens tx) (digest raw))) (\<lambda>found.
     bind_cmd (lift (ok_or found invalid_refresh)) (\<lambda>record.
     bind_cmd (conv app_of_repo (tr_delete (tx_refresh_tokens tx) (t_id record))) (\<lambda>deleted.
     if \<not> deleted then fail invalid_refresh
     else if is_expired now record
     then seq_cmd (conv app_of_repo (tx_commit tx)) (fail invalid_refresh)
     else
     bind_cmd (conv app_of_repo (ur_find_by_id (tx_users tx) (t_user_id record))) (\<lambda>found.
     bind_cmd (lift (ok_or found invalid_refresh)) (\<lambda>user.
     bind_cmd (issue_session si digest dr user (tx_refresh_tokens tx)) (\<lambda>session.
     seq_cmd (conv app_of_repo (tx_commit tx)) (ret session)))))))"

definition refresh :: "'s unit_of_work \<Rightarrow> session_issuer \<Rightarrow> (str \<Rightarrow> str) \<Rightarrow> datetime \<Rightarrow> draws \<Rightarrow> str
    \<Rightarrow> ('s, auth_session, app_error) cmd" where
  "refresh uow si digest now dr raw = with_scope uow (\<lambda>tx. refresh_in tx si digest now dr raw)"

section \<open>Users\<close>

definition get_user :: "'s user_repo \<Rightarrow> uuid \<Rightarrow> ('s, user, app_error) cmd" where
  "get_user urepo i = bind_cmd (conv app_of_repo (ur_find_by_id urepo (UserId i))) (\<lambda>found.
     lift (ok_or found (NotFound [Lit ''user '', UuidF i])))"

definition get_user_stats :: "'s bet_repo \<Rightarrow> user_id \<Rightarrow> ('s, user_stats, app_error) cmd" where
  "get_user_stats brepo i = conv app_of_repo (br_stats_for_user brepo i)"

record update_user_input =
  uu_role :: "role option"

definition patch_is_empty :: "update_user_input \<Rightarrow> bool" where
  "patch_is_empty p \<longleftrightarrow> uu_role p = None"

definition update_user :: "'s user_repo \<Rightarrow> datetime \<Rightarrow> uuid \<Rightarrow> update_user_input
    \<Rightarrow> ('s, user, app_error) cmd" where
  "update_user urepo now i patch =
     (if patch_is_empty patch then fail (Domain (Validation (msg ''no fields to update'')))
      else
      bind_cmd (conv app_of_repo (ur_find_by_id urepo (UserId i))) (\<lambda>found.
      bind_cmd (lift (ok_or found (NotFound [Lit ''user '', UuidF i]))) (\<lambda>user.
      let user = (case uu_role patch of None \<Rightarrow> user | Some r \<Rightarrow> set_role now r user) in
      seq_cmd (conv app_of_repo (ur_save urepo user)) (ret user))))"

section \<open>Over any stores that keep their contracts\<close>

text \<open>User and token stores over one state: each keeps its own contract and leaves the other's
  content alone.\<close>

locale auth_stores =
  user_repository repo lookup inv + token_repository trepo tokens inv
  for repo :: "'s user_repo" and lookup :: "'s \<Rightarrow> user_id \<Rightarrow> user option" and inv :: "'s \<Rightarrow> bool"
    and trepo :: "'s token_repo" and tokens :: "'s \<Rightarrow> uuid \<Rightarrow> refresh_token option" +
  assumes users_kept: "\<And>s t s'. inv s \<Longrightarrow> tr_save trepo t s = (Ok (), s') \<Longrightarrow> lookup s' = lookup s"
      "\<And>s i b s'. inv s \<Longrightarrow> tr_delete trepo i s = (Ok b, s') \<Longrightarrow> lookup s' = lookup s"
      "\<And>s h r s'. inv s \<Longrightarrow> tr_find_by_token_hash trepo h s = (Ok r, s') \<Longrightarrow> lookup s' = lookup s"
    and tokens_kept: "\<And>s u s'. inv s \<Longrightarrow> ur_save repo u s = (Ok (), s') \<Longrightarrow> tokens s' = tokens s"
      "\<And>s i r s'. inv s \<Longrightarrow> ur_find_by_id repo i s = (Ok r, s') \<Longrightarrow> tokens s' = tokens s"
      "\<And>s e r s'. inv s \<Longrightarrow> ur_find_by_email repo e s = (Ok r, s') \<Longrightarrow> tokens s' = tokens s"
      "\<And>s n r s'. inv s \<Longrightarrow> ur_find_by_username repo n s = (Ok r, s') \<Longrightarrow> tokens s' = tokens s"

text \<open>A transaction scope over them: its repositories are those, and committing changes nothing
  they hold.\<close>

locale auth_scope = auth_stores repo lookup inv trepo tokens
  for repo :: "'s user_repo" and lookup and inv and trepo :: "'s token_repo" and tokens +
  fixes tx :: "'s tx_scope"
  assumes scope_repos: "tx_users tx = repo" "tx_refresh_tokens tx = trepo"
    and commit: "\<And>s t. inv s \<Longrightarrow> tx_commit tx s = (Ok (), t) \<Longrightarrow>
      inv t \<and> lookup t = lookup s \<and> tokens t = tokens s"

definition session_for :: "session_issuer \<Rightarrow> draws \<Rightarrow> user \<Rightarrow> auth_session \<Rightarrow> bool" where
  "session_for si dr u v \<longleftrightarrow> as_user v = u \<and> as_refresh_token v = dr_raw dr
     \<and> at_issue (si_access_tokens si) (u_id u) (u_role u) = Ok (as_access_token v)
     \<and> as_refresh_expires_at v = dr_expiry_base dr + si_refresh_ttl si"

definition session_record :: "session_issuer \<Rightarrow> (str \<Rightarrow> str) \<Rightarrow> draws \<Rightarrow> user \<Rightarrow> refresh_token" where
  "session_record si digest dr u = \<lparr>t_id = dr_id dr, t_user_id = u_id u, t_token_hash = digest (dr_raw dr),
     t_expires_at = dr_expiry_base dr + si_refresh_ttl si, t_created_at = dr_created dr\<rparr>"

context auth_stores
begin

lemma issue_session_Ok:
  assumes i: "inv s" and run: "issue_session si digest dr u trepo s = (Ok v, t)"
  shows "inv t \<and> lookup t = lookup s \<and> tokens t = (tokens s)(dr_id dr \<mapsto> session_record si digest dr u)
    \<and> session_for si dr u v"
proof -
  have "tr_save trepo (session_record si digest dr u) s = (Ok (), t)" "session_for si dr u v"
    using run by (auto simp: issue_session_def run_Ok Let_def refresh_token_new_def session_for_def
        session_record_def)
  then show ?thesis using tsave [OF i] users_kept(1) [OF i] by (auto simp: session_record_def)
qed

lemma login_Ok:
  assumes i: "inv s" and run: "login lc repo trepo hasher si digest dr input s = (Ok v, t)"
  shows "\<exists>password u. email_new lc (li_email input) = Ok (u_email u)
    \<and> password_new (li_password input) = Ok password \<and> lookup s (u_id u) = Some u
    \<and> ph_verify hasher password (u_password_hash u) = Ok True
    \<and> lookup t = lookup s \<and> tokens t = (tokens s)(dr_id dr \<mapsto> session_record si digest dr u)
    \<and> inv t \<and> session_for si dr u v"
proof -
  obtain mail password u s1 where e: "email_new lc (li_email input) = Ok mail"
      "password_new (li_password input) = Ok password"
      "ur_find_by_email repo mail s = (Ok (Some u), s1)"
      "ph_verify hasher password (u_password_hash u) = Ok True"
      "issue_session si digest dr u trepo s1 = (Ok v, t)"
    using run by (auto simp: login_def run_Ok split: if_splits)
  have "inv s1" "lookup s1 = lookup s" "tokens s1 = tokens s" "lookup s (u_id u) = Some u" "u_email u = mail"
    using find_by_email [OF i e(3)] tokens_kept(3) [OF i e(3)] by auto
  then show ?thesis using issue_session_Ok [of s1] e by auto
qed

end

context auth_scope
begin

lemma register_Ok:
  assumes i: "inv s" and run: "register_in tx si digest fresh now dr name mail hash s = (Ok v, t)"
  shows "let u = user_new fresh now name mail hash in
    (\<forall>i x. lookup s i = Some x \<longrightarrow> u_email x \<noteq> mail \<and> u_username x \<noteq> name)
    \<and> lookup t = (lookup s)(UserId fresh \<mapsto> u)
    \<and> tokens t = (tokens s)(dr_id dr \<mapsto> session_record si digest dr u) \<and> inv t \<and> session_for si dr u v"
proof -
  let ?u = "user_new fresh now name mail hash"
  obtain s1 s2 s3 s4 where e: "ur_find_by_email repo mail s = (Ok None, s1)"
      "ur_find_by_username repo name s1 = (Ok None, s2)" "ur_save repo ?u s2 = (Ok (), s3)"
      "issue_session si digest dr ?u trepo s3 = (Ok v, s4)" "tx_commit tx s4 = (Ok (), t)"
    using run by (auto simp: register_in_def run_Ok scope_repos Let_def split: if_splits)
  note i1 = find_by_email [OF i e(1)] tokens_kept(3) [OF i e(1)]
  then have j1: "inv s1" by simp
  note i2 = find_by_username [OF j1 e(2)] tokens_kept(4) [OF j1 e(2)]
  then have j2: "inv s2" by simp
  note i3 = save [OF j2 e(3)] tokens_kept(1) [OF j2 e(3)]
  then have j3: "inv s3" by simp
  note i4 = issue_session_Ok [OF j3 e(4)]
  then have j4: "inv s4" by simp
  note i5 = commit [OF j4 e(5)]
  have "u_id ?u = UserId fresh" by (simp add: user_new_def)
  then show ?thesis using i1 i2 i3 i4 i5 by (auto simp: Let_def)
qed

lemma refresh_Ok:
  assumes i: "inv s" and run: "refresh_in tx si digest now dr raw s = (Ok v, t)"
  shows "\<exists>old u. tokens s (t_id old) = Some old \<and> t_token_hash old = digest raw \<and> now < t_expires_at old
    \<and> lookup s (t_user_id old) = Some u \<and> lookup t = lookup s
    \<and> tokens t = (tokens s)(t_id old := None, dr_id dr \<mapsto> session_record si digest dr u)
    \<and> inv t \<and> session_for si dr u v"
proof -
  obtain old u s1 s2 s3 s4 where e: "tr_find_by_token_hash trepo (digest raw) s = (Ok (Some old), s1)"
      "tr_delete trepo (t_id old) s1 = (Ok True, s2)" "\<not> is_expired now old"
      "ur_find_by_id repo (t_user_id old) s2 = (Ok (Some u), s3)"
      "issue_session si digest dr u trepo s3 = (Ok v, s4)" "tx_commit tx s4 = (Ok (), t)"
    using run by (auto simp: refresh_in_def run_Ok scope_repos split: if_splits)
  note i1 = tfind [OF i e(1)] users_kept(3) [OF i e(1)]
  then have j1: "inv s1" by simp
  note i2 = tdelete [OF j1 e(2)] users_kept(2) [OF j1 e(2)]
  then have j2: "inv s2" by simp
  note i3 = find_by_id [OF j2 e(4)] tokens_kept(2) [OF j2 e(4)]
  then have j3: "inv s3" by simp
  note i4 = issue_session_Ok [OF j3 e(5)]
  then have j4: "inv s4" by simp
  note i5 = commit [OF j4 e(6)]
  show ?thesis using i1 i2 i3 i4 i5 e(3)
    by (intro exI [of _ old] exI [of _ u]) (auto simp: is_expired_def)
qed

end

end
