(* ===== verification/Accounts.thy ===== *)
theory Accounts
  imports UseAuth MemUsers
begin

text \<open>
  Accounts over the in-memory stores: registering, logging in and out, refreshing a session and
  changing a role; which states they reach, what they refuse and what they give away.
\<close>

section \<open>The stores under the use cases\<close>

interpretation mem_auth: auth_scope mem_user_repo lookup_user "\<lambda>s. users_wf s \<and> tokens_wf s"
  mem_token_repo lookup_token mem_scope
proof (unfold_locales, goal_cases)
  case (1 s u s') then show ?case using mem_users.save [of s u s'] by (auto simp: tokens_wf_def mem_simps cmd_simps)
next
  case (2 s i r s') then show ?case using mem_users.find_by_id [of s i r s'] by (auto simp: tokens_wf_def mem_simps cmd_simps)
next
  case (3 s e r s') then show ?case using mem_users.find_by_email [of s e r s'] by (auto simp: tokens_wf_def mem_simps cmd_simps)
next
  case (4 s n r s') then show ?case using mem_users.find_by_username [of s n r s'] by (auto simp: tokens_wf_def mem_simps cmd_simps)
next
  case (5 s t s') then show ?case using mem_tokens.tsave [of s t s'] by (auto simp: users_wf_def mem_simps cmd_simps)
next
  case (6 s h r s') then show ?case using mem_tokens.tfind [of s h r s'] by (auto simp: users_wf_def mem_simps cmd_simps)
next
  case (7 s i b s') then show ?case using mem_tokens.tdelete [of s i b s'] by (auto simp: users_wf_def mem_simps cmd_simps)
next
  case (8 s u s') then show ?case using mem_tokens.tdelete_all [of s u s'] by (auto simp: users_wf_def mem_simps cmd_simps)
qed (auto simp: lookup_user_def lookup_token_def mem_simps cmd_simps)

lemma with_scope_mem: "with_scope mem_unit_of_work body s = body mem_scope s"
  by (simp add: with_scope_def mem_unit_of_work_def bind_cmd_def conv_def ret_def mem_scope_def
      split: prod.split)

abbreviation mem_register where
  "mem_register lc \<equiv> register lc mem_unit_of_work"

abbreviation mem_login where
  "mem_login lc \<equiv> login lc mem_user_repo mem_token_repo"

text \<open>Accounts in order: each stored once under its own identifier, no two sharing an email
  or a username.\<close>

definition accounts_ok :: "'z world \<Rightarrow> bool" where
  "accounts_ok s \<longleftrightarrow> users_wf s \<and> tokens_wf s
     \<and> (\<forall>i j u v. lookup_user s i = Some u \<longrightarrow> lookup_user s j = Some v \<longrightarrow>
          u_email u = u_email v \<or> u_username u = u_username v \<longrightarrow> i = j)"

text \<open>No two refresh tokens share a digest.\<close>

definition sessions_ok :: "'z world \<Rightarrow> bool" where
  "sessions_ok s \<longleftrightarrow> (\<forall>i j t r. lookup_token s i = Some t \<longrightarrow> lookup_token s j = Some r \<longrightarrow>
     t_token_hash t = t_token_hash r \<longrightarrow> i = j)"

section \<open>Registering\<close>

text \<open>A registration that answers created exactly one account: the inputs were valid, nobody
  held the canonical email or the username, the new account has them with the hashed password,
  the starting balance and the plain role, every other account is as before, one refresh token
  was stored (its digest only) and the session handed out is for that account.  Accounts stay
  unique by email and by username.\<close>

theorem register_effect:
  assumes ok: "accounts_ok s" and fresh: "lookup_user s (UserId fresh) = None"
    and run: "mem_register lc hasher si digest fresh now dr input s = (Ok v, t)"
  shows "\<exists>name mail password hash. username_new (ri_username input) = Ok name
    \<and> email_new lc (ri_email input) = Ok mail \<and> password_new (ri_password input) = Ok password
    \<and> ph_hash hasher password = Ok hash
    \<and> (\<forall>i u. lookup_user s i = Some u \<longrightarrow> u_email u \<noteq> mail \<and> u_username u \<noteq> name)
    \<and> as_user v = \<lparr>u_id = UserId fresh, u_username = name, u_email = mail, u_password_hash = hash,
        u_avatar_url = None, u_balance = starting_balance, u_role = RUser, u_created_at = now, u_updated_at = now\<rparr>
    \<and> lookup_user t = (lookup_user s)(UserId fresh \<mapsto> as_user v)
    \<and> lookup_token t = (lookup_token s)(dr_id dr \<mapsto> session_record si digest dr (as_user v))
    \<and> session_for si dr (as_user v) v \<and> accounts_ok t"
proof -
  obtain name mail password hash where e: "username_new (ri_username input) = Ok name"
      "email_new lc (ri_email input) = Ok mail" "password_new (ri_password input) = Ok password"
      "ph_hash hasher password = Ok hash"
      "register_in mem_scope si digest fresh now dr name mail hash s = (Ok v, t)"
    using run by (auto simp: register_def run_Ok with_scope_mem)
  have i: "users_wf s \<and> tokens_wf s" using ok by (simp add: accounts_ok_def)
  note r = mem_auth.register_Ok [OF i e(5), unfolded Let_def]
  have v: "as_user v = user_new fresh now name mail hash" using r by (simp add: session_for_def)
  have "accounts_ok t"
    using ok r fresh by (auto simp: accounts_ok_def user_new_def)
  then show ?thesis
    by (intro exI [of _ name] exI [of _ mail] exI [of _ password] exI [of _ hash])
      (use r e(1-4) v in \<open>simp add: user_new_def\<close>)
qed

definition toy_hasher :: password_hasher where
  "toy_hasher = \<lparr>ph_hash = (\<lambda>p. Ok (PasswordHash (password_as_str p))),
     ph_verify = (\<lambda>p h. Ok (h = PasswordHash (password_as_str p)))\<rparr>"

definition toy_issuer :: session_issuer where
  "toy_issuer = \<lparr>si_access_tokens = \<lparr>at_issue = (\<lambda>_ _. Ok (lit ''jwt'')), at_verify = (\<lambda>_. Err InvalidToken)\<rparr>,
     si_refresh_ttl = 100\<rparr>"

definition toy_draws :: "string \<Rightarrow> uuid \<Rightarrow> draws" where
  "toy_draws raw i = \<lparr>dr_raw = lit raw, dr_id = i, dr_expiry_base = 5, dr_created = 5\<rparr>"

definition empty_world :: "unit world" where
  "empty_world = \<lparr>users = [], refresh_tokens = [], markets = [], outcomes = [], price_points = [],
     bets = [], messages = [], reactions = [], outer = ()\<rparr>"

definition bob_input :: register_input where
  "bob_input = \<lparr>ri_username = lit ''bob'', ri_email = lit ''B@c.d'', ri_password = lit ''password''\<rparr>"

definition bob_world :: "unit world" where
  "bob_world = snd (mem_register (\<lambda>_ _. []) toy_hasher toy_issuer id 1 5 (toy_draws ''r1'' 2) bob_input empty_world)"

lemma bob_registers:
  "is_ok (fst (mem_register (\<lambda>_ _. []) toy_hasher toy_issuer id 1 5 (toy_draws ''r1'' 2) bob_input empty_world))"
  by code_simp

lemma empty_accounts: "accounts_ok empty_world" "sessions_ok empty_world"
  by (simp_all add: accounts_ok_def sessions_ok_def users_wf_def user_map_wf_def tokens_wf_def
      lookup_user_def lookup_token_def empty_world_def)

lemma register_effect_witness:
  "\<exists>v t. mem_register (\<lambda>_ _. []) toy_hasher toy_issuer id 1 5 (toy_draws ''r1'' 2) bob_input empty_world = (Ok v, t)
     \<and> u_balance (as_user v) = starting_balance \<and> lookup_user t (UserId 1) = Some (as_user v)"
proof -
  obtain v t where run: "mem_register (\<lambda>_ _. []) toy_hasher toy_issuer id 1 5 (toy_draws ''r1'' 2) bob_input empty_world
      = (Ok v, t)"
    using bob_registers by (cases "mem_register (\<lambda>_ _. []) toy_hasher toy_issuer id 1 5 (toy_draws ''r1'' 2) bob_input empty_world")
      (auto simp: is_ok_iff)
  have "lookup_user empty_world (UserId 1) = None" by (simp add: lookup_user_def empty_world_def)
  from register_effect [OF empty_accounts(1) this run] run show ?thesis by force
qed

section \<open>Logging in\<close>

text \<open>Logging in gives nothing away: a malformed email, a password of impossible length, an
  email nobody registered and a wrong password all get the very same answer, and leave the
  stores as they were.\<close>

theorem login_uniform_refusal:
  assumes "(\<forall>e. email_new lc (li_email input) \<noteq> Ok e) \<or> (\<forall>p. password_new (li_password input) \<noteq> Ok p)
    \<or> (\<exists>e. email_new lc (li_email input) = Ok e \<and> (\<forall>(i, u)\<in>set (users s). u_email u \<noteq> e))
    \<or> (\<forall>p. password_new (li_password input) = Ok p \<longrightarrow>
        (\<forall>(i, u)\<in>set (users s). email_new lc (li_email input) = Ok (u_email u) \<longrightarrow>
          ph_verify hasher p (u_password_hash u) = Ok False))"
  shows "mem_login lc hasher si digest dr input s = (Err (Unauthorized (msg ''invalid credentials'')), s)"
proof (cases "email_new lc (li_email input)")
  case (Err e)
  then show ?thesis by (simp add: login_def bind_cmd_def lift_def invalid_credentials_def)
next
  case mail: (Ok mail)
  show ?thesis
  proof (cases "password_new (li_password input)")
    case (Err e)
    then show ?thesis using mail by (simp add: login_def bind_cmd_def lift_def invalid_credentials_def)
  next
    case pw: (Ok pw)
    show ?thesis
    proof (cases "find (\<lambda>u. u_email u = mail) (map snd (users s))")
      case None
      then show ?thesis using mail pw
        by (simp add: login_def bind_cmd_def lift_def conv_def mem_simps reads_def invalid_credentials_def)
    next
      case (Some u)
      then obtain i where "(i, u) \<in> set (users s)" "u_email u = mail" by (auto dest!: find_SomeD)
      then have "ph_verify hasher pw (u_password_hash u) = Ok False" using assms mail pw by force
      then show ?thesis using mail pw Some
        by (simp add: login_def bind_cmd_def lift_def conv_def mem_simps reads_def invalid_credentials_def
            fail_def)
    qed
  qed simp
qed simp

lemma login_uniform_refusal_witness:
  "mem_login (\<lambda>_ _. []) toy_hasher toy_issuer id (toy_draws ''r2'' 3)
     \<lparr>li_email = lit ''no one'', li_password = lit ''password''\<rparr> bob_world
   = (Err (Unauthorized (msg ''invalid credentials'')), bob_world)"
proof -
  have "\<not> is_ok (email_new (\<lambda>_ _. []) (lit ''no one''))" by code_simp
  then have "\<forall>e. email_new (\<lambda>_ _. []) (li_email \<lparr>li_email = lit ''no one'', li_password = lit ''password''\<rparr>) \<noteq> Ok e"
    by (simp add: is_ok_iff)
  then show ?thesis by (intro login_uniform_refusal disjI1)
qed

text \<open>A login that answers proves the credentials: some stored account has the canonical email
  and its password hash verified; the session is for that account, its token record is the only
  thing stored, and accounts are untouched.\<close>

theorem login_sound:
  assumes ok: "accounts_ok s" and run: "mem_login lc hasher si digest dr input s = (Ok v, t)"
  shows "\<exists>password. lookup_user s (u_id (as_user v)) = Some (as_user v)
    \<and> email_new lc (li_email input) = Ok (u_email (as_user v))
    \<and> password_new (li_password input) = Ok password
    \<and> ph_verify hasher password (u_password_hash (as_user v)) = Ok True
    \<and> session_for si dr (as_user v) v \<and> lookup_user t = lookup_user s
    \<and> lookup_token t = (lookup_token s)(dr_id dr \<mapsto> session_record si digest dr (as_user v))
    \<and> accounts_ok t"
proof -
  have i: "users_wf s \<and> tokens_wf s" using ok by (simp add: accounts_ok_def)
  obtain password u where r: "email_new lc (li_email input) = Ok (u_email u)"
    "password_new (li_password input) = Ok password" "lookup_user s (u_id u) = Some u"
    "ph_verify hasher password (u_password_hash u) = Ok True" "lookup_user t = lookup_user s"
    "lookup_token t = (lookup_token s)(dr_id dr \<mapsto> session_record si digest dr u)"
    "users_wf t \<and> tokens_wf t" "session_for si dr u v"
    using mem_auth.login_Ok [OF i run] by blast
  have "as_user v = u" using r(8) by (simp add: session_for_def)
  then show ?thesis using r ok by (auto simp: accounts_ok_def)
qed

lemma bob_accounts: "accounts_ok bob_world" "sessions_ok bob_world"
proof -
  obtain v t where run: "mem_register (\<lambda>_ _. []) toy_hasher toy_issuer id 1 5 (toy_draws ''r1'' 2) bob_input empty_world
      = (Ok v, t)"
    using bob_registers by (cases "mem_register (\<lambda>_ _. []) toy_hasher toy_issuer id 1 5 (toy_draws ''r1'' 2) bob_input empty_world")
      (auto simp: is_ok_iff)
  have fresh: "lookup_user empty_world (UserId 1) = None" by (simp add: lookup_user_def empty_world_def)
  obtain name mail password hash where
      "register_in mem_scope toy_issuer id 1 5 (toy_draws ''r1'' 2) name mail hash empty_world = (Ok v, t)"
    using run by (auto simp: register_def run_Ok with_scope_mem)
  note r = mem_auth.register_Ok [OF _ this, unfolded Let_def]
  have i: "users_wf empty_world \<and> tokens_wf empty_world" using empty_accounts by (simp add: accounts_ok_def)
  then have "accounts_ok t" using r fresh empty_accounts by (auto simp: accounts_ok_def user_new_def)
  moreover have "sessions_ok t"
    using r i empty_accounts(2) by (auto simp: sessions_ok_def lookup_token_def empty_world_def)
  ultimately show "accounts_ok bob_world" "sessions_ok bob_world" using run by (simp_all add: bob_world_def)
qed

lemma login_sound_witness:
  "\<exists>v t. mem_login (\<lambda>_ _. []) toy_hasher toy_issuer id (toy_draws ''r2'' 3)
      \<lparr>li_email = lit '' b@C.d'', li_password = lit ''password''\<rparr> bob_world = (Ok v, t)
    \<and> lookup_user bob_world (u_id (as_user v)) = Some (as_user v)"
proof -
  have "is_ok (fst (mem_login (\<lambda>_ _. []) toy_hasher toy_issuer id (toy_draws ''r2'' 3)
      \<lparr>li_email = lit '' b@C.d'', li_password = lit ''password''\<rparr> bob_world))"
    by code_simp
  then obtain v t where run: "mem_login (\<lambda>_ _. []) toy_hasher toy_issuer id (toy_draws ''r2'' 3)
      \<lparr>li_email = lit '' b@C.d'', li_password = lit ''password''\<rparr> bob_world = (Ok v, t)"
    by (cases "mem_login (\<lambda>_ _. []) toy_hasher toy_issuer id (toy_draws ''r2'' 3)
      \<lparr>li_email = lit '' b@C.d'', li_password = lit ''password''\<rparr> bob_world") (auto simp: is_ok_iff)
  from login_sound [OF bob_accounts(1) run] run show ?thesis by blast
qed

section \<open>Refreshing and logging out\<close>

lemma mem_refresh_eq:
  "refresh mem_unit_of_work si digest now dr raw s =
    (case find (\<lambda>t. t_token_hash t = digest raw) (map snd (refresh_tokens s)) of
       None \<Rightarrow> (Err (Unauthorized (msg ''invalid refresh token'')), s)
     | Some old \<Rightarrow>
         let s' = s\<lparr>refresh_tokens := AList.delete (t_id old) (refresh_tokens s)\<rparr> in
         if lookup_token s (t_id old) = None then (Err (Unauthorized (msg ''invalid refresh token'')), s')
         else if t_expires_at old \<le> now then (Err (Unauthorized (msg ''invalid refresh token'')), s')
         else (case lookup_user s (t_user_id old) of
             None \<Rightarrow> (Err (Unauthorized (msg ''invalid refresh token'')), s')
           | Some u \<Rightarrow> issue_session si digest dr u mem_token_repo s'))"
proof -
  have last: "bind_cmd m (\<lambda>x. seq_cmd (conv app_of_repo (ret ())) (ret x)) = m"
    for m :: "('a world, auth_session, app_error) cmd"
    by (rule ext) (simp add: bind_cmd_def seq_cmd_def conv_def ret_def split: prod.split result.split)
  have sel: "tx_users mem_scope = mem_user_repo" "tx_refresh_tokens mem_scope = mem_token_repo"
      "tx_commit mem_scope = ret ()"
    by (simp_all add: mem_scope_def)
  show ?thesis
    unfolding refresh_def with_scope_mem refresh_in_def sel last
    by (simp add: bind_cmd_def seq_cmd_def conv_def lift_def fail_def ret_def mem_token_repo_def
        mem_user_repo_def mem_token_find_by_hash_def mem_token_delete_def mem_user_find_by_id_def
        reads_def invalid_refresh_def is_expired_def Let_def lookup_token_def lookup_user_def
        split: option.split)
qed

text \<open>C18: A refresh token works once: when it is exchanged, its record existed, was not expired and
  is gone, exactly one record, for the new token of the same user, takes its place, accounts are
  untouched, and presenting the old token again (at any time, under any draws) is refused and
  changes nothing.\<close>

theorem refresh_single_use:
  assumes ok: "accounts_ok s" "sessions_ok s" and digest: "digest (dr_raw dr) \<noteq> digest raw"
    and run: "refresh mem_unit_of_work si digest now dr raw s = (Ok v, t)"
  shows "\<exists>old. lookup_token s (t_id old) = Some old \<and> t_token_hash old = digest raw \<and> now < t_expires_at old
    \<and> u_id (as_user v) = t_user_id old \<and> lookup_user s (t_user_id old) = Some (as_user v)
    \<and> session_for si dr (as_user v) v \<and> lookup_user t = lookup_user s
    \<and> lookup_token t = (lookup_token s)(t_id old := None, dr_id dr \<mapsto> session_record si digest dr (as_user v))
    \<and> (\<forall>now' dr'. refresh mem_unit_of_work si digest now' dr' raw t
        = (Err (Unauthorized (msg ''invalid refresh token'')), t))"
proof -
  have i: "users_wf s \<and> tokens_wf s" using ok by (simp add: accounts_ok_def)
  have "refresh_in mem_scope si digest now dr raw s = (Ok v, t)"
    using run by (simp add: refresh_def with_scope_mem)
  from mem_auth.refresh_Ok [OF i this]
  obtain old u where r: "lookup_token s (t_id old) = Some old" "t_token_hash old = digest raw"
    "now < t_expires_at old" "lookup_user s (t_user_id old) = Some u" "lookup_user t = lookup_user s"
    "lookup_token t = (lookup_token s)(t_id old := None, dr_id dr \<mapsto> session_record si digest dr u)"
    "users_wf t \<and> tokens_wf t" "session_for si dr u v" by blast
  have u: "as_user v = u" using r(8) by (simp add: session_for_def)
  have "u_id u = t_user_id old"
    using r(4) i by (auto simp: users_wf_def user_map_wf_def lookup_user_def dest!: map_of_SomeD)
  moreover have "find (\<lambda>x. t_token_hash x = digest raw) (map snd (refresh_tokens t)) = None"
  proof -
    have "t_token_hash x \<noteq> digest raw" if "lookup_token t i = Some x" for i x
      using that r(1,2,6) ok(2) digest by (auto simp: sessions_ok_def session_record_def split: if_splits)
    then show ?thesis using r(7)
      by (fastforce simp: find_None_iff lookup_token_def tokens_wf_def)
  qed
  ultimately show ?thesis
    using r u by (intro exI [of _ old]) (simp add: mem_refresh_eq)
qed

lemma refresh_single_use_witness:
  "\<exists>v t. refresh mem_unit_of_work toy_issuer id 6 (toy_draws ''r2'' 3) (lit ''r1'') bob_world = (Ok v, t)
     \<and> \<not> is_ok (fst (refresh mem_unit_of_work toy_issuer id 7 (toy_draws ''r3'' 4) (lit ''r1'') t))"
proof -
  have "is_ok (fst (refresh mem_unit_of_work toy_issuer id 6 (toy_draws ''r2'' 3) (lit ''r1'') bob_world))"
    by code_simp
  then obtain v t where run: "refresh mem_unit_of_work toy_issuer id 6 (toy_draws ''r2'' 3) (lit ''r1'') bob_world = (Ok v, t)"
    by (cases "refresh mem_unit_of_work toy_issuer id 6 (toy_draws ''r2'' 3) (lit ''r1'') bob_world")
      (auto simp: is_ok_iff)
  have "id (dr_raw (toy_draws ''r2'' 3)) \<noteq> id (lit ''r1'')" by (simp add: toy_draws_def lit_def)
  from refresh_single_use [OF bob_accounts this run] run show ?thesis by auto
qed

text \<open>Every other refresh is refused with one answer: an unknown token changes nothing, and a
  token that is expired or whose account is gone is consumed all the same.\<close>

theorem refresh_refusals:
  assumes "accounts_ok s"
  shows "((\<forall>i t. lookup_token s i = Some t \<longrightarrow> t_token_hash t \<noteq> digest raw) \<longrightarrow>
      refresh mem_unit_of_work si digest now dr raw s = (Err (Unauthorized (msg ''invalid refresh token'')), s))
    \<and> (\<forall>old. find (\<lambda>t. t_token_hash t = digest raw) (map snd (refresh_tokens s)) = Some old \<longrightarrow>
      t_expires_at old \<le> now \<or> lookup_user s (t_user_id old) = None \<longrightarrow>
      (\<exists>t. refresh mem_unit_of_work si digest now dr raw s = (Err (Unauthorized (msg ''invalid refresh token'')), t)
        \<and> lookup_user t = lookup_user s \<and> lookup_token t = (lookup_token s)(t_id old := None)))"
proof (intro conjI impI allI)
  have wf: "tokens_wf s" using assms by (simp add: accounts_ok_def)
  assume a: "\<forall>i t. lookup_token s i = Some t \<longrightarrow> t_token_hash t \<noteq> digest raw"
  have "find (\<lambda>t. t_token_hash t = digest raw) (map snd (refresh_tokens s)) = None"
    using a wf by (fastforce simp: find_None_iff lookup_token_def tokens_wf_def)
  then show "refresh mem_unit_of_work si digest now dr raw s
      = (Err (Unauthorized (msg ''invalid refresh token'')), s)" by (simp add: mem_refresh_eq)
next
  fix old
  assume a: "find (\<lambda>t. t_token_hash t = digest raw) (map snd (refresh_tokens s)) = Some old"
    "t_expires_at old \<le> now \<or> lookup_user s (t_user_id old) = None"
  then show "\<exists>t. refresh mem_unit_of_work si digest now dr raw s = (Err (Unauthorized (msg ''invalid refresh token'')), t)
        \<and> lookup_user t = lookup_user s \<and> lookup_token t = (lookup_token s)(t_id old := None)"
    by (auto simp: mem_refresh_eq Let_def lookup_user_def lookup_token_def delete_conv')
qed

lemma refresh_refusals_witness:
  "refresh mem_unit_of_work toy_issuer id 6 (toy_draws ''r2'' 3) (lit ''r1'') empty_world
     = (Err (Unauthorized (msg ''invalid refresh token'')), empty_world)"
  using refresh_refusals [OF empty_accounts(1), of id "lit ''r1''" toy_issuer 6 "toy_draws ''r2'' 3"]
  by (simp add: lookup_token_def empty_world_def)

text \<open>Logging out always succeeds and ends exactly the presented session: afterwards no stored
  token has the digest, all other tokens and every account are as before, refreshing with the
  token is refused, and logging out again changes nothing.\<close>

theorem logout_ends_session:
  assumes ok: "accounts_ok s" "sessions_ok s"
  shows "\<exists>t. logout mem_token_repo digest raw s = (Ok (), t)
    \<and> lookup_token t = (\<lambda>i. case lookup_token s i of None \<Rightarrow> None
        | Some x \<Rightarrow> if t_token_hash x = digest raw then None else Some x)
    \<and> users t = users s
    \<and> (\<forall>si now dr. refresh mem_unit_of_work si digest now dr raw t
        = (Err (Unauthorized (msg ''invalid refresh token'')), t))
    \<and> logout mem_token_repo digest raw t = (Ok (), t)"
proof (cases "find (\<lambda>t. t_token_hash t = digest raw) (map snd (refresh_tokens s))")
  case None
  then have "\<forall>i x. lookup_token s i = Some x \<longrightarrow> t_token_hash x \<noteq> digest raw"
    by (fastforce simp: find_None_iff lookup_token_def dest: map_of_SomeD)
  then have "lookup_token s = (\<lambda>i. case lookup_token s i of None \<Rightarrow> None
        | Some x \<Rightarrow> if t_token_hash x = digest raw then None else Some x)"
    by (auto simp: fun_eq_iff split: option.split)
  moreover have "logout mem_token_repo digest raw s = (Ok (), s)"
    using None by (simp add: logout_def mem_simps cmd_simps)
  ultimately show ?thesis using None by (intro exI [of _ s]) (simp add: mem_refresh_eq)
next
  case (Some old)
  let ?t = "s\<lparr>refresh_tokens := AList.delete (t_id old) (refresh_tokens s)\<rparr>"
  have wf: "tokens_wf s" using ok by (simp add: accounts_ok_def)
  then have old: "lookup_token s (t_id old) = Some old" "t_token_hash old = digest raw"
    using Some keyed_find [of "refresh_tokens s" t_id "\<lambda>t. t_token_hash t = digest raw"]
    by (auto simp: tokens_wf_def lookup_token_def)
  have "\<forall>i x. lookup_token s i = Some x \<longrightarrow> (t_token_hash x = digest raw \<longleftrightarrow> i = t_id old)"
    using ok(2) old by (auto simp: sessions_ok_def)
  then have look: "lookup_token ?t = (\<lambda>i. case lookup_token s i of None \<Rightarrow> None
        | Some x \<Rightarrow> if t_token_hash x = digest raw then None else Some x)"
    by (auto simp: fun_eq_iff lookup_token_def delete_conv' split: option.splits)
  have wft: "tokens_wf ?t"
    using keyed_delete [of "refresh_tokens s" t_id "t_id old"] wf by (simp add: tokens_wf_def)
  have "\<forall>i x. lookup_token ?t i = Some x \<longrightarrow> t_token_hash x \<noteq> digest raw"
    using look by (auto split: option.splits if_splits)
  then have none: "find (\<lambda>t. t_token_hash t = digest raw) (map snd (refresh_tokens ?t)) = None"
    using wft by (fastforce simp: find_None_iff lookup_token_def tokens_wf_def)
  have "logout mem_token_repo digest raw s = (Ok (), ?t)"
    using Some by (simp add: logout_def mem_simps cmd_simps)
  moreover have "logout mem_token_repo digest raw ?t = (Ok (), ?t)"
    using none by (simp add: logout_def mem_simps cmd_simps)
  moreover have "refresh mem_unit_of_work si digest now dr raw ?t
      = (Err (Unauthorized (msg ''invalid refresh token'')), ?t)" for si now dr
    unfolding mem_refresh_eq none by simp
  ultimately show ?thesis using look by (intro exI [of _ ?t]) simp
qed

lemma logout_ends_session_witness:
  "\<exists>t. logout mem_token_repo id (lit ''r1'') bob_world = (Ok (), t)
     \<and> logout mem_token_repo id (lit ''r1'') t = (Ok (), t)"
  using logout_ends_session [OF bob_accounts, of id "lit ''r1''"] by blast

section \<open>Changing a role\<close>

text \<open>An administrative patch changes the role of the named account and nothing else of it but
  its modification time, and no other account; an empty patch and an unknown account are refused
  without effect.  Accounts stay in order.\<close>

theorem update_user_exact:
  assumes ok: "accounts_ok s"
  shows "(uu_role patch = None \<longrightarrow> update_user mem_user_repo now i patch s
        = (Err (Domain (Validation (msg ''no fields to update''))), s))
    \<and> (\<forall>r. uu_role patch = Some r \<longrightarrow>
      (lookup_user s (UserId i) = None \<longrightarrow> update_user mem_user_repo now i patch s
        = (Err (NotFound [Lit ''user '', UuidF i]), s))
      \<and> (\<forall>u. lookup_user s (UserId i) = Some u \<longrightarrow> (\<exists>t. update_user mem_user_repo now i patch s
          = (Ok (u\<lparr>u_role := r, u_updated_at := now\<rparr>), t)
        \<and> lookup_user t = (lookup_user s)(UserId i \<mapsto> u\<lparr>u_role := r, u_updated_at := now\<rparr>)
        \<and> lookup_token t = lookup_token s \<and> accounts_ok t)))"
proof (intro conjI impI allI)
  assume "uu_role patch = None"
  then show "update_user mem_user_repo now i patch s
        = (Err (Domain (Validation (msg ''no fields to update''))), s)"
    by (simp add: update_user_def patch_is_empty_def fail_def)
next
  fix r assume "uu_role patch = Some r" "lookup_user s (UserId i) = None"
  then show "update_user mem_user_repo now i patch s = (Err (NotFound [Lit ''user '', UuidF i]), s)"
    by (simp add: update_user_def patch_is_empty_def mem_simps cmd_simps lookup_user_def)
next
  fix r u assume r: "uu_role patch = Some r" and u: "lookup_user s (UserId i) = Some u"
  let ?u = "u\<lparr>u_role := r, u_updated_at := now\<rparr>"
  let ?t = "s\<lparr>users := AList.update (u_id u) ?u (users s)\<rparr>"
  have uid: "u_id u = UserId i"
    using ok u by (auto simp: accounts_ok_def users_wf_def user_map_wf_def lookup_user_def dest!: map_of_SomeD)
  have run: "update_user mem_user_repo now i patch s = (Ok ?u, ?t)"
    using r u by (simp add: update_user_def patch_is_empty_def mem_simps cmd_simps lookup_user_def
        set_role_def Let_def)
  have look: "lookup_user ?t = (lookup_user s)(UserId i \<mapsto> ?u)"
    using uid by (simp add: lookup_user_def update_conv')
  have "users_wf ?t"
    using ok user_map_wf_update [of "users s" ?u] by (simp add: accounts_ok_def users_wf_def)
  moreover have "tokens_wf ?t" using ok by (simp add: accounts_ok_def tokens_wf_def)
  moreover have "i = j" if "lookup_user ?t i = Some x" "lookup_user ?t j = Some y"
      "u_email x = u_email y \<or> u_username x = u_username y" for i j x y
    using that ok u unfolding look by (fastforce simp: accounts_ok_def split: if_splits)
  ultimately have "accounts_ok ?t" unfolding accounts_ok_def by blast
  then show "\<exists>t. update_user mem_user_repo now i patch s = (Ok ?u, t)
      \<and> lookup_user t = (lookup_user s)(UserId i \<mapsto> ?u) \<and> lookup_token t = lookup_token s \<and> accounts_ok t"
    using run look by (intro exI [of _ ?t]) (simp add: lookup_token_def)
qed

lemma update_user_exact_witness:
  "\<exists>u t. update_user mem_user_repo 9 1 \<lparr>uu_role = Some RAdmin\<rparr> bob_world = (Ok u, t) \<and> u_role u = RAdmin"
proof -
  have "map_of (users bob_world) (UserId 1) = None \<longleftrightarrow> False" by code_simp
  then obtain u where "lookup_user bob_world (UserId 1) = Some u" by (auto simp: lookup_user_def)
  with update_user_exact [OF bob_accounts(1), of "\<lparr>uu_role = Some RAdmin\<rparr>" 9 1]
  show ?thesis by fastforce
qed

end
