(* ===== verification/UseChat.thy ===== *)
theory UseChat
  imports UseBets
begin

text \<open>
  The chat use cases (\<open>application/src/use_cases/chat.rs\<close> and \<open>chat/\<close>) over any implementation of
  the ports: posting a message, reading a page of a room's history, reacting to a message.
\<close>

record replied_message =
  rm_message :: chat_message
  rm_author :: user

record chat_message_view =
  cv_message :: chat_message
  cv_author :: user
  cv_reply_to :: "replied_message option"
  cv_reactions :: "reaction_tally list"

section \<open>Posting\<close>

text \<open>A market room exists as long as its market does; the global room always does.\<close>

definition room_exists :: "'s market_repo \<Rightarrow> chat_channel \<Rightarrow> ('s, unit, app_error) cmd" where
  "room_exists mrepo channel = (case channel of
     Global \<Rightarrow> ret ()
   | Market mid \<Rightarrow> bind_cmd (conv app_of_repo (mr_find_by_id mrepo mid)) (\<lambda>found.
       seq_cmd (lift (ok_or found (not_found ''market '' (market_uuid mid)))) (ret ())))"

definition quoted :: "'s chat_repo \<Rightarrow> 's user_repo \<Rightarrow> message_id \<Rightarrow> chat_channel
    \<Rightarrow> ('s, replied_message, app_error) cmd" where
  "quoted crepo urepo i channel =
     (let unknown = not_found ''message '' (message_uuid i) in
     bind_cmd (conv app_of_repo (cr_find_by_id crepo i)) (\<lambda>found.
     let found = (case found of None \<Rightarrow> None | Some m \<Rightarrow> if c_channel m = channel then Some m else None) in
     bind_cmd (lift (ok_or found unknown)) (\<lambda>m.
     bind_cmd (conv app_of_repo (ur_find_by_id urepo (c_author_id m))) (\<lambda>found.
     bind_cmd (lift (ok_or found unknown)) (\<lambda>author.
     ret \<lparr>rm_message = m, rm_author = author\<rparr>)))))"

definition post_message :: "'s chat_repo \<Rightarrow> 's user_repo \<Rightarrow> 's market_repo \<Rightarrow> clock \<Rightarrow> uuid \<Rightarrow> user_id
    \<Rightarrow> chat_channel \<Rightarrow> str \<Rightarrow> message_id option \<Rightarrow> ('s, chat_message_view, app_error) cmd" where
  "post_message crepo urepo mrepo clock fresh author_id channel body reply_to =
     bind_cmd (conv app_of_repo (ur_find_by_id urepo author_id)) (\<lambda>found.
     bind_cmd (lift (ok_or found (not_found ''user '' (user_uuid author_id)))) (\<lambda>author.
     seq_cmd (room_exists mrepo channel) (
     bind_cmd (case reply_to of
         Some i \<Rightarrow> bind_cmd (quoted crepo urepo i channel) (\<lambda>q. ret (Some q))
       | None \<Rightarrow> ret None) (\<lambda>quote.
     bind_cmd (lift (map_err Domain (body_new body))) (\<lambda>body.
     let m = chat_message_new fresh (clock 0) author_id channel body reply_to in
     seq_cmd (conv app_of_repo (cr_save crepo m))
       (ret \<lparr>cv_message = m, cv_author = author, cv_reply_to = quote, cv_reactions = []\<rparr>))))))"

section \<open>History\<close>

record history_window =
  hw_before :: "message_id option"
  hw_after :: "message_id option"

definition resolve_cursor :: "'s chat_repo \<Rightarrow> chat_channel \<Rightarrow> history_window
    \<Rightarrow> ('s, message_cursor option, app_error) cmd" where
  "resolve_cursor crepo channel window =
     (let at = (\<lambda>i backwards.
        bind_cmd (conv app_of_repo (cr_find_by_id crepo i)) (\<lambda>found.
        let found = (case found of None \<Rightarrow> None | Some m \<Rightarrow> if c_channel m = channel then Some m else None) in
        bind_cmd (lift (ok_or found (not_found ''message '' (message_uuid i)))) (\<lambda>m.
        ret (Some (if backwards then Before (anchor_of m) else After (anchor_of m))))))
     in case (hw_before window, hw_after window) of
       (None, None) \<Rightarrow> ret None
     | (Some b, None) \<Rightarrow> at b True
     | (None, Some a) \<Rightarrow> at a False
     | (Some _, Some _) \<Rightarrow> fail (Domain (Validation (msg ''before_uuid and after_uuid are mutually exclusive''))))"

text \<open>\<open>sort_by_key\<close> and \<open>dedup\<close>, which drops neighbours that are equal.\<close>

definition quoted_messages :: "'s chat_repo \<Rightarrow> chat_message list
    \<Rightarrow> ('s, (message_id \<times> chat_message) list, app_error) cmd" where
  "quoted_messages crepo page =
     (let ids = remdups_adj (sort_key message_uuid (List.map_filter c_reply_to page)) in
     bind_cmd (conv app_of_repo (cr_find_by_ids crepo ids)) (\<lambda>ms.
     ret (collect_map (map (\<lambda>m. (c_id m, m)) ms))))"

text \<open>One author through the cache of the page.\<close>

definition author :: "'s user_repo \<Rightarrow> (user_id \<times> user) list \<Rightarrow> user_id
    \<Rightarrow> ('s, user option \<times> (user_id \<times> user) list, app_error) cmd" where
  "author urepo cache i = (case map_of cache i of
     Some u \<Rightarrow> ret (Some u, cache)
   | None \<Rightarrow> bind_cmd (conv app_of_repo (ur_find_by_id urepo i)) (\<lambda>found. case found of
       None \<Rightarrow> ret (None, cache)
     | Some u \<Rightarrow> ret (Some u, AList.update i u cache)))"

definition quote_of :: "'s user_repo \<Rightarrow> (message_id \<times> chat_message) list \<Rightarrow> (user_id \<times> user) list
    \<Rightarrow> chat_message \<Rightarrow> ('s, replied_message option \<times> (user_id \<times> user) list, app_error) cmd" where
  "quote_of urepo quotes cache m =
     (case (case c_reply_to m of None \<Rightarrow> None | Some i \<Rightarrow> map_of quotes i) of
       None \<Rightarrow> ret (None, cache)
     | Some parent \<Rightarrow> bind_cmd (author urepo cache (c_author_id parent)) (\<lambda>(found, cache).
         ret (map_option (\<lambda>a. \<lparr>rm_message = parent, rm_author = a\<rparr>) found, cache)))"

text \<open>The loop over the page: a message whose author is gone is skipped, and the reactions of
  a message are taken out of the map when it is rendered.\<close>

fun render_page :: "'s user_repo \<Rightarrow> (message_id \<times> chat_message) list \<Rightarrow> chat_message list
    \<Rightarrow> (user_id \<times> user) list \<Rightarrow> (message_id \<times> reaction_tally list) list
    \<Rightarrow> ('s, chat_message_view list, app_error) cmd" where
  "render_page urepo quotes [] cache tallies = ret []"
| "render_page urepo quotes (m # ms) cache tallies =
     bind_cmd (author urepo cache (c_author_id m)) (\<lambda>(found, cache). case found of
       None \<Rightarrow> render_page urepo quotes ms cache tallies
     | Some a \<Rightarrow> bind_cmd (quote_of urepo quotes cache m) (\<lambda>(quote, cache).
         let view = \<lparr>cv_message = m, cv_author = a, cv_reply_to = quote,
           cv_reactions = (case map_of tallies (c_id m) of None \<Rightarrow> [] | Some ts \<Rightarrow> ts)\<rparr> in
         bind_cmd (render_page urepo quotes ms cache (AList.delete (c_id m) tallies)) (\<lambda>views.
         ret (view # views))))"

definition list_recent_messages :: "'s chat_repo \<Rightarrow> 's user_repo \<Rightarrow> 's market_repo \<Rightarrow> user_id \<Rightarrow> chat_channel
    \<Rightarrow> int \<Rightarrow> history_window \<Rightarrow> ('s, chat_message_view list, app_error) cmd" where
  "list_recent_messages crepo urepo mrepo viewer channel limit window =
     seq_cmd (room_exists mrepo channel) (
     bind_cmd (resolve_cursor crepo channel window) (\<lambda>cursor.
     bind_cmd (conv app_of_repo (cr_list_recent crepo channel limit cursor)) (\<lambda>ms.
     bind_cmd (conv app_of_repo (cr_reactions_for crepo (map c_id ms) viewer)) (\<lambda>tallies.
     bind_cmd (quoted_messages crepo ms) (\<lambda>quotes.
     render_page urepo quotes ms [] tallies)))))"

section \<open>Reacting\<close>

definition resolve_reaction :: "'s chat_repo \<Rightarrow> message_id \<Rightarrow> str \<Rightarrow> ('s, reaction_emoji, app_error) cmd" where
  "resolve_reaction crepo i emoji =
     bind_cmd (lift (map_err Domain (emoji_new emoji))) (\<lambda>e.
     bind_cmd (conv app_of_repo (cr_find_by_id crepo i)) (\<lambda>found.
     seq_cmd (lift (ok_or found (not_found ''message '' (message_uuid i)))) (ret e)))"

definition react_add :: "'s chat_repo \<Rightarrow> user_id \<Rightarrow> message_id \<Rightarrow> str \<Rightarrow> ('s, bool, app_error) cmd" where
  "react_add crepo u i emoji = bind_cmd (resolve_reaction crepo i emoji)
     (\<lambda>e. conv app_of_repo (cr_add_reaction crepo i u e))"

definition react_remove :: "'s chat_repo \<Rightarrow> user_id \<Rightarrow> message_id \<Rightarrow> str \<Rightarrow> ('s, bool, app_error) cmd" where
  "react_remove crepo u i emoji = bind_cmd (resolve_reaction crepo i emoji)
     (\<lambda>e. conv app_of_repo (cr_remove_reaction crepo i u e))"

end
