(* ===== verification/MemChat.thy ===== *)
theory MemChat
  imports MemUsers
begin

text \<open>
  The in-memory chat store
  (\<open>infrastructure/src/persistence/in_memory/chat_message_repository.rs\<close>): messages and reactions
  in insertion order, the page around an anchor, and the tally of reactions.
\<close>

section \<open>Messages\<close>

definition mem_message_save :: "'z bus option \<Rightarrow> chat_message \<Rightarrow> ('z world, unit, repo_error) cmd" where
  "mem_message_save events m = seq_cmd (writes (\<lambda>s. s\<lparr>messages := messages s @ [m]\<rparr>))
     (dispatch events (ChatMessagePosted (c_id m)))"

definition mem_message_find_by_id :: "message_id \<Rightarrow> ('z world, chat_message option, repo_error) cmd" where
  "mem_message_find_by_id i = reads (\<lambda>s. find (\<lambda>m. c_id m = i) (messages s))"

definition mem_message_find_by_ids :: "message_id list \<Rightarrow> ('z world, chat_message list, repo_error) cmd" where
  "mem_message_find_by_ids ids = reads (\<lambda>s. filter (\<lambda>m. c_id m \<in> set ids) (messages s))"

definition message_key :: "chat_message \<Rightarrow> datetime \<times> uuid" where
  "message_key m = (c_created_at m, message_uuid (c_id m))"

text \<open>\<open>partition_point\<close> on a list sorted by the key: how many elements come first.\<close>

definition partition_point :: "('a \<Rightarrow> bool) \<Rightarrow> 'a list \<Rightarrow> nat" where
  "partition_point p xs = length (takeWhile p xs)"

text \<open>Trimming to the side of the anchor paged towards.\<close>

definition trim_to_cursor :: "message_cursor \<Rightarrow> chat_message list \<Rightarrow> chat_message list" where
  "trim_to_cursor cursor recent =
     (let anchor = (case cursor of Before a \<Rightarrow> a | After a \<Rightarrow> a);
          key = (an_created_at anchor, message_uuid (an_id anchor));
          split = partition_point (\<lambda>m. message_key m < key) recent in
      case cursor of
        Before _ \<Rightarrow> take split recent
      | After _ \<Rightarrow>
          let present = split < length recent \<and> c_id (recent ! split) = an_id anchor in
          drop (if present then split + 1 else split) recent)"

definition limit_page :: "message_cursor option \<Rightarrow> int \<Rightarrow> chat_message list \<Rightarrow> chat_message list" where
  "limit_page cursor limit recent = (let limit = nat (max limit 0) in
     case cursor of
       Some (After _) \<Rightarrow> take limit recent
     | _ \<Rightarrow> drop (length recent - limit) recent)"

definition mem_list_recent :: "chat_channel \<Rightarrow> int \<Rightarrow> message_cursor option
    \<Rightarrow> ('z world, chat_message list, repo_error) cmd" where
  "mem_list_recent channel limit cursor = reads (\<lambda>s.
     let recent = sort_key message_key (filter (\<lambda>m. c_channel m = channel) (messages s));
         recent = (case cursor of None \<Rightarrow> recent | Some c \<Rightarrow> trim_to_cursor c recent)
     in limit_page cursor limit recent)"

section \<open>Reactions\<close>

definition same_reaction :: "message_id \<Rightarrow> user_id \<Rightarrow> reaction_emoji \<Rightarrow> reaction \<Rightarrow> bool" where
  "same_reaction m u e r \<longleftrightarrow> r_message_id r = m \<and> r_user_id r = u \<and> r_emoji r = e"

definition dispatch_reaction :: "'z bus option \<Rightarrow> message_id \<Rightarrow> user_id \<Rightarrow> reaction_emoji \<Rightarrow> bool
    \<Rightarrow> ('z world, unit, repo_error) cmd" where
  "dispatch_reaction events m u e added = dispatch events (ChatReactionChanged m u (emoji_as_str e) added)"

definition mem_add_reaction :: "'z bus option \<Rightarrow> message_id \<Rightarrow> user_id \<Rightarrow> reaction_emoji
    \<Rightarrow> ('z world, bool, repo_error) cmd" where
  "mem_add_reaction events m u e =
     bind_cmd (reads (\<lambda>s. list_ex (same_reaction m u e) (reactions s))) (\<lambda>held.
     if held then ret False
     else
     seq_cmd (writes (\<lambda>s. s\<lparr>reactions := reactions s
        @ [\<lparr>r_message_id = m, r_user_id = u, r_emoji = e\<rparr>]\<rparr>))
     (seq_cmd (dispatch_reaction events m u e True) (ret True)))"

definition mem_remove_reaction :: "'z bus option \<Rightarrow> message_id \<Rightarrow> user_id \<Rightarrow> reaction_emoji
    \<Rightarrow> ('z world, bool, repo_error) cmd" where
  "mem_remove_reaction events m u e =
     bind_cmd (reads (\<lambda>s. length (reactions s))) (\<lambda>size_before.
     seq_cmd (writes (\<lambda>s. s\<lparr>reactions := filter (\<lambda>r. \<not> same_reaction m u e r) (reactions s)\<rparr>))
     (bind_cmd (reads (\<lambda>s. length (reactions s) < size_before)) (\<lambda>removed.
     seq_cmd (if removed then dispatch_reaction events m u e False else ret ()) (ret removed))))"

text \<open>The tally loop: one entry per emoji of a message, in the order the emoji first appears.\<close>

fun count_tally :: "user_id \<Rightarrow> reaction \<Rightarrow> reaction_tally list \<Rightarrow> reaction_tally list" where
  "count_tally viewer r [] =
     [\<lparr>rt_emoji = r_emoji r, rt_count = 1, rt_reacted = (r_user_id r = viewer)\<rparr>]"
| "count_tally viewer r (t # ts) =
     (if rt_emoji t = r_emoji r
      then t\<lparr>rt_count := wrap_i64 (rt_count t + 1), rt_reacted := rt_reacted t \<or> r_user_id r = viewer\<rparr> # ts
      else t # count_tally viewer r ts)"

definition tally_reaction :: "user_id \<Rightarrow> reaction \<Rightarrow> (message_id \<times> reaction_tally list) list
    \<Rightarrow> (message_id \<times> reaction_tally list) list" where
  "tally_reaction viewer r grouped = AList.update (r_message_id r)
     (count_tally viewer r (case map_of grouped (r_message_id r) of None \<Rightarrow> [] | Some ts \<Rightarrow> ts)) grouped"

definition mem_reactions_for :: "message_id list \<Rightarrow> user_id
    \<Rightarrow> ('z world, (message_id \<times> reaction_tally list) list, repo_error) cmd" where
  "mem_reactions_for ids viewer = reads (\<lambda>s.
     fold (tally_reaction viewer) (filter (\<lambda>r. r_message_id r \<in> set ids) (reactions s)) [])"

definition mem_chat_repo :: "'z bus option \<Rightarrow> 'z world chat_repo" where
  "mem_chat_repo events = \<lparr>cr_save = mem_message_save events, cr_find_by_id = mem_message_find_by_id,
     cr_find_by_ids = mem_message_find_by_ids, cr_list_recent = mem_list_recent,
     cr_add_reaction = mem_add_reaction events, cr_remove_reaction = mem_remove_reaction events,
     cr_reactions_for = mem_reactions_for\<rparr>"

section \<open>Pages\<close>

definition room :: "chat_channel \<Rightarrow> 'z world \<Rightarrow> chat_message list" where
  "room channel s = sort_key message_key (filter (\<lambda>m. c_channel m = channel) (messages s))"

definition anchor_key :: "message_anchor \<Rightarrow> datetime \<times> uuid" where
  "anchor_key a = (an_created_at a, message_uuid (an_id a))"

lemma takeWhile_sorted:
  "sorted (map k xs) \<Longrightarrow> takeWhile (\<lambda>x. k x < (a::'b::linorder)) xs = filter (\<lambda>x. k x < a) xs"
proof (induction xs)
  case (Cons x xs)
  have "filter (\<lambda>x. k x < a) xs = []" if "\<not> k x < a"
    using Cons.prems that by (auto simp: filter_empty_conv)
  then show ?case using Cons by auto
qed simp

lemma dropWhile_sorted:
  "sorted (map k xs) \<Longrightarrow> dropWhile (\<lambda>x. k x < (a::'b::linorder)) xs = filter (\<lambda>x. a \<le> k x) xs"
proof (induction xs)
  case (Cons x xs)
  have "filter (\<lambda>x. a \<le> k x) xs = xs" if "\<not> k x < a"
    using Cons.prems that by (intro filter_True) (auto simp: not_less)
  then show ?case using Cons by auto
qed simp

lemma sorted_split:
  "sorted (map k xs) \<Longrightarrow> xs = filter (\<lambda>x. k x \<le> (a::'b::linorder)) xs @ filter (\<lambda>x. a < k x) xs"
proof (induction xs)
  case (Cons x xs)
  have "filter (\<lambda>x. k x \<le> a) xs = [] \<and> filter (\<lambda>x. a < k x) xs = xs" if "a < k x"
    using Cons.prems that by (auto simp: filter_empty_conv not_le intro!: filter_True)
  then show ?case using Cons by auto
qed simp

lemma room_sorted: "sorted (map message_key (room channel s))"
  by (simp add: room_def)

lemma room_set: "set (room channel s) = {m \<in> set (messages s). c_channel m = channel}"
  by (auto simp: room_def)

lemma room_distinct:
  assumes "distinct (map c_id (messages s))"
  shows "distinct (map c_id (room channel s))"
proof -
  have "distinct (map c_id (filter (\<lambda>m. c_channel m = channel) (messages s)))"
    using assms by (rule distinct_map_filter)
  then have "distinct (filter (\<lambda>m. c_channel m = channel) (messages s))"
      "inj_on c_id (set (room channel s))"
    by (auto simp: distinct_map room_set inj_on_def)
  then show ?thesis by (simp add: distinct_map room_def)
qed

lemma trim_before: "trim_to_cursor (Before a) (room channel s)
    = filter (\<lambda>m. message_key m < anchor_key a) (room channel s)"
  unfolding trim_to_cursor_def Let_def message_cursor.case partition_point_def anchor_key_def [symmetric]
  by (metis append_eq_conv_conj room_sorted takeWhile_dropWhile_id takeWhile_sorted)

text \<open>An anchor is honest when the message of its identifier, if there is one, has its time.\<close>

definition honest_anchor :: "'z world \<Rightarrow> message_anchor \<Rightarrow> bool" where
  "honest_anchor s a \<longleftrightarrow> (\<forall>m\<in>set (messages s). c_id m = an_id a \<longrightarrow> c_created_at m = an_created_at a)"

lemma trim_after:
  assumes dm: "distinct (map c_id (messages s))" and honest: "honest_anchor s a"
  shows "trim_to_cursor (After a) (room channel s) = filter (\<lambda>m. anchor_key a < message_key m) (room channel s)"
proof -
  let ?r = "room channel s" and ?k = "anchor_key a"
  let ?n = "partition_point (\<lambda>m. message_key m < ?k) ?r"
  let ?d = "dropWhile (\<lambda>m. message_key m < ?k) ?r"
  have d: "?d = filter (\<lambda>m. ?k \<le> message_key m) ?r" by (rule dropWhile_sorted [OF room_sorted])
  have drop: "drop ?n ?r = ?d"
    by (simp add: partition_point_def dropWhile_eq_drop)
  have key: "message_key m = ?k \<Longrightarrow> c_id m = an_id a" for m
    by (cases "c_id m"; cases "an_id a") (auto simp: message_key_def anchor_key_def)
  have dist: "distinct (map c_id ?d)"
    unfolding d using room_distinct [OF dm] by (rule distinct_map_filter)
  have srt: "sorted (map message_key ?d)"
    unfolding d by (rule sorted_filter [OF room_sorted])
  have split: "trim_to_cursor (After a) ?r
      = drop (if ?n < length ?r \<and> c_id (?r ! ?n) = an_id a then ?n + 1 else ?n) ?r"
    by (simp add: trim_to_cursor_def Let_def anchor_key_def)
  show ?thesis
  proof (cases ?d)
    case Nil
    then have "filter (\<lambda>m. ?k < message_key m) ?r = []"
      using d by (auto simp: filter_empty_conv)
    moreover have "length ?r \<le> ?n" using drop Nil by (metis drop_eq_Nil)
    ultimately show ?thesis using split by simp
  next
    case (Cons m ms)
    then have n: "?n < length ?r" "?r ! ?n = m" "drop (Suc ?n) ?r = ms"
      using drop by (metis drop_eq_Nil linorder_not_le list.distinct(1), metis hd_drop_conv_nth
          drop_eq_Nil linorder_not_le list.distinct(1) list.sel(1), metis drop_Suc list.sel(3) tl_drop)
    have rest: "filter (\<lambda>x. ?k < message_key x) ?r = filter (\<lambda>x. ?k < message_key x) ?d"
      unfolding d by (simp add: filter_filter) (rule filter_cong, auto)
    have m: "?k \<le> message_key m" using arg_cong [OF d, of set] Cons by auto
    show ?thesis
    proof (cases "c_id m = an_id a")
      case True
      have "m \<in> set (messages s)" using n(2,1) nth_mem [OF n(1)] room_set [of channel s] by auto
      then have mk: "message_key m = ?k"
        using honest True by (simp add: honest_anchor_def message_key_def anchor_key_def)
      have "?k < message_key x" if "x \<in> set ms" for x
      proof -
        have "message_key x \<noteq> ?k"
        proof
          assume "message_key x = ?k"
          then have "c_id x = c_id m" using key True by simp
          moreover have "c_id x \<in> c_id ` set ms" using that by simp
          ultimately show False using dist Cons by simp
        qed
        moreover have "?k \<le> message_key x" using srt Cons that mk by simp
        ultimately show ?thesis by simp
      qed
      then have "filter (\<lambda>x. ?k < message_key x) ?d = ms" using Cons mk by (simp add: filter_id_conv)
      then show ?thesis using split n True rest by simp
    next
      case False
      then have "?k < message_key m" using m key by (metis order_le_imp_less_or_eq)
      then have "\<forall>x\<in>set ?d. ?k < message_key x" using srt Cons by fastforce
      then show ?thesis using split n False rest drop by (simp add: filter_id_conv)
    qed
  qed
qed

definition last_n :: "nat \<Rightarrow> 'a list \<Rightarrow> 'a list" where
  "last_n n xs = drop (length xs - n) xs"

lemma length_last_n [simp]: "length (last_n n xs) \<le> n"
  by (simp add: last_n_def)

lemma last_n_split: "\<exists>older. xs = older @ last_n n xs \<and> (older = [] \<or> length (last_n n xs) = n)"
  by (rule exI [of _ "take (length xs - n) xs"]) (auto simp: last_n_def)

lemma list_recent_eq:
  assumes "distinct (map c_id (messages s))" and "\<forall>a. cursor = Some (After a) \<longrightarrow> honest_anchor s a"
  shows "mem_list_recent channel limit cursor s = (Ok (case cursor of
      None \<Rightarrow> last_n (nat limit) (room channel s)
    | Some (Before a) \<Rightarrow> last_n (nat limit) (filter (\<lambda>m. message_key m < anchor_key a) (room channel s))
    | Some (After a) \<Rightarrow> take (nat limit) (filter (\<lambda>m. anchor_key a < message_key m) (room channel s))), s)"
proof -
  have nat0: "nat (max x 0) = nat x" for x by (simp add: max_def)
  show ?thesis
    using trim_after [OF assms(1)] assms(2)
    by (auto simp: mem_list_recent_def reads_def Let_def limit_page_def nat0 last_n_def trim_before
        room_def [symmetric] split: option.split message_cursor.split)
qed

definition sample_message :: "nat \<Rightarrow> chat_channel \<Rightarrow> chat_message" where
  "sample_message i ch = \<lparr>c_id = MessageId (of_nat i), c_author_id = UserId 1, c_channel = ch,
     c_body = MessageBody (lit ''hi''), c_reply_to = None, c_created_at = int i\<rparr>"

definition chat_world :: "unit world" where
  "chat_world = \<lparr>users = [], refresh_tokens = [], markets = [], outcomes = [], price_points = [], bets = [],
     messages = [sample_message 3 Global, sample_message 1 Global, sample_message 2 (Market (MarketId 1)),
       sample_message 4 Global],
     reactions = [], outer = ()\<rparr>"

text \<open>Paging backwards skips and repeats nothing: the page before the oldest message of a page,
  put in front of that page, is one unbroken stretch of the channel's history.\<close>

theorem paging_back_adjacent:
  assumes "distinct (map c_id (messages s))"
    and "mem_list_recent channel limit cursor s = (Ok (m # ms), s)" "\<forall>a. cursor \<noteq> Some (After a)"
    and "mem_list_recent channel limit' (Some (Before (anchor_of m))) s = (Ok older, s)"
  shows "\<exists>before after. sort_key message_key (filter (\<lambda>m. c_channel m = channel) (messages s))
    = before @ older @ (m # ms) @ after"
proof -
  let ?h = "room channel s"
  have "\<exists>p after. ?h = p @ (m # ms) @ after"
  proof (cases cursor)
    case None
    then have "m # ms = last_n (nat limit) ?h" using assms(2) list_recent_eq [OF assms(1), of cursor] by simp
    then show ?thesis using last_n_split [of ?h "nat limit"] by (metis append_Nil2)
  next
    case (Some c)
    then obtain a where a: "cursor = Some (Before a)" using assms(3) by (cases c) auto
    let ?o = "filter (\<lambda>m. message_key m < anchor_key a) ?h"
    have "m # ms = last_n (nat limit) ?o" using a assms(2) list_recent_eq [OF assms(1), of cursor] by simp
    moreover have "?h = ?o @ filter (\<lambda>m. anchor_key a \<le> message_key m) ?h"
      using takeWhile_dropWhile_id [of "\<lambda>m. message_key m < anchor_key a" ?h]
        takeWhile_sorted [OF room_sorted] dropWhile_sorted [OF room_sorted] by metis
    ultimately show ?thesis using last_n_split [of ?o "nat limit"] by (metis append_assoc)
  qed
  then obtain p after where h: "?h = p @ (m # ms) @ after" by blast
  have key: "anchor_key (anchor_of m) = message_key m"
    by (simp add: anchor_key_def anchor_of_def message_key_def)
  have inj: "c_id x = c_id y" if "message_key x = message_key y" for x y
    using that by (cases "c_id x"; cases "c_id y") (auto simp: message_key_def)
  have dist: "distinct (map c_id ?h)" by (rule room_distinct [OF assms(1)])
  have srt: "sorted (map message_key ?h)" by (rule room_sorted)
  have "message_key x < message_key m" if "x \<in> set p" for x
  proof -
    have "message_key x \<le> message_key m" using srt that unfolding h by (simp add: sorted_append)
    moreover have "c_id m \<notin> c_id ` set p" using dist unfolding h by simp
    then have "c_id x \<noteq> c_id m" using that by (metis imageI)
    ultimately show ?thesis using inj by (metis order_le_imp_less_or_eq)
  qed
  moreover have "\<not> message_key x < message_key m" if "x \<in> set (m # ms @ after)" for x
  proof -
    have "sorted (message_key m # map message_key (ms @ after))" using srt unfolding h by (simp add: sorted_append)
    then show ?thesis using that by (auto simp: not_less)
  qed
  ultimately have "filter (\<lambda>x. message_key x < message_key m) ?h = p"
    unfolding h by (simp add: filter_empty_conv filter_id_conv)
  then have "older = last_n (nat limit') p"
    using assms(4) list_recent_eq [OF assms(1), of "Some (Before (anchor_of m))"] by (simp add: key)
  then obtain before where "p = before @ older" using last_n_split [of p] by blast
  then show ?thesis using h by (metis append_assoc room_def)
qed

lemma paging_back_adjacent_witness:
  "\<exists>before after. sort_key message_key (filter (\<lambda>m. c_channel m = Global) (messages chat_world))
    = before @ [sample_message 3 Global] @ [sample_message 4 Global] @ after"
proof -
  have d: "distinct (map c_id (messages chat_world))" by (simp add: chat_world_def sample_message_def)
  have p: "mem_list_recent Global 1 None chat_world = (Ok [sample_message 4 Global], chat_world)"
    "mem_list_recent Global 1 (Some (Before (anchor_of (sample_message 4 Global)))) chat_world
      = (Ok [sample_message 3 Global], chat_world)"
    by (simp_all add: mem_list_recent_def reads_def chat_world_def sample_message_def message_key_def
        limit_page_def trim_to_cursor_def anchor_of_def partition_point_def Let_def)
  from paging_back_adjacent [OF d p(1) _ p(2)] show ?thesis by simp
qed

section \<open>Reactions as a set\<close>

definition triple_of :: "reaction \<Rightarrow> message_id \<times> user_id \<times> reaction_emoji" where
  "triple_of r = (r_message_id r, r_user_id r, r_emoji r)"

definition reaction_set :: "'z world \<Rightarrow> (message_id \<times> user_id \<times> reaction_emoji) set" where
  "reaction_set s = triple_of ` set (reactions s)"

lemma triple_inj: "triple_of r = triple_of r' \<longleftrightarrow> r = r'"
  by (cases r; cases r') (auto simp: triple_of_def)

lemma same_reaction_triple: "same_reaction m u e r \<longleftrightarrow> triple_of r = (m, u, e)"
  by (auto simp: same_reaction_def triple_of_def)

lemma in_reaction_set: "(m, u, e) \<in> reaction_set s \<longleftrightarrow> list_ex (same_reaction m u e) (reactions s)"
  by (force simp: reaction_set_def list_ex_iff same_reaction_triple)

lemma dispatch_run: "dispatch events e s = (Ok (), s\<lparr>outer := (case events of None \<Rightarrow> outer s
    | Some bus \<Rightarrow> bus e (store.truncate s) (outer s))\<rparr>)"
  by (cases events) (simp_all add: dispatch_def cmd_simps)

lemma add_reaction_eq: "mem_add_reaction events m u e s =
    (if (m, u, e) \<in> reaction_set s then (Ok False, s)
     else (Ok True, snd (dispatch events (ChatReactionChanged m u (emoji_as_str e) True)
       (s\<lparr>reactions := reactions s @ [\<lparr>r_message_id = m, r_user_id = u, r_emoji = e\<rparr>]\<rparr>))))"
  by (simp add: mem_add_reaction_def dispatch_reaction_def in_reaction_set dispatch_run cmd_simps)

lemma removed_length: "length (filter (\<lambda>r. \<not> same_reaction m u e r) rs) < length rs
    \<longleftrightarrow> list_ex (same_reaction m u e) rs"
  by (induction rs) (auto simp: less_Suc_eq_le)

lemma remove_reaction_eq: "mem_remove_reaction events m u e s =
    (if (m, u, e) \<in> reaction_set s
     then (Ok True, snd (dispatch events (ChatReactionChanged m u (emoji_as_str e) False)
       (s\<lparr>reactions := filter (\<lambda>r. \<not> same_reaction m u e r) (reactions s)\<rparr>)))
     else (Ok False, s))"
proof (cases "(m, u, e) \<in> reaction_set s")
  case True
  then show ?thesis
    by (simp add: mem_remove_reaction_def dispatch_reaction_def in_reaction_set dispatch_run removed_length
        cmd_simps)
next
  case False
  then have "filter (\<lambda>r. \<not> same_reaction m u e r) (reactions s) = reactions s"
    by (simp add: in_reaction_set list_ex_iff filter_id_conv)
  then show ?thesis using False
    by (simp add: mem_remove_reaction_def in_reaction_set cmd_simps)
qed

lemma reaction_set_after [simp]: "reaction_set (s\<lparr>outer := z\<rparr>) = reaction_set s"
  and reaction_set_new: "reaction_set (s\<lparr>reactions := rs\<rparr>) = triple_of ` set rs"
  by (simp_all add: reaction_set_def)

text \<open>The specification: what a client may assume of toggling one emoji of one user.\<close>

definition reactions_ok :: "'z world \<Rightarrow> bool" where
  "reactions_ok s \<longleftrightarrow> distinct (reactions s)"

text \<open>The reaction rows implement a set of (message, user, emoji) triples: adding inserts, removing
  deletes, both answer whether the set changed, a change is dispatched exactly once and an idempotent
  retry leaves the whole world alone, and no triple is ever stored twice.\<close>

theorem reactions_refine_set:
  assumes "reactions_ok s"
  shows "(case mem_add_reaction events m u e s of (r, t) \<Rightarrow>
      reactions_ok t \<and> reaction_set t = insert (m, u, e) (reaction_set s)
      \<and> r = Ok ((m, u, e) \<notin> reaction_set s) \<and> messages t = messages s
      \<and> outer t = (if (m, u, e) \<in> reaction_set s then outer s else
          outer (snd (dispatch events (ChatReactionChanged m u (emoji_as_str e) True)
            (s\<lparr>reactions := reactions t\<rparr>))))
      \<and> (r = Ok False \<longrightarrow> t = s))
    \<and> (case mem_remove_reaction events m u e s of (r, t) \<Rightarrow>
      reactions_ok t \<and> reaction_set t = reaction_set s - {(m, u, e)}
      \<and> r = Ok ((m, u, e) \<in> reaction_set s) \<and> messages t = messages s
      \<and> outer t = (if (m, u, e) \<in> reaction_set s then
          outer (snd (dispatch events (ChatReactionChanged m u (emoji_as_str e) False)
            (s\<lparr>reactions := reactions t\<rparr>))) else outer s)
      \<and> (r = Ok False \<longrightarrow> t = s))"
proof -
  let ?new = "\<lparr>r_message_id = m, r_user_id = u, r_emoji = e\<rparr>"
  let ?left = "filter (\<lambda>r. \<not> same_reaction m u e r) (reactions s)"
  have fresh: "distinct (reactions s @ [?new])" if "(m, u, e) \<notin> reaction_set s"
    using assms that by (force simp: reactions_ok_def reaction_set_def triple_of_def)
  have left: "distinct ?left" using assms by (simp add: reactions_ok_def)
  have add: "triple_of ` set (reactions s @ [?new]) = insert (m, u, e) (reaction_set s)"
    by (simp add: reaction_set_def triple_of_def)
  have remove: "triple_of ` set ?left = reaction_set s - {(m, u, e)}"
    by (auto simp: reaction_set_def same_reaction_triple)
  show ?thesis
  proof (cases "(m, u, e) \<in> reaction_set s")
    case True
    then show ?thesis using assms left remove
      by (cases events) (simp_all add: add_reaction_eq remove_reaction_eq dispatch_run insert_absorb
          reactions_ok_def reaction_set_new)
  next
    case False
    then show ?thesis using assms fresh add
      by (cases events) (simp_all add: add_reaction_eq remove_reaction_eq dispatch_run reactions_ok_def
          reaction_set_new del: set_append distinct_append)
  qed
qed

lemma reactions_refine_set_witness:
  "case mem_add_reaction None (MessageId 1) (UserId 2) (ReactionEmoji [128077]) chat_world of (r, t) \<Rightarrow>
     reactions_ok t \<and> (MessageId 1, UserId 2, ReactionEmoji [128077]) \<in> reaction_set t"
  using reactions_refine_set [of chat_world "MessageId 1" "UserId 2" "ReactionEmoji [128077]" None]
  by (simp add: chat_world_def reactions_ok_def split: prod.splits)

end
