(* ===== verification/ChatRooms.thy ===== *)
theory ChatRooms
  imports UseChat MemChat MemMarkets
begin

text \<open>
  Chat over the in-memory stores: what a page of history shows, what posting a message changes
  and that a reply never quotes another room.
\<close>

section \<open>Tallies\<close>

text \<open>The elements of a list in the order of their first appearance.\<close>

definition firsts :: "'a list \<Rightarrow> 'a list" where
  "firsts xs = rev (remdups (rev xs))"

lemma firsts_Nil [simp]: "firsts [] = []"
  and set_firsts [simp]: "set (firsts xs) = set xs"
  and distinct_firsts [simp]: "distinct (firsts xs)"
  and firsts_snoc: "firsts (xs @ [x]) = (if x \<in> set xs then firsts xs else firsts xs @ [x])"
  by (simp_all add: firsts_def)

definition tally_row :: "user_id \<Rightarrow> reaction list \<Rightarrow> reaction_emoji \<Rightarrow> reaction_tally" where
  "tally_row viewer rs e = \<lparr>rt_emoji = e, rt_count = int (length (filter (\<lambda>r. r_emoji r = e) rs)),
     rt_reacted = (\<exists>r\<in>set rs. r_emoji r = e \<and> r_user_id r = viewer)\<rparr>"

lemma count_tally_map:
  assumes "distinct es" "\<And>e. rt_emoji (f e) = e"
  shows "count_tally viewer r (map f es) = (if r_emoji r \<in> set es
    then map (\<lambda>e. if e = r_emoji r then (f e)\<lparr>rt_count := wrap_i64 (rt_count (f e) + 1),
           rt_reacted := rt_reacted (f e) \<or> r_user_id r = viewer\<rparr> else f e) es
    else map f es @ [\<lparr>rt_emoji = r_emoji r, rt_count = 1, rt_reacted = (r_user_id r = viewer)\<rparr>])"
  using assms(1) by (induction es) (auto simp: assms(2))

lemma fold_count_tally:
  "int (length rs) \<le> i64_max \<Longrightarrow>
   fold (count_tally viewer) rs [] = map (tally_row viewer rs) (firsts (map r_emoji rs))"
proof (induction rs rule: rev_induct)
  case (snoc r rs)
  have small: "in_i64 (int (length (filter P rs)) + 1)" for P
  proof -
    have "int (length (filter P rs)) \<le> int (length rs)" by simp
    moreover have "int (length rs) + 1 \<le> i64_max" using snoc.prems by simp
    ultimately have "int (length (filter P rs)) + 1 \<le> i64_max" by linarith
    then show ?thesis by (simp add: in_i64_def i64_min_def)
  qed
  have "fold (count_tally viewer) (rs @ [r]) [] = count_tally viewer r (map (tally_row viewer rs) (firsts (map r_emoji rs)))"
    using snoc by simp
  also have "\<dots> = map (tally_row viewer (rs @ [r])) (firsts (map r_emoji (rs @ [r])))"
    by (subst count_tally_map) (auto simp: tally_row_def firsts_snoc wrap_i64_id [OF small] filter_empty_conv
        image_iff)
  finally show ?case .
qed simp

lemma grouped_tallies:
  "map_of (fold (tally_reaction viewer) rs []) i = (let own = filter (\<lambda>r. r_message_id r = i) rs in
     if own = [] then None else Some (fold (count_tally viewer) own []))"
  by (induction rs rule: rev_induct) (auto simp: tally_reaction_def update_conv' Let_def)

text \<open>What a reader sees under a message: one entry per emoji somebody holds on it, in the order
  they first appeared, with the number of users who hold it.\<close>

definition tallies :: "user_id \<Rightarrow> 'z world \<Rightarrow> message_id \<Rightarrow> reaction_tally list" where
  "tallies viewer s i = map (\<lambda>e. \<lparr>rt_emoji = e, rt_count = int (card {u. (i, u, e) \<in> reaction_set s}),
     rt_reacted = ((i, viewer, e) \<in> reaction_set s)\<rparr>)
     (firsts (map r_emoji (filter (\<lambda>r. r_message_id r = i) (reactions s))))"

lemma holders_card:
  assumes "distinct (reactions s)"
  shows "card {u. (i, u, e) \<in> reaction_set s}
    = length (filter (\<lambda>r. r_emoji r = e) (filter (\<lambda>r. r_message_id r = i) (reactions s)))"
proof -
  let ?rs = "filter (\<lambda>r. r_emoji r = e) (filter (\<lambda>r. r_message_id r = i) (reactions s))"
  have "{u. (i, u, e) \<in> reaction_set s} = r_user_id ` set ?rs"
    by (auto simp: reaction_set_def triple_of_def image_iff)
  moreover have "inj_on r_user_id (set ?rs)"
    by (rule inj_onI) (auto simp: triple_inj [symmetric] triple_of_def)
  moreover have "distinct ?rs" using assms by simp
  ultimately show ?thesis by (simp only: card_image distinct_card)
qed

lemma tallies_of_group:
  assumes "reactions_ok s" "int (length (reactions s)) \<le> i64_max" "i \<in> set ids"
  shows "(case map_of (fold (tally_reaction viewer) (filter (\<lambda>r. r_message_id r \<in> set ids) (reactions s)) []) i
      of None \<Rightarrow> [] | Some ts \<Rightarrow> ts) = tallies viewer s i"
proof -
  let ?own = "filter (\<lambda>r. r_message_id r = i) (reactions s)"
  have own: "filter (\<lambda>r. r_message_id r = i) (filter (\<lambda>r. r_message_id r \<in> set ids) (reactions s)) = ?own"
    using assms(3) by (simp add: filter_filter) (rule filter_cong, auto)
  have "int (length ?own) \<le> i64_max"
    using assms(2) length_filter_le [of "\<lambda>r. r_message_id r = i" "reactions s"] by linarith
  moreover have "tally_row viewer ?own e = \<lparr>rt_emoji = e, rt_count = int (card {u. (i, u, e) \<in> reaction_set s}),
      rt_reacted = ((i, viewer, e) \<in> reaction_set s)\<rparr>" for e
    using assms(1) holders_card [of s i e]
    by (auto simp: tally_row_def reactions_ok_def reaction_set_def triple_of_def)
  ultimately show ?thesis
    by (auto simp: grouped_tallies own fold_count_tally tallies_def Let_def simp del: filter_filter)
qed

section \<open>Reading a room\<close>

definition room_open :: "'z world \<Rightarrow> chat_channel \<Rightarrow> bool" where
  "room_open s channel = (case channel of Global \<Rightarrow> True | Market mid \<Rightarrow> lookup_market s mid \<noteq> None)"

definition message_by_id :: "'z world \<Rightarrow> message_id \<Rightarrow> chat_message option" where
  "message_by_id s i = find (\<lambda>m. c_id m = i) (messages s)"

lemma message_by_id_Some:
  "message_by_id s i = Some m \<Longrightarrow> m \<in> set (messages s) \<and> c_id m = i"
  by (auto simp: message_by_id_def dest: find_SomeD)

text \<open>What one message looks like to a reader, or nothing when its author is gone.\<close>

definition quote_view :: "'z world \<Rightarrow> message_id \<Rightarrow> replied_message option" where
  "quote_view s i = (case message_by_id s i of None \<Rightarrow> None
     | Some q \<Rightarrow> map_option (\<lambda>a. \<lparr>rm_message = q, rm_author = a\<rparr>) (lookup_user s (c_author_id q)))"

definition view_of :: "user_id \<Rightarrow> 'z world \<Rightarrow> chat_message \<Rightarrow> chat_message_view option" where
  "view_of viewer s m = map_option (\<lambda>a. \<lparr>cv_message = m, cv_author = a,
     cv_reply_to = (case c_reply_to m of None \<Rightarrow> None | Some i \<Rightarrow> quote_view s i),
     cv_reactions = tallies viewer s (c_id m)\<rparr>) (lookup_user s (c_author_id m))"

text \<open>The page a window asks for.\<close>

definition window_page :: "chat_channel \<Rightarrow> int \<Rightarrow> history_window \<Rightarrow> 'z world
    \<Rightarrow> (chat_message list, app_error) result" where
  "window_page channel limit window s =
     (let history = sort_key message_key (filter (\<lambda>m. c_channel m = channel) (messages s));
          anchored = (\<lambda>i. case message_by_id s i of
            Some a \<Rightarrow> if c_channel a = channel then Ok (message_key a) else Err (not_found ''message '' (message_uuid i))
          | None \<Rightarrow> Err (not_found ''message '' (message_uuid i)))
      in case (hw_before window, hw_after window) of
        (None, None) \<Rightarrow> Ok (last_n (nat limit) history)
      | (Some i, None) \<Rightarrow> and_then (anchored i) (\<lambda>k.
          Ok (last_n (nat limit) (filter (\<lambda>m. message_key m < k) history)))
      | (None, Some i) \<Rightarrow> and_then (anchored i) (\<lambda>k.
          Ok (take (nat limit) (filter (\<lambda>m. k < message_key m) history)))
      | (Some _, Some _) \<Rightarrow> Err (Domain (Validation (msg ''before_uuid and after_uuid are mutually exclusive''))))"

definition chat_sound :: "'z world \<Rightarrow> bool" where
  "chat_sound s \<longleftrightarrow> distinct (map c_id (messages s)) \<and> reactions_ok s
     \<and> int (length (reactions s)) \<le> i64_max"

lemma room_exists_eq: "room_exists (mem_market_repo lc) channel s =
    (if room_open s channel then (Ok (), s)
     else (Err (case channel of Market mid \<Rightarrow> not_found ''market '' (market_uuid mid)), s))"
  by (auto simp: room_exists_def room_open_def lookup_market_def mem_simps cmd_simps
      split: chat_channel.split option.split)

abbreviation mem_chat where "mem_chat \<equiv> mem_chat_repo"

lemma cursor_page:
  assumes "chat_sound s"
  shows "(case resolve_cursor (mem_chat ev) channel window s of
      (Ok cursor, s') \<Rightarrow> s' = s \<and> (\<exists>ms. mem_list_recent channel limit cursor s = (Ok ms, s)
        \<and> window_page channel limit window s = Ok ms)
    | (Err e, s') \<Rightarrow> s' = s \<and> window_page channel limit window s = Err e
    | (Panic, s') \<Rightarrow> False)"
proof -
  have d: "distinct (map c_id (messages s))" using assms by (simp add: chat_sound_def)
  have key: "anchor_key (anchor_of m) = message_key m" for m
    by (simp add: anchor_key_def anchor_of_def message_key_def)
  have honest: "honest_anchor s (anchor_of m)" if "message_by_id s i = Some m" for i m
    using d message_by_id_Some [OF that]
    by (auto simp: honest_anchor_def anchor_of_def distinct_map dest: inj_onD)
  note page = list_recent_eq [OF d, unfolded room_def]
  show ?thesis
    using honest
    by (auto simp: resolve_cursor_def mem_chat_repo_def mem_message_find_by_id_def message_by_id_def [symmetric]
        window_page_def Let_def cmd_simps page key split: option.splits)
qed

definition cache_ok :: "'z world \<Rightarrow> (user_id \<times> user) list \<Rightarrow> bool" where
  "cache_ok s cache \<longleftrightarrow> (\<forall>i u. map_of cache i = Some u \<longrightarrow> lookup_user s i = Some u)"

lemma author_mem:
  assumes "cache_ok s cache"
  shows "\<exists>cache'. author mem_user_repo cache i s = (Ok (lookup_user s i, cache'), s) \<and> cache_ok s cache'"
  using assms by (cases "map_of cache i"; cases "lookup_user s i")
    (auto simp: author_def cache_ok_def lookup_user_def update_conv' mem_simps cmd_simps)

lemma quote_of_mem:
  assumes "cache_ok s cache" "\<And>i. c_reply_to m = Some i \<Longrightarrow> map_of quotes i = message_by_id s i"
  shows "\<exists>cache'. quote_of mem_user_repo quotes cache m s =
    (Ok (case c_reply_to m of None \<Rightarrow> None | Some i \<Rightarrow> quote_view s i, cache'), s) \<and> cache_ok s cache'"
proof (cases "case c_reply_to m of None \<Rightarrow> None | Some i \<Rightarrow> message_by_id s i")
  case None
  then show ?thesis using assms
    by (auto simp: quote_of_def quote_view_def ret_def split: option.splits)
next
  case (Some q)
  then obtain i where i: "c_reply_to m = Some i" "message_by_id s i = Some q" by (auto split: option.splits)
  obtain cache' where "author mem_user_repo cache (c_author_id q) s = (Ok (lookup_user s (c_author_id q), cache'), s)"
      "cache_ok s cache'"
    using author_mem [OF assms(1)] by blast
  then show ?thesis using i assms(2) [OF i(1)]
    by (intro exI [of _ cache']) (simp add: quote_of_def quote_view_def bind_cmd_def ret_def)
qed

lemma render_page_mem:
  assumes "cache_ok s cache" "distinct (map c_id ms)"
    and "\<And>m i. m \<in> set ms \<Longrightarrow> c_reply_to m = Some i \<Longrightarrow> map_of quotes i = message_by_id s i"
    and "\<And>m. m \<in> set ms \<Longrightarrow> (case map_of groups (c_id m) of None \<Rightarrow> [] | Some ts \<Rightarrow> ts) = tallies viewer s (c_id m)"
  shows "render_page mem_user_repo quotes ms cache groups s = (Ok (List.map_filter (view_of viewer s) ms), s)"
  using assms
proof (induction ms arbitrary: cache groups)
  case Nil
  then show ?case by (simp add: ret_def)
next
  case (Cons m ms)
  obtain c1 where c1: "author mem_user_repo cache (c_author_id m) s = (Ok (lookup_user s (c_author_id m), c1), s)"
      "cache_ok s c1"
    using author_mem [OF Cons.prems(1)] by blast
  show ?case
  proof (cases "lookup_user s (c_author_id m)")
    case None
    have "render_page mem_user_repo quotes ms c1 groups s = (Ok (List.map_filter (view_of viewer s) ms), s)"
      using Cons.prems c1(2) by (intro Cons.IH) auto
    moreover have "view_of viewer s m = None" using None by (simp add: view_of_def)
    ultimately show ?thesis using c1 None by (simp add: bind_cmd_def)
  next
    case (Some a)
    obtain c2 where c2: "quote_of mem_user_repo quotes c1 m s =
        (Ok (case c_reply_to m of None \<Rightarrow> None | Some i \<Rightarrow> quote_view s i, c2), s)" "cache_ok s c2"
      using quote_of_mem [OF c1(2), of m quotes] Cons.prems(3) [of m] by auto
    have "render_page mem_user_repo quotes ms c2 (AList.delete (c_id m) groups) s
        = (Ok (List.map_filter (view_of viewer s) ms), s)"
    proof (rule Cons.IH [OF c2(2)])
      fix x assume "x \<in> set ms"
      moreover have "c_id x \<noteq> c_id m" using Cons.prems(2) imageI [OF \<open>x \<in> set ms\<close>, of c_id] by auto
      ultimately show "(case map_of (AList.delete (c_id m) groups) (c_id x) of None \<Rightarrow> [] | Some ts \<Rightarrow> ts)
          = tallies viewer s (c_id x)"
        using Cons.prems(4) [of x] by (simp add: delete_conv')
    qed (use Cons.prems in auto)
    moreover have "view_of viewer s m = Some \<lparr>cv_message = m, cv_author = a,
        cv_reply_to = (case c_reply_to m of None \<Rightarrow> None | Some i \<Rightarrow> quote_view s i),
        cv_reactions = tallies viewer s (c_id m)\<rparr>"
      using Some by (simp add: view_of_def)
    ultimately show ?thesis using c1 c2 Some Cons.prems(4) [of m]
      by (simp add: bind_cmd_def ret_def)
  qed
qed

lemma quoted_messages_mem:
  assumes "distinct (map c_id (messages s))"
  shows "\<exists>quotes. quoted_messages (mem_chat ev) ms s = (Ok quotes, s)
    \<and> (\<forall>m\<in>set ms. \<forall>i. c_reply_to m = Some i \<longrightarrow> map_of quotes i = message_by_id s i)"
proof -
  let ?ids = "remdups_adj (sort_key message_uuid (List.map_filter c_reply_to ms))"
  let ?found = "filter (\<lambda>m. c_id m \<in> set ?ids) (messages s)"
  have "map_of (collect_map (map (\<lambda>m. (c_id m, m)) ?found)) i = message_by_id s i"
    if "m \<in> set ms" "c_reply_to m = Some i" for m i
  proof -
    have "i \<in> set ?ids" using that by (force simp: List.map_filter_def)
    then have "find (\<lambda>m. c_id m = i) ?found = find (\<lambda>m. c_id m = i) (messages s)"
      by (intro find_filter_key) simp
    moreover have "distinct (map c_id ?found)" by (rule distinct_map_filter [OF assms])
    ultimately show ?thesis
      using collect_keyed [of c_id ?found "\<lambda>m. m" i] by (simp add: message_by_id_def option.map_ident)
  qed
  then show ?thesis
    by (simp add: quoted_messages_def mem_chat_repo_def mem_message_find_by_ids_def cmd_simps)
qed

lemma window_page_distinct:
  assumes "chat_sound s" "window_page channel limit window s = Ok ms"
  shows "distinct (map c_id ms)"
proof -
  let ?h = "room channel s"
  have h: "distinct (map c_id ?h)" using assms(1) by (simp add: chat_sound_def room_distinct)
  then have f: "distinct (map c_id (filter P ?h))" for P by (rule distinct_map_filter)
  have l: "distinct (map c_id (last_n n xs))" "distinct (map c_id (take n xs))" if "distinct (map c_id xs)" for n xs
    using that by (simp_all add: last_n_def drop_map [symmetric] take_map [symmetric])
  show ?thesis
    using assms(2)
    by (auto simp: window_page_def room_def [symmetric] Let_def and_then_eq_Ok split: option.splits
        intro!: l h f)
qed

text \<open>C21: Reading a room is exact: an unknown market room, an anchor that names no message of this
  very room and two anchors at once are refused; otherwise the answer is the asked page of the
  room's history in order, each message with its author's current profile, the message it quotes
  and, for this reader, how many users hold each emoji on it; messages whose author is gone are
  left out, and nothing changes.\<close>

theorem history_exact:
  assumes "chat_sound s"
  shows "list_recent_messages (mem_chat_repo ev) mem_user_repo (mem_market_repo lc) viewer channel limit window s =
    (if \<not> room_open s channel
     then (Err (case channel of Market mid \<Rightarrow> not_found ''market '' (market_uuid mid)), s)
     else case window_page channel limit window s of
       Ok ms \<Rightarrow> (Ok (List.map_filter (view_of viewer s) ms), s)
     | Err e \<Rightarrow> (Err e, s))"
proof (cases "room_open s channel")
  case True
  let ?c = "resolve_cursor (mem_chat ev) channel window s"
  show ?thesis
  proof (cases "window_page channel limit window s")
    case (Ok ms)
    obtain cursor where c: "?c = (Ok cursor, s)" "mem_list_recent channel limit cursor s = (Ok ms, s)"
      using cursor_page [OF assms, where ev = ev and channel = channel and window = window and limit = limit] Ok by (auto split: prod.splits result.splits)
    obtain quotes where q: "quoted_messages (mem_chat ev) ms s = (Ok quotes, s)"
        "\<forall>m\<in>set ms. \<forall>i. c_reply_to m = Some i \<longrightarrow> map_of quotes i = message_by_id s i"
      using quoted_messages_mem [of s ev ms] assms by (auto simp: chat_sound_def)
    let ?g = "fold (tally_reaction viewer) (filter (\<lambda>r. r_message_id r \<in> set (map c_id ms)) (reactions s)) []"
    have g: "(case map_of ?g (c_id m) of None \<Rightarrow> [] | Some ts \<Rightarrow> ts) = tallies viewer s (c_id m)" if "m \<in> set ms" for m
      using assms that by (intro tallies_of_group) (auto simp: chat_sound_def)
    have "render_page mem_user_repo quotes ms [] ?g s = (Ok (List.map_filter (view_of viewer s) ms), s)"
      by (rule render_page_mem [OF _ window_page_distinct [OF assms Ok]])
        (use q(2) g in \<open>auto simp: cache_ok_def\<close>)
    then show ?thesis using True Ok c q(1)
      by (simp add: list_recent_messages_def room_exists_eq mem_reactions_for_def cmd_simps)
        (simp add: mem_chat_repo_def mem_reactions_for_def cmd_simps)
  next
    case (Err e)
    then have "?c = (Err e, s)"
      using cursor_page [OF assms, where ev = ev and channel = channel and window = window and limit = limit] by (auto split: prod.splits result.splits)
    then show ?thesis using True Err by (simp add: list_recent_messages_def room_exists_eq cmd_simps)
  next
    case Panic
    then show ?thesis
      using cursor_page [OF assms, where ev = ev and channel = channel and window = window and limit = limit] by (auto split: prod.splits result.splits)
  qed
next
  case False
  then show ?thesis by (simp add: list_recent_messages_def room_exists_eq cmd_simps)
qed

lemma sample_chat_sound: "chat_sound chat_world"
  by (simp add: chat_sound_def chat_world_def sample_message_def reactions_ok_def i64_max_def)

section \<open>Posting\<close>

lemma quoted_mem: "quoted (mem_chat ev) mem_user_repo i channel s =
   (case message_by_id s i of
      None \<Rightarrow> (Err (not_found ''message '' (message_uuid i)), s)
    | Some q \<Rightarrow> if c_channel q \<noteq> channel then (Err (not_found ''message '' (message_uuid i)), s)
      else case lookup_user s (c_author_id q) of
        None \<Rightarrow> (Err (not_found ''message '' (message_uuid i)), s)
      | Some a \<Rightarrow> (Ok \<lparr>rm_message = q, rm_author = a\<rparr>, s))"
  by (auto simp: quoted_def message_by_id_def [symmetric] mem_chat_repo_def mem_message_find_by_id_def
      lookup_user_def mem_simps cmd_simps Let_def split: option.split)

definition quote_allowed :: "'z world \<Rightarrow> chat_channel \<Rightarrow> message_id option \<Rightarrow> replied_message option \<Rightarrow> bool" where
  "quote_allowed s channel reply_to quote \<longleftrightarrow> (case reply_to of
     None \<Rightarrow> quote = None
   | Some i \<Rightarrow> \<exists>q a. message_by_id s i = Some q \<and> c_channel q = channel
       \<and> lookup_user s (c_author_id q) = Some a \<and> quote = Some \<lparr>rm_message = q, rm_author = a\<rparr>)"

lemma post_message_cases:
  assumes "post_message (mem_chat ev) mem_user_repo (mem_market_repo lc) clock fresh u channel body reply_to s = (r, t)"
  shows "(\<exists>e. r = Err e) \<and> t = s
    \<or> (\<exists>a text quote. lookup_user s u = Some a \<and> room_open s channel \<and> body_new body = Ok text
        \<and> quote_allowed s channel reply_to quote
        \<and> (let m = chat_message_new fresh (clock 0) u channel text reply_to in
           r = Ok \<lparr>cv_message = m, cv_author = a, cv_reply_to = quote, cv_reactions = []\<rparr>
           \<and> t = snd (dispatch ev (ChatMessagePosted (MessageId fresh)) (s\<lparr>messages := messages s @ [m]\<rparr>))))"
proof -
  define q where "q = (case reply_to of None \<Rightarrow> ret None
      | Some i \<Rightarrow> bind_cmd (quoted (mem_chat ev) mem_user_repo i channel) (\<lambda>q. ret (Some q)))"
  have q: "(\<exists>e. q s = (Err e, s)) \<or> (\<exists>quote. q s = (Ok quote, s) \<and> quote_allowed s channel reply_to quote)"
    unfolding q_def quote_allowed_def
    by (cases reply_to) (auto simp: cmd_simps quoted_mem split: option.split)
  have u: "conv app_of_repo (ur_find_by_id mem_user_repo u) s = (Ok (lookup_user s u), s)"
    by (simp add: lookup_user_def mem_simps cmd_simps)
  have save: "conv app_of_repo (cr_save (mem_chat ev) m) s
      = (Ok (), snd (dispatch ev (ChatMessagePosted (c_id m)) (s\<lparr>messages := messages s @ [m]\<rparr>)))" for m
    by (simp add: mem_chat_repo_def mem_message_save_def dispatch_run cmd_simps)
  note run = assms [unfolded post_message_def q_def [symmetric]]
  show ?thesis
  proof (cases "\<exists>a. lookup_user s u = Some a \<and> room_open s channel")
    case False
    then show ?thesis using run u
      by (cases "lookup_user s u") (auto simp: bind_cmd_def lift_def seq_cmd_def room_exists_eq)
  next
    case True
    then show ?thesis using run u q
      by (cases "body_new body")
        (auto simp: bind_cmd_def lift_def seq_cmd_def room_exists_eq save ret_def Let_def chat_message_new_def)
  qed
qed

text \<open>No quote crosses rooms: every reply quotes a stored message of its own room.\<close>

definition rooms_closed :: "'z world \<Rightarrow> bool" where
  "rooms_closed s \<longleftrightarrow> (\<forall>m\<in>set (messages s). \<forall>i. c_reply_to m = Some i \<longrightarrow>
     (\<exists>q. message_by_id s i = Some q \<and> c_channel q = c_channel m))"

definition posted :: "'z world \<Rightarrow> chat_message \<Rightarrow> 'z world \<Rightarrow> bool" where
  "posted s m t \<longleftrightarrow> messages t = messages s @ [m] \<and> reactions t = reactions s \<and> users t = users s
     \<and> refresh_tokens t = refresh_tokens s \<and> markets t = markets s \<and> outcomes t = outcomes s
     \<and> price_points t = price_points s \<and> bets t = bets s"

lemma posted_dispatch: "posted s m (snd (dispatch ev e (s\<lparr>messages := messages s @ [m]\<rparr>)))"
  by (simp add: posted_def dispatch_run)

lemma posted_sound:
  assumes "chat_sound s" "rooms_closed s" "c_id m \<notin> c_id ` set (messages s)" "posted s m t"
    and "\<And>i. c_reply_to m = Some i \<Longrightarrow> \<exists>q. message_by_id s i = Some q \<and> c_channel q = c_channel m"
  shows "chat_sound t \<and> rooms_closed t"
proof -
  have keep: "message_by_id t i = Some q" if "message_by_id s i = Some q" for i q
    using that assms(4) by (simp add: message_by_id_def posted_def find_append)
  have "rooms_closed t"
    unfolding rooms_closed_def
  proof (intro ballI allI impI)
    fix x i assume "x \<in> set (messages t)" "c_reply_to x = Some i"
    then have "\<exists>q. message_by_id s i = Some q \<and> c_channel q = c_channel x"
      using assms(2,4,5) by (auto simp: posted_def rooms_closed_def)
    then show "\<exists>q. message_by_id t i = Some q \<and> c_channel q = c_channel x" using keep by blast
  qed
  then show ?thesis using assms(1,3,4) by (auto simp: chat_sound_def posted_def reactions_ok_def)
qed

lemma posted_rooms: "posted s m t \<Longrightarrow> ch \<noteq> c_channel m \<Longrightarrow> room ch t = room ch s"
  by (simp add: room_def posted_def)

text \<open>Posting keeps rooms apart: whatever it answers, message identifiers stay unique and every
  reply quotes a stored message of its own room; an accepted message is stored in exactly the room
  it was posted to, with the trimmed body and the quote the answer shows, and every other room, the
  reactions, the accounts and the markets stay as they were; a refusal changes nothing.\<close>

theorem post_message_rooms:
  assumes "chat_sound s" "rooms_closed s" "MessageId fresh \<notin> c_id ` set (messages s)"
    and "post_message (mem_chat_repo ev) mem_user_repo (mem_market_repo lc) clock fresh u channel body reply_to s = (r, t)"
  shows "chat_sound t \<and> rooms_closed t
    \<and> (case r of
        Ok v \<Rightarrow> posted s (cv_message v) t \<and> c_channel (cv_message v) = channel
          \<and> c_author_id (cv_message v) = u \<and> c_reply_to (cv_message v) = reply_to
          \<and> body_new body = Ok (c_body (cv_message v)) \<and> lookup_user s u = Some (cv_author v)
          \<and> quote_allowed s channel reply_to (cv_reply_to v)
          \<and> set (room channel t) = insert (cv_message v) (set (room channel s))
          \<and> (\<forall>ch. ch \<noteq> channel \<longrightarrow> room ch t = room ch s)
      | _ \<Rightarrow> t = s)"
proof -
  consider (no) e where "r = Err e" "t = s"
    | (yes) a words quote m where "lookup_user s u = Some a" "body_new body = Ok words"
        "quote_allowed s channel reply_to quote" "m = chat_message_new fresh (clock 0) u channel words reply_to"
        "r = Ok \<lparr>cv_message = m, cv_author = a, cv_reply_to = quote, cv_reactions = []\<rparr>"
        "t = snd (dispatch ev (ChatMessagePosted (MessageId fresh)) (s\<lparr>messages := messages s @ [m]\<rparr>))"
    using post_message_cases [OF assms(4)] by (auto simp: Let_def)
  then show ?thesis
  proof cases
    case no
    then show ?thesis using assms(1,2) by simp
  next
    case yes
    have p: "posted s m t" unfolding yes(6) by (rule posted_dispatch)
    have "chat_sound t \<and> rooms_closed t"
      by (rule posted_sound [OF assms(1,2) _ p])
        (use assms(3) yes(3,4) in \<open>auto simp: chat_message_new_def quote_allowed_def\<close>)
    moreover have "set (room channel t) = insert m (set (room channel s))"
      using p yes(4) by (auto simp: room_set posted_def chat_message_new_def)
    ultimately show ?thesis using yes(1-5) p posted_rooms [OF p] by (simp add: chat_message_new_def)
  qed
qed

definition chat_user :: user where
  "chat_user = \<lparr>u_id = UserId 1, u_username = Username (lit ''ann''), u_email = Email (lit ''a@b.c''),
     u_password_hash = PasswordHash [], u_avatar_url = None, u_balance = 0, u_role = RUser,
     u_created_at = 0, u_updated_at = 0\<rparr>"

definition busy_world :: "unit world" where
  "busy_world = chat_world\<lparr>users := [(UserId 1, chat_user)]\<rparr>"

lemma post_message_rooms_witness:
  "\<exists>v t. post_message (mem_chat_repo None) mem_user_repo (mem_market_repo (\<lambda>_ _. [])) (\<lambda>_. 9) 9 (UserId 1) Global
       (lit ''hi'') (Some (MessageId 1)) busy_world = (Ok v, t)
     \<and> rooms_closed t \<and> room (Market (MarketId 1)) t = [sample_message 2 (Market (MarketId 1))]"
proof -
  let ?run = "post_message (mem_chat_repo None) mem_user_repo (mem_market_repo (\<lambda>_ _. [])) (\<lambda>_. 9) 9 (UserId 1) Global
       (lit ''hi'') (Some (MessageId 1)) busy_world"
  have ok: "is_ok (fst ?run)" by code_simp
  obtain r t where run: "?run = (r, t)" by fastforce
  then obtain v where "r = Ok v" using ok by (auto simp: is_ok_iff)
  moreover have "chat_sound busy_world" "rooms_closed busy_world" "MessageId 9 \<notin> c_id ` set (messages busy_world)"
    by (simp_all add: busy_world_def chat_world_def chat_sound_def reactions_ok_def rooms_closed_def
        sample_message_def i64_max_def)
  moreover have "room (Market (MarketId 1)) busy_world = [sample_message 2 (Market (MarketId 1))]"
    by (simp add: room_def busy_world_def chat_world_def sample_message_def)
  ultimately show ?thesis using post_message_rooms [OF _ _ _ run] run by auto
qed

lemma history_exact_witness:
  "\<exists>views. list_recent_messages (mem_chat_repo None) mem_user_repo (mem_market_repo (\<lambda>_ _. [])) (UserId 1) Global 1
     \<lparr>hw_before = Some (MessageId 4), hw_after = None\<rparr> busy_world = (Ok views, busy_world)
   \<and> map cv_message views = [sample_message 3 Global]"
proof -
  have s: "chat_sound busy_world"
    using sample_chat_sound by (simp add: busy_world_def chat_sound_def reactions_ok_def)
  have p: "window_page Global 1 \<lparr>hw_before = Some (MessageId 4), hw_after = None\<rparr> busy_world
      = Ok [sample_message 3 Global]"
    by (simp add: window_page_def message_by_id_def busy_world_def chat_world_def sample_message_def
        message_key_def last_n_def)
  have "\<exists>v. view_of (UserId 1) busy_world (sample_message 3 Global) = Some v \<and> cv_message v = sample_message 3 Global"
    by (simp add: view_of_def lookup_user_def busy_world_def chat_world_def sample_message_def)
  then show ?thesis
    using history_exact [OF s, of None "\<lambda>_ _. []" "UserId 1" Global 1 "\<lparr>hw_before = Some (MessageId 4), hw_after = None\<rparr>"] p
    by (auto simp: room_open_def)
qed

end
