(* ===== verification/UseFiles.thy ===== *)
theory UseFiles
  imports UseMarkets
begin

text \<open>
  The file port (\<open>application/src/ports/storage.rs\<close>) and the use cases over it
  (\<open>application/src/use_cases/image.rs\<close>, \<open>user/upload_avatar.rs\<close>, \<open>market/upload_thumbnail.rs\<close>,
  \<open>market/upload_outcome_thumbnail.rs\<close>, \<open>file/get_file.rs\<close>).  Bytes are numbers; the seconds of a
  clock read are the argument \<open>stamp\<close>, the text form of identifiers the argument \<open>uf\<close>.
\<close>

record stored_file =
  sf_content_type :: str
  sf_bytes :: "nat list"

record 's file_storage =
  fs_put :: "str \<Rightarrow> nat list \<Rightarrow> ('s, unit, storage_port_error) cmd"
  fs_get :: "str \<Rightarrow> ('s, stored_file option, storage_port_error) cmd"
  fs_delete :: "str \<Rightarrow> ('s, unit, storage_port_error) cmd"
  fs_public_url :: "str \<Rightarrow> str"

section \<open>Images\<close>

definition allowed_types :: "(str \<times> str) list" where
  "allowed_types = [(lit ''image/png'', lit ''png''), (lit ''image/jpeg'', lit ''jpg''),
     (lit ''image/webp'', lit ''webp'')]"

definition image_validate :: "string \<Rightarrow> str \<Rightarrow> nat list \<Rightarrow> nat \<Rightarrow> (str, domain_error) result" where
  "image_validate kind content_type bytes max_bytes =
     and_then (ok_or (map_option snd (find (\<lambda>(ct, _). ct = content_type) allowed_types))
       (Validation [Lit ''unsupported '', Lit kind, Lit '' content type: '', DebugF content_type,
         Lit '' (allowed: png, jpeg, webp)''])) (\<lambda>ext.
     if bytes = [] then Err (Validation [Lit kind, Lit '' file is empty''])
     else if length bytes > max_bytes
     then Err (Validation [Lit kind, Lit '' exceeds '', IntF (int max_bytes), Lit '' bytes''])
     else Ok ext)"

definition image_key :: "str \<Rightarrow> str \<Rightarrow> str \<Rightarrow> str" where
  "image_key folder owner ext = folder @ [47] @ owner @ [46] @ ext"

definition image_store :: "'s file_storage \<Rightarrow> str \<Rightarrow> str \<Rightarrow> str \<Rightarrow> nat list \<Rightarrow> int \<Rightarrow> ('s, str, app_error) cmd" where
  "image_store storage folder owner ext bytes stamp =
     seq_cmd (for_each (\<lambda>(_, other). conv app_of_storage (fs_delete storage (image_key folder owner other)))
       (filter (\<lambda>(_, e). e \<noteq> ext) allowed_types))
     (let key = image_key folder owner ext in
      seq_cmd (conv app_of_storage (fs_put storage key bytes))
        (ret (fs_public_url storage key @ lit ''?v='' @ int_text stamp)))"

section \<open>Use cases\<close>

definition max_avatar_bytes :: nat where "max_avatar_bytes = 2 * 1024 * 1024"
definition max_thumbnail_bytes :: nat where "max_thumbnail_bytes = 2 * 1024 * 1024"

definition upload_avatar :: "uuid_format \<Rightarrow> 's user_repo \<Rightarrow> 's file_storage \<Rightarrow> int \<Rightarrow> datetime \<Rightarrow> user_id
    \<Rightarrow> str \<Rightarrow> nat list \<Rightarrow> ('s, user, app_error) cmd" where
  "upload_avatar uf urepo storage stamp now u content_type bytes =
     bind_cmd (lift (map_err Domain (image_validate ''avatar'' content_type bytes max_avatar_bytes))) (\<lambda>ext.
     bind_cmd (conv app_of_repo (ur_find_by_id urepo u)) (\<lambda>found.
     bind_cmd (lift (ok_or found (not_found ''user '' (user_uuid u)))) (\<lambda>user.
     bind_cmd (image_store storage (lit ''avatars'') (uf_text uf (user_uuid u)) ext bytes stamp) (\<lambda>url.
     let user = set_avatar_url now (Some url) user in
     seq_cmd (conv app_of_repo (ur_save urepo user)) (ret user)))))"

definition upload_market_thumbnail :: "uuid_format \<Rightarrow> 's market_repo \<Rightarrow> 's file_storage \<Rightarrow> int \<Rightarrow> actor
    \<Rightarrow> market_id \<Rightarrow> str \<Rightarrow> nat list \<Rightarrow> ('s, market_view, app_error) cmd" where
  "upload_market_thumbnail uf mrepo storage stamp actor mid content_type bytes =
     (if \<not> can_manage_markets (actor_role actor) then fail admin_required
      else
      bind_cmd (lift (map_err Domain (image_validate ''thumbnail'' content_type bytes max_thumbnail_bytes))) (\<lambda>ext.
      bind_cmd (conv app_of_repo (mr_find_by_id mrepo mid)) (\<lambda>found.
      bind_cmd (lift (ok_or found (not_found ''market '' (market_uuid mid)))) (\<lambda>m.
      bind_cmd (image_store storage (lit ''thumbnails'') (uf_text uf (market_uuid mid)) ext bytes stamp) (\<lambda>url.
      let m = market_set_thumbnail_url (Some url) m in
      seq_cmd (conv app_of_repo (mr_update_thumbnail mrepo m))
      (bind_cmd (conv app_of_repo (mr_outcomes_for mrepo mid)) (\<lambda>os.
      ret \<lparr>mv_market = m, mv_outcomes = os\<rparr>)))))))"

definition upload_outcome_thumbnail :: "uuid_format \<Rightarrow> 's market_repo \<Rightarrow> 's file_storage \<Rightarrow> int \<Rightarrow> actor
    \<Rightarrow> market_id \<Rightarrow> outcome_id \<Rightarrow> str \<Rightarrow> nat list \<Rightarrow> ('s, market_view, app_error) cmd" where
  "upload_outcome_thumbnail uf mrepo storage stamp actor mid oid content_type bytes =
     (if \<not> can_manage_markets (actor_role actor) then fail admin_required
      else
      bind_cmd (lift (map_err Domain (image_validate ''thumbnail'' content_type bytes max_thumbnail_bytes))) (\<lambda>ext.
      bind_cmd (conv app_of_repo (mr_find_by_id mrepo mid)) (\<lambda>found.
      bind_cmd (lift (ok_or found (not_found ''market '' (market_uuid mid)))) (\<lambda>m.
      bind_cmd (conv app_of_repo (mr_outcomes_for mrepo mid)) (\<lambda>os.
      bind_cmd (lift (ok_or (position (\<lambda>oc. o_id oc = oid) os) (NotFound [Lit ''outcome '',
        UuidF (outcome_uuid oid), Lit '' of market '', UuidF (market_uuid mid)]))) (\<lambda>i.
      bind_cmd (image_store storage (lit ''outcome-thumbnails'') (uf_text uf (outcome_uuid oid)) ext bytes stamp) (\<lambda>url.
      let oc = outcome_set_thumbnail_url (Some url) (os ! i) in
      seq_cmd (conv app_of_repo (mr_update_outcome_thumbnail mrepo oc))
        (ret \<lparr>mv_market = m, mv_outcomes = os[i := oc]\<rparr>))))))))"

definition get_file :: "'s file_storage \<Rightarrow> str \<Rightarrow> ('s, stored_file, app_error) cmd" where
  "get_file storage key =
     bind_cmd (conv app_of_storage (fs_get storage key)) (\<lambda>found.
     lift (ok_or found (NotFound [Lit ''file '', TextF key])))"

end
