(* ===== verification/LocalStorage.thy ===== *)
theory LocalStorage
  imports UseFiles
begin

text \<open>
  File storage on the local disk (\<open>infrastructure/src/storage/local.rs\<close>).  The file system is what
  the standard library offers of it: files and directories by absolute path, a path being the list
  of its components; \<open>describe\<close> is the text of an operating-system error.
\<close>

section \<open>The file system\<close>

type_synonym path = "str list"

record disk =
  dk_files :: "(path \<times> nat list) list"
  dk_dirs :: "path list"

datatype os_error = OsNotFound | OsNotADirectory | OsIsADirectory

definition is_file :: "disk \<Rightarrow> path \<Rightarrow> bool" where
  "is_file d p \<longleftrightarrow> map_of (dk_files d) p \<noteq> None"

definition is_dir :: "disk \<Rightarrow> path \<Rightarrow> bool" where
  "is_dir d p \<longleftrightarrow> p = [] \<or> p \<in> set (dk_dirs d)"

text \<open>All prefixes of a path, itself included.\<close>

fun prefixes_of :: "path \<Rightarrow> path list" where
  "prefixes_of [] = [[]]"
| "prefixes_of (c # cs) = [] # map ((#) c) (prefixes_of cs)"

definition os_create_dir_all :: "path \<Rightarrow> (disk, unit, os_error) cmd" where
  "os_create_dir_all p d = (if list_ex (is_file d) (prefixes_of p) then (Err OsNotADirectory, d)
     else (Ok (), d\<lparr>dk_dirs := prefixes_of p @ dk_dirs d\<rparr>))"

definition os_write :: "path \<Rightarrow> nat list \<Rightarrow> (disk, unit, os_error) cmd" where
  "os_write p bytes d =
     (if is_dir d p then (Err OsIsADirectory, d)
      else if list_ex (is_file d) (prefixes_of (butlast p)) then (Err OsNotADirectory, d)
      else if \<not> is_dir d (butlast p) then (Err OsNotFound, d)
      else (Ok (), d\<lparr>dk_files := AList.update p bytes (dk_files d)\<rparr>))"

definition os_read :: "path \<Rightarrow> (disk, nat list, os_error) cmd" where
  "os_read p d = (if is_dir d p then (Err OsIsADirectory, d)
     else case map_of (dk_files d) p of
       Some bytes \<Rightarrow> (Ok bytes, d)
     | None \<Rightarrow> if list_ex (is_file d) (prefixes_of (butlast p)) then (Err OsNotADirectory, d)
         else (Err OsNotFound, d))"

definition os_remove_file :: "path \<Rightarrow> (disk, unit, os_error) cmd" where
  "os_remove_file p d = (if is_dir d p then (Err OsIsADirectory, d)
     else if is_file d p then (Ok (), d\<lparr>dk_files := AList.delete p (dk_files d)\<rparr>)
     else if list_ex (is_file d) (prefixes_of (butlast p)) then (Err OsNotADirectory, d)
     else (Err OsNotFound, d))"

section \<open>The adapter\<close>

record local_storage =
  ls_root :: path
  ls_public_base :: str

definition valid_segment :: "str \<Rightarrow> bool" where
  "valid_segment s \<longleftrightarrow> s \<noteq> [] \<and> \<not> starts_with 46 s
     \<and> list_all (\<lambda>c. is_ascii_alphanumeric c \<or> c \<in> {46, 95, 45}) s"

definition resolve_key :: "local_storage \<Rightarrow> str \<Rightarrow> (path, storage_port_error) result" where
  "resolve_key st key = (if key = [] \<or> \<not> list_all valid_segment (split_on 47 key) then Err InvalidKey
     else Ok (ls_root st @ split_on 47 key))"

definition io_err :: "(os_error \<Rightarrow> message) \<Rightarrow> os_error \<Rightarrow> storage_port_error" where
  "io_err describe e = StorageInternal (Lit ''file storage io error: '' # describe e)"

text \<open>\<open>Path::extension\<close> of a file name: what follows its last dot, unless the name starts with it.\<close>

definition extension :: "str \<Rightarrow> str option" where
  "extension name = (let after = takeWhile (\<lambda>c. c \<noteq> 46) (rev name) in
     if 46 \<in> set name \<and> length after + 1 < length name then Some (rev after) else None)"

definition content_type_for :: "path \<Rightarrow> str" where
  "content_type_for p = (let e = (if p = [] then None else extension (last p)) in
     if e = Some (lit ''png'') then lit ''image/png''
     else if e = Some (lit ''jpg'') \<or> e = Some (lit ''jpeg'') then lit ''image/jpeg''
     else if e = Some (lit ''webp'') then lit ''image/webp''
     else if e = Some (lit ''gif'') then lit ''image/gif''
     else if e = Some (lit ''svg'') then lit ''image/svg+xml''
     else lit ''application/octet-stream'')"

definition local_put :: "(os_error \<Rightarrow> message) \<Rightarrow> local_storage \<Rightarrow> str \<Rightarrow> nat list
    \<Rightarrow> (disk, unit, storage_port_error) cmd" where
  "local_put describe st key bytes =
     bind_cmd (lift (resolve_key st key)) (\<lambda>path.
     seq_cmd (conv (io_err describe) (os_create_dir_all (butlast path)))
       (conv (io_err describe) (os_write path bytes)))"

definition local_get :: "(os_error \<Rightarrow> message) \<Rightarrow> local_storage \<Rightarrow> str
    \<Rightarrow> (disk, stored_file option, storage_port_error) cmd" where
  "local_get describe st key = (case resolve_key st key of
     Ok path \<Rightarrow> (\<lambda>d. case os_read path d of
         (Ok bytes, d) \<Rightarrow> (Ok (Some \<lparr>sf_content_type = content_type_for path, sf_bytes = bytes\<rparr>), d)
       | (Err e, d) \<Rightarrow> if e = OsNotFound then (Ok None, d) else (Err (io_err describe e), d)
       | (Panic, d) \<Rightarrow> (Panic, d))
   | _ \<Rightarrow> ret None)"

definition local_delete :: "(os_error \<Rightarrow> message) \<Rightarrow> local_storage \<Rightarrow> str
    \<Rightarrow> (disk, unit, storage_port_error) cmd" where
  "local_delete describe st key =
     bind_cmd (lift (resolve_key st key)) (\<lambda>path d. case os_remove_file path d of
         (Ok _, d) \<Rightarrow> (Ok (), d)
       | (Err e, d) \<Rightarrow> if e = OsNotFound then (Ok (), d) else (Err (io_err describe e), d)
       | (Panic, d) \<Rightarrow> (Panic, d))"

definition local_public_url :: "local_storage \<Rightarrow> str \<Rightarrow> str" where
  "local_public_url st key = trim_end_matches 47 (ls_public_base st) @ [47] @ key"

definition local_file_storage :: "(os_error \<Rightarrow> message) \<Rightarrow> local_storage \<Rightarrow> disk file_storage" where
  "local_file_storage describe st = \<lparr>fs_put = local_put describe st, fs_get = local_get describe st,
     fs_delete = local_delete describe st, fs_public_url = local_public_url st\<rparr>"

section \<open>Keys and paths\<close>

lemma resolve_key_Ok:
  "resolve_key st key = Ok p \<longleftrightarrow> key \<noteq> [] \<and> list_all valid_segment (split_on 47 key) \<and> p = ls_root st @ split_on 47 key"
  by (auto simp: resolve_key_def)

lemma resolve_key_inj:
  "resolve_key st k = Ok p \<Longrightarrow> resolve_key st l = Ok p \<Longrightarrow> k = l"
  by (auto simp: resolve_key_Ok split_on_inj)

lemma resolve_key_cases: "(\<exists>p. resolve_key st key = Ok p \<and> p \<noteq> []) \<or> resolve_key st key = Err InvalidKey"
  by (auto simp: resolve_key_def)

text \<open>No component of a resolved key climbs: none is empty, \<open>.\<close> or \<open>..\<close>, none holds a separator.\<close>

lemma valid_segment_harmless:
  "valid_segment s \<Longrightarrow> s \<noteq> [] \<and> s \<noteq> lit ''.'' \<and> s \<noteq> lit ''..'' \<and> 47 \<notin> set s \<and> 0 \<notin> set s"
  by (auto simp: valid_segment_def starts_with_def lit_def list_all_iff is_ascii_alphanumeric_def
      is_ascii_digit_def)

section \<open>What an operation changes\<close>

text \<open>A disk in order: a path is not both a file and a directory, and a file lies in directories.\<close>

definition disk_ok :: "disk \<Rightarrow> bool" where
  "disk_ok d \<longleftrightarrow> (\<forall>p. is_file d p \<longrightarrow> \<not> is_dir d p \<and> (\<forall>q\<in>set (prefixes_of (butlast p)). is_dir d q))"

lemma self_prefix [simp]: "p \<in> set (prefixes_of p)"
  by (induction p) auto

lemma prefixes_iff: "q \<in> set (prefixes_of p) \<longleftrightarrow> (\<exists>r. p = q @ r)"
  by (induction p arbitrary: q) (auto simp: Cons_eq_append_conv image_iff)

lemma is_file_update: "is_file (d\<lparr>dk_files := AList.update p b (dk_files d)\<rparr>) q \<longleftrightarrow> q = p \<or> is_file d q"
  by (auto simp: is_file_def update_conv')

lemma is_file_delete: "is_file (d\<lparr>dk_files := AList.delete p (dk_files d)\<rparr>) q \<longleftrightarrow> q \<noteq> p \<and> is_file d q"
  by (auto simp: is_file_def delete_conv')

lemma file_dirs [simp]: "is_file (d\<lparr>dk_dirs := x\<rparr>) q = is_file d q"
  "is_dir (d\<lparr>dk_files := y\<rparr>) q = is_dir d q"
  by (simp_all add: is_file_def is_dir_def)

lemma is_dir_more: "is_dir (d\<lparr>dk_dirs := ps @ dk_dirs d\<rparr>) q \<longleftrightarrow> q \<in> set ps \<or> is_dir d q"
  by (auto simp: is_dir_def)

definition put_at :: "path \<Rightarrow> nat list \<Rightarrow> disk \<Rightarrow> disk" where
  "put_at p bytes d = d\<lparr>dk_dirs := prefixes_of (butlast p) @ dk_dirs d,
     dk_files := AList.update p bytes (dk_files d)\<rparr>"

lemma local_put_Ok:
  assumes "local_put describe st key bytes d = (Ok (), d')"
  shows "\<exists>p. resolve_key st key = Ok p \<and> d' = put_at p bytes d \<and> \<not> is_dir d p
    \<and> (\<forall>q\<in>set (prefixes_of (butlast p)). \<not> is_file d q)"
  using assms
  by (auto simp: local_put_def run_Ok os_create_dir_all_def os_write_def put_at_def is_dir_more
      is_dir_def list_ex_iff split: if_splits)

lemma put_at_ok:
  assumes "disk_ok d" "p \<noteq> []" "\<not> is_dir d p" "\<forall>q\<in>set (prefixes_of (butlast p)). \<not> is_file d q"
  shows "disk_ok (put_at p bytes d)"
proof -
  have f: "is_file (put_at p bytes d) q \<longleftrightarrow> q = p \<or> is_file d q" for q
    by (auto simp: put_at_def is_file_def update_conv')
  have g: "is_dir (put_at p bytes d) q \<longleftrightarrow> q \<in> set (prefixes_of (butlast p)) \<or> is_dir d q" for q
    by (auto simp: put_at_def is_dir_def)
  have "p \<notin> set (prefixes_of (butlast p))"
  proof
    assume "p \<in> set (prefixes_of (butlast p))"
    then obtain r where "butlast p = p @ r" by (auto simp: prefixes_iff)
    then have "length (butlast p) = length p + length r" by simp
    moreover have "0 < length p" using assms(2) by simp
    ultimately show False using length_butlast [of p] by linarith
  qed
  then show ?thesis using assms by (auto simp: disk_ok_def f g)
qed

section \<open>The contract of the port\<close>

text \<open>What a key holds.\<close>

definition content :: "local_storage \<Rightarrow> disk \<Rightarrow> str \<Rightarrow> stored_file option" where
  "content st d key = (case resolve_key st key of
     Ok p \<Rightarrow> map_option (\<lambda>b. \<lparr>sf_content_type = content_type_for p, sf_bytes = b\<rparr>) (map_of (dk_files d) p)
   | _ \<Rightarrow> None)"

definition key_type :: "local_storage \<Rightarrow> str \<Rightarrow> str" where
  "key_type st key = (case resolve_key st key of Ok p \<Rightarrow> content_type_for p | _ \<Rightarrow> [])"

lemma content_put:
  assumes "resolve_key st key = Ok p"
  shows "content st (put_at p bytes d)
    = (content st d)(key \<mapsto> \<lparr>sf_content_type = key_type st key, sf_bytes = bytes\<rparr>)"
proof
  fix k
  show "content st (put_at p bytes d) k
    = ((content st d)(key \<mapsto> \<lparr>sf_content_type = key_type st key, sf_bytes = bytes\<rparr>)) k"
    using assms resolve_key_inj [OF assms, of k]
    by (cases "resolve_key st k") (auto simp: content_def key_type_def put_at_def update_conv')
qed

lemma local_get_Ok:
  assumes "disk_ok d" "local_get describe st key d = (Ok r, d')"
  shows "d' = d \<and> r = content st d key"
proof (cases "resolve_key st key")
  case (Ok p)
  then have "is_file d p \<Longrightarrow> \<not> is_dir d p" using assms(1) by (simp add: disk_ok_def)
  then show ?thesis using assms(2) Ok
    by (auto simp: local_get_def content_def os_read_def is_file_def split: if_splits option.splits)
qed (use assms(2) in \<open>auto simp: local_get_def content_def ret_def\<close>)

lemma local_get_content:
  assumes "disk_ok d" "content st d key \<noteq> None"
  shows "local_get describe st key d = (Ok (content st d key), d)"
proof -
  obtain p b where p: "resolve_key st key = Ok p" "map_of (dk_files d) p = Some b"
    using assms(2) by (auto simp: content_def split: result.splits)
  then have "\<not> is_dir d p" using assms(1) by (auto simp: disk_ok_def is_file_def)
  then show ?thesis using p by (simp add: local_get_def os_read_def content_def)
qed

lemma delete_file_ok: "disk_ok d \<Longrightarrow> disk_ok (d\<lparr>dk_files := AList.delete p (dk_files d)\<rparr>)"
  by (auto simp: disk_ok_def is_file_delete)

lemma local_delete_Ok:
  assumes "disk_ok d" "local_delete describe st key d = (Ok (), d')"
  shows "\<exists>p. resolve_key st key = Ok p \<and> disk_ok d' \<and> dk_dirs d' = dk_dirs d
    \<and> map_of (dk_files d') = (map_of (dk_files d))(p := None)"
proof -
  obtain p where p: "resolve_key st key = Ok p" using assms(2) by (auto simp: local_delete_def run_Ok)
  moreover have "map_of (dk_files d) = (map_of (dk_files d))(p := None)" if "\<not> is_file d p"
    using that by (auto simp: is_file_def)
  ultimately show ?thesis using assms(2) delete_file_ok [OF assms(1), of p] assms(1)
    by (auto simp: local_delete_def bind_cmd_def lift_def os_remove_file_def delete_conv'
        split: if_splits)
qed

locale file_store =
  fixes storage :: "'s file_storage"
    and held :: "'s \<Rightarrow> str \<Rightarrow> stored_file option"
    and type_of :: "str \<Rightarrow> str"
    and inv :: "'s \<Rightarrow> bool"
  assumes put: "\<And>s key bytes s'. inv s \<Longrightarrow> fs_put storage key bytes s = (Ok (), s') \<Longrightarrow>
      inv s' \<and> held s' = (held s)(key \<mapsto> \<lparr>sf_content_type = type_of key, sf_bytes = bytes\<rparr>)"
    and get: "\<And>s key r s'. inv s \<Longrightarrow> fs_get storage key s = (Ok r, s') \<Longrightarrow> s' = s \<and> r = held s key"
    and delete: "\<And>s key s'. inv s \<Longrightarrow> fs_delete storage key s = (Ok (), s') \<Longrightarrow>
      inv s' \<and> held s' = (held s)(key := None)"

context file_store
begin

lemma delete_all_Ok:
  "inv s \<Longrightarrow> for_each (\<lambda>(_, other). conv app_of_storage (fs_delete storage (key other))) exts s = (Ok (), s') \<Longrightarrow>
   inv s' \<and> held s' = (\<lambda>k. if k \<in> (\<lambda>(_, e). key e) ` set exts then None else held s k)"
proof (induction exts arbitrary: s)
  case Nil
  then show ?case by (simp add: ret_def)
next
  case (Cons x exts)
  obtain s1 where s1: "fs_delete storage (key (snd x)) s = (Ok (), s1)"
      "for_each (\<lambda>(_, other). conv app_of_storage (fs_delete storage (key other))) exts s1 = (Ok (), s')"
    using Cons.prems(2) by (auto simp: run_Ok split: prod.splits)
  then show ?case using Cons.IH [OF _ s1(2)] delete [OF Cons.prems(1) s1(1)]
    by (auto simp: fun_eq_iff split: prod.splits)
qed

text \<open>After storing an image its key holds it and no other variant of the owner is left.\<close>

lemma image_store_Ok:
  assumes "inv s" "image_store storage folder owner ext bytes stamp s = (Ok url, t)"
  shows "inv t \<and> url = fs_public_url storage (image_key folder owner ext) @ lit ''?v='' @ int_text stamp
    \<and> held t = (\<lambda>k. if k = image_key folder owner ext
        then Some \<lparr>sf_content_type = type_of k, sf_bytes = bytes\<rparr>
        else if \<exists>(ct, e)\<in>set allowed_types. e \<noteq> ext \<and> k = image_key folder owner e then None else held s k)"
proof -
  let ?exts = "filter (\<lambda>(_, e). e \<noteq> ext) allowed_types"
  obtain s1 where s1: "for_each (\<lambda>(_, other). conv app_of_storage (fs_delete storage (image_key folder owner other))) ?exts s = (Ok (), s1)"
      "fs_put storage (image_key folder owner ext) bytes s1 = (Ok (), t)"
      "url = fs_public_url storage (image_key folder owner ext) @ lit ''?v='' @ int_text stamp"
    using assms(2) by (auto simp: image_store_def run_Ok Let_def)
  have "(k \<in> (\<lambda>(_, e). image_key folder owner e) ` set ?exts)
      \<longleftrightarrow> (\<exists>(ct, e)\<in>set allowed_types. e \<noteq> ext \<and> k = image_key folder owner e)" for k
    by (auto simp: image_iff)
  then show ?thesis using delete_all_Ok [OF assms(1) s1(1)] put [OF _ s1(2)] s1(3)
    by (auto simp: fun_eq_iff)
qed

end

interpretation local_store: file_store "local_file_storage describe st" "content st" "key_type st" disk_ok
proof
  fix s s' :: disk and key bytes
  assume ok: "disk_ok s" and run: "fs_put (local_file_storage describe st) key bytes s = (Ok (), s')"
  then obtain p where p: "resolve_key st key = Ok p" "s' = put_at p bytes s" "\<not> is_dir s p"
      "\<forall>q\<in>set (prefixes_of (butlast p)). \<not> is_file s q"
    using local_put_Ok [of describe st key bytes s s'] by (auto simp: local_file_storage_def)
  moreover have "p \<noteq> []" using resolve_key_cases [of st key] p(1) by auto
  ultimately show "disk_ok s' \<and> content st s' = (content st s)(key \<mapsto> \<lparr>sf_content_type = key_type st key, sf_bytes = bytes\<rparr>)"
    using put_at_ok [OF ok] content_put by metis
next
  fix s s' :: disk and key r
  assume "disk_ok s" "fs_get (local_file_storage describe st) key s = (Ok r, s')"
  then show "s' = s \<and> r = content st s key"
    using local_get_Ok [of s describe st key r s'] by (simp add: local_file_storage_def)
next
  fix s s' :: disk and key
  assume ok: "disk_ok s" and "fs_delete (local_file_storage describe st) key s = (Ok (), s')"
  then obtain p where p: "resolve_key st key = Ok p" "disk_ok s'" "map_of (dk_files s') = (map_of (dk_files s))(p := None)"
    using local_delete_Ok [OF ok, of describe st key s'] by (auto simp: local_file_storage_def)
  have "content st s' k = ((content st s)(key := None)) k" for k
    using p resolve_key_inj [OF p(1), of k] by (cases "resolve_key st k") (auto simp: content_def)
  then show "disk_ok s' \<and> content st s' = (content st s)(key := None)" using p(2) by auto
qed

end
