(* ===== verification/Uploads.thy ===== *)
theory Uploads
  imports LocalStorage MemMarkets
begin

text \<open>
  Uploads over the local disk and the in-memory stores: where an image ends up, that it is served
  back as it came, and that no key leaves the storage root.
\<close>

section \<open>Keys of images\<close>

lemma split_on_append: "split_on c (a @ c # b) = split_on c a @ split_on c b"
  by (induction a) (auto split: list.splits)

lemma split_on_none: "c \<notin> set s \<Longrightarrow> split_on c s = [s]"
  by (induction s) auto

lemma valid_segment_no_slash: "valid_segment s \<Longrightarrow> 47 \<notin> set s"
  by (auto dest: valid_segment_harmless)

lemma key_path:
  assumes "valid_segment folder" "valid_segment (owner @ [46] @ ext)"
  shows "resolve_key st (image_key folder owner ext) = Ok (ls_root st @ [folder, owner @ [46] @ ext])"
proof -
  have "split_on 47 (image_key folder owner ext) = [folder, owner @ [46] @ ext]"
    using valid_segment_no_slash [OF assms(1)] valid_segment_no_slash [OF assms(2)]
    by (simp add: image_key_def split_on_append split_on_none)
  then show ?thesis using assms by (auto simp: resolve_key_Ok image_key_def)
qed

lemma extension_dot: "46 \<notin> set ext \<Longrightarrow> owner \<noteq> [] \<Longrightarrow> extension (owner @ [46] @ ext) = Some ext"
proof -
  assume "46 \<notin> set ext" "owner \<noteq> []"
  then have "\<forall>x\<in>set (rev ext). x \<noteq> 46" by auto
  then have "takeWhile (\<lambda>c. c \<noteq> 46) (rev ext @ 46 # rev owner) = rev ext"
    by (subst takeWhile_append2) auto
  then show ?thesis using \<open>owner \<noteq> []\<close> by (simp add: extension_def Let_def)
qed

lemma allowed_folders: "valid_segment (lit ''avatars'')" "valid_segment (lit ''thumbnails'')"
  "valid_segment (lit ''outcome-thumbnails'')"
  by (simp_all add: valid_segment_def lit_def starts_with_def is_ascii_alphanumeric_def is_ascii_digit_def)

lemma uuid_owner:
  assumes "uuid_format_ok uf" "(ct, ext) \<in> set allowed_types"
  shows "valid_segment (uf_text uf i @ [46] @ ext)" "uf_text uf i \<noteq> []" "46 \<notin> set ext"
proof -
  have t: "uf_text uf i \<noteq> []" "list_all uuid_scalar (uf_text uf i)"
    using assms(1) by (auto simp: uuid_format_ok_def)
  have "\<not> starts_with 46 (uf_text uf i @ [46] @ ext)"
    using t by (cases "uf_text uf i") (auto simp: starts_with_def uuid_scalar_def is_ascii_digit_def)
  moreover have "list_all (\<lambda>c. is_ascii_alphanumeric c \<or> c \<in> {46, 95, 45}) (uf_text uf i)"
    using t(2) by (auto simp: list_all_iff uuid_scalar_def is_ascii_alphanumeric_def)
  moreover have "list_all (\<lambda>c. is_ascii_alphanumeric c \<or> c \<in> {46, 95, 45}) ext \<and> 46 \<notin> set ext"
    using assms(2) by (auto simp: allowed_types_def lit_def is_ascii_alphanumeric_def is_ascii_digit_def)
  ultimately show "valid_segment (uf_text uf i @ [46] @ ext)" "uf_text uf i \<noteq> []" "46 \<notin> set ext"
    using t(1) by (auto simp: valid_segment_def)
qed

text \<open>The type a stored image is served with is the one it was uploaded with.\<close>

lemma image_key_type:
  assumes "uuid_format_ok uf" "(ct, ext) \<in> set allowed_types" "valid_segment folder"
  shows "key_type st (image_key folder (uf_text uf i) ext) = ct"
proof -
  have "key_type st (image_key folder (uf_text uf i) ext)
      = content_type_for (ls_root st @ [folder, uf_text uf i @ [46] @ ext])"
    using key_path [OF assms(3) uuid_owner(1) [OF assms(1,2), of i]] by (simp add: key_type_def)
  also have "\<dots> = ct"
    using assms(2) extension_dot [OF uuid_owner(3,2) [OF assms(1,2)], of i]
    by (auto simp: content_type_for_def allowed_types_def lit_def Let_def)
  finally show ?thesis .
qed

lemma image_validate_Ok:
  "image_validate kind ct bytes n = Ok ext \<longleftrightarrow> (ct, ext) \<in> set allowed_types \<and> bytes \<noteq> [] \<and> length bytes \<le> n"
  by (auto simp: image_validate_def allowed_types_def and_then_eq_Ok lit_def split: if_splits)

section \<open>The disk beside the stores\<close>

definition on_outer :: "('z, 'a, 'e) cmd \<Rightarrow> ('z world, 'a, 'e) cmd" where
  "on_outer m s = (case m (outer s) of (r, z) \<Rightarrow> (r, s\<lparr>outer := z\<rparr>))"

definition world_storage :: "(os_error \<Rightarrow> message) \<Rightarrow> local_storage \<Rightarrow> disk world file_storage" where
  "world_storage describe st = \<lparr>fs_put = (\<lambda>k b. on_outer (local_put describe st k b)),
     fs_get = (\<lambda>k. on_outer (local_get describe st k)), fs_delete = (\<lambda>k. on_outer (local_delete describe st k)),
     fs_public_url = local_public_url st\<rparr>"

interpretation world_store: file_store "world_storage describe st" "\<lambda>s. content st (outer s)" "key_type st"
  "\<lambda>s. disk_ok (outer s)"
proof
  fix s s' :: "disk world" and key bytes
  assume "disk_ok (outer s)" "fs_put (world_storage describe st) key bytes s = (Ok (), s')"
  then show "disk_ok (outer s') \<and> content st (outer s')
      = (content st (outer s))(key \<mapsto> \<lparr>sf_content_type = key_type st key, sf_bytes = bytes\<rparr>)"
    using local_store.put [of "outer s" describe st key bytes]
    by (auto simp: world_storage_def on_outer_def local_file_storage_def split: prod.splits)
next
  fix s s' :: "disk world" and key r
  assume "disk_ok (outer s)" "fs_get (world_storage describe st) key s = (Ok r, s')"
  then show "s' = s \<and> r = content st (outer s) key"
    using local_store.get [of "outer s" describe st key]
    by (auto simp: world_storage_def on_outer_def local_file_storage_def split: prod.splits)
next
  fix s s' :: "disk world" and key
  assume "disk_ok (outer s)" "fs_delete (world_storage describe st) key s = (Ok (), s')"
  then show "disk_ok (outer s') \<and> content st (outer s') = (content st (outer s))(key := None)"
    using local_store.delete [of "outer s" describe st key]
    by (auto simp: world_storage_def on_outer_def local_file_storage_def split: prod.splits)
qed

lemma on_outer_frame: "snd (on_outer m s) = s\<lparr>outer := outer (snd (on_outer m s))\<rparr>"
  by (simp add: on_outer_def split: prod.splits)

text \<open>Nothing in the way: no file stands where the folder's directories go and no directory where
  the variants of the owner go.\<close>

definition storage_ready :: "local_storage \<Rightarrow> str \<Rightarrow> str \<Rightarrow> disk \<Rightarrow> bool" where
  "storage_ready st folder owner d \<longleftrightarrow>
     (\<forall>q\<in>set (prefixes_of (ls_root st @ [folder])). \<not> is_file d q)
     \<and> (\<forall>(_, e)\<in>set allowed_types. \<not> is_dir d (ls_root st @ [folder, owner @ [46] @ e]))"

definition touched :: "'z world \<Rightarrow> 'z world \<Rightarrow> bool" where
  "touched s t \<longleftrightarrow> t = s\<lparr>outer := outer t\<rparr>"

lemma touched_users: "touched s t \<Longrightarrow> users t = users s"
  unfolding touched_def by (drule arg_cong [where f = users]) simp

lemma is_file_dirs: "is_file (d\<lparr>dk_dirs := x\<rparr>) = is_file d"
  by (rule ext) simp

lemma delete_ready:
  assumes "storage_ready st folder owner (outer s)" "valid_segment folder" "(ct, e) \<in> set allowed_types"
    and "valid_segment (owner @ [46] @ e)"
  shows "\<exists>t. fs_delete (world_storage describe st) (image_key folder owner e) s = (Ok (), t)
    \<and> storage_ready st folder owner (outer t) \<and> touched s t"
proof -
  let ?p = "ls_root st @ [folder, owner @ [46] @ e]"
  have b: "butlast ?p = ls_root st @ [folder]" by (simp add: butlast_append)
  have "\<not> is_dir (outer s) ?p" "\<not> list_ex (is_file (outer s)) (prefixes_of (butlast ?p))"
    using assms(1,3) unfolding b by (auto simp: storage_ready_def list_ex_iff)
  then have "os_remove_file ?p (outer s) = (if is_file (outer s) ?p
      then (Ok (), (outer s)\<lparr>dk_files := AList.delete ?p (dk_files (outer s))\<rparr>) else (Err OsNotFound, outer s))"
    by (simp add: os_remove_file_def)
  then show ?thesis using assms(1) key_path [OF assms(2,4), of st]
    by (auto simp: world_storage_def on_outer_def local_delete_def bind_cmd_def lift_def touched_def
        storage_ready_def is_file_delete)
qed

lemma delete_all_ready:
  assumes "valid_segment folder" "\<forall>(ct, e)\<in>set exts. (ct, e) \<in> set allowed_types \<and> valid_segment (owner @ [46] @ e)"
  shows "storage_ready st folder owner (outer s) \<Longrightarrow>
    \<exists>t. for_each (\<lambda>(_, e). conv app_of_storage (fs_delete (world_storage describe st) (image_key folder owner e))) exts s = (Ok (), t)
      \<and> storage_ready st folder owner (outer t) \<and> touched s t"
  using assms(2)
proof (induction exts arbitrary: s)
  case Nil
  then show ?case by (auto simp: ret_def touched_def)
next
  case (Cons x exts)
  obtain ct e where x: "x = (ct, e)" by fastforce
  then obtain s1 where s1: "fs_delete (world_storage describe st) (image_key folder owner e) s = (Ok (), s1)"
      "storage_ready st folder owner (outer s1)" "touched s s1"
    using delete_ready [OF Cons.prems(1) assms(1), of ct e describe] Cons.prems(2) by auto
  obtain t where t: "for_each (\<lambda>(_, e). conv app_of_storage (fs_delete (world_storage describe st) (image_key folder owner e))) exts s1 = (Ok (), t)"
      "storage_ready st folder owner (outer t)" "touched s1 t"
    using Cons.IH [OF s1(2)] Cons.prems(2) by auto
  have "touched s t" using s1(3) t(3) by (auto simp: touched_def) (metis world.surjective world.update_convs(1))
  then show ?case using s1 t x by (intro exI [of _ t]) (auto simp: run_Ok)
qed

lemma image_store_ready:
  assumes "storage_ready st folder owner (outer s)" "valid_segment folder" "(ct, ext) \<in> set allowed_types"
    and "\<forall>(ct, e)\<in>set allowed_types. valid_segment (owner @ [46] @ e)"
  shows "\<exists>url t. image_store (world_storage describe st) folder owner ext bytes stamp s = (Ok url, t) \<and> touched s t"
proof -
  let ?exts = "filter (\<lambda>(_, e). e \<noteq> ext) allowed_types" and ?p = "ls_root st @ [folder, owner @ [46] @ ext]"
  obtain s1 where s1: "for_each (\<lambda>(_, e). conv app_of_storage (fs_delete (world_storage describe st) (image_key folder owner e))) ?exts s = (Ok (), s1)"
      "storage_ready st folder owner (outer s1)" "touched s s1"
    using delete_all_ready [OF assms(2) _ assms(1), of ?exts describe] assms(4) by (auto split: prod.splits)
  have b: "butlast ?p = ls_root st @ [folder]" by (simp add: butlast_append)
  have no: "\<not> list_ex (is_file (outer s1)) (prefixes_of (ls_root st @ [folder]))" "\<not> is_dir (outer s1) ?p"
    using s1(2) assms(3) by (auto simp: storage_ready_def list_ex_iff)
  have resolve: "resolve_key st (image_key folder owner ext) = Ok ?p"
    using assms(3,4) by (intro key_path [OF assms(2)]) auto
  have "?p \<notin> set (prefixes_of (ls_root st @ [folder]))" by (auto simp: prefixes_iff)
  then have "fst (local_put describe st (image_key folder owner ext) bytes (outer s1)) = Ok ()"
    using no b resolve
    by (simp add: local_put_def bind_cmd_def seq_cmd_def lift_def conv_def os_create_dir_all_def os_write_def
        is_dir_more is_file_dirs del: append_Cons)
  then obtain d where "local_put describe st (image_key folder owner ext) bytes (outer s1) = (Ok (), d)"
    by (metis prod.collapse)
  then have "image_store (world_storage describe st) folder owner ext bytes stamp s
      = (Ok (fs_public_url (world_storage describe st) (image_key folder owner ext) @ lit ''?v='' @ int_text stamp), s1\<lparr>outer := d\<rparr>)"
    using s1(1) by (simp add: image_store_def seq_cmd_def bind_cmd_def Let_def ret_def conv_def world_storage_def on_outer_def)
  then show ?thesis using s1(3) by (auto simp: touched_def)
    (metis world.surjective world.update_convs(1))
qed

section \<open>Avatars\<close>

definition avatar_key :: "uuid_format \<Rightarrow> user_id \<Rightarrow> str \<Rightarrow> str" where
  "avatar_key uf u ext = image_key (lit ''avatars'') (uf_text uf (user_uuid u)) ext"

lemma get_file_held:
  "disk_ok (outer s) \<Longrightarrow> content st (outer s) key = Some f \<Longrightarrow>
   get_file (world_storage describe st) key s = (Ok f, s)"
  using local_get_content [of "outer s" st key describe]
  by (simp add: get_file_def world_storage_def on_outer_def bind_cmd_def conv_def lift_def)

text \<open>C24: An avatar upload works and is served back as it came: a png, jpeg or webp of at most two
  mebibytes for a known user, with nothing in the way on the disk, is accepted; the user's avatar
  URL is the one change to the accounts; reading the file of that key gives exactly the uploaded
  bytes with the uploaded content type; no other variant of the user's avatar is left, and every
  other file is untouched.\<close>

theorem upload_avatar_serves:
  assumes "uuid_format_ok uf" "disk_ok (outer s)" "users_wf s"
    and "(ct, ext) \<in> set allowed_types" "bytes \<noteq> []" "length bytes \<le> max_avatar_bytes"
    and "lookup_user s u = Some a" "storage_ready st (lit ''avatars'') (uf_text uf (user_uuid u)) (outer s)"
  shows "\<exists>v t. upload_avatar uf mem_user_repo (world_storage describe st) stamp now u ct bytes s = (Ok v, t)
    \<and> v = a\<lparr>u_avatar_url := Some (local_public_url st (avatar_key uf u ext) @ lit ''?v='' @ int_text stamp), u_updated_at := now\<rparr>
    \<and> lookup_user t = (lookup_user s)(u \<mapsto> v)
    \<and> get_file (world_storage describe st) (avatar_key uf u ext) t = (Ok \<lparr>sf_content_type = ct, sf_bytes = bytes\<rparr>, t)
    \<and> (\<forall>key. key \<noteq> avatar_key uf u ext \<longrightarrow> content st (outer t) key =
        (if \<exists>(_, e)\<in>set allowed_types. key = avatar_key uf u e then None else content st (outer s) key))"
proof -
  let ?k = "avatar_key uf u"
  have segs: "\<forall>(ct, e)\<in>set allowed_types. valid_segment (uf_text uf (user_uuid u) @ [46] @ e)"
    using uuid_owner(1) [OF assms(1)] by auto
  obtain url t where run: "image_store (world_storage describe st) (lit ''avatars'') (uf_text uf (user_uuid u)) ext bytes stamp s = (Ok url, t)"
      "touched s t"
    using image_store_ready [OF assms(8) allowed_folders(1) assms(4) segs] by blast
  note held = world_store.image_store_Ok [OF assms(2) run(1)]
  let ?v = "set_avatar_url now (Some url) a" and ?t = "t\<lparr>users := AList.update (u_id a) (set_avatar_url now (Some url) a) (users t)\<rparr>"
  have id: "u_id a = u" using assms(3,7) by (auto simp: users_wf_def user_map_wf_def lookup_user_def dest!: map_of_SomeD)
  have users: "users t = users s" by (rule touched_users [OF run(2)])
  have "image_validate ''avatar'' ct bytes max_avatar_bytes = Ok ext"
    using assms(4-6) by (simp add: image_validate_Ok)
  then have up: "upload_avatar uf mem_user_repo (world_storage describe st) stamp now u ct bytes s = (Ok ?v, ?t)"
    using assms(7) run(1) by (simp add: upload_avatar_def lookup_user_def mem_simps cmd_simps Let_def set_avatar_url_def)
  have o: "outer ?t = outer t" by simp
  have type: "key_type st (?k ext) = ct"
    unfolding avatar_key_def by (rule image_key_type [OF assms(1,4) allowed_folders(1)])
  have "get_file (world_storage describe st) (?k ext) ?t = (Ok \<lparr>sf_content_type = ct, sf_bytes = bytes\<rparr>, ?t)"
    by (rule get_file_held) (use held type in \<open>simp_all add: avatar_key_def\<close>)
  moreover have "content st (outer ?t) key = (if \<exists>(_, e)\<in>set allowed_types. key = ?k e then None else content st (outer s) key)"
    if "key \<noteq> ?k ext" for key
    using held that unfolding o by (auto simp: avatar_key_def split: prod.splits)
  moreover have "lookup_user ?t = (lookup_user s)(u \<mapsto> ?v)"
    using users id by (simp add: lookup_user_def update_conv' fun_eq_iff)
  moreover have "?v = a\<lparr>u_avatar_url := Some (local_public_url st (?k ext) @ lit ''?v='' @ int_text stamp), u_updated_at := now\<rparr>"
    using held by (simp add: set_avatar_url_def avatar_key_def world_storage_def)
  ultimately show ?thesis using up by blast
qed

definition sample_store :: local_storage where
  "sample_store = \<lparr>ls_root = [lit ''srv''], ls_public_base = lit ''http://h/files/''\<rparr>"

definition sample_disk :: disk where
  "sample_disk = \<lparr>dk_files = [([lit ''etc'', lit ''passwd''], [7])], dk_dirs = [[lit ''etc'']]\<rparr>"

definition file_user :: user where
  "file_user = \<lparr>u_id = UserId 1, u_username = Username (lit ''ann''), u_email = Email (lit ''a@b.c''),
     u_password_hash = PasswordHash [], u_avatar_url = None, u_balance = 0, u_role = RUser,
     u_created_at = 0, u_updated_at = 0\<rparr>"

definition disk_world :: "disk world" where
  "disk_world = \<lparr>users = [(UserId 1, file_user)], refresh_tokens = [], markets = [], outcomes = [],
     price_points = [], bets = [], messages = [], reactions = [], outer = sample_disk\<rparr>"

lemma upload_avatar_serves_witness:
  "\<exists>v t. upload_avatar bit_format mem_user_repo (world_storage (\<lambda>_. []) sample_store) 5 6 (UserId 1)
      (lit ''image/jpeg'') [1, 2] disk_world = (Ok v, t)
    \<and> get_file (world_storage (\<lambda>_. []) sample_store) (avatar_key bit_format (UserId 1) (lit ''jpg'')) t
      = (Ok \<lparr>sf_content_type = lit ''image/jpeg'', sf_bytes = [1, 2]\<rparr>, t)"
proof -
  have d: "disk_ok (outer disk_world)"
    by (auto simp: disk_ok_def disk_world_def sample_disk_def is_file_def is_dir_def lit_def split: if_splits)
  have w: "users_wf disk_world" "lookup_user disk_world (UserId 1) = Some file_user"
    by (simp_all add: users_wf_def user_map_wf_def disk_world_def file_user_def lookup_user_def)
  have r: "storage_ready sample_store (lit ''avatars'') (uf_text bit_format (user_uuid (UserId 1))) (outer disk_world)"
    by (simp add: storage_ready_def disk_world_def sample_disk_def sample_store_def is_file_def is_dir_def lit_def)
  show ?thesis
    using upload_avatar_serves [OF bit_format_ok d w(1) _ _ _ w(2) r, of "lit ''image/jpeg''" "lit ''jpg''" "[1, 2]"
        "\<lambda>_. []" 5 6]
    by (auto simp: allowed_types_def max_avatar_bytes_def)
qed

section \<open>The storage root\<close>

definition under_root :: "local_storage \<Rightarrow> path \<Rightarrow> bool" where
  "under_root st p \<longleftrightarrow> (\<exists>segs. segs \<noteq> [] \<and> p = ls_root st @ segs
     \<and> (\<forall>seg\<in>set segs. seg \<noteq> [] \<and> seg \<noteq> lit ''.'' \<and> seg \<noteq> lit ''..'' \<and> 47 \<notin> set seg))"

lemma resolved_under_root: "resolve_key st key = Ok p \<Longrightarrow> under_root st p"
  using valid_segment_harmless by (auto simp: resolve_key_Ok under_root_def list_all_iff)

text \<open>C25: No key leaves the storage root: whatever key a client sends, storing and deleting change no
  file outside the root, reading returns only the bytes of a file below it and changes nothing, and
  no component of a path used is empty, a dot, a double dot or holds a separator.\<close>

theorem storage_confined:
  "(\<forall>p. \<not> under_root st p \<longrightarrow>
      map_of (dk_files (snd (local_put describe st key bytes d))) p = map_of (dk_files d) p
      \<and> map_of (dk_files (snd (local_delete describe st key d))) p = map_of (dk_files d) p)
   \<and> (case local_get describe st key d of
        (Ok (Some f), d') \<Rightarrow> d' = d \<and> (\<exists>p. under_root st p \<and> map_of (dk_files d) p = Some (sf_bytes f))
      | (_, d') \<Rightarrow> d' = d)"
proof (cases "resolve_key st key")
  case (Ok q)
  then have "under_root st q" by (rule resolved_under_root)
  then show ?thesis using Ok
    by (auto simp: local_put_def local_delete_def local_get_def bind_cmd_def seq_cmd_def lift_def conv_def
        os_create_dir_all_def os_write_def os_remove_file_def os_read_def update_conv' delete_conv'
        split: option.splits)
qed (auto simp: local_put_def local_delete_def local_get_def bind_cmd_def lift_def ret_def)

lemma storage_confined_witness:
  "map_of (dk_files (snd (local_put (\<lambda>_. []) sample_store (lit ''../etc/passwd'') [1] sample_disk)))
     [lit ''etc'', lit ''passwd''] = Some [7]"
proof -
  have "\<not> under_root sample_store [lit ''etc'', lit ''passwd'']"
    by (auto simp: under_root_def sample_store_def lit_def)
  then show ?thesis
    using storage_confined [of sample_store "\<lambda>_. []" "lit ''../etc/passwd''" "[1]" sample_disk]
    by (simp add: sample_disk_def)
qed

end
