(* ===== verification/Platform.thy ===== *)
theory Platform
  imports Catalogue Listings Accounts ChatRooms
begin

text \<open>
  The platform as a whole: the states its use cases can reach from an empty store over the
  in-memory repositories, whatever they are asked and whatever they answer, and what holds in all
  of them.
\<close>

section \<open>Who and what is stored\<close>

text \<open>What the value objects promise of stored texts.\<close>

definition title_wf :: "market_title \<Rightarrow> bool" where
  "title_wf t \<longleftrightarrow> trimmed (title_as_str t) \<and> title_as_str t \<noteq> [] \<and> length (title_as_str t) \<le> title_max"

definition label_wf :: "outcome_label \<Rightarrow> bool" where
  "label_wf l \<longleftrightarrow> trimmed (label_as_str l) \<and> label_as_str l \<noteq> [] \<and> length (label_as_str l) \<le> label_max"

definition body_wf :: "message_body \<Rightarrow> bool" where
  "body_wf b \<longleftrightarrow> trimmed (body_as_str b) \<and> body_as_str b \<noteq> [] \<and> length (body_as_str b) \<le> body_max"

definition typed :: "ledger \<Rightarrow> bool" where
  "typed L \<longleftrightarrow> (\<forall>mid m. lg_markets L mid = Some m \<longrightarrow> title_wf (m_title m))
     \<and> (\<forall>oc\<in>set (lg_outcomes L). label_wf (o_label oc))
     \<and> (\<forall>i u. lg_users L i = Some u \<longrightarrow> email_shape (email_as_str (u_email u)))"

text \<open>What identifies an account, which no bet and no settlement touches.\<close>

abbreviation who_is :: "user \<Rightarrow> email \<times> username" where
  "who_is u \<equiv> (u_email u, u_username u)"

definition ident :: "ledger \<Rightarrow> user_id \<Rightarrow> (email \<times> username) option" where
  "ident L i = map_option who_is (lg_users L i)"

text \<open>No two accounts share an email.  No two share a username either, unless one of them is excused:
  requests excuse nobody, but the demo makes its own accounts without asking whether a name is free.\<close>

definition clash :: "(email \<times> username) set \<Rightarrow> email \<times> username \<Rightarrow> email \<times> username \<Rightarrow> bool" where
  "clash excused p q \<longleftrightarrow> fst p = fst q \<or> snd p = snd q \<and> p \<notin> excused \<and> q \<notin> excused"

lemma clash_none: "clash {} p q \<longleftrightarrow> fst p = fst q \<or> snd p = snd q"
  by (simp add: clash_def)

lemma clash_sym: "clash excused p q \<Longrightarrow> clash excused q p"
  by (auto simp: clash_def)

definition unique_accounts :: "(email \<times> username) set \<Rightarrow> ledger \<Rightarrow> bool" where
  "unique_accounts excused L \<longleftrightarrow> (\<forall>i j p q. ident L i = Some p \<longrightarrow> ident L j = Some q \<longrightarrow>
     clash excused p q \<longrightarrow> i = j)"

lemma unique_accountsD:
  "unique_accounts excused (ledger_of s) \<Longrightarrow> lookup_user s i = Some u \<Longrightarrow> lookup_user s j = Some v \<Longrightarrow>
   clash excused (who_is u) (who_is v) \<Longrightarrow> i = j"
  by (simp add: unique_accounts_def ident_def)

lemma accounts_ok_unique: "accounts_ok s \<longleftrightarrow> users_wf s \<and> tokens_wf s \<and> unique_accounts {} (ledger_of s)"
  by (auto simp: accounts_ok_def unique_accounts_def ident_def clash_def)

definition chat_ok :: "'z world \<Rightarrow> bool" where
  "chat_ok s \<longleftrightarrow> distinct (map c_id (messages s)) \<and> reactions_ok s \<and> rooms_closed s
     \<and> (\<forall>m\<in>set (messages s). body_wf (c_body m) \<and> lookup_user s (c_author_id m) \<noteq> None)
     \<and> (\<forall>r\<in>set (reactions s). emoji_wf (r_emoji r) \<and> r_message_id r \<in> c_id ` set (messages s))"

definition platform_over :: "(email \<times> username) set \<Rightarrow> 'z world \<Rightarrow> bool" where
  "platform_over excused s \<longleftrightarrow> books_ok s \<and> tokens_wf s \<and> unique_accounts excused (ledger_of s)
     \<and> typed (ledger_of s) \<and> chat_ok s"

abbreviation platform_ok :: "'z world \<Rightarrow> bool" where
  "platform_ok \<equiv> platform_over {}"

section \<open>Bets and settlements keep it\<close>

lemma recalculate_labels:
  assumes "recalculate_prices os = (Ok os' :: (outcome list, 'e) result)"
  shows "map o_label os' = map o_label os"
proof (cases "os = []")
  case True
  then show ?thesis using assms by (simp add: recalculate_prices_def)
next
  case False
  then obtain ss where "length ss = length os" "os' = map apply_share (zip os ss)"
    using assms by (auto simp: recalculate_prices_def and_then_eq_Ok dest!: shares_length hand_out_length)
  moreover have "o_label (apply_share (oc, v)) = o_label oc" for oc v
    by (auto simp: apply_share_def set_current_price_def split: result.splits)
  ultimately show ?thesis by (auto intro!: nth_equalityI)
qed

lemma credit_ident:
  "map_option (\<lambda>u. (u_email u, u_username u)) (fold (credit_user now) bs us i)
     = map_option (\<lambda>u. (u_email u, u_username u)) (us i)"
proof (induction bs arbitrary: us)
  case (Cons b bs)
  have "map_option (\<lambda>u. (u_email u, u_username u)) (credit_user now b us i) = map_option (\<lambda>u. (u_email u, u_username u)) (us i)"
    by (cases "us i") (auto simp: credit_user_def split: option.splits)
  then show ?case using Cons by simp
qed simp

lemma debit_ident:
  assumes "debit now amount u = Ok u'"
  shows "u_email u' = u_email u \<and> u_username u' = u_username u"
proof -
  have "u' = u\<lparr>u_balance := wrap_i64 (u_balance u - amount), u_updated_at := now\<rparr>"
    using assms unfolding debit_def by (simp split: if_split_asm)
  then show ?thesis by simp
qed

lemma place_typed:
  assumes "placed_once clock fresh actor input L L' b" "typed L"
  shows "typed L' \<and> ident L' = ident L"
proof -
  obtain m oc u os' where ac: "accepted L clock actor input m oc u" "b = the_bet clock fresh actor input m oc"
    and rec: "recalculate_prices (map (backed b) (market_outcomes (m_id m) (lg_outcomes L)))
      = (Ok os' :: (outcome list, app_error) result)"
    and pl: "ledger_place (clock (length os' + 2)) b os' L = Some L'"
    using assms(1) unfolding placed_once_def by blast
  have new: "label_wf (o_label x)" if "x \<in> set os'" for x
  proof -
    have lab: "o_label (backed b y) = o_label y" for y by (simp add: backed_def add_volume_def)
    have "o_label x \<in> set (map o_label os')" using that by simp
    then have "o_label x \<in> set (map o_label (map (backed b) (market_outcomes (m_id m) (lg_outcomes L))))"
      unfolding recalculate_labels [OF rec] .
    then obtain y where "y \<in> set (lg_outcomes L)" "o_label x = o_label y"
      by (auto simp: lab market_outcomes_def)
    then show ?thesis using assms(2) by (simp add: typed_def)
  qed
  obtain v v' where d: "lg_users L (b_user_id b) = Some v" "debit (clock (length os' + 2)) (b_amount b) v = Ok v'"
    and os: "lg_outcomes L' = map (overlay o_id os') (lg_outcomes L)"
    and us: "lg_users L' = (lg_users L)(b_user_id b \<mapsto> v')"
    and ms: "lg_markets L' = (lg_markets L)(b_market_id b := map_option
      (record_stake (b_amount b) (first_bet (b_user_id b) (b_market_id b) (lg_bets L))) (lg_markets L (b_market_id b)))"
    using pl by (cases "lg_users L (b_user_id b)"; cases "debit (clock (length os' + 2)) (b_amount b) (the (lg_users L (b_user_id b)))")
      (auto simp: ledger_place_def)
  have labels: "label_wf (o_label x)" if "x \<in> set (lg_outcomes L')" for x
  proof -
    obtain y where y: "y \<in> set (lg_outcomes L)" "x = overlay o_id os' y" using \<open>x \<in> set (lg_outcomes L')\<close> os by auto
    then show ?thesis using overlay_cases [of o_id os' y] assms(2) new
      by (auto simp: typed_def)
  qed
  have "m_title (record_stake n f m) = m_title m" for n f m
    by (simp add: record_stake_def Let_def)
  then have titles: "title_wf (m_title m')" if "lg_markets L' mid = Some m'" for mid m'
    using assms(2) that unfolding ms by (auto simp: typed_def split: if_splits)
  have ident: "ident L' i = ident L i" for i
    using d(1) debit_ident [OF d(2)] by (simp add: us ident_def)
  have "email_shape (email_as_str (u_email x))" if "lg_users L' i = Some x" for i x
    using ident [of i] that assms(2) by (cases "lg_users L i") (auto simp: ident_def typed_def)
  then show ?thesis using labels titles ident by (auto simp: typed_def fun_eq_iff)
qed

lemma resolve_typed:
  assumes "typed L" "resolvable L mid w m"
  shows "typed (resolved_ledger now mid w m L) \<and> ident (resolved_ledger now mid w m L) = ident L"
proof -
  let ?L = "resolved_ledger now mid w m L"
  have ident: "ident ?L i = ident L i" for i
    by (simp add: ident_def resolved_users credit_ident)
  have "email_shape (email_as_str (u_email u))" if "lg_users ?L i = Some u" for i u
    using ident [of i] that assms(1) by (cases "lg_users L i") (auto simp: ident_def typed_def)
  moreover have "title_wf (m_title x)" if "lg_markets ?L i = Some x" for i x
    using that assms by (auto simp: resolved_ledger_def ledger_settle_def resolvable_def typed_def split: if_splits)
  ultimately show ?thesis using assms(1) ident by (auto simp: typed_def fun_eq_iff)
qed

section \<open>What each request leaves alone\<close>

definition talk :: "'z world \<Rightarrow> chat_message list \<times> reaction list \<times> (uuid \<times> refresh_token) list" where
  "talk s = (messages s, reactions s, refresh_tokens s)"

lemma talk_notify [simp]: "talk (notify events e s) = talk s"
  by (simp add: talk_def)

lemma keeps_if [keeps_intros]: "(c \<Longrightarrow> keeps I a) \<Longrightarrow> (\<not> c \<Longrightarrow> keeps I b) \<Longrightarrow> keeps I (if c then a else b)"
  by simp

lemma keeps_writes: "(\<And>s. I s \<Longrightarrow> I (f s)) \<Longrightarrow> keeps I (writes f)"
  by (simp add: keeps_def writes_def)

lemma keeps_reads [keeps_intros]: "keeps I (reads f)" "keeps I (ret x)" "keeps I (fail e)" "keeps I (lift r)"
  by (simp_all add: keeps_def cmd_simps)

lemma keeps_dispatch [keeps_intros]: "keeps (\<lambda>s. talk s = c) (dispatch events e)"
  by (simp add: keeps_def dispatch_eq)

lemma talk_place [keeps_intros]: "keeps (\<lambda>s. talk s = c) (br_place (mem_bet_repo events) now bet os points)"
  by (auto simp: keeps_def mem_bet_repo_def mem_place_eq stored_def apply_bet_def talk_def Let_def
      split: option.splits result.splits)

lemma talk_settle_one [keeps_intros]: "keeps (\<lambda>s. talk s = c) (settle_one now b)"
  unfolding settle_one_def
  by (intro keeps_intros keeps_writes)
    (auto simp: talk_def mem_user_find_by_id_def mem_user_save_def intro!: keeps_intros keeps_writes split: option.split)

lemma talk_settle [keeps_intros]: "keeps (\<lambda>s. talk s = c) (br_settle (mem_bet_repo events) now m bs)"
  unfolding mem_bet_repo_def bet_repo.simps mem_settle_def mem_market_resolve_def
  by (intro keeps_intros keeps_writes) (simp add: talk_def)

lemma mem_reads [keeps_intros]:
  "keeps I (mr_outcome_by_id (mem_market_repo lc) i)" "keeps I (mr_find_by_id (mem_market_repo lc) mid)"
  "keeps I (mr_outcomes_for (mem_market_repo lc) mid)" "keeps I (ur_find_by_id mem_user_repo u)"
  "keeps I (br_active_for_market (mem_bet_repo events) mid)"
  by (simp_all add: keeps_def mem_simps reads_def)

lemma mem_active_positions_reads [keeps_intros]: "keeps I (br_active_positions (mem_bet_repo events) ps)"
  by (simp add: keeps_def mem_simps)

lemma place_bet_talk: "keeps (\<lambda>s. talk s = c) (mem_place_bet lc events clock fresh actor input)"
  unfolding place_bet_def commit_bet_def by (intro keeps_intros)

lemma resolve_market_talk: "keeps (\<lambda>s. talk s = c) (mem_resolve_market lc events clock actor mid w)"
  unfolding resolve_market_def by (intro keeps_intros)

text \<open>A change of the books that keeps who is who, on a store whose talk is untouched.\<close>

lemma books_step:
  assumes "platform_over R s" "books_ok t" "typed (ledger_of t)" "ident (ledger_of t) = ident (ledger_of s)" "talk t = talk s"
  shows "platform_over R t"
proof -
  have known: "lookup_user t i \<noteq> None \<longleftrightarrow> lookup_user s i \<noteq> None" for i
    using fun_cong [OF assms(4), of i] by (cases "lookup_user s i"; cases "lookup_user t i") (auto simp: ident_def)
  have "messages t = messages s" "reactions t = reactions s" "refresh_tokens t = refresh_tokens s"
    using assms(5) by (simp_all add: talk_def)
  then have "chat_ok t" "tokens_wf t"
    using assms(1) known by (auto simp: platform_over_def chat_ok_def reactions_ok_def rooms_closed_def
        message_by_id_def tokens_wf_def)
  moreover have "unique_accounts R (ledger_of t)"
    using assms(1,4) by (simp add: platform_over_def unique_accounts_def)
  ultimately show ?thesis using assms by (simp add: platform_over_def)
qed

lemma place_bet_platform:
  assumes "platform_over R s" "BetId fresh \<notin> b_id ` set (bets s)"
  shows "platform_over R (snd (mem_place_bet lc events clock fresh actor input s))"
proof -
  let ?t = "snd (mem_place_bet lc events clock fresh actor input s)"
  have ok: "mem_inv s" "ledger_wf (ledger_of s)" "typed (ledger_of s)" using assms(1) by (simp_all add: platform_over_def)
  have fr: "BetId fresh \<notin> b_id ` set (lg_bets (ledger_of s))" using assms(2) by simp
  have "ledger_of ?t = ledger_of s \<or> (\<exists>b. placed_once clock fresh actor input (ledger_of s) (ledger_of ?t) b)"
    using mem.place_bet_refines [OF ok(1,2) fr, of lc events clock actor input] by (auto simp: wp_def)
  then have "typed (ledger_of ?t) \<and> ident (ledger_of ?t) = ident (ledger_of s)"
    using place_typed ok(3) by metis
  moreover have "books_ok ?t"
    using mem.place_bet_wf [OF ok(1,2) fr, of lc events clock actor input] by (simp add: wp_def)
  moreover have "talk ?t = talk s" using place_bet_talk [of "talk s" lc events clock fresh actor input] unfolding keeps_def by blast
  ultimately show ?thesis using books_step [OF assms(1)] by blast
qed

lemma resolve_market_platform:
  assumes "platform_over R s"
  shows "platform_over R (snd (mem_resolve_market lc events clock actor mid w s))"
proof -
  let ?t = "snd (mem_resolve_market lc events clock actor mid w s)"
  have ok: "mem_inv s" "ledger_wf (ledger_of s)" "typed (ledger_of s)" using assms by (simp_all add: platform_over_def)
  have "ledger_of ?t = ledger_of s \<or> (\<exists>m. resolvable (ledger_of s) mid w m
      \<and> ledger_of ?t = resolved_ledger (clock 0) mid w m (ledger_of s))"
    using mem.resolve_market_refines [OF ok(1,2), of lc events clock actor mid w] by (auto simp: wp_def split: if_splits)
  then have "typed (ledger_of ?t) \<and> ident (ledger_of ?t) = ident (ledger_of s)"
    using resolve_typed [OF ok(3)] ok(3) by auto
  moreover have "books_ok ?t"
    using mem.resolve_market_wf [OF ok(1,2), of lc events clock actor mid w] by (simp add: wp_def)
  moreover have "talk ?t = talk s" using resolve_market_talk [of "talk s" lc events clock actor mid w] unfolding keeps_def by blast
  ultimately show ?thesis using books_step [OF assms] by blast
qed

section \<open>Markets and accounts\<close>

lemma create_market_platform:
  assumes ok: "platform_over R s"
    and fresh: "lookup_market s (MarketId fresh) = None" "\<forall>oc\<in>set (outcomes s). o_market_id oc \<noteq> MarketId fresh"
    and ids: "distinct (map ids [0..<length (nm_outcomes input)])"
      "\<forall>i<length (nm_outcomes input). OutcomeId (ids i) \<notin> o_id ` set (outcomes s)"
    and len: "int (length (nm_outcomes input)) \<le> i64_max"
  shows "platform_over R (snd (mem_create_market lc clock fresh ids actor input s))"
proof (cases "actor_role actor = RAdmin \<and> 2 \<le> length (nm_outcomes input)
    \<and> is_ok (title_new (nm_title input)) \<and> is_ok (new_outcomes ids (MarketId fresh) (nm_outcomes input))")
  case True
  then have title: "trim (nm_title input) \<noteq> []" "length (trim (nm_title input)) \<le> 200"
    by (auto simp: is_ok_iff title_new_Ok title_max_def)
  have labels: "\<forall>l\<in>set (nm_outcomes input). trim l \<noteq> [] \<and> length (trim l) \<le> 100"
  proof (rule ccontr)
    assume "\<not> ?thesis"
    then have "\<exists>l\<in>set (nm_outcomes input). \<not> valid_label l" by (auto simp: valid_label_def label_max_def)
    then show False using new_outcomes_Err [of "nm_outcomes input" ids "MarketId fresh"] True by (auto simp: is_ok_iff)
  qed
  have books: "books_ok s" using ok by (simp add: platform_over_def)
  obtain m os t where run: "mem_create_market lc clock fresh ids actor input s = (Ok \<lparr>mv_market = m, mv_outcomes = os\<rparr>, t)"
      "m = market_new fresh (clock 0) (MarketTitle (trim (nm_title input))) (nm_description input)
        (nm_category input) (nm_closes_at input)"
      "markets t = markets s @ [m]" "outcomes t = outcomes s @ os"
      "map o_label os = map (\<lambda>l. OutcomeLabel (trim l)) (nm_outcomes input)" "books_ok t"
    using create_market_run [OF books _ refl _ len labels title fresh ids, of actor lc clock] True by auto
  have rest: "users t = users s \<and> talk t = talk s"
    using run(1) by (auto simp: create_market_def mem_market_repo_def mem_market_create_eq talk_def cmd_simps Let_def
        split: if_splits result.splits)
  have "label_wf (o_label oc)" if "oc \<in> set os" for oc
  proof -
    have "o_label oc \<in> set (map (\<lambda>l. OutcomeLabel (trim l)) (nm_outcomes input))"
      using that unfolding run(5) [symmetric] by simp
    then show ?thesis using labels by (auto simp: label_wf_def trimmed_trim label_max_def)
  qed
  moreover have "title_wf (m_title m)"
    using title by (simp add: run(2) market_new_def title_wf_def trimmed_trim title_max_def)
  ultimately have "typed (ledger_of t)"
    using ok rest run(3,4) by (auto simp: platform_over_def typed_def ledger_of_def lookup_user_def
        lookup_market_def find_append split: option.splits if_splits)
  moreover have "ident (ledger_of t) = ident (ledger_of s)"
    using rest by (simp add: ident_def fun_eq_iff lookup_user_def)
  ultimately show ?thesis using books_step [OF ok run(6)] rest run(1) by simp
next
  case False
  then have "snd (mem_create_market lc clock fresh ids actor input s) = s"
    by (auto simp: create_market_def can_manage_markets_def cmd_simps market_new_def Let_def
        split: result.splits)
  then show ?thesis using ok by simp
qed

text \<open>Requests that touch nothing but the refresh tokens.\<close>

definition only_tokens :: "'z world \<Rightarrow> 'z world \<Rightarrow> bool" where
  "only_tokens s t \<longleftrightarrow> tokens_wf t \<and> (\<exists>ts. t = s\<lparr>refresh_tokens := ts\<rparr>)"

lemma only_tokens_platform:
  assumes "platform_over R s" "only_tokens s t"
  shows "platform_over R t"
proof -
  obtain ts where t: "t = s\<lparr>refresh_tokens := ts\<rparr>" using assms(2) by (auto simp: only_tokens_def)
  have "ledger_of t = ledger_of s" "mem_inv t = mem_inv s" "lookup_user t = lookup_user s"
    using view_cong [of t s] by (simp_all add: t lookup_user_def)
  moreover have "chat_ok t = chat_ok s"
    by (simp add: t chat_ok_def reactions_ok_def rooms_closed_def message_by_id_def lookup_user_def)
  ultimately show ?thesis using assms by (simp add: platform_over_def only_tokens_def)
qed

lemma token_update: "tokens_wf s \<Longrightarrow> tokens_wf (s\<lparr>refresh_tokens := AList.update (t_id r) r (refresh_tokens s)\<rparr>)"
  using keyed_update [of "refresh_tokens s" t_id r] unfolding tokens_wf_def by simp

lemma token_delete: "tokens_wf s \<Longrightarrow> tokens_wf (s\<lparr>refresh_tokens := AList.delete i (refresh_tokens s)\<rparr>)"
  using keyed_delete [of "refresh_tokens s" t_id i] unfolding tokens_wf_def by simp

lemma keeps_only_tokens_save [keeps_intros]: "keeps (only_tokens s) (tr_save mem_token_repo r)"
  using token_update by (auto simp: keeps_def only_tokens_def mem_simps writes_def)

lemma keeps_only_tokens_delete [keeps_intros]: "keeps (only_tokens s) (tr_delete mem_token_repo i)"
  using token_delete by (auto simp: keeps_def only_tokens_def mem_simps)

lemma keeps_only_tokens_reads [keeps_intros]:
  "keeps (only_tokens s) (tr_find_by_token_hash mem_token_repo h)"
  "keeps (only_tokens s) (ur_find_by_email mem_user_repo e)" "keeps (only_tokens s) (ur_find_by_username mem_user_repo n)"
  "keeps (only_tokens s) (ur_find_by_id mem_user_repo u)"
  by (simp_all add: keeps_def mem_simps reads_def)

lemma keeps_issue_session [keeps_intros]: "keeps (only_tokens s) (issue_session si digest dr u mem_token_repo)"
  unfolding issue_session_def Let_def by (intro keeps_intros)

lemma keeps_login: "keeps (only_tokens s) (mem_login lc hasher si digest dr input)"
  unfolding login_def by (intro keeps_intros)

lemma keeps_logout: "keeps (only_tokens s) (logout mem_token_repo digest raw)"
  unfolding logout_def by (intro keeps_intros) (auto intro: keeps_intros split: option.split)

lemma keeps_refresh: "keeps (only_tokens s) (refresh mem_unit_of_work si digest now dr raw)"
proof -
  have "keeps (only_tokens s) (refresh_in mem_scope si digest now dr raw)"
    unfolding refresh_in_def mem_scope_def tx_scope.simps by (intro keeps_intros)
  then show ?thesis by (simp add: keeps_def refresh_def with_scope_mem)
qed

lemma tokens_step: "platform_over R s \<Longrightarrow> keeps (only_tokens s) m \<Longrightarrow> platform_over R (snd (m s))"
  by (rule only_tokens_platform, assumption, unfold keeps_def, drule spec [of _ s])
    (auto simp: only_tokens_def platform_over_def intro!: exI [of _ "refresh_tokens s"])

text \<open>Storing a user of a known or of an unused identity.\<close>

lemma save_user_platform:
  assumes ok: "platform_over R s" and u: "user_wf u" "email_shape (email_as_str (u_email u))"
    and id: "\<And>i v. lookup_user s i = Some v \<Longrightarrow> clash R (who_is v) (who_is u) \<Longrightarrow> i = u_id u"
  shows "platform_over R (s\<lparr>users := AList.update (u_id u) u (users s)\<rparr>)"
proof -
  let ?t = "s\<lparr>users := AList.update (u_id u) u (users s)\<rparr>"
  have look: "lookup_user ?t = (lookup_user s)(u_id u \<mapsto> u)" by (simp add: lookup_user_def update_conv')
  have L: "ledger_of ?t = (ledger_of s)\<lparr>lg_users := (lookup_user s)(u_id u \<mapsto> u)\<rparr>"
    unfolding look [symmetric] by (simp add: ledger_of_def lookup_market_def fun_eq_iff)
  have wf: "ledger_wf (ledger_of s)" "mem_inv s" using ok by (simp_all add: platform_over_def)
  have "users_ok ((lookup_user s)(u_id u \<mapsto> u))"
    using wf(1) u(1) by (auto simp: ledger_wf_def users_ok_def)
  then have "ledger_wf (ledger_of ?t)"
    using wf(1) unfolding L by (auto simp: ledger_wf_def bet_ok_def)
  moreover have "mem_inv ?t"
    using wf(2) user_map_wf_update by (auto simp: mem_inv_def users_wf_def)
  moreover have "typed (ledger_of ?t)" using ok u(2) unfolding L by (auto simp: platform_over_def typed_def)
  moreover have "unique_accounts R (ledger_of ?t)"
  proof -
    have "unique_accounts R (ledger_of s)" using ok by (simp add: platform_over_def)
    then show ?thesis
      using id clash_sym [of R "who_is u"] unfolding L by (simp add: unique_accounts_def ident_def) blast
  qed
  moreover have "chat_ok ?t"
    using ok look by (auto simp: platform_over_def chat_ok_def reactions_ok_def rooms_closed_def message_by_id_def)
  moreover have "tokens_wf ?t" using ok by (simp add: platform_over_def tokens_wf_def)
  ultimately show ?thesis by (simp add: platform_over_def)
qed

lemma register_platform:
  fixes s :: "'z world"
  assumes ok: "platform_over R s" and fresh: "lookup_user s (UserId fresh) = None"
  shows "platform_over R (snd (mem_register lc hasher si digest fresh now dr input s))"
proof (cases "\<exists>name mail password hash. username_new (ri_username input) = Ok name \<and> email_new lc (ri_email input) = Ok mail
    \<and> password_new (ri_password input) = Ok password \<and> ph_hash hasher password = Ok hash")
  case False
  then have "snd (mem_register lc hasher si digest fresh now dr input s) = s"
    by (cases "username_new (ri_username input)"; cases "email_new lc (ri_email input)";
        cases "password_new (ri_password input)") (auto simp: register_def cmd_simps split: result.splits)
  then show ?thesis using ok by simp
next
  case True
  then obtain name mail password hash where e: "username_new (ri_username input) = Ok name"
      "email_new lc (ri_email input) = Ok mail" "password_new (ri_password input) = Ok password"
      "ph_hash hasher password = Ok hash"
    by blast
  let ?u = "user_new fresh now name mail hash"
  let ?s1 = "s\<lparr>users := AList.update (u_id ?u) ?u (users s)\<rparr>"
  define finish :: "('z world, auth_session, app_error) cmd" where "finish = bind_cmd (issue_session si digest dr ?u mem_token_repo)
    (\<lambda>session. seq_cmd (conv app_of_repo (ret ())) (ret session))"
  have run: "mem_register lc hasher si digest fresh now dr input s
      = (if find (\<lambda>u. u_email u = mail) (map snd (users s)) \<noteq> None
         then (Err (AppConflict [Lit ''user with email '', TextF (email_as_str mail), Lit '' already exists'']), s)
         else if find (\<lambda>u. u_username u = name) (map snd (users s)) \<noteq> None
         then (Err (AppConflict [Lit ''username '', TextF (username_as_str name), Lit '' is already taken'']), s)
         else finish ?s1)"
    using e by (simp add: register_def bind_cmd_def lift_def conv_def with_scope_mem register_in_def mem_scope_def
        mem_user_repo_def mem_user_find_by_email_def mem_user_find_by_username_def reads_def fail_def seq_cmd_def
        mem_user_save_def writes_def Let_def finish_def)
  show ?thesis
  proof (cases "find (\<lambda>u. u_email u = mail) (map snd (users s)) = None \<and> find (\<lambda>u. u_username u = name) (map snd (users s)) = None")
    case True
    have none: "u_email v \<noteq> mail \<and> u_username v \<noteq> name" if "lookup_user s i = Some v" for i v
    proof -
      have "v \<in> set (map snd (users s))" using that by (force simp: lookup_user_def dest: map_of_SomeD)
      then show ?thesis using True by (auto simp: find_None_iff)
    qed
    have "platform_over R ?s1"
    proof (rule save_user_platform [OF ok])
      show "user_wf ?u" using e(1) by (intro user_new_wf) (simp add: username_new_Ok)
      show "email_shape (email_as_str (u_email ?u))" using e(2) by (simp add: user_new_def email_new_Ok)
      show "i = u_id ?u" if "lookup_user s i = Some v" "clash R (who_is v) (who_is ?u)" for i v
        using none [OF that(1)] that(2) by (simp add: user_new_def clash_def)
    qed
    moreover have "keeps (only_tokens ?s1) finish" unfolding finish_def by (intro keeps_intros)
    ultimately show ?thesis using tokens_step True run by simp
  qed (use run ok in auto)
qed

lemma update_user_platform:
  assumes ok: "platform_over R s"
  shows "platform_over R (snd (update_user mem_user_repo now i patch s))"
proof (cases "lookup_user s (UserId i)")
  case None
  then have "snd (update_user mem_user_repo now i patch s) = s"
    by (simp add: update_user_def lookup_user_def mem_simps cmd_simps)
  then show ?thesis using ok by simp
next
  case (Some u)
  let ?u = "case uu_role patch of None \<Rightarrow> u | Some r \<Rightarrow> set_role now r u"
  have u: "user_wf u" "email_shape (email_as_str (u_email u))" "u_id u = UserId i"
    using ok Some by (auto simp: platform_over_def ledger_wf_def users_ok_def typed_def)
  have same: "u_id ?u = u_id u" "u_email ?u = u_email u" "u_username ?u = u_username u" "user_wf ?u"
    using u(1) by (simp_all add: set_role_def user_wf_def split: option.split)
  have run: "snd (update_user mem_user_repo now i patch s)
      = (if patch_is_empty patch then s else s\<lparr>users := AList.update (u_id ?u) ?u (users s)\<rparr>)"
    using Some by (simp add: update_user_def lookup_user_def mem_simps cmd_simps Let_def)
  have "platform_over R (s\<lparr>users := AList.update (u_id ?u) ?u (users s)\<rparr>)"
  proof (rule save_user_platform [OF ok same(4)])
    show "email_shape (email_as_str (u_email ?u))" using u(2) same(2) by simp
    fix j v assume v: "lookup_user s j = Some v" "clash R (who_is v) (who_is ?u)"
    have "unique_accounts R (ledger_of s)" using ok by (simp add: platform_over_def)
    then have "j = UserId i" using unique_accountsD [OF _ v(1) Some] v(2) same by simp
    then show "j = u_id ?u" using same(1) u(3) by simp
  qed
  then show ?thesis using run ok by simp
qed

section \<open>Chat\<close>

text \<open>Requests that touch nothing but messages and reactions.\<close>

definition only_chat :: "'z world \<Rightarrow> 'z world \<Rightarrow> bool" where
  "only_chat s t \<longleftrightarrow> users t = users s \<and> markets t = markets s \<and> outcomes t = outcomes s
     \<and> bets t = bets s \<and> refresh_tokens t = refresh_tokens s"

lemma only_chat_platform:
  assumes "platform_over R s" "only_chat s t" "chat_ok t"
  shows "platform_over R t"
  using assms view_cong [of t s] by (auto simp: platform_over_def only_chat_def tokens_wf_def)

lemma post_message_platform:
  assumes ok: "platform_over R s" and fresh: "MessageId fresh \<notin> c_id ` set (messages s)"
  shows "platform_over R (snd (post_message (mem_chat_repo events) mem_user_repo (mem_market_repo lc) clock fresh u channel body reply_to s))"
proof -
  obtain r t where run: "post_message (mem_chat_repo events) mem_user_repo (mem_market_repo lc) clock fresh u channel body reply_to s = (r, t)"
    by fastforce
  consider "t = s" | (post) words quote m where "lookup_user s u \<noteq> None" "body_new body = Ok words"
      "quote_allowed s channel reply_to quote" "m = chat_message_new fresh (clock 0) u channel words reply_to"
      "t = snd (dispatch events (ChatMessagePosted (MessageId fresh)) (s\<lparr>messages := messages s @ [m]\<rparr>))"
    using post_message_cases [OF run] by (auto simp: Let_def)
  then have "platform_over R t"
  proof cases
    case post
    note posted = post(1-4) posted_dispatch [of s m events "ChatMessagePosted (MessageId fresh)", folded post(5)]
    have chat: "chat_ok s" using ok by (simp add: platform_over_def)
    have same: "users t = users s" "messages t = messages s @ [m]" "reactions t = reactions s"
      using posted(5) by (simp_all add: posted_def)
    have keep: "message_by_id t i = Some q" if "message_by_id s i = Some q" for i q
      using that same(2) by (simp add: message_by_id_def find_append)
    have closed: "\<exists>q. message_by_id t i = Some q \<and> c_channel q = c_channel x"
      if "x \<in> set (messages t)" "c_reply_to x = Some i" for x i
    proof -
      have "\<exists>q. message_by_id s i = Some q \<and> c_channel q = c_channel x"
        using that chat posted(3,4) same(2)
        by (auto simp: chat_ok_def rooms_closed_def quote_allowed_def chat_message_new_def)
      then show ?thesis using keep by blast
    qed
    have "body_wf (c_body m)" using posted(2,4) by (auto simp: body_new_Ok body_wf_def trimmed_trim chat_message_new_def)
    moreover have "lookup_user t = lookup_user s" using same(1) by (simp add: lookup_user_def)
    ultimately have "chat_ok t"
      using chat posted(1,4) fresh closed same
      by (auto simp: chat_ok_def rooms_closed_def reactions_ok_def chat_message_new_def)
    moreover have "only_chat s t" using posted(5) by (simp add: posted_def only_chat_def)
    ultimately show ?thesis using only_chat_platform [OF ok] by blast
  qed (use ok in simp)
  then show ?thesis using run by simp
qed

lemma resolve_reaction_cases:
  "(\<exists>e. resolve_reaction (mem_chat_repo events) i emoji s = (Err e, s))
   \<or> (\<exists>e. resolve_reaction (mem_chat_repo events) i emoji s = (Ok e, s) \<and> emoji_wf e \<and> i \<in> c_id ` set (messages s))"
proof (cases "emoji_new emoji")
  case (Ok e)
  then have "emoji_wf e" by (auto simp: emoji_new_Ok)
  then show ?thesis using Ok
    by (cases "find (\<lambda>m. c_id m = i) (messages s)")
      (auto simp: resolve_reaction_def mem_chat_repo_def mem_message_find_by_id_def cmd_simps dest!: find_SomeD)
qed (auto simp: resolve_reaction_def cmd_simps)

lemma change_reactions:
  assumes ok: "platform_over R s" and rs: "distinct rs"
    "\<forall>r\<in>set rs. emoji_wf (r_emoji r) \<and> r_message_id r \<in> c_id ` set (messages s)"
  shows "platform_over R (snd (dispatch events e (s\<lparr>reactions := rs\<rparr>)))"
proof (rule only_chat_platform [OF ok])
  let ?t = "snd (dispatch events e (s\<lparr>reactions := rs\<rparr>))"
  show "only_chat s ?t" by (simp add: only_chat_def dispatch_eq)
  show "chat_ok ?t" using ok rs
    by (simp add: platform_over_def chat_ok_def reactions_ok_def rooms_closed_def message_by_id_def lookup_user_def dispatch_eq)
qed

lemma react_platform:
  assumes ok: "platform_over R s"
  shows "platform_over R (snd (react_add (mem_chat_repo events) u i emoji s))"
    and "platform_over R (snd (react_remove (mem_chat_repo events) u i emoji s))"
proof -
  have chat: "chat_ok s" using ok by (simp add: platform_over_def)
  have add: "platform_over R (snd (mem_add_reaction events i u e s))" if "emoji_wf e" "i \<in> c_id ` set (messages s)" for e
  proof (cases "(i, u, e) \<in> reaction_set s")
    case False
    then have "\<lparr>r_message_id = i, r_user_id = u, r_emoji = e\<rparr> \<notin> set (reactions s)"
      by (force simp: reaction_set_def triple_of_def)
    then have "platform_over R (snd (dispatch events (ChatReactionChanged i u (emoji_as_str e) True)
        (s\<lparr>reactions := reactions s @ [\<lparr>r_message_id = i, r_user_id = u, r_emoji = e\<rparr>]\<rparr>)))"
      by (intro change_reactions [OF ok]) (use chat that in \<open>auto simp: chat_ok_def reactions_ok_def\<close>)
    then show ?thesis using False by (simp add: add_reaction_eq)
  qed (use ok in \<open>simp add: add_reaction_eq\<close>)
  have remove: "platform_over R (snd (mem_remove_reaction events i u e s))" for e
  proof (cases "(i, u, e) \<in> reaction_set s")
    case True
    have "platform_over R (snd (dispatch events (ChatReactionChanged i u (emoji_as_str e) False)
        (s\<lparr>reactions := filter (\<lambda>r. \<not> same_reaction i u e r) (reactions s)\<rparr>)))"
      by (intro change_reactions [OF ok]) (use chat in \<open>auto simp: chat_ok_def reactions_ok_def\<close>)
    then show ?thesis using True by (simp add: remove_reaction_eq)
  qed (use ok in \<open>simp add: remove_reaction_eq\<close>)
  show "platform_over R (snd (react_add (mem_chat_repo events) u i emoji s))"
    using resolve_reaction_cases [of events i emoji s] add ok
    by (auto simp: react_add_def bind_cmd_def conv_def mem_chat_repo_def)
  show "platform_over R (snd (react_remove (mem_chat_repo events) u i emoji s))"
    using resolve_reaction_cases [of events i emoji s] remove ok
    by (auto simp: react_remove_def bind_cmd_def conv_def mem_chat_repo_def)
qed

section \<open>Reachable states\<close>

text \<open>One request of any kind, by anyone, with any outcome; the identifiers a request draws are new.\<close>

inductive request :: "case_table \<Rightarrow> 'z bus option \<Rightarrow> 'z world \<Rightarrow> 'z world \<Rightarrow> bool" for lc events where
  registers: "lookup_user s (UserId fresh) = None \<Longrightarrow>
    request lc events s (snd (mem_register lc hasher si digest fresh now dr input s))"
| logs_in: "request lc events s (snd (mem_login lc hasher si digest dr input s))"
| logs_out: "request lc events s (snd (logout mem_token_repo digest raw s))"
| refreshes: "request lc events s (snd (refresh mem_unit_of_work si digest now dr raw s))"
| changes_role: "request lc events s (snd (update_user mem_user_repo now i patch s))"
| creates: "lookup_market s (MarketId fresh) = None \<Longrightarrow> \<forall>oc\<in>set (outcomes s). o_market_id oc \<noteq> MarketId fresh \<Longrightarrow>
    distinct (map ids [0..<length (nm_outcomes input)]) \<Longrightarrow>
    \<forall>i<length (nm_outcomes input). OutcomeId (ids i) \<notin> o_id ` set (outcomes s) \<Longrightarrow>
    int (length (nm_outcomes input)) \<le> i64_max \<Longrightarrow>
    request lc events s (snd (mem_create_market lc clock fresh ids actor input s))"
| bets: "BetId fresh \<notin> b_id ` set (bets s) \<Longrightarrow>
    request lc events s (snd (mem_place_bet lc events clock fresh actor stake s))"
| resolves: "request lc events s (snd (mem_resolve_market lc events clock actor mid w s))"
| posts: "MessageId fresh \<notin> c_id ` set (messages s) \<Longrightarrow>
    request lc events s (snd (post_message (mem_chat_repo events) mem_user_repo (mem_market_repo lc) clock fresh u channel body reply_to s))"
| reacts: "request lc events s (snd (react_add (mem_chat_repo events) u msg_id emoji s))"
| unreacts: "request lc events s (snd (react_remove (mem_chat_repo events) u msg_id emoji s))"

inductive reachable :: "case_table \<Rightarrow> 'z bus option \<Rightarrow> 'z world \<Rightarrow> bool" for lc events where
  start: "reachable lc events \<lparr>users = [], refresh_tokens = [], markets = [], outcomes = [], price_points = [],
    bets = [], messages = [], reactions = [], outer = z\<rparr>"
| step: "reachable lc events s \<Longrightarrow> request lc events s t \<Longrightarrow> reachable lc events t"

lemma request_platform: "request lc events s t \<Longrightarrow> platform_over R s \<Longrightarrow> platform_over R t"
proof (induction rule: request.induct)
  case (registers s fresh hasher si digest now dr input)
  then show ?case by (intro register_platform)
next
  case (logs_in s hasher si digest dr input)
  then show ?case by (rule tokens_step [OF _ keeps_login])
next
  case (logs_out s digest raw)
  then show ?case by (rule tokens_step [OF _ keeps_logout])
next
  case (refreshes s si digest now dr raw)
  then show ?case by (rule tokens_step [OF _ keeps_refresh])
next
  case (changes_role s now i patch)
  then show ?case by (rule update_user_platform)
next
  case (creates s fresh ids input clock actor)
  then show ?case by (intro create_market_platform)
next
  case (bets fresh s clock actor stake)
  then show ?case by (intro place_bet_platform)
next
  case (resolves s clock actor mid w)
  then show ?case by (rule resolve_market_platform)
next
  case (posts fresh s clock u channel body reply_to)
  then show ?case by (intro post_message_platform)
qed (auto intro: react_platform)

lemma reachable_platform: "reachable lc events s \<Longrightarrow> platform_ok s"
proof (induction rule: reachable.induct)
  case (start z)
  let ?s = "\<lparr>users = [], refresh_tokens = [], markets = [], outcomes = [], price_points = [],
    bets = [], messages = [], reactions = [], outer = z\<rparr>"
  have "ledger_of ?s = \<lparr>lg_users = \<lambda>_. None, lg_markets = \<lambda>_. None, lg_outcomes = [], lg_bets = []\<rparr>"
    by (simp add: ledger_of_def lookup_user_def lookup_market_def fun_eq_iff)
  then show ?case
    by (simp add: platform_over_def mem_inv_def users_wf_def user_map_wf_def tokens_wf_def ledger_wf_def users_ok_def
        market_outcomes_def board_ok_def unique_accounts_def ident_def typed_def chat_ok_def reactions_ok_def rooms_closed_def)
qed (rule request_platform)

section \<open>What holds on the platform\<close>

text \<open>The books of a platform in order.\<close>

lemma platform_books:
  assumes ok: "platform_over R s"
  shows "(\<forall>i u. lookup_user s i = Some u \<longrightarrow> u_id u = i \<and> 0 \<le> u_balance u \<and> u_balance u \<le> i64_max)
    \<and> (\<forall>i j u v. lookup_user s i = Some u \<and> lookup_user s j = Some v
         \<and> clash R (who_is u) (who_is v) \<longrightarrow> i = j)
    \<and> (\<forall>b\<in>set (bets s). lookup_user s (b_user_id b) \<noteq> None \<and> lookup_market s (b_market_id b) \<noteq> None
         \<and> (\<exists>oc\<in>set (outcomes s). o_id oc = b_outcome_id b \<and> o_market_id oc = b_market_id b))
    \<and> (\<forall>mid m. lookup_market s mid = Some m \<longrightarrow>
         (m_status m = Resolved \<longleftrightarrow> (\<exists>oc\<in>set (outcomes s). m_resolved_outcome_id m = Some (o_id oc) \<and> o_market_id oc = mid))
         \<and> (m_status m = Resolved \<longrightarrow> (\<forall>b\<in>set (bets s). b_market_id b = mid \<longrightarrow> b_status b \<noteq> Active))
         \<and> m_total_volume m = sat_i64 (sum_list (map b_amount (filter (\<lambda>b. b_market_id b = mid) (bets s)))))
    \<and> rooms_closed s"
proof -
  have L: "ledger_wf (ledger_of s)" using ok by (simp add: platform_over_def)
  have users: "u_id u = i \<and> 0 \<le> u_balance u \<and> u_balance u \<le> i64_max" if "lookup_user s i = Some u" for i u
    using L that by (simp add: ledger_wf_def users_ok_def user_wf_def)
  have unique: "i = j" if "lookup_user s i = Some u" "lookup_user s j = Some v"
    "clash R (who_is u) (who_is v)" for i j u v
    using ok that unique_accountsD [of R s i u j v] by (simp add: platform_over_def)
  have bets: "lookup_user s (b_user_id b) \<noteq> None \<and> lookup_market s (b_market_id b) \<noteq> None
      \<and> (\<exists>oc\<in>set (outcomes s). o_id oc = b_outcome_id b \<and> o_market_id oc = b_market_id b)" if "b \<in> set (bets s)" for b
    using L that by (auto simp: ledger_wf_def bet_ok_def)
  have market: "market_ok (bets s) (outcomes s) mid m" if "lookup_market s mid = Some m" for mid m
    using L that by (simp add: ledger_wf_def)
  have resolved: "m_status m = Resolved \<longleftrightarrow> (\<exists>oc\<in>set (outcomes s). m_resolved_outcome_id m = Some (o_id oc) \<and> o_market_id oc = mid)"
    if "lookup_market s mid = Some m" for mid m
    using market [OF that] by (auto simp: market_ok_def)
  show ?thesis
    using users unique bets resolved market ok
    by (auto simp: market_ok_def staked_def platform_over_def chat_ok_def)
qed

text \<open>Whatever requests the platform has served, in any order and with any outcome, its books are in
  order: every account is stored under its own identifier with a balance that is never negative, no
  two accounts share an email or a username, every bet names a known user, a known market and an
  outcome of that market, a market is resolved exactly when it names a winner among its own outcomes
  and then has no open bet, its volume is the stakes on it, and no chat reply quotes another room.\<close>

theorem reachable_books:
  assumes "reachable lc events s"
  shows "(\<forall>i u. lookup_user s i = Some u \<longrightarrow> u_id u = i \<and> 0 \<le> u_balance u \<and> u_balance u \<le> i64_max)
    \<and> (\<forall>i j u v. lookup_user s i = Some u \<and> lookup_user s j = Some v
         \<and> (u_email u = u_email v \<or> u_username u = u_username v) \<longrightarrow> i = j)
    \<and> (\<forall>b\<in>set (bets s). lookup_user s (b_user_id b) \<noteq> None \<and> lookup_market s (b_market_id b) \<noteq> None
         \<and> (\<exists>oc\<in>set (outcomes s). o_id oc = b_outcome_id b \<and> o_market_id oc = b_market_id b))
    \<and> (\<forall>mid m. lookup_market s mid = Some m \<longrightarrow>
         (m_status m = Resolved \<longleftrightarrow> (\<exists>oc\<in>set (outcomes s). m_resolved_outcome_id m = Some (o_id oc) \<and> o_market_id oc = mid))
         \<and> (m_status m = Resolved \<longrightarrow> (\<forall>b\<in>set (bets s). b_market_id b = mid \<longrightarrow> b_status b \<noteq> Active))
         \<and> m_total_volume m = sat_i64 (sum_list (map b_amount (filter (\<lambda>b. b_market_id b = mid) (bets s)))))
    \<and> rooms_closed s"
  by (rule platform_books [OF reachable_platform [OF assms], unfolded clash_none fst_conv snd_conv])

lemma reachable_bob: "reachable (\<lambda>_ _. []) None bob_world"
proof -
  have "reachable (\<lambda>_ _. []) None empty_world" unfolding empty_world_def by (rule reachable.start)
  moreover have "lookup_user empty_world (UserId 1) = None" by (simp add: lookup_user_def empty_world_def)
  ultimately show ?thesis unfolding bob_world_def by (intro reachable.step [OF _ request.registers])
qed

lemma reachable_books_witness:
  "\<exists>u. lookup_user bob_world (UserId 1) = Some u \<and> 0 \<le> u_balance u \<and> rooms_closed bob_world"
proof -
  have "map fst (users bob_world) = [UserId 1]" by code_simp
  then obtain u where "lookup_user bob_world (UserId 1) = Some u"
    by (cases "users bob_world") (auto simp: lookup_user_def)
  then show ?thesis using reachable_books [OF reachable_bob] by blast
qed



end
