(* ===== verification/EventBus.thy ===== *)
theory EventBus
  imports MemUsers
begin

text \<open>
  Event delivery (\<open>infrastructure/src/events.rs\<close>, \<open>events/in_memory_bus.rs\<close>): typed handlers
  behind an erased registry keyed by topic, and the in-process bus the in-memory repositories
  dispatch to.  The JSON encoding of an event is \<open>serde_json\<close>'s and is the parameter \<open>'j event_codec\<close>;
  a handler is a command of the state it works in.
\<close>

section \<open>Typed handlers behind one registry\<close>

datatype delivery_error = Undecodable message | DeliveryFailed message

text \<open>\<open>serde_json::to_value\<close> of an event, and \<open>from_value\<close> at the event type of a topic.\<close>

record 'j event_codec =
  to_value :: "event \<Rightarrow> ('j, message) result"
  from_value :: "str \<Rightarrow> 'j \<Rightarrow> (event, message) result"

text \<open>What is relied on: encoding does not fail, and decoding undoes it.\<close>

definition event_codec_ok :: "'j event_codec \<Rightarrow> bool" where
  "event_codec_ok codec \<longleftrightarrow>
     (\<forall>e. \<exists>j. to_value codec e = Ok j \<and> from_value codec (topic e) j = Ok e)"

type_synonym 's handler = "event \<Rightarrow> ('s, unit, message) cmd"
type_synonym ('s, 'j) erased_handler = "'j \<Rightarrow> ('s, unit, delivery_error) cmd"
type_synonym ('s, 'j) registry = "(str \<times> ('s, 'j) erased_handler list) list"

definition typed_handle :: "'j event_codec \<Rightarrow> str \<Rightarrow> 's handler \<Rightarrow> ('s, 'j) erased_handler" where
  "typed_handle codec t h payload =
     bind_cmd (lift (map_err (\<lambda>e. Undecodable ([Lit ''not a '', TextF t, Lit '' event: ''] @ e))
       (from_value codec t payload))) (\<lambda>event.
     conv DeliveryFailed (h event))"

definition handlers_of :: "('s, 'j) registry \<Rightarrow> str \<Rightarrow> ('s, 'j) erased_handler list" where
  "handlers_of reg t = (case map_of reg t of None \<Rightarrow> [] | Some hs \<Rightarrow> hs)"

definition register_handler :: "'j event_codec \<Rightarrow> str \<Rightarrow> 's handler \<Rightarrow> ('s, 'j) registry
    \<Rightarrow> ('s, 'j) registry" where
  "register_handler codec t h reg =
     AList.update t (handlers_of reg t @ [typed_handle codec t h]) reg"

lemma handlers_of_register:
  "handlers_of (register_handler codec t h reg) t' =
     (if t' = t then handlers_of reg t @ [typed_handle codec t h] else handlers_of reg t')"
  by (simp add: handlers_of_def register_handler_def update_conv')

lemma handlers_of_Nil [simp]: "handlers_of [] t = []"
  by (simp add: handlers_of_def)

lemma typed_handle_own:
  assumes "event_codec_ok codec" "to_value codec e = Ok j"
  shows "typed_handle codec (topic e) h j = conv DeliveryFailed (h e)"
proof -
  have "from_value codec (topic e) j = Ok e"
    using assms by (auto simp: event_codec_ok_def) (metis result.inject(1))
  then show ?thesis by (simp add: typed_handle_def fun_eq_iff bind_cmd_def lift_def)
qed

section \<open>The in-process bus\<close>

text \<open>A failed delivery is logged and dropped.\<close>

definition logged :: "('s, unit, 'e) cmd \<Rightarrow> ('s, unit, 'f) cmd" where
  "logged m s = (case m s of (Ok u, t) \<Rightarrow> (Ok (), t) | (Err e, t) \<Rightarrow> (Ok (), t) | (Panic, t) \<Rightarrow> (Panic, t))"

definition bus_dispatch :: "'j event_codec \<Rightarrow> ('s, 'j) registry \<Rightarrow> event \<Rightarrow> ('s, unit, 'e) cmd" where
  "bus_dispatch codec reg e = (case to_value codec e of
       Ok payload \<Rightarrow> for_each (\<lambda>h. logged (h payload)) (handlers_of reg (topic e))
     | Err _ \<Rightarrow> ret ()
     | Panic \<Rightarrow> lift Panic)"

text \<open>The bus as the in-memory repositories hold it: what a dispatch does to the world around
  the stores.\<close>

definition attached :: "'j event_codec \<Rightarrow> ('z world, 'j) registry \<Rightarrow> 'z bus" where
  "attached codec reg e st z =
     outer (snd (bus_dispatch codec reg e (store.extend st (world.fields z)) :: (unit, unit) result \<times> _))"

text \<open>Handlers registered on a topic see its events decoded, in registration order.\<close>

fun registered :: "'j event_codec \<Rightarrow> (str \<times> 's handler) list \<Rightarrow> ('s, 'j) registry" where
  "registered codec [] = []"
| "registered codec ((t, h) # hs) = register_handler codec t h (registered codec hs)"

lemma handlers_of_registered:
  "handlers_of (registered codec (rev hs)) t
     = map (\<lambda>(t, h). typed_handle codec t h) (filter (\<lambda>(t', h). t' = t) hs)"
  by (induction hs rule: rev_induct) (auto simp: handlers_of_register)

lemma logged_conv: "logged (conv f m) = logged m"
  by (auto simp: logged_def conv_def fun_eq_iff split: prod.split result.split)

lemma bus_dispatch_registered:
  fixes hs :: "(str \<times> 's handler) list"
  assumes "event_codec_ok codec"
  shows "bus_dispatch codec (registered codec (rev hs)) e
     = for_each (\<lambda>(t, h). logged (h e)) (filter (\<lambda>(t, h). t = topic e) hs)"
proof -
  obtain j where j: "to_value codec e = Ok j" using assms by (auto simp: event_codec_ok_def)
  have "for_each (\<lambda>h. logged (h j)) (map (\<lambda>(t, h). typed_handle codec t h) ks)
      = for_each (\<lambda>(t, h). logged (h e)) ks" if "\<forall>(t, h)\<in>set ks. t = topic e" for ks :: "(str \<times> 's handler) list"
    using that by (induction ks) (auto simp: typed_handle_own [OF assms j] logged_conv)
  from this [of "filter (\<lambda>(t, h). t = topic e) hs"] show ?thesis
    by (simp add: bus_dispatch_def j handlers_of_registered case_prod_unfold)
qed

end
