(* ===== verification/Outbox.thy ===== *)
theory Outbox
  imports EventBus
begin

text \<open>
  The transactional outbox (\<open>infrastructure/src/events/outbox.rs\<close>): the table of recorded events,
  one delivery pass, draining the backlog and pruning, and then any number of processors over the
  same table, with their row locks and crashes.  The database is the table and its statements;
  which statement of a pass fails is a parameter.
\<close>

section \<open>The table\<close>

record 'j outbox_row =
  ob_id :: int
  ob_topic :: str
  ob_payload :: 'j
  ob_attempts :: int
  ob_processed_at :: "datetime option"

definition batch_size :: nat where "batch_size = 100"

text \<open>The serial of the table and its rows, beside what the handlers work on.\<close>

record ('j, 's) backend =
  bk_serial :: int
  bk_rows :: "'j outbox_row list"
  bk_rest :: 's

definition outbox_row_new :: "int \<Rightarrow> str \<Rightarrow> 'j \<Rightarrow> 'j outbox_row" where
  "outbox_row_new i t j =
     \<lparr>ob_id = i, ob_topic = t, ob_payload = j, ob_attempts = 0, ob_processed_at = None\<rparr>"

definition publish :: "'j event_codec \<Rightarrow> event \<Rightarrow> (('j, 's) backend, unit, repo_error) cmd" where
  "publish codec e =
     bind_cmd (lift (map_err (\<lambda>err. Storage ([Lit ''unencodable event '', TextF (topic e), Lit '': ''] @ err))
       (to_value codec e))) (\<lambda>payload.
     writes (\<lambda>s. s\<lparr>bk_serial := bk_serial s + 1,
       bk_rows := bk_rows s @ [outbox_row_new (bk_serial s) (topic e) payload]\<rparr>))"

definition pending :: "'j outbox_row \<Rightarrow> bool" where
  "pending r \<longleftrightarrow> ob_processed_at r = None"

text \<open>\<open>WHERE processed_at IS NULL ORDER BY id LIMIT 100 FOR UPDATE SKIP LOCKED\<close>.\<close>

definition claimed :: "(int \<Rightarrow> bool) \<Rightarrow> 'j outbox_row list \<Rightarrow> 'j outbox_row list" where
  "claimed locked rows =
     take batch_size (sort_key ob_id (filter (\<lambda>r. pending r \<and> \<not> locked (ob_id r)) rows))"

definition settle_row :: "datetime \<Rightarrow> int list \<Rightarrow> int list \<Rightarrow> 'j outbox_row \<Rightarrow> 'j outbox_row" where
  "settle_row now delivered failed r =
     (let r = (if ob_id r \<in> set delivered then r\<lparr>ob_processed_at := Some now\<rparr> else r) in
      if ob_id r \<in> set failed then r\<lparr>ob_attempts := ob_attempts r + 1\<rparr> else r)"

section \<open>One delivery pass\<close>

text \<open>The handlers of one event: an undecodable payload counts as delivered, a failure does not
  stop the handlers after it.\<close>

fun attempt :: "('s, 'j) erased_handler list \<Rightarrow> 'j \<Rightarrow> ('s, bool, 'e) cmd" where
  "attempt [] payload s = (Ok True, s)"
| "attempt (h # hs) payload s = (case h payload s of
     (Ok _, s') \<Rightarrow> attempt hs payload s'
   | (Err (Undecodable _), s') \<Rightarrow> attempt hs payload s'
   | (Err (DeliveryFailed _), s') \<Rightarrow> bind_cmd (attempt hs payload) (\<lambda>_. ret False) s'
   | (Panic, s') \<Rightarrow> (Panic, s'))"

fun deliver_each :: "('s, 'j) registry \<Rightarrow> 'j outbox_row list \<Rightarrow> ('s, int list \<times> int list, 'e) cmd" where
  "deliver_each reg [] = ret ([], [])"
| "deliver_each reg (r # rs) =
     bind_cmd (attempt (handlers_of reg (ob_topic r)) (ob_payload r)) (\<lambda>ok.
     bind_cmd (deliver_each reg rs) (\<lambda>(delivered, failed).
     ret (if ok then (ob_id r # delivered, failed) else (delivered, ob_id r # failed))))"

datatype sql_step = SqlBegin | SqlSelect | SqlProcessed | SqlAttempts | SqlCommit

type_synonym fault = "sql_step \<Rightarrow> message option"

definition sql :: "fault \<Rightarrow> sql_step \<Rightarrow> ('s, unit, message) cmd" where
  "sql fault step = lift (case fault step of None \<Rightarrow> Ok () | Some e \<Rightarrow> Err e)"

definition in_rest :: "('s, 'a, 'e) cmd \<Rightarrow> (('j, 's) backend, 'a, 'e) cmd" where
  "in_rest m s = (case m (bk_rest s) of (r, rest) \<Rightarrow> (r, s\<lparr>bk_rest := rest\<rparr>))"

text \<open>The updates of a pass take effect when it commits; what the handlers did stays.\<close>

definition deliver_batch :: "('s, 'j) registry \<Rightarrow> fault \<Rightarrow> (int \<Rightarrow> bool) \<Rightarrow> datetime
    \<Rightarrow> (('j, 's) backend, nat, message) cmd" where
  "deliver_batch reg fault locked now =
     seq_cmd (sql fault SqlBegin) (
     seq_cmd (sql fault SqlSelect) (
     bind_cmd (reads (\<lambda>s. claimed locked (bk_rows s))) (\<lambda>events.
     bind_cmd (in_rest (deliver_each reg events)) (\<lambda>(delivered, failed).
     seq_cmd (if delivered = [] then ret () else sql fault SqlProcessed) (
     seq_cmd (if failed = [] then ret () else sql fault SqlAttempts) (
     seq_cmd (sql fault SqlCommit) (
     seq_cmd (writes (\<lambda>s. s\<lparr>bk_rows := map (settle_row now delivered failed) (bk_rows s)\<rparr>))
       (ret (length delivered)))))))))"

text \<open>Draining: passes until one delivers less than a full batch or fails.  \<open>arrivals n\<close> are the
  rows other transactions commit before pass \<open>n\<close>.\<close>

record 'j passes =
  ps_fault :: "nat \<Rightarrow> fault"
  ps_locked :: "nat \<Rightarrow> int \<Rightarrow> bool"
  ps_now :: "nat \<Rightarrow> datetime"
  ps_arrivals :: "nat \<Rightarrow> 'j outbox_row list"

definition arrive :: "'j passes \<Rightarrow> nat \<Rightarrow> ('j, 's) backend \<Rightarrow> ('j, 's) backend" where
  "arrive ps n s = s\<lparr>bk_rows := bk_rows s @ ps_arrivals ps n\<rparr>"

partial_function (option) drain :: "('s, 'j) registry \<Rightarrow> 'j passes \<Rightarrow> nat \<Rightarrow> ('j, 's) backend
    \<Rightarrow> ((unit, message) result \<times> ('j, 's) backend) option" where
  "drain reg ps n s = (case deliver_batch reg (ps_fault ps n) (ps_locked ps n) (ps_now ps n) (arrive ps n s) of
     (Ok k, t) \<Rightarrow> if k = batch_size then drain reg ps (n + 1) t else Some (Ok (), t)
   | (Err e, t) \<Rightarrow> Some (Ok (), t)
   | (Panic, t) \<Rightarrow> Some (Panic, t))"

text \<open>\<open>DELETE ... WHERE processed_at < now() - INTERVAL '1 day'\<close>, in the unit of \<open>datetime\<close>.\<close>

definition prune :: "int \<Rightarrow> datetime \<Rightarrow> ('j, 's) backend \<Rightarrow> ('j, 's) backend" where
  "prune day now s = s\<lparr>bk_rows := filter (\<lambda>r. \<not> (case ob_processed_at r of
     None \<Rightarrow> False | Some at \<Rightarrow> at < now - day)) (bk_rows s)\<rparr>"

section \<open>What a pass does to the table\<close>

lemma attempt_not_Err: "attempt hs payload s \<noteq> (Err e, t)"
  by (induction hs arbitrary: s t)
    (auto simp: bind_cmd_def ret_def split: prod.splits result.splits delivery_error.splits)

lemma deliver_each_not_Err: "deliver_each reg rs s \<noteq> (Err e, t)"
  by (induction rs arbitrary: s t)
    (auto simp: bind_cmd_def ret_def attempt_not_Err split: prod.splits result.splits)

lemma deliver_each_Cons_Ok:
  "(deliver_each reg (r # rs) s :: (int list \<times> int list, 'e) result \<times> 's) = (Ok (delivered, failed), t) \<longleftrightarrow>
   (\<exists>ok s' d f. (attempt (handlers_of reg (ob_topic r)) (ob_payload r) s :: (bool, 'e) result \<times> 's) = (Ok ok, s')
     \<and> (deliver_each reg rs s' :: (int list \<times> int list, 'e) result \<times> 's) = (Ok (d, f), t)
     \<and> (delivered, failed) = (if ok then (ob_id r # d, f) else (d, ob_id r # f)))"
  by (auto simp: run_Ok)

lemma deliver_each_split:
  "(deliver_each reg rs s :: (int list \<times> int list, 'e) result \<times> 's) = (Ok (delivered, failed), t) \<Longrightarrow>
     set delivered \<union> set failed = ob_id ` set rs \<and> length delivered + length failed = length rs"
proof (induction rs arbitrary: s delivered failed)
  case (Cons r rs)
  then show ?case by (fastforce simp: deliver_each_Cons_Ok simp del: deliver_each.simps split: if_splits)
qed (auto simp: ret_def)

lemma sql_Ok: "sql fault step s = (Ok (), t) \<longleftrightarrow> fault step = None \<and> t = s"
  by (auto simp: sql_def lift_def split: option.splits)

lemma in_rest_Ok: "in_rest m s = (Ok x, t) \<longleftrightarrow> (\<exists>rest. m (bk_rest s) = (Ok x, rest) \<and> t = s\<lparr>bk_rest := rest\<rparr>)"
  by (auto simp: in_rest_def split: prod.splits)

lemma deliver_batch_Ok:
  assumes "deliver_batch reg fault locked now s = (Ok k, t)"
  shows "\<exists>delivered failed rest.
     deliver_each reg (claimed locked (bk_rows s)) (bk_rest s) = (Ok (delivered, failed) :: (_, message) result, rest)
     \<and> k = length delivered
     \<and> t = s\<lparr>bk_rest := rest, bk_rows := map (settle_row now delivered failed) (bk_rows s)\<rparr>"
proof -
  let ?m = "deliver_each reg (claimed locked (bk_rows s)) :: ('b, _, message) cmd"
  obtain delivered failed u where d: "in_rest ?m s = (Ok (delivered, failed), u)"
    and k: "seq_cmd (if delivered = [] then ret () else sql fault SqlProcessed) (
     seq_cmd (if failed = [] then ret () else sql fault SqlAttempts) (
     seq_cmd (sql fault SqlCommit) (
     seq_cmd (writes (\<lambda>s. s\<lparr>bk_rows := map (settle_row now delivered failed) (bk_rows s)\<rparr>))
       (ret (length delivered))))) u = (Ok k, t)"
    using assms by (auto simp: deliver_batch_def run_Ok sql_Ok reads_def)
  have "k = length delivered \<and> t = u\<lparr>bk_rows := map (settle_row now delivered failed) (bk_rows u)\<rparr>"
    using k by (auto simp: run_Ok sql_Ok writes_def split: if_splits)
  then show ?thesis using d by (auto simp: in_rest_Ok)
qed

lemma settle_row_fields [simp]:
  "ob_id (settle_row now d f r) = ob_id r" "ob_topic (settle_row now d f r) = ob_topic r"
  "ob_payload (settle_row now d f r) = ob_payload r"
  by (simp_all add: settle_row_def Let_def)

lemma pending_settle_row: "pending (settle_row now d f r) \<longleftrightarrow> pending r \<and> ob_id r \<notin> set d"
  by (simp add: settle_row_def pending_def Let_def)

lemma claimed_pending:
  "r \<in> set (claimed locked rows) \<Longrightarrow> r \<in> set rows \<and> pending r \<and> \<not> locked (ob_id r)"
  by (auto simp: claimed_def dest!: in_set_takeD)

definition backlog :: "('j, 's) backend \<Rightarrow> 'j outbox_row list" where
  "backlog s = sort_key ob_id (filter pending (bk_rows s))"

lemma backlog_decreases:
  assumes "deliver_batch reg fault locked now s = (Ok k, t)" "0 < k"
  shows "length (backlog t) < length (backlog s)"
proof -
  from deliver_batch_Ok [OF assms(1)] obtain d f rest where
    each: "deliver_each reg (claimed locked (bk_rows s)) (bk_rest s) = (Ok (d, f) :: (_, message) result, rest)"
    and k: "k = length d" and t: "bk_rows t = map (settle_row now d f) (bk_rows s)" by fastforce
  have d: "d \<noteq> []" using k assms(2) by auto
  have "hd d \<in> ob_id ` set (claimed locked (bk_rows s))"
    using deliver_each_split [OF each] hd_in_set [OF d] by blast
  then obtain r where r: "r \<in> set (bk_rows s)" "pending r" "ob_id r \<in> set d"
    using claimed_pending hd_in_set [OF d] by (metis (no_types, lifting) imageE)
  have "length (backlog t) = length (filter (\<lambda>r. ob_id r \<notin> set d) (filter pending (bk_rows s)))"
    by (simp add: backlog_def t filter_map o_def pending_settle_row conj_commute)
  also have "\<dots> < length (filter pending (bk_rows s))"
    using r by (intro length_filter_less [of r]) auto
  finally show ?thesis by (simp add: backlog_def)
qed

section \<open>Draining ends\<close>

lemma drain_quiet:
  assumes "\<And>m. n \<le> m \<Longrightarrow> ps_arrivals ps m = []"
  shows "\<exists>r. drain reg ps n s = Some r"
  using assms
proof (induction "length (backlog s)" arbitrary: n s rule: less_induct)
  case less
  obtain r t where b: "deliver_batch reg (ps_fault ps n) (ps_locked ps n) (ps_now ps n) (arrive ps n s) = (r, t)"
    by fastforce
  have s: "arrive ps n s = s" using less.prems [of n] by (simp add: arrive_def)
  show ?case
  proof (cases "r = Ok batch_size")
    case True
    then have "length (backlog t) < length (backlog s)"
      using b s by (intro backlog_decreases) (auto simp: batch_size_def)
    then have "\<exists>r. drain reg ps (n + 1) t = Some r" using less by simp
    then show ?thesis using True b by (subst drain.simps) simp
  next
    case False
    then show ?thesis using b by (subst drain.simps) (cases r; simp)
  qed
qed

lemma drain_returns:
  assumes "\<And>m. N \<le> m \<Longrightarrow> ps_arrivals ps m = []"
  shows "\<exists>r. drain reg ps n s = Some r"
proof (induction "N - n" arbitrary: n s)
  case 0
  then show ?case using assms by (intro drain_quiet) simp
next
  case (Suc k)
  then have IH: "\<exists>r. drain reg ps (n + 1) t = Some r" for t by simp
  show ?case
    by (subst drain.simps) (use IH in \<open>auto split: prod.split result.split\<close>)
qed

text \<open>C29: However its passes fail and whatever other processors hold locked, the drain loop of an
  outbox processor returns once other transactions stop committing events: each pass it goes on
  after has taken a full batch off the backlog.\<close>

theorem drain_terminates:
  assumes "\<And>m. N \<le> m \<Longrightarrow> ps_arrivals ps m = []"
  shows "\<exists>r. drain reg ps 0 s = Some r"
  using assms by (rule drain_returns)

section \<open>Draining delivers the backlog in order\<close>

text \<open>Handlers that never ask for redelivery, and passes nothing else interferes with.\<close>

definition dependable :: "('s, 'j) registry \<Rightarrow> bool" where
  "dependable reg \<longleftrightarrow> (\<forall>t. \<forall>h\<in>set (handlers_of reg t). \<forall>j s.
     case fst (h j s) of Ok _ \<Rightarrow> True | Err (Undecodable _) \<Rightarrow> True | _ \<Rightarrow> False)"

definition undisturbed :: "'j passes \<Rightarrow> bool" where
  "undisturbed ps \<longleftrightarrow> (\<forall>n. ps_arrivals ps n = [] \<and> ps_fault ps n = (\<lambda>_. None) \<and> ps_locked ps n = (\<lambda>_. False))"

text \<open>The handlers of a list of events, one event after the other.\<close>

definition replay :: "('s, 'j) registry \<Rightarrow> 'j outbox_row list \<Rightarrow> 's \<Rightarrow> 's" where
  "replay reg rs s = snd (deliver_each reg rs s :: (_, message) result \<times> 's)"

lemma attempt_dependable:
  assumes "dependable reg"
  obtains s' where "attempt (handlers_of reg t) payload s = (Ok True :: (bool, message) result, s')"
proof -
  have "\<exists>s'. attempt hs payload s = (Ok True :: (bool, message) result, s')"
    if "set hs \<subseteq> set (handlers_of reg t)" for hs
    using that
  proof (induction hs arbitrary: s)
    case (Cons h hs)
    then have h: "case fst (h payload s) of Ok _ \<Rightarrow> True | Err (Undecodable _) \<Rightarrow> True | _ \<Rightarrow> False"
      using assms unfolding dependable_def by (metis list.set_intros(1) subset_iff)
    obtain r s' where "h payload s = (r, s')" by fastforce
    then show ?case using h Cons.IH [of s'] Cons.prems by (auto split: result.splits delivery_error.splits)
  qed simp
  then show ?thesis using that by blast
qed

lemma deliver_each_Cons:
  assumes "attempt (handlers_of reg (ob_topic r)) (ob_payload r) s = (Ok True :: (bool, message) result, s')"
    and "deliver_each reg rs s' = (Ok (d, f) :: (_, message) result, s'')"
  shows "deliver_each reg (r # rs) s = (Ok (ob_id r # d, f) :: (_, message) result, s'')"
  using assms by (simp add: bind_cmd_def ret_def)

lemma deliver_each_replay:
  assumes "dependable reg"
  shows "deliver_each reg rs s = (Ok (map ob_id rs, []) :: (_, message) result, replay reg rs s)"
proof -
  have "\<exists>s'. deliver_each reg rs s = (Ok (map ob_id rs, []) :: (_, message) result, s')"
  proof (induction rs arbitrary: s)
    case (Cons r rs)
    obtain s' where a: "attempt (handlers_of reg (ob_topic r)) (ob_payload r) s = (Ok True :: (bool, message) result, s')"
      using attempt_dependable [OF assms] .
    show ?case using Cons.IH [of s'] deliver_each_Cons [OF a] by fastforce
  qed (simp add: ret_def)
  then show ?thesis by (auto simp: replay_def)
qed

lemma replay_append:
  assumes "dependable reg"
  shows "replay reg (rs @ qs) s = replay reg qs (replay reg rs s)"
proof (induction rs arbitrary: s)
  case (Cons r rs)
  obtain s' where a: "attempt (handlers_of reg (ob_topic r)) (ob_payload r) s = (Ok True :: (bool, message) result, s')"
    using attempt_dependable [OF assms] .
  have "replay reg (r # cs) s = replay reg cs s'" for cs
    using deliver_each_Cons [OF a deliver_each_replay [OF assms]] by (simp only: replay_def snd_conv)
  then show ?case using Cons by simp
qed (simp add: replay_def ret_def)

lemma deliver_batch_clear:
  fixes s :: "('j, 's) backend"
  assumes "dependable reg"
  defines "C \<equiv> take batch_size (backlog s)"
  shows "deliver_batch reg (\<lambda>_. None) (\<lambda>_. False) now s = (Ok (length C),
    s\<lparr>bk_rest := replay reg C (bk_rest s), bk_rows := map (settle_row now (map ob_id C) []) (bk_rows s)\<rparr>)"
proof -
  have c: "claimed (\<lambda>_. False) (bk_rows s) = C" by (simp add: claimed_def backlog_def C_def)
  have q: "sql (\<lambda>_. None) step u = (Ok (), u)" for step and u :: "('j, 's) backend"
    by (simp add: sql_def lift_def)
  show ?thesis
    by (cases "C = []") (simp_all add: deliver_batch_def seq_cmd_def bind_cmd_def reads_def q c in_rest_def
      deliver_each_replay [OF assms(1)] ret_def writes_def)
qed

lemma backlog_after:
  assumes "distinct (map ob_id (bk_rows s))"
    and "bk_rows t = map (settle_row now (map ob_id (take n (backlog s))) []) (bk_rows s)"
  shows "backlog t = drop n (backlog s)"
proof -
  let ?d = "set (map ob_id (take n (backlog s)))"
  have same: "map (settle_row now (map ob_id (take n (backlog s))) []) (filter (\<lambda>r. ob_id r \<notin> ?d) rs)
      = filter (\<lambda>r. ob_id r \<notin> ?d) rs" for rs
    by (rule map_idI) (auto simp: settle_row_def Let_def)
  have "filter pending (bk_rows t)
      = map (settle_row now (map ob_id (take n (backlog s))) [])
          (filter (\<lambda>r. ob_id r \<notin> ?d) (filter pending (bk_rows s)))"
    unfolding assms(2) filter_map o_def pending_settle_row by (simp add: conj_commute)
  then have "filter pending (bk_rows t) = filter (\<lambda>r. ob_id r \<notin> ?d) (filter pending (bk_rows s))"
    by (simp only: same)
  then have "backlog t = filter (\<lambda>r. ob_id r \<notin> ?d) (backlog s)"
    by (simp only: backlog_def filter_sort)
  also have "\<dots> = filter (\<lambda>r. ob_id r \<notin> ?d) (take n (backlog s)) @ filter (\<lambda>r. ob_id r \<notin> ?d) (drop n (backlog s))"
    by (metis append_take_drop_id filter_append)
  also have "filter (\<lambda>r. ob_id r \<notin> ?d) (take n (backlog s)) = []" by (simp add: filter_empty_conv)
  also have "filter (\<lambda>r. ob_id r \<notin> ?d) (drop n (backlog s)) = drop n (backlog s)"
  proof -
    have "distinct (map ob_id (backlog s))"
      using assms(1) by (simp add: backlog_def distinct_map_filter distinct_map inj_on_def)
    then have "distinct (map ob_id (take n (backlog s)) @ map ob_id (drop n (backlog s)))"
      by (metis append_take_drop_id map_append)
    then show ?thesis by (auto simp: filter_id_conv)
  qed
  finally show ?thesis by simp
qed

lemma drain_from:
  assumes "dependable reg" "undisturbed ps" "distinct (map ob_id (bk_rows s))"
  shows "\<exists>t. drain reg ps n s = Some (Ok (), t) \<and> backlog t = []
    \<and> bk_rest t = replay reg (backlog s) (bk_rest s)
    \<and> map (ob_processed_at_update (\<lambda>_. None)) (bk_rows t) = map (ob_processed_at_update (\<lambda>_. None)) (bk_rows s)"
  using assms(3)
proof (induction "length (backlog s)" arbitrary: n s rule: less_induct)
  case less
  let ?C = "take batch_size (backlog s)"
  let ?t = "s\<lparr>bk_rest := replay reg ?C (bk_rest s),
    bk_rows := map (settle_row (ps_now ps n) (map ob_id ?C) []) (bk_rows s)\<rparr>"
  have s: "arrive ps n s = s" "ps_fault ps n = (\<lambda>_. None)" "ps_locked ps n = (\<lambda>_. False)"
    using assms(2) by (simp_all add: undisturbed_def arrive_def)
  have b: "deliver_batch reg (ps_fault ps n) (ps_locked ps n) (ps_now ps n) (arrive ps n s) = (Ok (length ?C), ?t)"
    unfolding s by (rule deliver_batch_clear [OF assms(1)])
  have left: "backlog ?t = drop batch_size (backlog s)"
    by (rule backlog_after [OF less.prems, where now = "ps_now ps n"]) simp
  have same: "map (ob_processed_at_update (\<lambda>_. None)) (bk_rows ?t) = map (ob_processed_at_update (\<lambda>_. None)) (bk_rows s)"
    by (simp add: settle_row_def Let_def)
  show ?case
  proof (cases "length ?C = batch_size")
    case True
    then have big: "batch_size \<le> length (backlog s)" by simp
    have lt: "length (backlog ?t) < length (backlog s)" unfolding left using big by (simp add: batch_size_def)
    have "distinct (map ob_id (bk_rows ?t))" using less.prems by (simp add: o_def)
    from less.hyps [OF lt this, of "n + 1"] obtain u where
      u: "drain reg ps (n + 1) ?t = Some (Ok (), u)" "backlog u = []"
        "bk_rest u = replay reg (backlog ?t) (bk_rest ?t)"
        "map (ob_processed_at_update (\<lambda>_. None)) (bk_rows u) = map (ob_processed_at_update (\<lambda>_. None)) (bk_rows ?t)"
      by blast
    have "bk_rest u = replay reg (backlog s) (bk_rest s)"
      using replay_append [OF assms(1), of ?C "drop batch_size (backlog s)"] u(3) left by simp
    moreover have "drain reg ps n s = Some (Ok (), u)"
      by (subst drain.simps) (simp only: b prod.case result.case True simp_thms if_True u(1))
    ultimately show ?thesis using u same by metis
  next
    case False
    then have "length (backlog s) < batch_size" by (simp add: min_def split: if_splits)
    then have "?C = backlog s" "backlog ?t = []" using left by simp_all
    moreover have "drain reg ps n s = Some (Ok (), ?t)"
      by (subst drain.simps) (simp only: b prod.case result.case False if_False)
    moreover have "bk_rest ?t = replay reg ?C (bk_rest s)" by simp
    ultimately show ?thesis using same by metis
  qed
qed

text \<open>C28: Draining with handlers that never ask for redelivery, while nothing else touches the table,
  ends with every event marked processed; the handlers of each pending event have run exactly once,
  event after event in the order of their identifiers, across however many batches; and nothing
  else of a row changes.\<close>

theorem drain_exact:
  assumes "dependable reg" "undisturbed ps" "distinct (map ob_id (bk_rows s))"
  shows "\<exists>t. drain reg ps 0 s = Some (Ok (), t) \<and> (\<forall>r\<in>set (bk_rows t). \<not> pending r)
    \<and> bk_rest t = replay reg (sort_key ob_id (filter pending (bk_rows s))) (bk_rest s)
    \<and> map (ob_processed_at_update (\<lambda>_. None)) (bk_rows t) = map (ob_processed_at_update (\<lambda>_. None)) (bk_rows s)"
proof -
  obtain t where t: "drain reg ps 0 s = Some (Ok (), t)" "backlog t = []"
    "bk_rest t = replay reg (backlog s) (bk_rest s)"
    "map (ob_processed_at_update (\<lambda>_. None)) (bk_rows t) = map (ob_processed_at_update (\<lambda>_. None)) (bk_rows s)"
    using drain_from [OF assms] by blast
  have "set (backlog t) = {}" by (simp only: t(2) list.set)
  then have "\<forall>r\<in>set (bk_rows t). \<not> pending r" by (auto simp: backlog_def)
  then show ?thesis using t by (auto simp: backlog_def)
qed

section \<open>Events that keep failing\<close>

text \<open>The claimed events all fail, whatever state their handlers find.\<close>

definition stuck_head :: "('s, 'j) registry \<Rightarrow> 'j outbox_row list \<Rightarrow> bool" where
  "stuck_head reg rows \<longleftrightarrow> (\<forall>r\<in>set (claimed (\<lambda>_. False) rows). \<forall>s.
     fst (attempt (handlers_of reg (ob_topic r)) (ob_payload r) s :: (bool, message) result \<times> 's) = Ok False)"

text \<open>Wake-ups of the processor: each drains.\<close>

fun wakeups :: "('s, 'j) registry \<Rightarrow> 'j passes list \<Rightarrow> ('j, 's) backend \<Rightarrow> ('j, 's) backend" where
  "wakeups reg [] s = s"
| "wakeups reg (ps # pss) s = (case drain reg ps 0 s of
     None \<Rightarrow> s | Some (_, t) \<Rightarrow> wakeups reg pss t)"

abbreviation unattempted :: "'j outbox_row \<Rightarrow> 'j outbox_row" where
  "unattempted \<equiv> ob_attempts_update (\<lambda>_. 0)"

lemma sort_key_map: "(\<And>x. k (g x) = k x) \<Longrightarrow> sort_key k (map g xs) = map g (sort_key k xs)"
proof (induction xs)
  case (Cons x xs)
  have "insort_key k (g x) (map g ys) = map g (insort_key k x ys)" for ys
    using Cons.prems by (induction ys) auto
  then show ?case using Cons by simp
qed simp

lemma claimed_map:
  fixes g :: "'j outbox_row \<Rightarrow> 'j outbox_row"
  assumes "\<And>r. ob_id (g r) = ob_id r" "\<And>r. pending (g r) = pending r"
  shows "claimed locked (map g rows) = map g (claimed locked rows)"
  using assms sort_key_map [of ob_id g] by (simp add: claimed_def filter_map o_def take_map)

lemma claimed_unattempted:
  assumes "map unattempted rows = map unattempted rows'"
  shows "map unattempted (claimed locked rows) = map unattempted (claimed locked rows')"
  using claimed_map [of unattempted locked rows] claimed_map [of unattempted locked rows'] assms
  by (simp add: pending_def)

lemma stuck_head_unattempted:
  assumes "map unattempted rows = map unattempted rows'" "stuck_head reg rows"
  shows "stuck_head reg rows'"
  unfolding stuck_head_def
proof (intro ballI allI)
  fix r s assume "r \<in> set (claimed (\<lambda>_. False) rows')"
  then have "unattempted r \<in> unattempted ` set (claimed (\<lambda>_. False) rows)"
    using claimed_unattempted [OF assms(1), of "\<lambda>_. False"] by (metis image_eqI list.set_map)
  then obtain q where q: "q \<in> set (claimed (\<lambda>_. False) rows)" "unattempted r = unattempted q" by auto
  then have "ob_topic r = ob_topic q" "ob_payload r = ob_payload q"
    by (metis outbox_row.select_convs(2,3) outbox_row.surjective outbox_row.update_convs(4))+
  then show "fst (attempt (handlers_of reg (ob_topic r)) (ob_payload r) s :: (bool, message) result \<times> _) = Ok False"
    using q assms(2) by (simp add: stuck_head_def)
qed

lemma deliver_each_stuck:
  assumes "\<forall>r\<in>set rs. \<forall>s.
     fst (attempt (handlers_of reg (ob_topic r)) (ob_payload r) s :: (bool, message) result \<times> 's) = Ok False"
  shows "fst (deliver_each reg rs (s::'s) :: (_, message) result \<times> 's) = Ok ([], map ob_id rs)"
  using assms
proof (induction rs arbitrary: s)
  case (Cons r rs)
  then obtain s' where a: "attempt (handlers_of reg (ob_topic r)) (ob_payload r) s = (Ok False :: (bool, message) result, s')"
    by (metis list.set_intros(1) prod.collapse)
  obtain s'' where "deliver_each reg rs s' = (Ok ([], map ob_id rs) :: (_, message) result, s'')"
    using Cons by (metis list.set_intros(2) prod.collapse)
  then show ?case by (simp add: bind_cmd_def a ret_def)
qed (simp add: ret_def)

lemma stuck_pass:
  fixes s :: "('j, 's) backend"
  assumes "stuck_head reg (bk_rows s)" "undisturbed ps"
  shows "\<exists>t. drain reg ps n s = Some (Ok (), t) \<and> map unattempted (bk_rows t) = map unattempted (bk_rows s)"
proof -
  let ?C = "claimed (\<lambda>_. False) (bk_rows s)"
  obtain rest where e: "deliver_each reg ?C (bk_rest s) = (Ok ([], map ob_id ?C) :: (_, message) result, rest)"
    using deliver_each_stuck [of ?C reg "bk_rest s"] assms(1) by (metis prod.collapse stuck_head_def)
  have u: "arrive ps n s = s" "ps_fault ps n = (\<lambda>_. None)" "ps_locked ps n = (\<lambda>_. False)"
    using assms(2) by (simp_all add: undisturbed_def arrive_def)
  have q: "sql (\<lambda>_. None) step v = (Ok (), v)" for step and v :: "('j, 's) backend"
    by (simp add: sql_def lift_def)
  let ?t = "s\<lparr>bk_rest := rest, bk_rows := map (settle_row (ps_now ps n) [] (map ob_id ?C)) (bk_rows s)\<rparr>"
  have "rest = bk_rest s" if "?C = []" using e that by (simp add: ret_def)
  then have "deliver_batch reg (\<lambda>_. None) (\<lambda>_. False) (ps_now ps n) s = (Ok 0, ?t)"
    by (cases "?C = []") (simp_all add: deliver_batch_def seq_cmd_def bind_cmd_def reads_def q in_rest_def
      e ret_def writes_def)
  then have "drain reg ps n s = Some (Ok (), ?t)"
    by (subst drain.simps) (simp add: u batch_size_def)
  moreover have "map unattempted (bk_rows ?t) = map unattempted (bk_rows s)"
    by (simp add: settle_row_def Let_def)
  ultimately show ?thesis by blast
qed

text \<open>C30: A hundred events that keep failing at the head of the table stop all delivery: every
  wake-up claims those and no other, so no event is ever processed, however healthy the handlers
  of the ones after them are; only attempt counters move.\<close>

theorem stuck_head_starves:
  assumes "stuck_head reg (bk_rows s)" "\<forall>ps\<in>set pss. undisturbed ps"
  shows "map unattempted (bk_rows (wakeups reg pss s)) = map unattempted (bk_rows s)"
  using assms
proof (induction pss arbitrary: s)
  case (Cons ps pss)
  then obtain t where t: "drain reg ps 0 s = Some (Ok (), t)"
    "map unattempted (bk_rows t) = map unattempted (bk_rows s)"
    using stuck_pass [of reg s ps 0] by auto
  then have "stuck_head reg (bk_rows t)" using Cons.prems stuck_head_unattempted by metis
  then show ?case using Cons t by simp
qed simp

section \<open>Examples\<close>

text \<open>Events as their own encoding, and handlers that log what they see into a list.\<close>

definition plain_codec :: "event event_codec" where
  "plain_codec = \<lparr>to_value = Ok, from_value = (\<lambda>t e. if topic e = t then Ok e else Err (msg ''wrong type''))\<rparr>"

lemma plain_codec_ok: "event_codec_ok plain_codec"
  by (simp add: event_codec_ok_def plain_codec_def)

definition recording :: "event list handler" where
  "recording e s = (Ok (), s @ [e])"

definition refusing :: "event list handler" where
  "refusing e s = (Err (msg ''broker down''), s)"

definition sample_registry :: "(event list, event) registry" where
  "sample_registry = register_handler plain_codec (lit ''bet.placed'') recording []"

definition sample_rows :: "event outbox_row list" where
  "sample_rows = [outbox_row_new 2 (lit ''bet.placed'') (BetPlaced (BetId 2)),
     outbox_row_new 1 (lit ''bet.placed'') (BetPlaced (BetId 1))]"

definition sample_backend :: "(event, event list) backend" where
  "sample_backend = \<lparr>bk_serial = 3, bk_rows = sample_rows, bk_rest = []\<rparr>"

definition clear_passes :: "event passes" where
  "clear_passes = \<lparr>ps_fault = (\<lambda>_ _. None), ps_locked = (\<lambda>_ _. False), ps_now = (\<lambda>_. 7), ps_arrivals = (\<lambda>_. [])\<rparr>"

lemma clear_undisturbed: "undisturbed clear_passes"
  by (simp add: undisturbed_def clear_passes_def)

lemma sample_dependable: "dependable sample_registry"
  by (auto simp: dependable_def sample_registry_def handlers_of_register typed_handle_def plain_codec_def
      recording_def bind_cmd_def lift_def conv_def)

theorem drain_terminates_witness:
  "\<exists>r. drain sample_registry (clear_passes\<lparr>ps_fault := (\<lambda>n step. if n = 0 then Some [] else None),
     ps_arrivals := (\<lambda>n. if n = 0 then sample_rows else [])\<rparr>) 0 sample_backend = Some r"
  by (rule drain_terminates [of 1]) simp

theorem drain_exact_witness:
  "\<exists>t. drain sample_registry clear_passes 0 sample_backend = Some (Ok (), t)
     \<and> (\<forall>r\<in>set (bk_rows t). \<not> pending r) \<and> bk_rest t = [BetPlaced (BetId 1), BetPlaced (BetId 2)]"
proof -
  have "replay sample_registry (sort_key ob_id (filter pending (bk_rows sample_backend))) (bk_rest sample_backend)
      = [BetPlaced (BetId 1), BetPlaced (BetId 2)]"
    by code_simp
  moreover have "distinct (map ob_id (bk_rows sample_backend))"
    by (simp add: sample_backend_def sample_rows_def outbox_row_new_def)
  ultimately show ?thesis
    using drain_exact [OF sample_dependable clear_undisturbed, of sample_backend] by auto
qed

text \<open>A hundred price events nobody can broadcast, and a bet after them.\<close>

definition blocked_registry :: "(event list, event) registry" where
  "blocked_registry = register_handler plain_codec (lit ''market.prices_updated'') refusing sample_registry"

definition blocked_rows :: "event outbox_row list" where
  "blocked_rows = map (\<lambda>n. outbox_row_new (int n) (lit ''market.prices_updated'') (MarketPricesUpdated (MarketId 1))) [0..<100]
     @ [outbox_row_new 100 (lit ''bet.placed'') (BetPlaced (BetId 1))]"

lemma blocked_claimed: "claimed (\<lambda>_. False) blocked_rows = take 100 blocked_rows"
proof -
  have ids: "map ob_id blocked_rows = map int [0..<101]"
    by (simp add: blocked_rows_def outbox_row_new_def o_def upt_rec)
  have "sorted (map int [0..<101])" by (simp add: sorted_iff_nth_mono)
  then have "sort_key ob_id blocked_rows = blocked_rows" unfolding ids [symmetric] by (rule sort_key_id_if_sorted)
  moreover have "filter pending blocked_rows = blocked_rows"
    by (auto simp: filter_id_conv blocked_rows_def outbox_row_new_def pending_def)
  ultimately show ?thesis by (simp add: claimed_def batch_size_def)
qed

lemma blocked_head: "stuck_head blocked_registry blocked_rows"
proof -
  have "lit ''market.prices_updated'' \<noteq> lit ''bet.placed''" by (simp add: lit_def)
  then have "fst (attempt (handlers_of blocked_registry (lit ''market.prices_updated'')) (MarketPricesUpdated m) s) = Ok False"
    for m s
    by (simp add: blocked_registry_def sample_registry_def handlers_of_register typed_handle_def plain_codec_def
      refusing_def bind_cmd_def lift_def conv_def ret_def)
  then show ?thesis unfolding stuck_head_def blocked_claimed by (auto simp: blocked_rows_def outbox_row_new_def)
qed

theorem stuck_head_starves_witness:
  "ob_processed_at (bk_rows (wakeups blocked_registry (replicate 12 clear_passes)
     \<lparr>bk_serial = 101, bk_rows = blocked_rows, bk_rest = []\<rparr>) ! 100) = None"
proof -
  let ?s = "\<lparr>bk_serial = 101, bk_rows = blocked_rows, bk_rest = []\<rparr> :: (event, event list) backend"
  let ?t = "wakeups blocked_registry (replicate 12 clear_passes) ?s"
  have "map unattempted (bk_rows ?t) = map unattempted (bk_rows ?s)"
    by (rule stuck_head_starves) (simp_all add: blocked_head clear_undisturbed)
  moreover have "map ob_processed_at rs = map ob_processed_at (map unattempted rs)" for rs :: "event outbox_row list"
    by simp
  ultimately have eq: "map ob_processed_at (bk_rows ?t) = map ob_processed_at blocked_rows"
    by (metis backend.select_convs(2))
  have len: "length blocked_rows = 101" by (simp add: blocked_rows_def del: upt_rec_numeral)
  have "ob_processed_at (blocked_rows ! 100) = None"
    by (simp add: blocked_rows_def nth_append outbox_row_new_def del: upt_rec_numeral)
  moreover have "map ob_processed_at (bk_rows ?t) ! 100 = map ob_processed_at blocked_rows ! 100" by (simp only: eq)
  moreover have "length (bk_rows ?t) = 101" using arg_cong [OF eq, of length] len by simp
  ultimately show ?thesis using len by simp
qed

end
