(* ===== verification/Processors.thy ===== *)
theory Processors
  imports Outbox
begin

text \<open>
  Several outbox processors over one table (\<open>events/outbox.rs\<close>: "several instances coordinate
  safely"): the steps of publishing transactions, of passes that claim, handle and commit, of
  crashes and of pruning, in any interleaving; and that no published event is lost.
\<close>

section \<open>The steps\<close>

text \<open>A pass under way: the events it still has to handle, and what became of the others.  Its
  rows are locked until it commits or its connection goes.\<close>

record 'j batch =
  bt_todo :: "'j outbox_row list"
  bt_delivered :: "int list"
  bt_failed :: "int list"

definition batch_ids :: "'j batch \<Rightarrow> int list" where
  "batch_ids b = map ob_id (bt_todo b) @ bt_delivered b @ bt_failed b"

text \<open>Two ghosts: the identifiers ever committed, and the ones whose handlers all accepted.\<close>

record ('j, 's) pipeline = "('j, 's) backend" +
  pl_work :: "nat \<Rightarrow> 'j batch option"
  pl_published :: "int set"
  pl_acked :: "int set"

definition held :: "('j, 's) pipeline \<Rightarrow> int \<Rightarrow> bool" where
  "held s i \<longleftrightarrow> (\<exists>p b. pl_work s p = Some b \<and> i \<in> set (batch_ids b))"

definition handled :: "'j batch \<Rightarrow> bool \<Rightarrow> 'j batch" where
  "handled b ok = (case bt_todo b of [] \<Rightarrow> b | r # rs \<Rightarrow>
     if ok then b\<lparr>bt_todo := rs, bt_delivered := bt_delivered b @ [ob_id r]\<rparr>
     else b\<lparr>bt_todo := rs, bt_failed := bt_failed b @ [ob_id r]\<rparr>)"

text \<open>An identifier is never given twice, but transactions may commit theirs out of order.  A crash
  leaves whatever the handler had done, releases the locks and marks nothing.\<close>

inductive pl_step :: "'j event_codec \<Rightarrow> ('s, 'j) registry \<Rightarrow> ('j, 's) pipeline \<Rightarrow> ('j, 's) pipeline \<Rightarrow> bool"
  for codec reg where
  pl_publish: "to_value codec e = Ok j \<Longrightarrow> i \<notin> pl_published s \<Longrightarrow>
     pl_step codec reg s (s\<lparr>bk_rows := bk_rows s @ [outbox_row_new i (topic e) j],
       pl_published := insert i (pl_published s)\<rparr>)"
| pl_claim: "pl_work s p = None \<Longrightarrow>
     pl_step codec reg s (s\<lparr>pl_work := (pl_work s)(p \<mapsto>
       \<lparr>bt_todo = claimed (held s) (bk_rows s), bt_delivered = [], bt_failed = []\<rparr>)\<rparr>)"
| pl_handle: "pl_work s p = Some b \<Longrightarrow> bt_todo b = r # rs \<Longrightarrow>
     attempt (handlers_of reg (ob_topic r)) (ob_payload r) (bk_rest s) = (Ok ok :: (bool, message) result, rest) \<Longrightarrow>
     pl_step codec reg s (s\<lparr>bk_rest := rest, pl_work := (pl_work s)(p \<mapsto> handled b ok),
       pl_acked := (if ok then insert (ob_id r) (pl_acked s) else pl_acked s)\<rparr>)"
| pl_commit: "pl_work s p = Some b \<Longrightarrow> bt_todo b = [] \<Longrightarrow>
     pl_step codec reg s (s\<lparr>bk_rows := map (settle_row now (bt_delivered b) (bt_failed b)) (bk_rows s),
       pl_work := (pl_work s)(p := None)\<rparr>)"
| pl_crash: "pl_work s p = Some b \<Longrightarrow>
     pl_step codec reg s (s\<lparr>bk_rest := rest, pl_work := (pl_work s)(p := None)\<rparr>)"
| pl_other: "pl_step codec reg s (s\<lparr>bk_rest := rest\<rparr>)"
| pl_prune: "pl_step codec reg s (s\<lparr>bk_rows := bk_rows (prune day now (backend.truncate s))\<rparr>)"

definition pl_init :: "('j, 's) pipeline \<Rightarrow> bool" where
  "pl_init s \<longleftrightarrow> bk_rows s = [] \<and> pl_work s = (\<lambda>_. None) \<and> pl_published s = {} \<and> pl_acked s = {}"

inductive pl_reachable :: "'j event_codec \<Rightarrow> ('s, 'j) registry \<Rightarrow> ('j, 's) pipeline \<Rightarrow> bool"
  for codec reg where
  pl_start: "pl_init s \<Longrightarrow> pl_reachable codec reg s"
| pl_next: "pl_reachable codec reg s \<Longrightarrow> pl_step codec reg s t \<Longrightarrow> pl_reachable codec reg t"

section \<open>The invariant\<close>

definition work_ok :: "('j, 's) pipeline \<Rightarrow> 'j batch \<Rightarrow> bool" where
  "work_ok s b \<longleftrightarrow> distinct (batch_ids b) \<and> set (bt_todo b) \<subseteq> set (bk_rows s)
     \<and> (\<forall>r\<in>set (bk_rows s). ob_id r \<in> set (batch_ids b) \<longrightarrow> pending r) \<and> set (bt_delivered b) \<subseteq> pl_acked s"

definition claims_disjoint :: "('j, 's) pipeline \<Rightarrow> bool" where
  "claims_disjoint s \<longleftrightarrow> (\<forall>p q b c. p \<noteq> q \<longrightarrow> pl_work s p = Some b \<longrightarrow> pl_work s q = Some c \<longrightarrow>
     set (batch_ids b) \<inter> set (batch_ids c) = {})"

definition none_lost :: "('j, 's) pipeline \<Rightarrow> bool" where
  "none_lost s \<longleftrightarrow> (\<forall>i\<in>pl_published s. i \<in> pl_acked s \<or> (\<exists>r\<in>set (bk_rows s). ob_id r = i \<and> pending r))"

definition pl_inv :: "('j, 's) pipeline \<Rightarrow> bool" where
  "pl_inv s \<longleftrightarrow> distinct (map ob_id (bk_rows s)) \<and> ob_id ` set (bk_rows s) \<subseteq> pl_published s
     \<and> (\<forall>p b. pl_work s p = Some b \<longrightarrow> work_ok s b) \<and> claims_disjoint s
     \<and> (\<forall>r\<in>set (bk_rows s). \<not> pending r \<longrightarrow> ob_id r \<in> pl_acked s) \<and> none_lost s"

lemma pl_invI:
  assumes "distinct (map ob_id (bk_rows s))" "ob_id ` set (bk_rows s) \<subseteq> pl_published s"
    and "\<And>p b. pl_work s p = Some b \<Longrightarrow> work_ok s b" and "claims_disjoint s"
    and "\<And>r. r \<in> set (bk_rows s) \<Longrightarrow> \<not> pending r \<Longrightarrow> ob_id r \<in> pl_acked s" and "none_lost s"
  shows "pl_inv s"
  using assms by (simp add: pl_inv_def)

lemma pl_invD:
  assumes "pl_inv s"
  shows "distinct (map ob_id (bk_rows s))" and "ob_id ` set (bk_rows s) \<subseteq> pl_published s"
    and "pl_work s p = Some b \<Longrightarrow> work_ok s b" and "claims_disjoint s"
    and "r \<in> set (bk_rows s) \<Longrightarrow> \<not> pending r \<Longrightarrow> ob_id r \<in> pl_acked s" and "none_lost s"
  using assms by (simp_all add: pl_inv_def)

lemma claims_disjointD:
  "claims_disjoint s \<Longrightarrow> pl_work s p = Some b \<Longrightarrow> pl_work s q = Some c \<Longrightarrow> p \<noteq> q \<Longrightarrow>
     set (batch_ids b) \<inter> set (batch_ids c) = {}"
  by (simp add: claims_disjoint_def)

lemma batch_ids_handled:
  assumes "bt_todo b = r # rs"
  shows "set (batch_ids (handled b ok)) = set (batch_ids b)"
    and "distinct (batch_ids (handled b ok)) \<longleftrightarrow> distinct (batch_ids b)"
  using assms by (auto simp: batch_ids_def handled_def)

lemma work_ok_mono:
  assumes "work_ok s b" "set (bk_rows s) \<subseteq> set (bk_rows t)" "pl_acked s \<subseteq> pl_acked t"
    and "\<And>r. r \<in> set (bk_rows t) \<Longrightarrow> r \<notin> set (bk_rows s) \<Longrightarrow> pending r"
  shows "work_ok t b"
proof -
  have "pending r" if "r \<in> set (bk_rows t)" "ob_id r \<in> set (batch_ids b)" for r
    using that assms(1,4) by (cases "r \<in> set (bk_rows s)") (simp_all add: work_ok_def)
  then show ?thesis using assms(1-3) by (simp add: work_ok_def) blast
qed

lemma inv_publish:
  assumes "pl_inv s" "i \<notin> pl_published s"
  shows "pl_inv (s\<lparr>bk_rows := bk_rows s @ [outbox_row_new i t j], pl_published := insert i (pl_published s)\<rparr>)"
    (is "pl_inv ?t")
proof (rule pl_invI)
  note inv = pl_invD [OF assms(1)]
  have p: "pending (outbox_row_new i t j)" "ob_id (outbox_row_new i t j) = i"
    by (simp_all add: outbox_row_new_def pending_def)
  have "i \<notin> ob_id ` set (bk_rows s)" using inv(2) assms(2) by blast
  then show "distinct (map ob_id (bk_rows ?t))" using inv(1) p by simp
  show "ob_id ` set (bk_rows ?t) \<subseteq> pl_published ?t" using inv(2) p by auto
  show "work_ok ?t b" if "pl_work ?t q = Some b" for q b
  proof (rule work_ok_mono)
    show "work_ok s b" using inv(3) that by simp
  qed (use p in auto)
  show "claims_disjoint ?t" using inv(4) by (simp add: claims_disjoint_def)
  show "ob_id r \<in> pl_acked ?t" if "r \<in> set (bk_rows ?t)" "\<not> pending r" for r
    using that inv(5) p by auto
  show "none_lost ?t" using inv(6) p by (auto simp: none_lost_def)
qed

lemma claimed_distinct:
  assumes "distinct (map ob_id rows)"
  shows "distinct (map ob_id (claimed locked rows))"
proof -
  have "distinct (map ob_id (sort_key ob_id (filter (\<lambda>r. pending r \<and> \<not> locked (ob_id r)) rows)))"
    using assms by (simp add: distinct_map inj_on_def)
  then show ?thesis by (simp add: claimed_def take_map [symmetric])
qed

lemma inv_claim:
  assumes "pl_inv s" "pl_work s p = None"
  shows "pl_inv (s\<lparr>pl_work := (pl_work s)(p \<mapsto>
    \<lparr>bt_todo = claimed (held s) (bk_rows s), bt_delivered = [], bt_failed = []\<rparr>)\<rparr>)"
    (is "pl_inv (s\<lparr>pl_work := (pl_work s)(p \<mapsto> ?b)\<rparr>)")
proof -
  let ?t = "s\<lparr>pl_work := (pl_work s)(p \<mapsto> ?b)\<rparr>"
  note inv = pl_invD [OF assms(1)]
  have ids: "set (batch_ids ?b) = ob_id ` set (claimed (held s) (bk_rows s))" by (simp add: batch_ids_def)
  have cl: "r \<in> set (bk_rows s)" "pending r" "\<not> held s (ob_id r)" if "r \<in> set (claimed (held s) (bk_rows s))" for r
    using claimed_pending [OF that] by simp_all
  have pend: "pending r" if r: "r \<in> set (bk_rows s)" "ob_id r \<in> set (batch_ids ?b)" for r
  proof -
    obtain q where q: "q \<in> set (claimed (held s) (bk_rows s))" "ob_id r = ob_id q" using r(2) ids by auto
    then have "r = q" using inv(1) r(1) cl(1) [OF q(1)] by (simp add: distinct_map inj_on_def)
    then show ?thesis using cl(2) q(1) by simp
  qed
  have "distinct (batch_ids ?b)" using claimed_distinct [OF inv(1), of "held s"] by (simp add: batch_ids_def)
  then have b: "work_ok s ?b" using pend cl(1) by (auto simp: work_ok_def)
  have free: "set (batch_ids ?b) \<inter> set (batch_ids c) = {}" if "pl_work s q = Some c" for q c
    using that cl(3) ids by (auto simp: held_def)
  have work: "work_ok (s\<lparr>pl_work := w\<rparr>) c \<longleftrightarrow> work_ok s c" for w c by (simp add: work_ok_def)
  show ?thesis
  proof (rule pl_invI)
    show "work_ok ?t c" if "pl_work ?t q = Some c" for q c
      using that b inv(3) by (cases "q = p") (simp_all add: work)
    show "claims_disjoint ?t"
      unfolding claims_disjoint_def
    proof (intro allI impI)
      fix q q' c c' assume "q \<noteq> q'" "pl_work ?t q = Some c" "pl_work ?t q' = Some c'"
      then show "set (batch_ids c) \<inter> set (batch_ids c') = {}"
        using free [of q c] free [of q' c'] claims_disjointD [OF inv(4), of q c q' c']
        by (cases "q = p"; cases "q' = p") (simp_all add: Int_commute)
    qed
    show "none_lost ?t" using inv(6) by (simp add: none_lost_def)
  qed (use inv in simp_all)
qed

lemma inv_handle:
  assumes "pl_inv s" "pl_work s p = Some b" "bt_todo b = r # rs"
  shows "pl_inv (s\<lparr>bk_rest := rest, pl_work := (pl_work s)(p \<mapsto> handled b ok),
    pl_acked := (if ok then insert (ob_id r) (pl_acked s) else pl_acked s)\<rparr>)" (is "pl_inv ?t")
proof -
  note inv = pl_invD [OF assms(1)]
  have b: "work_ok s b" using inv(3) assms(2) by simp
  have other: "work_ok ?t c" if "work_ok s c" for c using that by (auto simp: work_ok_def)
  have "set (bt_todo (handled b ok)) \<subseteq> set (bt_todo b)"
    "set (bt_delivered (handled b ok)) \<subseteq> set (bt_delivered b) \<union> (if ok then {ob_id r} else {})"
    using assms(3) by (auto simp: handled_def)
  then have mine: "work_ok ?t (handled b ok)"
    using b batch_ids_handled [OF assms(3), of ok] unfolding work_ok_def by auto
  show ?thesis
  proof (rule pl_invI)
    show "work_ok ?t c" if "pl_work ?t q = Some c" for q c
      using that mine inv(3) other by (cases "q = p") simp_all
    show "claims_disjoint ?t"
      unfolding claims_disjoint_def
    proof (intro allI impI)
      fix q q' c c' assume "q \<noteq> q'" "pl_work ?t q = Some c" "pl_work ?t q' = Some c'"
      then show "set (batch_ids c) \<inter> set (batch_ids c') = {}"
        using claims_disjointD [OF inv(4), of q _ q'] assms(2) batch_ids_handled(1) [OF assms(3), of ok]
        by (cases "q = p"; cases "q' = p") auto
    qed
    show "none_lost ?t" using inv(6) by (auto simp: none_lost_def)
  qed (use inv in auto)
qed

lemma inv_release:
  assumes "pl_inv s"
  shows "pl_inv (s\<lparr>bk_rest := rest, pl_work := (pl_work s)(p := None)\<rparr>)" (is "pl_inv ?t")
proof (rule pl_invI)
  note inv = pl_invD [OF assms]
  have work: "work_ok ?t c = work_ok s c" for c by (simp add: work_ok_def)
  show "work_ok ?t c" if "pl_work ?t q = Some c" for q c
    using that inv(3) work by (cases "q = p") simp_all
  show "claims_disjoint ?t" using inv(4) by (simp add: claims_disjoint_def)
  show "none_lost ?t" using inv(6) by (simp add: none_lost_def)
qed (use pl_invD [OF assms] in simp_all)

lemma inv_other: "pl_inv s \<Longrightarrow> pl_inv (s\<lparr>bk_rest := rest\<rparr>)"
  by (simp add: pl_inv_def work_ok_def claims_disjoint_def none_lost_def)

lemma inv_commit:
  assumes "pl_inv s" "pl_work s p = Some b"
  shows "pl_inv (s\<lparr>bk_rows := map (settle_row now (bt_delivered b) (bt_failed b)) (bk_rows s),
    pl_work := (pl_work s)(p := None)\<rparr>)" (is "pl_inv ?t")
proof (rule pl_invI)
  let ?f = "settle_row now (bt_delivered b) (bt_failed b)"
  note inv = pl_invD [OF assms(1)]
  have b: "work_ok s b" using inv(3) assms(2) by simp
  have keep: "?f r = r" if "ob_id r \<notin> set (batch_ids b)" for r
    using that by (simp add: settle_row_def Let_def batch_ids_def)
  show "work_ok ?t c" if c: "pl_work ?t q = Some c" for q c
  proof -
    have q: "q \<noteq> p" "pl_work s q = Some c" using c by (auto split: if_splits)
    have ok: "work_ok s c" using inv(3) q(2) by simp
    have apart: "set (batch_ids b) \<inter> set (batch_ids c) = {}"
      using claims_disjointD [OF inv(4) assms(2) q(2)] q(1) by simp
    have "r \<in> ?f ` set (bk_rows s)" if "r \<in> set (bt_todo c)" for r
    proof -
      have "ob_id r \<notin> set (batch_ids b)" using that apart by (auto simp: batch_ids_def)
      then show ?thesis using keep that ok by (metis image_eqI subset_iff work_ok_def)
    qed
    moreover have "pending (?f r)" if "r \<in> set (bk_rows s)" "ob_id r \<in> set (batch_ids c)" for r
    proof -
      have "ob_id r \<notin> set (batch_ids b)" using that apart by blast
      then show ?thesis using that ok unfolding keep [OF \<open>ob_id r \<notin> set (batch_ids b)\<close>] by (simp add: work_ok_def)
    qed
    ultimately show ?thesis using ok unfolding work_ok_def by auto
  qed
  show "ob_id r \<in> pl_acked ?t" if "r \<in> set (bk_rows ?t)" "\<not> pending r" for r
    using that inv(5) b by (auto simp: pending_settle_row work_ok_def)
  show "none_lost ?t"
    unfolding none_lost_def
  proof
    fix i assume "i \<in> pl_published ?t"
    then consider "i \<in> pl_acked s" | r where "r \<in> set (bk_rows s)" "ob_id r = i" "pending r"
      using inv(6) by (auto simp: none_lost_def)
    then show "i \<in> pl_acked ?t \<or> (\<exists>r\<in>set (bk_rows ?t). ob_id r = i \<and> pending r)"
      using b by cases (auto simp: work_ok_def pending_settle_row)
  qed
  show "claims_disjoint ?t" using inv(4) by (simp add: claims_disjoint_def)
qed (use pl_invD [OF assms(1)] in \<open>simp_all add: o_def image_image\<close>)

lemma inv_prune:
  fixes s :: "('j, 's) pipeline"
  assumes "pl_inv s"
  shows "pl_inv (s\<lparr>bk_rows := bk_rows (prune day now (backend.truncate s))\<rparr>)" (is "pl_inv ?t")
proof (rule pl_invI)
  note inv = pl_invD [OF assms]
  define P where "P r \<longleftrightarrow> \<not> (case ob_processed_at r of None \<Rightarrow> False | Some at \<Rightarrow> at < now - day)"
    for r :: "'j outbox_row"
  have rows: "bk_rows ?t = filter P (bk_rows s)" by (simp add: prune_def P_def [abs_def] backend.truncate_def)
  have P: "P r" if "pending r" for r using that by (simp add: P_def pending_def)
  show "work_ok ?t c" if "pl_work ?t q = Some c" for q c
  proof -
    have c: "work_ok s c" using inv(3) that by simp
    have "r \<in> set (bk_rows ?t)" if r: "r \<in> set (bt_todo c)" for r
    proof -
      have "r \<in> set (bk_rows s)" using r c by (auto simp: work_ok_def)
      moreover have "ob_id r \<in> set (batch_ids c)" using r by (simp add: batch_ids_def)
      ultimately have "pending r" using c by (simp add: work_ok_def)
      then show ?thesis using P \<open>r \<in> set (bk_rows s)\<close> unfolding rows by simp
    qed
    then show ?thesis using c unfolding work_ok_def rows by auto
  qed
  show "none_lost ?t" unfolding none_lost_def rows using inv(6) P by (auto simp: none_lost_def)
  show "distinct (map ob_id (bk_rows ?t))" unfolding rows using inv(1) by (simp add: distinct_map_filter)
  show "claims_disjoint ?t" using inv(4) by (simp add: claims_disjoint_def)
  show "ob_id ` set (bk_rows ?t) \<subseteq> pl_published ?t" unfolding rows using inv(2) by auto
  show "ob_id r \<in> pl_acked ?t" if "r \<in> set (bk_rows ?t)" "\<not> pending r" for r
    using that inv(5) unfolding rows by simp
qed

lemma pl_step_inv: "pl_step codec reg s t \<Longrightarrow> pl_inv s \<Longrightarrow> pl_inv t"
  by (induction rule: pl_step.induct)
    (rule inv_publish inv_claim inv_handle inv_commit inv_release inv_other inv_prune; assumption)+

lemma pl_init_inv: "pl_init s \<Longrightarrow> pl_inv s"
  by (simp add: pl_init_def pl_inv_def claims_disjoint_def none_lost_def)

lemma pl_reachable_inv: "pl_reachable codec reg s \<Longrightarrow> pl_inv s"
  by (induction rule: pl_reachable.induct) (auto intro: pl_init_inv pl_step_inv)

text \<open>C31: Delivery is at least once with any number of processors, in any interleaving with
  publishing, failing handlers, crashes and pruning: every event ever published has either been
  accepted by all of its handlers or is still in the table, pending; no two processors ever hold
  the same event; and an event marked processed was accepted.\<close>

theorem at_least_once:
  assumes "pl_reachable codec reg s"
  shows "(\<forall>i\<in>pl_published s. i \<in> pl_acked s \<or> (\<exists>r\<in>set (bk_rows s). ob_id r = i \<and> pending r))
    \<and> (\<forall>p q b c. p \<noteq> q \<longrightarrow> pl_work s p = Some b \<longrightarrow> pl_work s q = Some c \<longrightarrow>
        set (batch_ids b) \<inter> set (batch_ids c) = {})
    \<and> (\<forall>r\<in>set (bk_rows s). \<not> pending r \<longrightarrow> ob_id r \<in> pl_acked s)"
  using pl_reachable_inv [OF assms] by (simp add: pl_inv_def claims_disjoint_def none_lost_def)

text \<open>An event published, claimed and accepted, its pass not yet committed.\<close>

definition sample_pipeline :: "(event, event list) pipeline" where
  "sample_pipeline = \<lparr>bk_serial = 1, bk_rows = [], bk_rest = [], pl_work = (\<lambda>_. None),
     pl_published = {}, pl_acked = {}\<rparr>"

theorem at_least_once_witness:
  "\<exists>s. pl_reachable plain_codec sample_registry s \<and> pl_published s = {1} \<and> bk_rest s = [BetPlaced (BetId 1)]
     \<and> pl_work s 0 \<noteq> None \<and> (\<forall>r\<in>set (bk_rows s). \<not> pending r \<longrightarrow> ob_id r \<in> pl_acked s)"
proof -
  let ?e = "BetPlaced (BetId 1)"
  let ?r = "outbox_row_new 1 (topic ?e) ?e"
  let ?s1 = "sample_pipeline\<lparr>bk_rows := [?r], pl_published := {1}\<rparr>"
  let ?b = "\<lparr>bt_todo = [?r], bt_delivered = [], bt_failed = []\<rparr>"
  let ?s2 = "?s1\<lparr>pl_work := (pl_work ?s1)(0 \<mapsto> ?b)\<rparr>"
  let ?s3 = "?s2\<lparr>bk_rest := [?e], pl_work := (pl_work ?s2)(0 \<mapsto> handled ?b True), pl_acked := {1}\<rparr>"
  have r0: "pl_reachable plain_codec sample_registry sample_pipeline"
    by (intro pl_start) (simp add: pl_init_def sample_pipeline_def)
  have s1: "pl_step plain_codec sample_registry sample_pipeline ?s1"
    using pl_publish [of plain_codec ?e ?e 1 sample_pipeline sample_registry]
    by (simp add: plain_codec_def sample_pipeline_def)
  have c: "claimed (held ?s1) (bk_rows ?s1) = [?r]"
    by (simp add: claimed_def held_def sample_pipeline_def batch_size_def pending_def outbox_row_new_def)
  have s2: "pl_step plain_codec sample_registry ?s1 ?s2"
    using pl_claim [of ?s1 0 plain_codec sample_registry] unfolding c by (simp add: sample_pipeline_def)
  have a: "attempt (handlers_of sample_registry (ob_topic ?r)) (ob_payload ?r) (bk_rest ?s2)
      = (Ok True :: (bool, message) result, [?e])"
    by (simp add: sample_registry_def handlers_of_register typed_handle_def plain_codec_def recording_def
      sample_pipeline_def bind_cmd_def lift_def conv_def outbox_row_new_def)
  have "pl_work ?s2 0 = Some ?b" "bt_todo ?b = [?r]" by simp_all
  from pl_handle [OF this a, of plain_codec]
  have s3: "pl_step plain_codec sample_registry ?s2 ?s3"
    by (simp add: sample_pipeline_def outbox_row_new_def)
  have r3: "pl_reachable plain_codec sample_registry ?s3"
    using pl_next [OF pl_next [OF pl_next [OF r0 s1] s2] s3] .
  show ?thesis
    by (rule exI [of _ ?s3]) (use at_least_once [OF r3] r3 in \<open>simp add: sample_pipeline_def\<close>)
qed

end
