(* ===== verification/Realtime.thy ===== *)
theory Realtime
  imports EventBus
begin

text \<open>
  Live broadcasts: the payloads and the broker channels that carry them
  (\<open>application/src/realtime/*.rs\<close>) and the message broker port with its typed layer
  (\<open>application/src/ports/messaging.rs\<close>).  A broker is a record of operations; the JSON encoding of
  a payload is \<open>serde_json\<close>'s and is a parameter.
\<close>

section \<open>Payloads\<close>

datatype bet_feed = BetsGlobal | BetsMarket market_id

record bet_placed_broadcast =
  bp_id :: bet_id
  bp_user_id :: user_id
  bp_market_id :: market_id
  bp_outcome_id :: outcome_id
  bp_amount :: int
  bp_price :: price
  bp_created_at :: datetime

record chat_author =
  ca_id :: user_id
  ca_username :: username
  ca_avatar_url :: "str option"

record quoted_message =
  qm_id :: message_id
  qm_author :: chat_author
  qm_body :: str

record chat_message_broadcast =
  cmb_id :: message_id
  cmb_author :: chat_author
  cmb_body :: str
  cmb_reply_to :: "quoted_message option"
  cmb_created_at :: datetime

record chat_reaction_broadcast =
  crb_message_id :: message_id
  crb_emoji :: str
  crb_count :: int
  crb_user_id :: user_id
  crb_added :: bool

record price_tick =
  pt_outcome_id :: outcome_id
  pt_price :: price
  pt_recorded_at :: datetime

record price_update_broadcast =
  pu_ticks :: "price_tick list"

section \<open>Channels\<close>

definition bet_channel :: "uuid_format \<Rightarrow> bet_feed \<Rightarrow> str" where
  "bet_channel uf feed = (case feed of
     BetsGlobal \<Rightarrow> lit ''global_bets''
   | BetsMarket m \<Rightarrow> lit ''market_bets:'' @ uf_text uf (market_uuid m))"

definition chat_message_channel :: "uuid_format \<Rightarrow> chat_channel \<Rightarrow> str" where
  "chat_message_channel uf channel = (case channel of
     Global \<Rightarrow> lit ''chat:global''
   | Market m \<Rightarrow> lit ''chat:market:'' @ uf_text uf (market_uuid m))"

definition chat_reaction_channel :: "uuid_format \<Rightarrow> chat_channel \<Rightarrow> str" where
  "chat_reaction_channel uf channel = (case channel of
     Global \<Rightarrow> lit ''chat_reactions:global''
   | Market m \<Rightarrow> lit ''chat_reactions:market:'' @ uf_text uf (market_uuid m))"

definition price_channel :: "uuid_format \<Rightarrow> market_id \<Rightarrow> str" where
  "price_channel uf m = lit ''market:'' @ uf_text uf (market_uuid m)"

section \<open>The broker\<close>

datatype broker_error = Backend message | Encode message

fun show_broker_error :: "broker_error \<Rightarrow> message" where
  "show_broker_error (Backend m) = Lit ''message broker backend error: '' # m"
| "show_broker_error (Encode m) = Lit ''failed to encode message: '' # m"

text \<open>A subscription is a handle; \<open>mb_received\<close> is what its stream has yielded so far.\<close>

record 's broker =
  mb_publish :: "str \<Rightarrow> nat list \<Rightarrow> ('s, unit, broker_error) cmd"
  mb_subscribe :: "str \<Rightarrow> ('s, nat, broker_error) cmd"
  mb_received :: "'s \<Rightarrow> nat \<Rightarrow> nat list list"

record 'm json_codec =
  jc_to_vec :: "'m \<Rightarrow> (nat list, message) result"
  jc_from_slice :: "nat list \<Rightarrow> ('m, message) result"

text \<open>What is relied on: a payload always encodes, and decoding undoes it.\<close>

definition json_ok :: "'m json_codec \<Rightarrow> bool" where
  "json_ok codec \<longleftrightarrow> (\<forall>m. \<exists>bytes. jc_to_vec codec m = Ok bytes \<and> jc_from_slice codec bytes = Ok m)"

definition publish_json :: "'s broker \<Rightarrow> 'm json_codec \<Rightarrow> str \<Rightarrow> 'm \<Rightarrow> ('s, unit, broker_error) cmd" where
  "publish_json broker codec channel m =
     bind_cmd (lift (map_err Encode (jc_to_vec codec m))) (\<lambda>payload. mb_publish broker channel payload)"

text \<open>\<open>broadcast\<close> and \<open>subscribe_broadcast\<close> at a payload type: its channel and its encoding.\<close>

definition broadcast :: "'s broker \<Rightarrow> 'm json_codec \<Rightarrow> ('scope \<Rightarrow> str) \<Rightarrow> 'scope \<Rightarrow> 'm
    \<Rightarrow> ('s, unit, broker_error) cmd" where
  "broadcast broker codec channel scope m = publish_json broker codec (channel scope) m"

definition subscribe_broadcast :: "'s broker \<Rightarrow> ('scope \<Rightarrow> str) \<Rightarrow> 'scope \<Rightarrow> ('s, nat, broker_error) cmd" where
  "subscribe_broadcast broker channel scope = mb_subscribe broker (channel scope)"

text \<open>The typed stream over a subscription: payloads that do not decode are skipped.\<close>

definition decoded :: "'m json_codec \<Rightarrow> nat list list \<Rightarrow> 'm list" where
  "decoded codec payloads =
     List.map_filter (\<lambda>p. case jc_from_slice codec p of Ok m \<Rightarrow> Some m | _ \<Rightarrow> None) payloads"

text \<open>The encodings of the four payload types.\<close>

record codecs =
  jc_bet :: "bet_placed_broadcast json_codec"
  jc_message :: "chat_message_broadcast json_codec"
  jc_reaction :: "chat_reaction_broadcast json_codec"
  jc_prices :: "price_update_broadcast json_codec"

definition json_total :: "'m json_codec \<Rightarrow> bool" where
  "json_total codec \<longleftrightarrow> (\<forall>m. \<exists>bytes. jc_to_vec codec m = Ok bytes)"

definition codecs_ok :: "codecs \<Rightarrow> bool" where
  "codecs_ok jc \<longleftrightarrow> json_total (jc_bet jc) \<and> json_total (jc_message jc) \<and> json_total (jc_reaction jc) \<and> json_total (jc_prices jc)"

section \<open>Channels never collide\<close>

text \<open>Every channel of every payload type.\<close>

datatype feed = BetFeed bet_feed | MessageFeed chat_channel | ReactionFeed chat_channel | PriceFeed market_id

fun feed_channel :: "uuid_format \<Rightarrow> feed \<Rightarrow> str" where
  "feed_channel uf (BetFeed f) = bet_channel uf f"
| "feed_channel uf (MessageFeed c) = chat_message_channel uf c"
| "feed_channel uf (ReactionFeed c) = chat_reaction_channel uf c"
| "feed_channel uf (PriceFeed m) = price_channel uf m"

lemma market_uuid_inj [simp]: "market_uuid m = market_uuid n \<longleftrightarrow> m = n"
  by (cases m; cases n) simp

lemmas channel_simps = bet_channel_def chat_message_channel_def chat_reaction_channel_def price_channel_def

lemma channel_lits:
  "lit ''global_bets'' = [103, 108, 111, 98, 97, 108, 95, 98, 101, 116, 115]"
  "lit ''market_bets:'' = [109, 97, 114, 107, 101, 116, 95, 98, 101, 116, 115, 58]"
  "lit ''chat:global'' = [99, 104, 97, 116, 58, 103, 108, 111, 98, 97, 108]"
  "lit ''chat:market:'' = [99, 104, 97, 116, 58, 109, 97, 114, 107, 101, 116, 58]"
  "lit ''chat_reactions:global'' = [99, 104, 97, 116, 95, 114, 101, 97, 99, 116, 105, 111, 110, 115, 58, 103, 108, 111, 98, 97, 108]"
  "lit ''chat_reactions:market:'' = [99, 104, 97, 116, 95, 114, 101, 97, 99, 116, 105, 111, 110, 115, 58, 109, 97, 114, 107, 101, 116, 58]"
  "lit ''market:'' = [109, 97, 114, 107, 101, 116, 58]"
  by (simp_all add: lit_def)

lemma decode_encoded:
  assumes "json_ok codec" "jc_to_vec codec m = Ok bytes"
  shows "decoded codec [bytes] = [m]"
proof -
  have "jc_from_slice codec bytes = Ok m" using assms by (auto simp: json_ok_def) (metis result.inject(1))
  then show ?thesis by (simp add: decoded_def List.map_filter_def)
qed

lemma decoded_append: "decoded codec (xs @ ys) = decoded codec xs @ decoded codec ys"
  by (simp add: decoded_def List.map_filter_def)

text \<open>The broker channels of the four payload types never collide: two feeds share a channel
  only if they are the same payload type and the same scope, so a subscriber is never handed a
  payload of another type or another market.\<close>

theorem channels_distinct:
  assumes "uuid_format_ok uf" "feed_channel uf f = feed_channel uf g"
  shows "f = g"
  using assms(2)
  by (cases f; cases g)
    (simp_all add: channel_simps channel_lits uuid_text_inj [OF assms(1)] split: bet_feed.splits chat_channel.splits)

theorem channels_distinct_witness:
  "feed_channel bit_format (BetFeed (BetsMarket (MarketId 1))) \<noteq> feed_channel bit_format (PriceFeed (MarketId 1))"
  using channels_distinct [OF bit_format_ok] by blast

end
