(* ===== verification/Broadcasters.thy ===== *)
theory Broadcasters
  imports Realtime
begin

text \<open>
  The event handlers that fan changes out to live subscribers
  (\<open>application/src/broadcasters/*.rs\<close>), over any repositories and any broker.
\<close>

section \<open>Bets\<close>

text \<open>\<open>map_err(|e| format!("...{e}"))\<close> on a repository or broker call.\<close>

definition told :: "string \<Rightarrow> uuid \<Rightarrow> ('e \<Rightarrow> message) \<Rightarrow> ('s, 'a, 'e) cmd \<Rightarrow> ('s, 'a, message) cmd" where
  "told what i display = conv (\<lambda>e. [Lit what, UuidF i, Lit '': ''] @ display e)"

definition bet_broadcast :: "bet_id \<Rightarrow> bet \<Rightarrow> bet_placed_broadcast" where
  "bet_broadcast i b = \<lparr>bp_id = i, bp_user_id = b_user_id b, bp_market_id = b_market_id b,
     bp_outcome_id = b_outcome_id b, bp_amount = b_amount b, bp_price = b_price b,
     bp_created_at = b_created_at b\<rparr>"

definition handle_bet_placed :: "uuid_format \<Rightarrow> codecs \<Rightarrow> 's bet_repo \<Rightarrow> 's broker \<Rightarrow> bet_id
    \<Rightarrow> ('s, unit, message) cmd" where
  "handle_bet_placed uf jc brepo broker i =
     bind_cmd (told ''could not find bet '' (bet_uuid i) show_repo_error (br_find_by_id brepo i)) (\<lambda>found.
     case found of
       None \<Rightarrow> ret ()
     | Some b \<Rightarrow> for_each (\<lambda>feed. told ''could not broadcast bet '' (bet_uuid i) show_broker_error
           (broadcast broker (jc_bet jc) (bet_channel uf) feed (bet_broadcast i b)))
         [BetsMarket (b_market_id b), BetsGlobal])"

section \<open>Chat messages\<close>

definition chat_author_of :: "user \<Rightarrow> chat_author" where
  "chat_author_of u = \<lparr>ca_id = u_id u, ca_username = u_username u, ca_avatar_url = u_avatar_url u\<rparr>"

text \<open>The quoted message of a reply, or none when it or its author is gone.\<close>

definition broadcast_quote :: "'s chat_repo \<Rightarrow> 's user_repo \<Rightarrow> chat_message
    \<Rightarrow> ('s, quoted_message option, message) cmd" where
  "broadcast_quote crepo urepo m = (case c_reply_to m of
     None \<Rightarrow> ret None
   | Some i \<Rightarrow>
       bind_cmd (told ''could not load quoted chat message '' (message_uuid i) show_repo_error
         (cr_find_by_id crepo i)) (\<lambda>found.
       case found of None \<Rightarrow> ret None | Some q \<Rightarrow>
       bind_cmd (told ''could not load author of quoted chat message '' (message_uuid i) show_repo_error
         (ur_find_by_id urepo (c_author_id q))) (\<lambda>found.
       case found of None \<Rightarrow> ret None | Some a \<Rightarrow>
       ret (Some \<lparr>qm_id = c_id q, qm_author = chat_author_of a, qm_body = body_as_str (c_body q)\<rparr>))))"

definition handle_message_posted :: "uuid_format \<Rightarrow> codecs \<Rightarrow> 's chat_repo \<Rightarrow> 's user_repo \<Rightarrow> 's broker
    \<Rightarrow> message_id \<Rightarrow> ('s, unit, message) cmd" where
  "handle_message_posted uf jc crepo urepo broker i =
     bind_cmd (told ''could not load chat message '' (message_uuid i) show_repo_error (cr_find_by_id crepo i)) (\<lambda>found.
     case found of None \<Rightarrow> ret () | Some m \<Rightarrow>
     bind_cmd (told ''could not load author of chat message '' (message_uuid i) show_repo_error
       (ur_find_by_id urepo (c_author_id m))) (\<lambda>found.
     case found of None \<Rightarrow> ret () | Some a \<Rightarrow>
     bind_cmd (broadcast_quote crepo urepo m) (\<lambda>quote.
     told ''could not broadcast chat message '' (message_uuid i) show_broker_error
       (broadcast broker (jc_message jc) (chat_message_channel uf) (c_channel m)
         \<lparr>cmb_id = c_id m, cmb_author = chat_author_of a, cmb_body = body_as_str (c_body m),
          cmb_reply_to = quote, cmb_created_at = c_created_at m\<rparr>))))"

section \<open>Chat reactions\<close>

definition tally_count :: "(message_id \<times> reaction_tally list) list \<Rightarrow> message_id \<Rightarrow> reaction_emoji \<Rightarrow> int" where
  "tally_count grouped i e = (case map_of grouped i of None \<Rightarrow> 0 | Some ts \<Rightarrow>
     (case find (\<lambda>t. rt_emoji t = e) ts of None \<Rightarrow> 0 | Some t \<Rightarrow> rt_count t))"

definition handle_reaction_changed :: "uuid_format \<Rightarrow> codecs \<Rightarrow> 's chat_repo \<Rightarrow> 's broker
    \<Rightarrow> message_id \<Rightarrow> user_id \<Rightarrow> str \<Rightarrow> bool \<Rightarrow> ('s, unit, message) cmd" where
  "handle_reaction_changed uf jc crepo broker i u emoji added =
     bind_cmd (told ''could not load chat message '' (message_uuid i) show_repo_error (cr_find_by_id crepo i)) (\<lambda>found.
     case found of None \<Rightarrow> ret () | Some m \<Rightarrow>
     bind_cmd (told ''unusable emoji on chat message '' (message_uuid i) show_domain_error (lift (emoji_new emoji))) (\<lambda>e.
     bind_cmd (told ''could not tally reactions of chat message '' (message_uuid i) show_repo_error
       (cr_reactions_for crepo [i] u)) (\<lambda>grouped.
     told ''could not broadcast reaction on chat message '' (message_uuid i) show_broker_error
       (broadcast broker (jc_reaction jc) (chat_reaction_channel uf) (c_channel m)
         \<lparr>crb_message_id = i, crb_emoji = emoji, crb_count = tally_count grouped i e,
          crb_user_id = u, crb_added = added\<rparr>))))"

section \<open>Prices\<close>

definition price_ticks :: "datetime \<Rightarrow> outcome list \<Rightarrow> price_tick list" where
  "price_ticks now os = map (\<lambda>oc. \<lparr>pt_outcome_id = o_id oc, pt_price = o_current_price oc, pt_recorded_at = now\<rparr>) os"

definition handle_prices_updated :: "uuid_format \<Rightarrow> codecs \<Rightarrow> 's market_repo \<Rightarrow> 's broker \<Rightarrow> datetime
    \<Rightarrow> market_id \<Rightarrow> ('s, unit, message) cmd" where
  "handle_prices_updated uf jc mrepo broker now i =
     bind_cmd (told ''could not load outcomes of market '' (market_uuid i) show_repo_error (mr_outcomes_for mrepo i)) (\<lambda>os.
     if os = [] then ret ()
     else told ''could not broadcast prices of market '' (market_uuid i) show_broker_error
       (broadcast broker (jc_prices jc) (price_channel uf) i \<lparr>pu_ticks = price_ticks now os\<rparr>))"

section \<open>The handlers on their topics\<close>

text \<open>A handler registered on a topic is only handed events of that topic's type.\<close>

fun on_bet_placed :: "(bet_id \<Rightarrow> ('s, unit, message) cmd) \<Rightarrow> 's handler" where
  "on_bet_placed h (BetPlaced i) = h i"
| "on_bet_placed h _ = ret ()"

fun on_message_posted :: "(message_id \<Rightarrow> ('s, unit, message) cmd) \<Rightarrow> 's handler" where
  "on_message_posted h (ChatMessagePosted i) = h i"
| "on_message_posted h _ = ret ()"

fun on_reaction_changed :: "(message_id \<Rightarrow> user_id \<Rightarrow> str \<Rightarrow> bool \<Rightarrow> ('s, unit, message) cmd) \<Rightarrow> 's handler" where
  "on_reaction_changed h (ChatReactionChanged i u e a) = h i u e a"
| "on_reaction_changed h _ = ret ()"

fun on_prices_updated :: "(market_id \<Rightarrow> ('s, unit, message) cmd) \<Rightarrow> 's handler" where
  "on_prices_updated h (MarketPricesUpdated i) = h i"
| "on_prices_updated h _ = ret ()"

fun on_balance_changed :: "(user_id \<Rightarrow> ('s, unit, message) cmd) \<Rightarrow> 's handler" where
  "on_balance_changed h (UserBalanceChanged i) = h i"
| "on_balance_changed h _ = ret ()"

text \<open>The topics the broadcasters are registered on, in the order of \<open>main\<close>.\<close>

definition broadcasters :: "uuid_format \<Rightarrow> codecs \<Rightarrow> 's market_repo \<Rightarrow> 's bet_repo \<Rightarrow> 's chat_repo
    \<Rightarrow> 's user_repo \<Rightarrow> 's broker \<Rightarrow> datetime \<Rightarrow> (str \<times> 's handler) list" where
  "broadcasters uf jc mrepo brepo crepo urepo broker now =
     [(lit ''bet.placed'', on_bet_placed (handle_bet_placed uf jc brepo broker)),
      (lit ''market.prices_updated'', on_prices_updated (handle_prices_updated uf jc mrepo broker now)),
      (lit ''chat.message_posted'', on_message_posted (handle_message_posted uf jc crepo urepo broker)),
      (lit ''chat.reaction_changed'', on_reaction_changed (handle_reaction_changed uf jc crepo broker))]"

end
