(* ===== verification/LiveFeeds.thy ===== *)
theory LiveFeeds
  imports Broadcasters Betting ChatRooms
begin

text \<open>
  From a write to the live feeds, end to end in process: the in-memory repositories dispatch to
  \<open>InMemoryEventBus\<close>, whose handlers are the broadcasters, which publish to a broker in the world
  around the stores.
\<close>

section \<open>The broadcasters attached to the in-memory repositories\<close>

text \<open>A broker of the surrounding world.\<close>

definition world_broker :: "'z broker \<Rightarrow> 'z world broker" where
  "world_broker b = \<lparr>
     mb_publish = (\<lambda>channel payload s. case mb_publish b channel payload (outer s) of (r, z) \<Rightarrow> (r, s\<lparr>outer := z\<rparr>)),
     mb_subscribe = (\<lambda>channel s. case mb_subscribe b channel (outer s) of (r, z) \<Rightarrow> (r, s\<lparr>outer := z\<rparr>)),
     mb_received = (\<lambda>s h. mb_received b (outer s) h)\<rparr>"

definition live_handlers :: "uuid_format \<Rightarrow> codecs \<Rightarrow> 'z broker \<Rightarrow> datetime \<Rightarrow> (str \<times> 'z world handler) list" where
  "live_handlers uf jc b now = broadcasters uf jc (mem_market_repo (\<lambda>_ _. [])) (mem_bet_repo None)
     (mem_chat_repo None) mem_user_repo (world_broker b) now"

definition live_bus :: "'j event_codec \<Rightarrow> uuid_format \<Rightarrow> codecs \<Rightarrow> 'z broker \<Rightarrow> datetime \<Rightarrow> 'z bus" where
  "live_bus codec uf jc b now = attached codec (registered codec (rev (live_handlers uf jc b now)))"

text \<open>Publishing to a broker that takes every payload.\<close>

definition accepting :: "'z broker \<Rightarrow> bool" where
  "accepting b \<longleftrightarrow> (\<forall>channel payload z. fst (mb_publish b channel payload z) = Ok ())"

definition published :: "'z broker \<Rightarrow> str \<Rightarrow> nat list \<Rightarrow> 'z \<Rightarrow> 'z" where
  "published b channel payload z = snd (mb_publish b channel payload z)"

definition encoded :: "'m json_codec \<Rightarrow> 'm \<Rightarrow> nat list" where
  "encoded codec m = (case jc_to_vec codec m of Ok bytes \<Rightarrow> bytes | _ \<Rightarrow> [])"

lemma broadcast_world:
  assumes "json_total codec" "accepting b"
  shows "broadcast (world_broker b) codec channel scope m s
    = (Ok (), s\<lparr>outer := published b (channel scope) (encoded codec m) (outer s)\<rparr>)"
proof -
  obtain bytes where "jc_to_vec codec m = Ok bytes" using assms(1) by (auto simp: json_total_def)
  moreover have "mb_publish b ch p z = (Ok (), published b ch p z)" for ch p z
    using assms(2) by (simp add: accepting_def published_def prod_eq_iff)
  ultimately show ?thesis
    by (simp add: broadcast_def publish_json_def world_broker_def encoded_def cmd_simps)
qed

lemma told_Ok: "m s = (Ok x, t) \<Longrightarrow> told what i display m s = (Ok x, t)"
  by (simp add: told_def conv_def)

text \<open>What each event does to the world around the stores.\<close>

lemma logged_Ok: "m s = (Ok (), t) \<Longrightarrow> logged m s = (Ok (), t)"
  by (simp add: logged_def)

lemma topic_lits [simp]:
  "lit ''bet.placed'' \<noteq> lit ''market.prices_updated''" "lit ''bet.placed'' \<noteq> lit ''chat.message_posted''"
  "lit ''bet.placed'' \<noteq> lit ''chat.reaction_changed''" "lit ''bet.placed'' \<noteq> lit ''user.balance_changed''"
  "lit ''market.prices_updated'' \<noteq> lit ''chat.message_posted''"
  "lit ''market.prices_updated'' \<noteq> lit ''chat.reaction_changed''"
  "lit ''market.prices_updated'' \<noteq> lit ''user.balance_changed''"
  "lit ''chat.message_posted'' \<noteq> lit ''chat.reaction_changed''"
  "lit ''chat.message_posted'' \<noteq> lit ''user.balance_changed''"
  "lit ''chat.reaction_changed'' \<noteq> lit ''user.balance_changed''"
  by (simp_all add: lit_def)

declare topic_lits [THEN not_sym, simp]

lemma live_filters [simp]:
  "filter (\<lambda>(t, h). t = lit ''bet.placed'') (live_handlers uf jc b now) =
     [(lit ''bet.placed'', on_bet_placed (handle_bet_placed uf jc (mem_bet_repo None) (world_broker b)))]"
  "filter (\<lambda>(t, h). t = lit ''market.prices_updated'') (live_handlers uf jc b now) =
     [(lit ''market.prices_updated'', on_prices_updated (handle_prices_updated uf jc (mem_market_repo (\<lambda>_ _. []))
        (world_broker b) now))]"
  "filter (\<lambda>(t, h). t = lit ''chat.message_posted'') (live_handlers uf jc b now) =
     [(lit ''chat.message_posted'', on_message_posted (handle_message_posted uf jc (mem_chat_repo None) mem_user_repo
        (world_broker b)))]"
  "filter (\<lambda>(t, h). t = lit ''chat.reaction_changed'') (live_handlers uf jc b now) =
     [(lit ''chat.reaction_changed'', on_reaction_changed (handle_reaction_changed uf jc (mem_chat_repo None)
        (world_broker b)))]"
  "filter (\<lambda>(t, h). t = lit ''user.balance_changed'') (live_handlers uf jc b now) = []"
  by (simp_all add: live_handlers_def broadcasters_def)

definition world_of :: "store \<Rightarrow> 'z \<Rightarrow> 'z world" where
  "world_of st z = store.extend st (world.fields z)"

lemma world_of_truncate [simp]: "world_of (store.truncate s) (outer s) = s"
  by (simp add: world_of_def store.extend_def store.truncate_def world.fields_def)

lemma live_bus_eq:
  assumes "event_codec_ok codec"
  shows "live_bus codec uf jc b now e st z = outer (snd (for_each (\<lambda>(t, h). logged (h e))
     (filter (\<lambda>(t, h). t = topic e) (live_handlers uf jc b now)) (world_of st z) :: (unit, unit) result \<times> _))"
  by (simp add: live_bus_def attached_def world_of_def bus_dispatch_registered [OF assms])

lemma for_each_one [simp]: "for_each f [x] = seq_cmd (f x) (ret ())"
  by simp

lemma live_single:
  assumes "event_codec_ok codec"
    and "filter (\<lambda>(t, h). t = topic e) (live_handlers uf jc b now) = [(topic e, h)]"
    and "h e (world_of st z) = (Ok (), (world_of st z)\<lparr>outer := z'\<rparr>)"
  shows "live_bus codec uf jc b now e st z = z'"
  using assms(2,3) by (simp add: live_bus_eq [OF assms(1)] logged_Ok seq_cmd_def bind_cmd_def ret_def)

lemma live_balance:
  assumes "event_codec_ok codec"
  shows "live_bus codec uf jc b now (UserBalanceChanged u) st z = z"
  by (simp add: live_bus_eq [OF assms] ret_def world_of_def store.extend_def world.fields_def)

lemma live_bet:
  assumes "event_codec_ok codec" "codecs_ok jc" "accepting b"
    and "find (\<lambda>x. b_id x = i) (store.bets st) = Some x"
  shows "live_bus codec uf jc b now (BetPlaced i) st z
    = published b (bet_channel uf BetsGlobal) (encoded (jc_bet jc) (bet_broadcast i x))
       (published b (bet_channel uf (BetsMarket (b_market_id x))) (encoded (jc_bet jc) (bet_broadcast i x)) z)"
proof -
  have j: "json_total (jc_bet jc)" using assms(2) by (simp add: codecs_ok_def)
  let ?w = "world_of st z"
  let ?cast = "\<lambda>feed. broadcast (world_broker b) (jc_bet jc) (bet_channel uf) feed (bet_broadcast i x)"
  have bets: "bets ?w = bets st" "outer ?w = z" by (simp_all add: world_of_def store.extend_def world.fields_def)
  have "handle_bet_placed uf jc (mem_bet_repo None) (world_broker b) i ?w
      = seq_cmd (told ''could not broadcast bet '' (bet_uuid i) show_broker_error (?cast (BetsMarket (b_market_id x))))
          (seq_cmd (told ''could not broadcast bet '' (bet_uuid i) show_broker_error (?cast BetsGlobal)) (ret ())) ?w"
    using assms(4) by (simp add: handle_bet_placed_def told_def conv_def bind_cmd_def mem_simps reads_def bets)
  also have "\<dots> = (Ok (), ?w\<lparr>outer := published b (bet_channel uf BetsGlobal) (encoded (jc_bet jc) (bet_broadcast i x))
       (published b (bet_channel uf (BetsMarket (b_market_id x))) (encoded (jc_bet jc) (bet_broadcast i x)) z)\<rparr>)"
    by (simp add: seq_cmd_def bind_cmd_def told_def conv_def broadcast_world [OF j assms(3)] ret_def bets)
  finally show ?thesis
    by (intro live_single [OF assms(1),
        where h = "on_bet_placed (handle_bet_placed uf jc (mem_bet_repo None) (world_broker b))"]) simp_all
qed

lemma live_prices:
  assumes "event_codec_ok codec" "codecs_ok jc" "accepting b"
    and "market_outcomes i (store.outcomes st) \<noteq> []"
  shows "live_bus codec uf jc b now (MarketPricesUpdated i) st z
    = published b (price_channel uf i) (encoded (jc_prices jc)
        \<lparr>pu_ticks = price_ticks now (market_outcomes i (store.outcomes st))\<rparr>) z"
proof -
  have j: "json_total (jc_prices jc)" using assms(2) by (simp add: codecs_ok_def)
  let ?w = "world_of st z"
  have os: "outcomes ?w = outcomes st" "outer ?w = z" by (simp_all add: world_of_def store.extend_def world.fields_def)
  have "handle_prices_updated uf jc (mem_market_repo (\<lambda>_ _. [])) (world_broker b) now i ?w
      = told ''could not broadcast prices of market '' (market_uuid i) show_broker_error
          (broadcast (world_broker b) (jc_prices jc) (price_channel uf) i
            \<lparr>pu_ticks = price_ticks now (market_outcomes i (outcomes st))\<rparr>) ?w"
    using assms(4) by (simp add: handle_prices_updated_def told_def conv_def bind_cmd_def mem_simps reads_def os
        market_outcomes_def)
  also have "\<dots> = (Ok (), ?w\<lparr>outer := published b (price_channel uf i) (encoded (jc_prices jc)
        \<lparr>pu_ticks = price_ticks now (market_outcomes i (outcomes st))\<rparr>) z\<rparr>)"
    by (simp add: told_Ok broadcast_world [OF j assms(3)] os)
  finally show ?thesis
    by (intro live_single [OF assms(1), where h = "on_prices_updated
        (handle_prices_updated uf jc (mem_market_repo (\<lambda>_ _. [])) (world_broker b) now)"]) simp_all
qed

lemma world_of_fields [simp]:
  "users (world_of st z) = users st" "markets (world_of st z) = markets st"
  "outcomes (world_of st z) = outcomes st" "bets (world_of st z) = bets st"
  "messages (world_of st z) = messages st" "reactions (world_of st z) = reactions st"
  "outer (world_of st z) = z"
  by (simp_all add: world_of_def store.extend_def world.fields_def)

lemma tally_count_card:
  assumes "reactions_ok s" "int (length (reactions s)) \<le> i64_max"
  shows "tally_count (fold (tally_reaction viewer) (filter (\<lambda>r. r_message_id r \<in> set [i]) (reactions s)) []) i e
    = int (card {u. (i, u, e) \<in> reaction_set s})"
proof -
  let ?g = "map_of (fold (tally_reaction viewer) (filter (\<lambda>r. r_message_id r \<in> set [i]) (reactions s)) []) i"
  have g: "(case ?g of None \<Rightarrow> [] | Some ts \<Rightarrow> ts) = tallies viewer s i"
    using assms by (intro tallies_of_group) simp_all
  have f: "find (\<lambda>t. rt_emoji t = e) (map (\<lambda>e. \<lparr>rt_emoji = e, rt_count = c e, rt_reacted = d e\<rparr>) es)
      = (if e \<in> set es then Some \<lparr>rt_emoji = e, rt_count = c e, rt_reacted = d e\<rparr> else None)" for c d es
    by (induction es) auto
  have none: "{u. (i, u, e) \<in> reaction_set s} = {}"
    if "e \<notin> r_emoji ` {r \<in> set (reactions s). r_message_id r = i}"
    using that by (force simp: reaction_set_def triple_of_def)
  have "tally_count (fold (tally_reaction viewer) (filter (\<lambda>r. r_message_id r \<in> set [i]) (reactions s)) []) i e
      = (case find (\<lambda>t. rt_emoji t = e) (tallies viewer s i) of None \<Rightarrow> 0 | Some t \<Rightarrow> rt_count t)"
    unfolding tally_count_def g [symmetric] by (cases ?g) simp_all
  also have "\<dots> = int (card {u. (i, u, e) \<in> reaction_set s})"
    unfolding tallies_def f using none by auto
  finally show ?thesis .
qed

definition reaction_update :: "message_id \<Rightarrow> user_id \<Rightarrow> reaction_emoji \<Rightarrow> bool \<Rightarrow> 'z world \<Rightarrow> chat_reaction_broadcast" where
  "reaction_update i u e added s = \<lparr>crb_message_id = i, crb_emoji = emoji_as_str e,
     crb_count = int (card {v. (i, v, e) \<in> reaction_set s}), crb_user_id = u, crb_added = added\<rparr>"

lemma live_reaction:
  assumes "event_codec_ok codec" "codecs_ok jc" "accepting b" "emoji_wf e"
    and s: "message_by_id s i = Some m" "reactions_ok s" "int (length (reactions s)) \<le> i64_max"
  shows "live_bus codec uf jc b now (ChatReactionChanged i u (emoji_as_str e) added) (store.truncate s) (outer s)
    = published b (chat_reaction_channel uf (c_channel m)) (encoded (jc_reaction jc) (reaction_update i u e added s)) (outer s)"
proof -
  have j: "json_total (jc_reaction jc)" using assms(2) by (simp add: codecs_ok_def)
  have e: "emoji_new (emoji_as_str e) = Ok e" using assms(4) by (cases e) (simp add: emoji_new_Ok)
  let ?what = "''could not broadcast reaction on chat message ''"
  have "handle_reaction_changed uf jc (mem_chat_repo None) (world_broker b) i u (emoji_as_str e) added s
      = told ?what (message_uuid i) show_broker_error
          (broadcast (world_broker b) (jc_reaction jc) (chat_reaction_channel uf) (c_channel m)
            (reaction_update i u e added s)) s"
    using s(1) tally_count_card [OF s(2,3), of u i e]
    by (simp add: handle_reaction_changed_def told_def conv_def bind_cmd_def reads_def lift_def mem_chat_repo_def
        mem_message_find_by_id_def mem_reactions_for_def message_by_id_def e reaction_update_def)
  also have "\<dots> = (Ok (), s\<lparr>outer := published b (chat_reaction_channel uf (c_channel m))
      (encoded (jc_reaction jc) (reaction_update i u e added s)) (outer s)\<rparr>)"
    by (rule told_Ok) (simp add: broadcast_world [OF j assms(3)])
  finally show ?thesis
    by (intro live_single [OF assms(1), where h = "on_reaction_changed
        (handle_reaction_changed uf jc (mem_chat_repo None) (world_broker b))"]) simp_all
qed

lemma resolve_reaction_mem:
  assumes "emoji_wf e" "message_by_id s i = Some m"
  shows "resolve_reaction (mem_chat_repo events) i (emoji_as_str e) s = (Ok e, s)"
proof -
  have "emoji_new (emoji_as_str e) = Ok e" using assms(1) by (cases e) (simp add: emoji_new_Ok)
  then show ?thesis using assms(2)
    by (simp add: resolve_reaction_def mem_chat_repo_def mem_message_find_by_id_def message_by_id_def cmd_simps)
qed

text \<open>Toggling one emoji of one user, through the use case.\<close>

definition toggle :: "'z bus option \<Rightarrow> bool \<Rightarrow> user_id \<Rightarrow> message_id \<Rightarrow> str \<Rightarrow> ('z world, bool, app_error) cmd" where
  "toggle events added u i emoji =
     (if added then react_add (mem_chat_repo events) u i emoji else react_remove (mem_chat_repo events) u i emoji)"

lemma toggle_eq:
  assumes "emoji_wf e" "message_by_id s i = Some m"
  shows "toggle events added u i (emoji_as_str e) s =
    (if ((i, u, e) \<in> reaction_set s) = added then (Ok False, s)
     else (Ok True, snd (dispatch events (ChatReactionChanged i u (emoji_as_str e) added)
       (s\<lparr>reactions := (if added then reactions s @ [\<lparr>r_message_id = i, r_user_id = u, r_emoji = e\<rparr>]
          else filter (\<lambda>r. \<not> same_reaction i u e r) (reactions s))\<rparr>))))"
  by (simp add: toggle_def react_add_def react_remove_def bind_cmd_def conv_def resolve_reaction_mem [OF assms]
      mem_chat_repo_def [of events, THEN arg_cong, of cr_add_reaction]
      mem_chat_repo_def [of events, THEN arg_cong, of cr_remove_reaction] add_reaction_eq remove_reaction_eq)

lemma toggle_live:
  fixes added :: bool and u :: user_id
  assumes "event_codec_ok codec" "codecs_ok jc" "accepting b" "emoji_wf e"
    and s: "message_by_id s i = Some m" "reactions_ok s" "int (length (reactions s)) < i64_max"
  defines "changed \<equiv> ((i, u, e) \<in> reaction_set s) \<noteq> added"
  shows "\<exists>t. toggle (Some (live_bus codec uf jc b now)) added u i (emoji_as_str e) s = (Ok changed, t)
    \<and> reaction_set t = (if added then insert (i, u, e) (reaction_set s) else reaction_set s - {(i, u, e)})
    \<and> outer t = (if changed then published b (chat_reaction_channel uf (c_channel m))
        (encoded (jc_reaction jc) \<lparr>crb_message_id = i, crb_emoji = emoji_as_str e,
           crb_count = int (card {v. (i, v, e) \<in> reaction_set t}), crb_user_id = u, crb_added = added\<rparr>) (outer s)
      else outer s)
    \<and> (\<not> changed \<longrightarrow> t = s)"
proof (cases changed)
  case False
  then have "toggle (Some (live_bus codec uf jc b now)) added u i (emoji_as_str e) s = (Ok changed, s)"
    unfolding changed_def by (subst toggle_eq [OF assms(4) s(1)]) simp
  then show ?thesis using False by (auto simp: changed_def)
next
  case True
  let ?rs = "if added then reactions s @ [\<lparr>r_message_id = i, r_user_id = u, r_emoji = e\<rparr>]
    else filter (\<lambda>r. \<not> same_reaction i u e r) (reactions s)"
  let ?s = "s\<lparr>reactions := ?rs\<rparr>"
  let ?event = "ChatReactionChanged i u (emoji_as_str e) added"
  let ?z = "live_bus codec uf jc b now ?event (store.truncate ?s) (outer ?s)"
  have set: "reaction_set ?s = (if added then insert (i, u, e) (reaction_set s) else reaction_set s - {(i, u, e)})"
    by (auto simp: reaction_set_def triple_of_def same_reaction_triple)
  have "distinct (reactions s @ [\<lparr>r_message_id = i, r_user_id = u, r_emoji = e\<rparr>])" if added
    using that True s(2) by (force simp: changed_def reactions_ok_def reaction_set_def triple_of_def)
  then have ok: "reactions_ok ?s" using s(2) by (simp add: reactions_ok_def)
  have "length ?rs \<le> length (reactions s) + 1" by (cases added) (simp_all add: le_SucI)
  then have "int (length ?rs) \<le> i64_max" using s(3) by linarith
  then have z: "?z = published b (chat_reaction_channel uf (c_channel m))
      (encoded (jc_reaction jc) (reaction_update i u e added ?s)) (outer s)"
    using live_reaction [OF assms(1-4), of ?s i m uf now u added] s(1) ok by (simp add: message_by_id_def)
  have "toggle (Some (live_bus codec uf jc b now)) added u i (emoji_as_str e) s = (Ok changed, ?s\<lparr>outer := ?z\<rparr>)"
    using True unfolding changed_def by (subst toggle_eq [OF assms(4) s(1)]) (simp add: dispatch_run)
  then show ?thesis using True z set by (intro exI [of _ "?s\<lparr>outer := ?z\<rparr>"]) (simp add: reaction_update_def)
qed

text \<open>A reaction goes live exactly when it changes something: adding or taking back an emoji
  through the use case publishes one update, on the reaction channel of the room the message is in,
  carrying the number of distinct users who hold the emoji after the change; a repeat publishes
  nothing and changes nothing.\<close>

theorem reactions_go_live:
  assumes "event_codec_ok codec" "codecs_ok jc" "accepting b" "emoji_wf e"
    and "message_by_id s i = Some m" "reactions_ok s" "int (length (reactions s)) < i64_max"
  shows "\<exists>t changed. (changed \<longleftrightarrow> ((i, u, e) \<in> reaction_set s) \<noteq> added)
    \<and> toggle (Some (live_bus codec uf jc b now)) added u i (emoji_as_str e) s = (Ok changed, t)
    \<and> reaction_set t = (if added then insert (i, u, e) (reaction_set s) else reaction_set s - {(i, u, e)})
    \<and> outer t = (if changed then published b (chat_reaction_channel uf (c_channel m))
        (encoded (jc_reaction jc) \<lparr>crb_message_id = i, crb_emoji = emoji_as_str e,
           crb_count = int (card {v. (i, v, e) \<in> reaction_set t}), crb_user_id = u, crb_added = added\<rparr>) (outer s)
      else outer s)
    \<and> (\<not> changed \<longrightarrow> t = s)"
  using toggle_live [OF assms, where u = u and added = added and uf = uf and now = now] by blast

section \<open>A placed bet\<close>

lemma place_bet_places:
  assumes "mem_place_bet lc events clock fresh actor input s = (Ok v, t)"
  shows "\<exists>os points now. mem_place events now (bv_bet v) os points s = (Ok (), t)"
  using place_bet_stored [OF assms] by blast

lemma truncate_notify [simp]: "store.truncate (notify events e s) = store.truncate s"
  by (simp add: notify_def store.truncate_def split: option.split)

lemma truncate_fields [simp]: "bets (store.truncate s) = bets s" "outcomes (store.truncate s) = outcomes s"
  by (simp_all add: store.truncate_def)

lemma outer_notify: "outer (notify (Some bus) e s) = bus e (store.truncate s) (outer s)"
  by (simp add: notify_def)

text \<open>C32: An accepted bet goes live: through the in-process bus it publishes exactly three payloads, in
  this order: the stored bet on its market's bet feed, the same on the global feed, and the prices of
  every outcome of the market after the move on the market's price feed.  Nothing else reaches the
  broker.\<close>

theorem bets_go_live:
  assumes "event_codec_ok codec" "codecs_ok jc" "accepting b"
    and ok: "books_ok s" and fresh: "BetId fresh \<notin> b_id ` set (bets s)"
    and run: "mem_place_bet lc (Some (live_bus codec uf jc b now)) clock fresh actor input s = (Ok v, t)"
  shows "outer t =
     published b (price_channel uf (b_market_id (bv_bet v))) (encoded (jc_prices jc)
       \<lparr>pu_ticks = map (\<lambda>oc. \<lparr>pt_outcome_id = o_id oc, pt_price = o_current_price oc, pt_recorded_at = now\<rparr>)
         (filter (\<lambda>oc. o_market_id oc = b_market_id (bv_bet v)) (outcomes t))\<rparr>)
     (published b (bet_channel uf BetsGlobal) (encoded (jc_bet jc) (bet_broadcast (BetId fresh) (bv_bet v)))
     (published b (bet_channel uf (BetsMarket (b_market_id (bv_bet v))))
       (encoded (jc_bet jc) (bet_broadcast (BetId fresh) (bv_bet v))) (outer s)))"
proof -
  let ?bet = "bv_bet v" and ?bus = "live_bus codec uf jc b now"
  obtain os points at where "mem_place (Some ?bus) at ?bet os points s = (Ok (), t)"
    using place_bet_places [OF run] by blast
  then obtain u where t: "t = stored (Some ?bus) ?bet os points u s"
    by (auto simp: mem_place_eq split: option.splits result.splits)
  note effect = place_bet_run [OF ok fresh run]
  have id: "b_id ?bet = BetId fresh" and "bets t = bets s @ [?bet]" using effect by auto
  then have found: "find (\<lambda>x. b_id x = b_id ?bet) (bets t) = Some ?bet"
  proof -
    have "find (\<lambda>x. b_id x = BetId fresh) (bets s) = None" using fresh by (metis (mono_tags, lifting) find_None_iff image_eqI)
    then show ?thesis using id \<open>bets t = bets s @ [?bet]\<close> by (simp add: find_append)
  qed
  have "market_outcomes (b_market_id ?bet) (outcomes t) \<noteq> []"
  proof -
    obtain oc where oc: "oc \<in> set (outcomes s)" "o_market_id oc = b_market_id ?bet"
      and same: "map (\<lambda>x. (o_id x, o_market_id x, o_volume x)) (outcomes t) =
        map (\<lambda>x. (o_id x, o_market_id x, if o_id x = nb_outcome_id input
          then sat_i64 (o_volume x + nb_amount input) else o_volume x)) (outcomes s)"
      using effect by auto
    have "map o_market_id (outcomes t) = map o_market_id (outcomes s)"
      using arg_cong [OF same, of "map (fst \<circ> snd)"] by (simp add: o_def)
    then have "b_market_id ?bet \<in> o_market_id ` set (outcomes t)" using oc by (metis image_eqI list.set_map)
    then show ?thesis by (auto simp: market_outcomes_def filter_empty_conv)
  qed
  moreover define w where "w = apply_bet (b_market_id ?bet) (b_amount ?bet)
     (first_bet (b_user_id ?bet) (b_market_id ?bet) (bets s)) os points
     (s\<lparr>users := AList.update (u_id u) u (users s), bets := bets s @ [?bet]\<rparr>)"
  ultimately have t': "t = notify (Some ?bus) (MarketPricesUpdated (b_market_id ?bet)) (notify (Some ?bus) (BetPlaced (b_id ?bet))
     (notify (Some ?bus) (UserBalanceChanged (b_user_id ?bet)) w))" "outer w = outer s" "bets w = bets t"
    "outcomes w = outcomes t" "market_outcomes (b_market_id ?bet) (outcomes w) \<noteq> []"
    by (simp_all add: t stored_def apply_bet_def Let_def)
  have found': "find (\<lambda>x. b_id x = b_id ?bet) (bets (store.truncate w)) = Some ?bet"
    and outs: "market_outcomes (b_market_id ?bet) (outcomes (store.truncate w)) \<noteq> []"
    by (simp_all only: truncate_fields t'(3) found) (simp add: t'(5))
  have "outer t = ?bus (MarketPricesUpdated (b_market_id ?bet)) (store.truncate w)
      (?bus (BetPlaced (b_id ?bet)) (store.truncate w) (?bus (UserBalanceChanged (b_user_id ?bet)) (store.truncate w) (outer s)))"
    unfolding t'(1) outer_notify truncate_notify t'(2) ..
  then show ?thesis
    unfolding live_balance [OF assms(1)] live_bet [OF assms(1-3) found'] live_prices [OF assms(1-3) outs]
    by (simp add: id t'(4) price_ticks_def market_outcomes_def)
qed

section \<open>Examples\<close>

text \<open>A broker that keeps a log, encodings that keep an amount, a count or a length, and the worlds
  of \<open>Betting\<close> and \<open>ChatRooms\<close> with that log around them.\<close>

definition log_broker :: "(str \<times> nat list) list broker" where
  "log_broker = \<lparr>mb_publish = (\<lambda>channel payload z. (Ok (), z @ [(channel, payload)])),
     mb_subscribe = (\<lambda>channel z. (Ok 0, z)), mb_received = (\<lambda>z h. map snd z)\<rparr>"

definition sample_codecs :: codecs where
  "sample_codecs = \<lparr>jc_bet = \<lparr>jc_to_vec = (\<lambda>m. Ok [nat (bp_amount m)]), jc_from_slice = (\<lambda>_. Err [])\<rparr>,
     jc_message = \<lparr>jc_to_vec = (\<lambda>m. Ok (cmb_body m)), jc_from_slice = (\<lambda>_. Err [])\<rparr>,
     jc_reaction = \<lparr>jc_to_vec = (\<lambda>m. Ok [nat (crb_count m)]), jc_from_slice = (\<lambda>_. Err [])\<rparr>,
     jc_prices = \<lparr>jc_to_vec = (\<lambda>m. Ok [length (pu_ticks m)]), jc_from_slice = (\<lambda>_. Err [])\<rparr>\<rparr>"

definition sample_event_codec :: "event event_codec" where
  "sample_event_codec = \<lparr>to_value = Ok,
     from_value = (\<lambda>t e. if topic e = t then Ok e else Err (msg ''wrong type''))\<rparr>"

lemma sample_live:
  "event_codec_ok sample_event_codec" "codecs_ok sample_codecs" "accepting log_broker"
  by (simp_all add: event_codec_ok_def sample_event_codec_def codecs_ok_def json_total_def sample_codecs_def
      accepting_def log_broker_def)

definition live_world :: "(str \<times> nat list) list world" where
  "live_world = world_of (store.truncate sample_world) []"

lemma live_world_fields:
  "ledger_of live_world = ledger_of sample_world" "mem_inv live_world = mem_inv sample_world"
  "outcomes_of i live_world = outcomes_of i sample_world" "bets live_world = []" "outer live_world = []"
  by (simp_all add: live_world_def ledger_of_def mem_inv_def lookup_user_def lookup_market_def users_wf_def
      outcomes_of_def store.truncate_def sample_world_def fun_eq_iff)

abbreviation sample_bus :: "(str \<times> nat list) list bus" where
  "sample_bus \<equiv> live_bus sample_event_codec bit_format sample_codecs log_broker 7"

theorem bets_go_live_witness:
  "\<exists>v t. mem_place_bet (\<lambda>_ _. []) (Some sample_bus) (\<lambda>_. 5) 9 sample_bettor sample_input live_world = (Ok v, t)
     \<and> outer t = [(bet_channel bit_format (BetsMarket (MarketId 1)), [100]), (bet_channel bit_format BetsGlobal, [100]),
        (price_channel bit_format (MarketId 1), [2])]"
proof -
  have few: "int (length (bets live_world)) < 2 ^ 49" and fresh: "BetId 9 \<notin> b_id ` set (bets live_world)"
    by (simp_all add: live_world_fields)
  have books: "books_ok live_world" using sample_books by (simp add: live_world_fields)
  have ac: "accepted (ledger_of live_world) (\<lambda>_. 5) sample_bettor sample_input sample_market
     (sample_outcome 1) (sample_user 1 RUser)" using sample_accepted by (simp only: live_world_fields)
  have room: "volumes_ok (map (backed (the_bet (\<lambda>_. 5) 9 sample_bettor sample_input sample_market (sample_outcome 1)))
     (outcomes_of (m_id sample_market) live_world))" using sample_room by (simp only: live_world_fields)
  obtain v t where run: "mem_place_bet (\<lambda>_ _. []) (Some sample_bus) (\<lambda>_. 5) 9 sample_bettor sample_input live_world = (Ok v, t)"
    using place_bet_ok [OF books fresh ac room few] by blast
  note effect = place_bet_run [OF books fresh run]
  have bet: "b_amount (bv_bet v) = 100" using effect by (auto simp: sample_input_def)
  have same: "map o_market_id (outcomes t) = [MarketId 1, MarketId 1]"
  proof -
    have eq: "map (\<lambda>x. (o_id x, o_market_id x, o_volume x)) (outcomes t) =
        map (\<lambda>x. (o_id x, o_market_id x, if o_id x = nb_outcome_id sample_input
          then sat_i64 (o_volume x + nb_amount sample_input) else o_volume x)) (outcomes live_world)"
      using effect by blast
    have "map o_market_id (outcomes t) = map o_market_id (outcomes live_world)"
      using arg_cong [OF eq, of "map (fst \<circ> snd)"] by (simp add: o_def)
    then show ?thesis by (simp add: live_world_def store.truncate_def sample_world_def sample_outcome_def outcome_new_def)
  qed
  obtain oc where "oc \<in> set (outcomes live_world)" "o_market_id oc = b_market_id (bv_bet v)" using effect by auto
  then have mid: "b_market_id (bv_bet v) = MarketId 1"
    by (auto simp: live_world_def store.truncate_def sample_world_def sample_outcome_def outcome_new_def)
  have "length (filter (\<lambda>oc. o_market_id oc = MarketId 1) (outcomes t)) = 2"
    using same by (auto simp: map_eq_Cons_conv)
  then have "outer t = [(bet_channel bit_format (BetsMarket (MarketId 1)), [100]), (bet_channel bit_format BetsGlobal, [100]),
        (price_channel bit_format (MarketId 1), [2])]"
    unfolding bets_go_live [OF sample_live books fresh run] mid
    by (simp add: published_def log_broker_def encoded_def sample_codecs_def bet_broadcast_def bet live_world_fields)
  then show ?thesis using run by blast
qed

definition live_room :: "(str \<times> nat list) list world" where
  "live_room = world_of (store.truncate chat_world) []"

theorem reactions_go_live_witness:
  "\<exists>t. toggle (Some sample_bus) True (UserId 2) (MessageId 2) [128077] live_room = (Ok True, t)
     \<and> map fst (outer t) = [chat_reaction_channel bit_format (Market (MarketId 1))]"
proof -
  have m: "message_by_id live_room (MessageId 2) = Some (sample_message 2 (Market (MarketId 1)))"
    by (simp add: live_room_def store.truncate_def chat_world_def message_by_id_def sample_message_def)
  have e: "emoji_wf (ReactionEmoji [128077])" by code_simp
  have s: "reactions_ok live_room" "int (length (reactions live_room)) < i64_max" "reaction_set live_room = {}"
    "outer live_room = []"
    by (simp_all add: live_room_def store.truncate_def chat_world_def reactions_ok_def i64_max_def reaction_set_def)
  show ?thesis
    using reactions_go_live [OF sample_live e m s(1,2), of "UserId 2" True bit_format 7] s(3,4)
    by (auto simp: published_def log_broker_def sample_message_def)
qed

end
