(* ===== verification/Responses.thy ===== *)
theory Responses
  imports Realtime UseMarkets UseChat UseAuth UseFiles
begin

text \<open>
  What the HTTP API answers with: the response bodies built from views and entities
  (\<open>api/src/routes/bets.rs\<close>, \<open>markets.rs\<close>, \<open>users.rs\<close>, \<open>chat.rs\<close>, \<open>ws/frames.rs\<close>) and the mapping of
  application errors onto responses (\<open>api/src/error.rs\<close>).  A floating-point number in a response is
  kept as the division that yields it: dividend and divisor are integers a double represents
  exactly, or rounds to.
\<close>

section \<open>Fractions\<close>

datatype f64 = Quotient int int

definition as_fraction :: "price \<Rightarrow> f64" where
  "as_fraction p = Quotient (as_ten_thousandths p) price_scale"

definition win_rate :: "user_stats \<Rightarrow> f64" where
  "win_rate st = (let settled = wrap_i64 (us_wins st + us_losses st) in
     if settled = 0 then Quotient 0 1 else Quotient (us_wins st) settled)"

section \<open>Errors\<close>

fun show_app_error :: "app_error \<Rightarrow> message" where
  "show_app_error (Domain e) = show_domain_error e"
| "show_app_error (NotFound m) = m @ [Lit '' not found'']"
| "show_app_error (AppConflict m) = m"
| "show_app_error (Unauthorized m) = m"
| "show_app_error (Forbidden m) = m"
| "show_app_error (Internal m) = Lit ''internal error: '' # m"

fun status_of :: "app_error \<Rightarrow> nat" where
  "status_of (Domain e) = 422"
| "status_of (NotFound m) = 404"
| "status_of (AppConflict m) = 409"
| "status_of (Unauthorized m) = 401"
| "status_of (Forbidden m) = 403"
| "status_of (Internal m) = 500"

definition error_response :: "app_error \<Rightarrow> nat \<times> message" where
  "error_response e = (status_of e, show_app_error e)"

section \<open>Bets\<close>

record bet_response =
  btr_id :: uuid
  btr_user_id :: uuid
  btr_username :: str
  btr_market_id :: uuid
  btr_market_title :: str
  btr_outcome_id :: uuid
  btr_outcome_label :: str
  btr_amount :: int
  btr_price :: f64
  btr_avg_price :: f64
  btr_status :: str
  btr_payout :: "int option"
  btr_created_at :: datetime

definition bet_response_of :: "bet_view \<Rightarrow> bet_response" where
  "bet_response_of v = (let b = bv_bet v in
     \<lparr>btr_id = bet_uuid (b_id b), btr_user_id = user_uuid (b_user_id b), btr_username = bv_username v,
      btr_market_id = market_uuid (b_market_id b), btr_market_title = bv_market_title v,
      btr_outcome_id = outcome_uuid (b_outcome_id b), btr_outcome_label = bv_outcome_label v,
      btr_amount = b_amount b, btr_price = as_fraction (b_price b), btr_avg_price = as_fraction (bv_avg_price v),
      btr_status = bet_status_as_str (b_status b), btr_payout = b_payout b, btr_created_at = b_created_at b\<rparr>)"

definition to_responses :: "bet_view list \<Rightarrow> bet_response list" where
  "to_responses vs = map bet_response_of vs"

section \<open>Markets\<close>

record outcome_response =
  ocr_id :: uuid
  ocr_label :: str
  ocr_thumbnail_url :: "str option"
  ocr_price :: f64
  ocr_volume :: int

record market_response =
  mkr_id :: uuid
  mkr_title :: str
  mkr_description :: "str option"
  mkr_category :: "str option"
  mkr_thumbnail_url :: "str option"
  mkr_status :: str
  mkr_resolved_outcome_id :: "uuid option"
  mkr_total_volume :: int
  mkr_participants_count :: int
  mkr_created_at :: datetime
  mkr_closes_at :: "datetime option"
  mkr_outcomes :: "outcome_response list"

definition market_response_of :: "market_view \<Rightarrow> market_response" where
  "market_response_of v = (let m = mv_market v in
     \<lparr>mkr_id = market_uuid (m_id m), mkr_title = title_as_str (m_title m), mkr_description = m_description m,
      mkr_category = m_category m, mkr_thumbnail_url = m_thumbnail_url m,
      mkr_status = market_status_as_str (m_status m),
      mkr_resolved_outcome_id = map_option outcome_uuid (m_resolved_outcome_id m),
      mkr_total_volume = m_total_volume m, mkr_participants_count = m_participants_count m,
      mkr_created_at = m_created_at m, mkr_closes_at = m_closes_at m,
      mkr_outcomes = map (\<lambda>oc. \<lparr>ocr_id = outcome_uuid (o_id oc), ocr_label = label_as_str (o_label oc),
        ocr_thumbnail_url = o_thumbnail_url oc, ocr_price = as_fraction (o_current_price oc),
        ocr_volume = o_volume oc\<rparr>) (mv_outcomes v)\<rparr>)"

record price_point_response =
  ppr_price :: f64
  ppr_recorded_at :: datetime

record outcome_history_response =
  ohr_outcome_id :: uuid
  ohr_points :: "price_point_response list"

text \<open>The loop over the points into a \<open>BTreeMap\<close>, an association list in key order.\<close>

fun btree_push :: "uuid \<Rightarrow> 'a \<Rightarrow> (uuid \<times> 'a list) list \<Rightarrow> (uuid \<times> 'a list) list" where
  "btree_push k x [] = [(k, [x])]"
| "btree_push k x ((k', xs) # rest) =
     (if k < k' then (k, [x]) # (k', xs) # rest
      else if k = k' then (k', xs @ [x]) # rest
      else (k', xs) # btree_push k x rest)"

definition group_price_history :: "price_point list \<Rightarrow> outcome_history_response list" where
  "group_price_history points =
     (let by_outcome = fold (\<lambda>p. btree_push (outcome_uuid (pp_outcome_id p))
        \<lparr>ppr_price = as_fraction (pp_price p), ppr_recorded_at = pp_recorded_at p\<rparr>) points []
      in map (\<lambda>(i, ps). \<lparr>ohr_outcome_id = i, ohr_points = ps\<rparr>) by_outcome)"

section \<open>Users\<close>

record user_stats_response =
  usr_total_bets :: int
  usr_wins :: int
  usr_losses :: int
  usr_win_rate :: f64
  usr_total_volume :: int

definition user_stats_response_of :: "user_stats \<Rightarrow> user_stats_response" where
  "user_stats_response_of st = \<lparr>usr_total_bets = us_total_bets st, usr_wins = us_wins st,
     usr_losses = us_losses st, usr_win_rate = win_rate st, usr_total_volume = us_total_volume st\<rparr>"

record private_user_response =
  pvr_id :: uuid
  pvr_username :: str
  pvr_email :: str
  pvr_avatar_url :: "str option"
  pvr_balance :: int
  pvr_role :: str
  pvr_stats :: user_stats_response
  pvr_created_at :: datetime
  pvr_updated_at :: datetime

definition private_user_response_new :: "user \<Rightarrow> user_stats \<Rightarrow> private_user_response" where
  "private_user_response_new u st = \<lparr>pvr_id = user_uuid (u_id u), pvr_username = username_as_str (u_username u),
     pvr_email = email_as_str (u_email u), pvr_avatar_url = u_avatar_url u, pvr_balance = u_balance u,
     pvr_role = role_as_str (u_role u), pvr_stats = user_stats_response_of st,
     pvr_created_at = u_created_at u, pvr_updated_at = u_updated_at u\<rparr>"

record public_user_response =
  pbr_id :: uuid
  pbr_username :: str
  pbr_avatar_url :: "str option"
  pbr_stats :: user_stats_response
  pbr_created_at :: datetime

definition public_user_response_new :: "user \<Rightarrow> user_stats \<Rightarrow> public_user_response" where
  "public_user_response_new u st = \<lparr>pbr_id = user_uuid (u_id u), pbr_username = username_as_str (u_username u),
     pbr_avatar_url = u_avatar_url u, pbr_stats = user_stats_response_of st, pbr_created_at = u_created_at u\<rparr>"

section \<open>Chat\<close>

record message_author =
  ma_id :: uuid
  ma_username :: str
  ma_avatar_url :: "str option"

definition message_author_of_user :: "user \<Rightarrow> message_author" where
  "message_author_of_user u = \<lparr>ma_id = user_uuid (u_id u), ma_username = username_as_str (u_username u),
     ma_avatar_url = u_avatar_url u\<rparr>"

definition message_author_of :: "chat_author \<Rightarrow> message_author" where
  "message_author_of a = \<lparr>ma_id = user_uuid (ca_id a), ma_username = username_as_str (ca_username a),
     ma_avatar_url = ca_avatar_url a\<rparr>"

record quoted_message_response =
  qmr_id :: uuid
  qmr_author :: message_author
  qmr_body :: str

definition quoted_response_of :: "quoted_message \<Rightarrow> quoted_message_response" where
  "quoted_response_of q = \<lparr>qmr_id = message_uuid (qm_id q), qmr_author = message_author_of (qm_author q),
     qmr_body = qm_body q\<rparr>"

definition quoted_response_of_view :: "replied_message \<Rightarrow> quoted_message_response" where
  "quoted_response_of_view q = \<lparr>qmr_id = message_uuid (c_id (rm_message q)),
     qmr_author = message_author_of_user (rm_author q), qmr_body = body_as_str (c_body (rm_message q))\<rparr>"

record reaction_response =
  rr_emoji :: str
  rr_count :: int
  rr_reacted :: bool

definition reaction_response_of :: "reaction_tally \<Rightarrow> reaction_response" where
  "reaction_response_of t = \<lparr>rr_emoji = emoji_as_str (rt_emoji t), rr_count = rt_count t, rr_reacted = rt_reacted t\<rparr>"

record chat_message_response =
  cmr_id :: uuid
  cmr_author :: message_author
  cmr_body :: str
  cmr_reply_to :: "quoted_message_response option"
  cmr_reactions :: "reaction_response list"
  cmr_created_at :: datetime

definition chat_response_of_view :: "chat_message_view \<Rightarrow> chat_message_response" where
  "chat_response_of_view v = \<lparr>cmr_id = message_uuid (c_id (cv_message v)),
     cmr_author = message_author_of_user (cv_author v), cmr_body = body_as_str (c_body (cv_message v)),
     cmr_reply_to = map_option quoted_response_of_view (cv_reply_to v),
     cmr_reactions = map reaction_response_of (cv_reactions v), cmr_created_at = c_created_at (cv_message v)\<rparr>"

definition chat_response_of_broadcast :: "chat_message_broadcast \<Rightarrow> chat_message_response" where
  "chat_response_of_broadcast m = \<lparr>cmr_id = message_uuid (cmb_id m), cmr_author = message_author_of (cmb_author m),
     cmr_body = cmb_body m, cmr_reply_to = map_option quoted_response_of (cmb_reply_to m), cmr_reactions = [],
     cmr_created_at = cmb_created_at m\<rparr>"

section \<open>What responses keep\<close>

text \<open>The price history comes grouped: one entry per outcome, in increasing order of identifier,
  each with exactly its points, in the order they were given.\<close>

lemma btree_push_keys:
  "sorted_wrt (<) (map fst t) \<Longrightarrow> sorted_wrt (<) (map fst (btree_push k x t)) \<and> fst ` set (btree_push k x t) = insert k (fst ` set t)"
proof (induction t)
  case (Cons p t)
  obtain k' xs where p: "p = (k', xs)" by fastforce
  consider "k < k'" | "k = k'" | "k' < k" by fastforce
  then show ?case
  proof cases
    case 1
    then have "\<forall>j\<in>fst ` set t. k < j" using Cons.prems p by (auto dest: order.strict_trans)
    then show ?thesis using Cons.prems p 1 by auto
  next
    case 3
    then have "sorted_wrt (<) (map fst (btree_push k x t))" "fst ` set (btree_push k x t) = insert k (fst ` set t)"
      using Cons by auto
    then show ?thesis using Cons.prems p 3 by auto
  qed (use Cons.prems p in auto)
qed simp

lemma btree_push_lookup:
  "sorted_wrt (<) (map fst t) \<Longrightarrow> map_of (btree_push k x t) j
     = (if j = k then Some ((case map_of t k of None \<Rightarrow> [] | Some xs \<Rightarrow> xs) @ [x]) else map_of t j)"
proof (induction t)
  case (Cons p t)
  obtain k' xs where p: "p = (k', xs)" by fastforce
  have "map_of t k = None" if "k < k'"
    using Cons.prems p that by (auto simp: map_of_eq_None_iff)
  then show ?case using Cons p by auto
qed simp

lemma btree_fold:
  "sorted_wrt (<) (map fst (fold (\<lambda>p. btree_push (k p) (v p)) ps []))
   \<and> fst ` set (fold (\<lambda>p. btree_push (k p) (v p)) ps []) = k ` set ps
   \<and> map_of (fold (\<lambda>p. btree_push (k p) (v p)) ps []) i
     = (if i \<in> k ` set ps then Some (map v (filter (\<lambda>p. k p = i) ps)) else None)"
proof (induction ps rule: rev_induct)
  case (snoc p ps)
  let ?t = "fold (\<lambda>p. btree_push (k p) (v p)) ps []"
  from snoc have t: "sorted_wrt (<) (map fst ?t)" "fst ` set ?t = k ` set ps" by auto
  have "map_of ?t i = (if i \<in> k ` set ps then Some (map v (filter (\<lambda>p. k p = i) ps)) else None)"
    using snoc by auto
  moreover have "filter (\<lambda>q. k q = i) ps = []" if "i \<notin> k ` set ps" using that by (auto simp: filter_empty_conv)
  ultimately show ?case using btree_push_keys [OF t(1), of "k p" "v p"] btree_push_lookup [OF t(1), of "k p" "v p" i] t(2)
    by auto
qed simp

end
