(* ===== verification/Requests.thy ===== *)
theory Requests
  imports Responses "HOL-Library.Word"
begin

unbundle bit_operations_syntax

text \<open>
  What the HTTP API makes of a request before a use case runs: query strings into filters
  (\<open>api/src/routes/bets.rs\<close>, \<open>markets.rs\<close>, \<open>chat.rs\<close>, \<open>internal.rs\<close>), the bearer token and the
  internal key (\<open>api/src/extract.rs\<close>) and the file field of an upload.  Header values are bytes;
  \<open>to_str\<close> is the \<open>http\<close> crate's, an argument.
\<close>

section \<open>Paging\<close>

definition page_max_limit :: int where "page_max_limit = 100"
definition page_default_limit :: int where "page_default_limit = 20"

definition clamp :: "int \<Rightarrow> int \<Rightarrow> int \<Rightarrow> int" where
  "clamp lo hi x = (if x < lo then lo else if hi < x then hi else x)"

definition page_limit :: "int option \<Rightarrow> int" where
  "page_limit limit = clamp 1 page_max_limit (case limit of None \<Rightarrow> page_default_limit | Some l \<Rightarrow> l)"

text \<open>\<open>(page - 1) * limit\<close>, in 64 bits.\<close>

definition page_offset :: "int option \<Rightarrow> int \<Rightarrow> int" where
  "page_offset page limit = (let page = max (case page of None \<Rightarrow> 1 | Some p \<Rightarrow> p) 1 in
     wrap_i64 (wrap_i64 (page - 1) * limit))"

section \<open>Bet listings\<close>

record bet_list_query =
  blq_sort :: "str option"
  blq_status :: "str option"
  blq_page :: "int option"
  blq_limit :: "int option"

definition bet_sort_of :: "str option \<Rightarrow> (bet_sort, app_error) result" where
  "bet_sort_of name = (case name of None \<Rightarrow> Ok BetNewest
     | Some s \<Rightarrow> if s = lit ''newest'' then Ok BetNewest
         else if s = lit ''popular'' then Ok BetPopular
         else Err (Domain (Validation [Lit ''unknown sort: '', TextF s])))"

definition bet_status_of :: "str option \<Rightarrow> (bet_status_filter, app_error) result" where
  "bet_status_of status = (case status of None \<Rightarrow> Ok AnyStatus
     | Some s \<Rightarrow> if s = [] then Ok AnyStatus
         else if s = lit ''settled'' then Ok Settled
         else and_then (map_err Domain (bet_status_from_str s)) (\<lambda>st. Ok (IsStatus st)))"

definition bet_list_filter :: "bet_list_query \<Rightarrow> (bet_filter, app_error) result" where
  "bet_list_filter q =
     and_then (bet_sort_of (blq_sort q)) (\<lambda>order.
     and_then (bet_status_of (blq_status q)) (\<lambda>status.
     let limit = page_limit (blq_limit q) in
     Ok \<lparr>bf_status = status, bf_sort = order, bf_limit = limit, bf_offset = page_offset (blq_page q) limit\<rparr>))"

section \<open>Market listings and price histories\<close>

record list_query =
  lq_sort :: "str option"
  lq_category :: "str option"
  lq_status :: "str option"
  lq_search :: "str option"
  lq_page :: "int option"
  lq_limit :: "int option"

definition invalid :: "message \<Rightarrow> app_error" where
  "invalid m = Domain (Validation m)"

definition market_sort_of :: "str option \<Rightarrow> (market_sort, app_error) result" where
  "market_sort_of name = (case name of None \<Rightarrow> Ok Popular
     | Some s \<Rightarrow> if s = lit ''popular'' then Ok Popular
         else if s = lit ''newest'' then Ok Newest
         else if s = lit ''volume'' then Ok Volume
         else if s = lit ''closing_soon'' then Ok ClosingSoon
         else Err (invalid [Lit ''unknown sort: '', TextF s]))"

definition not_empty :: "str option \<Rightarrow> str option" where
  "not_empty v = (case v of None \<Rightarrow> None | Some s \<Rightarrow> if s = [] then None else Some s)"

definition list_filter :: "list_query \<Rightarrow> (market_filter, app_error) result" where
  "list_filter q =
     and_then (market_sort_of (lq_sort q)) (\<lambda>order.
     and_then (case lq_status q of None \<Rightarrow> Ok None
       | Some s \<Rightarrow> and_then (map_err Domain (market_status_from_str s)) (\<lambda>st. Ok (Some st))) (\<lambda>status.
     let limit = page_limit (lq_limit q) in
     Ok \<lparr>mf_sort = order, mf_category = not_empty (lq_category q), mf_status = status,
         mf_search = not_empty (lq_search q), mf_limit = limit, mf_offset = page_offset (lq_page q) limit\<rparr>))"

record price_history_params =
  php_interval :: "str option"
  php_from :: "datetime option"
  php_to :: "datetime option"

definition price_interval_of :: "str option \<Rightarrow> (price_interval, app_error) result" where
  "price_interval_of interval = (case interval of None \<Rightarrow> Ok Minute
     | Some s \<Rightarrow> if s = lit ''1m'' \<or> s = lit ''minute'' then Ok Minute
         else if s = lit ''1h'' \<or> s = lit ''hour'' then Ok Hour
         else if s = lit ''1d'' \<or> s = lit ''day'' then Ok Day
         else Err (invalid [Lit ''unknown interval: '', TextF s]))"

definition price_history_query_of :: "price_history_params \<Rightarrow> (price_history_query, app_error) result" where
  "price_history_query_of p = and_then (price_interval_of (php_interval p)) (\<lambda>interval.
     Ok \<lparr>phq_interval = interval, phq_from = php_from p, phq_to = php_to p\<rparr>)"

section \<open>Credentials\<close>

record parts =
  pt_authorization :: "nat list option"
  pt_internal_key :: "nat list option"

definition current_user :: "(nat list \<Rightarrow> str option) \<Rightarrow> access_tokens \<Rightarrow> parts \<Rightarrow> (access_claims, app_error) result" where
  "current_user to_str tokens parts =
     (let token = Option.bind (Option.bind (pt_authorization parts) to_str) (strip_prefix (lit ''Bearer '')) in
     and_then (ok_or token (Unauthorized (msg ''missing bearer token''))) (\<lambda>token.
     map_err app_of_auth (at_verify tokens token)))"

text \<open>The byte-wise comparison of two keys, in 8-bit words.\<close>

definition constant_time_eq :: "8 word list \<Rightarrow> 8 word list \<Rightarrow> bool" where
  "constant_time_eq a b = (if length a \<noteq> length b then False
     else fold (\<lambda>(x, y) acc. acc OR (x XOR y)) (zip a b) 0 = 0)"

definition internal_auth :: "(nat list \<Rightarrow> str option) \<Rightarrow> (str \<Rightarrow> 8 word list) \<Rightarrow> str option \<Rightarrow> parts
    \<Rightarrow> (unit, app_error) result" where
  "internal_auth to_str as_bytes api_key parts = (case api_key of
     None \<Rightarrow> Err (Forbidden (msg ''internal API is disabled''))
   | Some expected \<Rightarrow>
       and_then (ok_or (Option.bind (pt_internal_key parts) to_str)
         (Forbidden (msg ''missing or malformed internal API key''))) (\<lambda>provided.
       if \<not> constant_time_eq (as_bytes provided) (as_bytes expected)
       then Err (Forbidden (msg ''invalid internal API key'')) else Ok ()))"

section \<open>Uploads\<close>

text \<open>The fields of a multipart body as they are read: a field, or the error of reading on.\<close>

record upload_field =
  uf_name :: "str option"
  uf_content_type :: "str option"
  uf_bytes :: "(nat list, message) result"

fun multipart_file :: "(upload_field, message) result list \<Rightarrow> (str \<times> nat list, app_error) result" where
  "multipart_file [] = Err (invalid (msg ''missing `file` field''))"
| "multipart_file (next # rest) =
     and_then (map_err (\<lambda>e. invalid (Lit ''invalid multipart body: '' # e)) next) (\<lambda>field.
     if uf_name field = Some (lit ''file'')
     then and_then (map_err (\<lambda>e. invalid (Lit ''failed to read `file` field: '' # e)) (uf_bytes field)) (\<lambda>bytes.
       Ok (case uf_content_type field of None \<Rightarrow> [] | Some t \<Rightarrow> t, bytes))
     else multipart_file rest)"

section \<open>Keys\<close>

lemma or_xor_zero: "a OR (x XOR y) = 0 \<longleftrightarrow> a = 0 \<and> x = (y::'a::len word)"
proof -
  have "x XOR y = 0 \<longleftrightarrow> x = y" by (auto simp: bit_eq_iff bit_simps)
  moreover have "a OR b = 0 \<longleftrightarrow> a = 0 \<and> b = 0" for b by (auto simp: bit_eq_iff bit_simps)
  ultimately show ?thesis by simp
qed

lemma fold_or_zero:
  "fold (\<lambda>(x, y) acc. acc OR (x XOR y)) ps (a::'a::len word) = 0 \<longleftrightarrow> a = 0 \<and> (\<forall>(x, y)\<in>set ps. x = y)"
proof (induction ps arbitrary: a)
  case (Cons p ps)
  show ?case using Cons by (cases p) (auto simp: or_xor_zero)
qed simp

lemma constant_time_eq_iff: "constant_time_eq a b \<longleftrightarrow> a = b"
  by (auto simp: constant_time_eq_def fold_or_zero list_eq_iff_zip_eq)

lemma internal_auth_Err:
  "internal_auth to_str as_bytes api_key parts = Err e \<Longrightarrow> \<exists>m. e = Forbidden m"
  by (cases api_key; cases "Option.bind (pt_internal_key parts) to_str")
    (auto simp: internal_auth_def split: if_splits)

lemma internal_auth_not_Panic: "internal_auth to_str as_bytes api_key parts \<noteq> Panic"
  by (cases api_key; cases "Option.bind (pt_internal_key parts) to_str") (auto simp: internal_auth_def)

text \<open>The internal API is guarded by equality with the configured key: a request passes exactly
  when a key is configured and the header is there, readable, and byte for byte that key; the
  comparison that takes the same steps whatever the bytes are decides plain equality.\<close>

theorem internal_auth_exact:
  "(internal_auth to_str as_bytes api_key parts = Ok () \<longleftrightarrow>
     (\<exists>expected header provided. api_key = Some expected \<and> pt_internal_key parts = Some header
       \<and> to_str header = Some provided \<and> as_bytes provided = as_bytes expected))
   \<and> (\<forall>e. internal_auth to_str as_bytes api_key parts = Err e \<longrightarrow> (\<exists>m. e = Forbidden m))
   \<and> internal_auth to_str as_bytes api_key parts \<noteq> Panic"
  by (cases api_key; cases "Option.bind (pt_internal_key parts) to_str")
    (auto simp: internal_auth_def constant_time_eq_iff bind_eq_Some_conv split: if_splits)

lemma internal_auth_exact_witness:
  "internal_auth Some (map of_nat) (Some (lit ''key'')) \<lparr>pt_authorization = None, pt_internal_key = Some (lit ''key'')\<rparr> = Ok ()
   \<and> (\<exists>m. internal_auth Some (map of_nat) (Some (lit ''key'')) \<lparr>pt_authorization = None, pt_internal_key = None\<rparr> = Err (Forbidden m))"
proof
  show "internal_auth Some (map of_nat) (Some (lit ''key'')) \<lparr>pt_authorization = None, pt_internal_key = Some (lit ''key'')\<rparr> = Ok ()"
    by (simp add: internal_auth_exact)
  show "\<exists>m. internal_auth Some (map of_nat) (Some (lit ''key'')) \<lparr>pt_authorization = None, pt_internal_key = None\<rparr> = Err (Forbidden m)"
    using internal_auth_exact [of Some "map of_nat" "Some (lit ''key'')" "\<lparr>pt_authorization = None, pt_internal_key = None\<rparr>"]
    by (cases "internal_auth Some (map of_nat) (Some (lit ''key'')) \<lparr>pt_authorization = None, pt_internal_key = None\<rparr>") auto
qed

section \<open>Pages\<close>

text \<open>A page query is taken for what it says: the limit is between 1 and 100, and the offset skips
  exactly the pages before it as long as their rows fit in 64 bits; the smallest page past that wraps
  to a negative offset.\<close>

theorem page_offset_exact:
  "1 \<le> page_limit limit \<and> page_limit limit \<le> 100
   \<and> (page_offset None (page_limit limit) = 0)
   \<and> (\<forall>p. (max p 1 - 1) * page_limit limit \<le> i64_max \<longrightarrow>
        page_offset (Some p) (page_limit limit) = (max p 1 - 1) * page_limit limit)
   \<and> page_offset (Some 92233720368547760) (page_limit (Some 100)) < 0"
proof (intro conjI allI impI)
  show l: "1 \<le> page_limit limit" "page_limit limit \<le> 100"
    by (auto simp: page_limit_def clamp_def page_max_limit_def)
  show "page_offset None (page_limit limit) = 0"
    by (simp add: page_offset_def wrap_i64_id in_i64_def i64_min_def i64_max_def)
  show "page_offset (Some p) (page_limit limit) = (max p 1 - 1) * page_limit limit"
    if "(max p 1 - 1) * page_limit limit \<le> i64_max" for p
  proof -
    have z: "0 \<le> max p 1 - 1" by simp
    have "max p 1 - 1 \<le> (max p 1 - 1) * page_limit limit"
      using mult_left_mono [OF l(1) z] by simp
    then have "in_i64 (max p 1 - 1)" "in_i64 ((max p 1 - 1) * page_limit limit)"
      using that z l by (auto simp: in_i64_def i64_min_def)
    then show ?thesis by (simp add: page_offset_def Let_def wrap_i64_id)
  qed
  show "page_offset (Some 92233720368547760) (page_limit (Some 100)) < 0"
    by code_simp
qed

lemma page_offset_exact_witness: "page_offset (Some 3) (page_limit (Some 250)) = 200"
proof -
  have "page_limit (Some 250) = 100" by (simp add: page_limit_def clamp_def page_max_limit_def)
  then show ?thesis using page_offset_exact [of "Some 250"] by (simp add: i64_max_def)
qed

end
