(* ===== verification/Endpoints.thy ===== *)
theory Endpoints
  imports Requests MemBets MemChat
begin

text \<open>
  The HTTP handlers (\<open>api/src/routes/*.rs\<close>) over the use cases: what each extracts from the request,
  the use case it runs, the status and the body it answers with.  An error is answered by
  \<open>error_response\<close>.  Decoding of paths, queries and JSON bodies is the web framework's; a handler
  takes them decoded.
\<close>

section \<open>What the handlers are built with\<close>

record 's app =
  ap_users :: "'s user_repo"
  ap_tokens :: "'s token_repo"
  ap_uow :: "'s unit_of_work"
  ap_markets :: "'s market_repo"
  ap_bets :: "'s bet_repo"
  ap_chat :: "'s chat_repo"
  ap_storage :: "'s file_storage"
  ap_hasher :: password_hasher
  ap_sessions :: session_issuer
  ap_digest :: "str \<Rightarrow> str"
  ap_cookie_secure :: bool
  ap_api_key :: "str option"
  ap_lc :: case_table
  ap_uf :: uuid_format
  ap_to_str :: "nat list \<Rightarrow> str option"
  ap_as_bytes :: "str \<Rightarrow> 8 word list"

type_synonym ('s, 'b) endpoint = "('s, nat \<times> 'b, app_error) cmd"

text \<open>A handler that takes a \<open>CurrentUser\<close>, and one behind the internal key.\<close>

definition authed :: "'s app \<Rightarrow> parts \<Rightarrow> (access_claims \<Rightarrow> ('s, 'a, app_error) cmd) \<Rightarrow> ('s, 'a, app_error) cmd" where
  "authed app parts body =
     bind_cmd (lift (current_user (ap_to_str app) (si_access_tokens (ap_sessions app)) parts)) body"

definition internal :: "'s app \<Rightarrow> parts \<Rightarrow> ('s, 'a, app_error) cmd \<Rightarrow> ('s, 'a, app_error) cmd" where
  "internal app parts body =
     seq_cmd (lift (internal_auth (ap_to_str app) (ap_as_bytes app) (ap_api_key app) parts)) body"

text \<open>The whole answer: the status and either the body or the error text.\<close>

definition answer :: "('s, 'b) endpoint \<Rightarrow> 's \<Rightarrow> ((nat \<times> ('b + message)) option \<times> 's)" where
  "answer h s = (case h s of
     (Ok (status, body), t) \<Rightarrow> (Some (status, Inl body), t)
   | (Err e, t) \<Rightarrow> (Some (status_of e, Inr (show_app_error e)), t)
   | (Panic, t) \<Rightarrow> (None, t))"

section \<open>Accounts and sessions\<close>

record cookie =
  ck_name :: str
  ck_value :: str
  ck_path :: str
  ck_http_only :: bool
  ck_same_site :: str
  ck_secure :: bool
  ck_max_age :: "int option"

definition refresh_cookie_name :: str where "refresh_cookie_name = lit ''refresh_token''"
definition refresh_cookie_path :: str where "refresh_cookie_path = lit ''/api/auth''"

text \<open>\<open>to_std().unwrap_or_default()\<close>: a negative age is zero.\<close>

definition refresh_cookie :: "auth_session \<Rightarrow> datetime \<Rightarrow> bool \<Rightarrow> cookie" where
  "refresh_cookie session now secure = \<lparr>ck_name = refresh_cookie_name, ck_value = as_refresh_token session,
     ck_path = refresh_cookie_path, ck_http_only = True, ck_same_site = lit ''Lax'',
     ck_secure = secure,
     ck_max_age = Some (max 0 (as_refresh_expires_at session - now))\<rparr>"

definition removal_cookie :: cookie where
  "removal_cookie = \<lparr>ck_name = refresh_cookie_name, ck_value = [], ck_path = refresh_cookie_path,
     ck_http_only = False, ck_same_site = [],
     ck_secure = False, ck_max_age = Some 0\<rparr>"

record auth_response =
  ar_access_token :: str
  ar_user :: private_user_response

definition auth_response_of :: "'s app \<Rightarrow> auth_session \<Rightarrow> ('s, auth_response, app_error) cmd" where
  "auth_response_of app session =
     bind_cmd (get_user_stats (ap_bets app) (u_id (as_user session))) (\<lambda>stats.
     ret \<lparr>ar_access_token = as_access_token session, ar_user = private_user_response_new (as_user session) stats\<rparr>)"

definition register_endpoint :: "'s app \<Rightarrow> uuid \<Rightarrow> datetime \<Rightarrow> draws \<Rightarrow> register_input
    \<Rightarrow> ('s, cookie \<times> auth_response) endpoint" where
  "register_endpoint app fresh now dr body =
     bind_cmd (register (ap_lc app) (ap_uow app) (ap_hasher app) (ap_sessions app) (ap_digest app) fresh now dr body) (\<lambda>session.
     bind_cmd (auth_response_of app session) (\<lambda>response.
     ret (201, refresh_cookie session now (ap_cookie_secure app), response)))"

definition login_endpoint :: "'s app \<Rightarrow> datetime \<Rightarrow> draws \<Rightarrow> login_input \<Rightarrow> ('s, cookie \<times> auth_response) endpoint" where
  "login_endpoint app now dr body =
     bind_cmd (login (ap_lc app) (ap_users app) (ap_tokens app) (ap_hasher app) (ap_sessions app) (ap_digest app) dr body) (\<lambda>session.
     bind_cmd (auth_response_of app session) (\<lambda>response.
     ret (200, refresh_cookie session now (ap_cookie_secure app), response)))"

text \<open>\<open>jar\<close> is the value of the refresh cookie the request carries.\<close>

definition refresh_endpoint :: "'s app \<Rightarrow> datetime \<Rightarrow> draws \<Rightarrow> str option \<Rightarrow> ('s, cookie \<times> auth_response) endpoint" where
  "refresh_endpoint app now dr jar =
     bind_cmd (lift (ok_or jar (Unauthorized (msg ''missing refresh token'')))) (\<lambda>token.
     bind_cmd (refresh (ap_uow app) (ap_sessions app) (ap_digest app) now dr token) (\<lambda>session.
     bind_cmd (auth_response_of app session) (\<lambda>response.
     ret (200, refresh_cookie session now (ap_cookie_secure app), response))))"

definition logout_endpoint :: "'s app \<Rightarrow> str option \<Rightarrow> ('s, cookie) endpoint" where
  "logout_endpoint app jar =
     seq_cmd (case jar of None \<Rightarrow> ret () | Some token \<Rightarrow> logout (ap_tokens app) (ap_digest app) token)
       (ret (204, removal_cookie))"

section \<open>Bets\<close>

record place_bet_request =
  pbq_outcome_id :: uuid
  pbq_amount :: int

definition place_bet_endpoint :: "'s app \<Rightarrow> clock \<Rightarrow> uuid \<Rightarrow> parts \<Rightarrow> place_bet_request \<Rightarrow> ('s, bet_response) endpoint" where
  "place_bet_endpoint app clock fresh parts body = authed app parts (\<lambda>claims.
     bind_cmd (place_bet (ap_markets app) (ap_bets app) (ap_users app) clock fresh (actor_of_claims claims)
       \<lparr>nb_outcome_id = OutcomeId (pbq_outcome_id body), nb_amount = pbq_amount body\<rparr>) (\<lambda>view.
     ret (201, bet_response_of view)))"

definition get_feed_endpoint :: "'s app \<Rightarrow> bet_list_query \<Rightarrow> ('s, bet_response list) endpoint" where
  "get_feed_endpoint app query =
     bind_cmd (lift (bet_list_filter query)) (\<lambda>f.
     bind_cmd (list_bet_feed (ap_bets app) (ap_markets app) (ap_users app) f) (\<lambda>views.
     ret (200, to_responses views)))"

section \<open>Markets\<close>

definition get_markets_endpoint :: "'s app \<Rightarrow> list_query \<Rightarrow> ('s, market_response list) endpoint" where
  "get_markets_endpoint app query =
     bind_cmd (lift (list_filter query)) (\<lambda>f.
     bind_cmd (list_markets (ap_markets app) f) (\<lambda>views.
     ret (200, map market_response_of views)))"

definition get_featured_endpoint :: "'s app \<Rightarrow> ('s, market_response) endpoint" where
  "get_featured_endpoint app =
     bind_cmd (get_featured_market (ap_markets app)) (\<lambda>view. ret (200, market_response_of view))"

definition get_market_endpoint :: "'s app \<Rightarrow> uuid \<Rightarrow> ('s, market_response) endpoint" where
  "get_market_endpoint app i =
     bind_cmd (get_market (ap_markets app) (MarketId i)) (\<lambda>view. ret (200, market_response_of view))"

definition price_history_endpoint :: "'s app \<Rightarrow> uuid \<Rightarrow> price_history_params
    \<Rightarrow> ('s, outcome_history_response list) endpoint" where
  "price_history_endpoint app i params =
     bind_cmd (lift (price_history_query_of params)) (\<lambda>query.
     bind_cmd (get_price_history (ap_markets app) (MarketId i) query) (\<lambda>points.
     ret (200, group_price_history points)))"

definition market_bets_endpoint :: "'s app \<Rightarrow> uuid \<Rightarrow> bet_list_query \<Rightarrow> ('s, bet_response list) endpoint" where
  "market_bets_endpoint app i query =
     bind_cmd (lift (bet_list_filter query)) (\<lambda>f.
     bind_cmd (list_market_bets (ap_bets app) (ap_markets app) (ap_users app) (MarketId i) f) (\<lambda>views.
     ret (200, to_responses views)))"

definition create_market_endpoint :: "'s app \<Rightarrow> clock \<Rightarrow> uuid \<Rightarrow> (nat \<Rightarrow> uuid) \<Rightarrow> parts \<Rightarrow> new_market
    \<Rightarrow> ('s, market_response) endpoint" where
  "create_market_endpoint app clock fresh ids parts body = authed app parts (\<lambda>claims.
     bind_cmd (create_market (ap_markets app) clock fresh ids (actor_of_claims claims) body) (\<lambda>view.
     ret (201, market_response_of view)))"

definition resolve_market_endpoint :: "'s app \<Rightarrow> clock \<Rightarrow> parts \<Rightarrow> uuid \<Rightarrow> uuid \<Rightarrow> ('s, market_response) endpoint" where
  "resolve_market_endpoint app clock parts i winning = authed app parts (\<lambda>claims.
     bind_cmd (resolve_market (ap_markets app) (ap_bets app) clock (actor_of_claims claims) (MarketId i) (OutcomeId winning)) (\<lambda>view.
     ret (200, market_response_of view)))"

definition upload_thumbnail_endpoint :: "'s app \<Rightarrow> int \<Rightarrow> parts \<Rightarrow> uuid \<Rightarrow> (upload_field, message) result list
    \<Rightarrow> ('s, market_response) endpoint" where
  "upload_thumbnail_endpoint app stamp parts i multipart = authed app parts (\<lambda>claims.
     bind_cmd (lift (multipart_file multipart)) (\<lambda>(content_type, bytes).
     bind_cmd (upload_market_thumbnail (ap_uf app) (ap_markets app) (ap_storage app) stamp (actor_of_claims claims)
       (MarketId i) content_type bytes) (\<lambda>view.
     ret (200, market_response_of view))))"

definition upload_outcome_thumbnail_endpoint :: "'s app \<Rightarrow> int \<Rightarrow> parts \<Rightarrow> uuid \<Rightarrow> uuid
    \<Rightarrow> (upload_field, message) result list \<Rightarrow> ('s, market_response) endpoint" where
  "upload_outcome_thumbnail_endpoint app stamp parts i oid multipart = authed app parts (\<lambda>claims.
     bind_cmd (lift (multipart_file multipart)) (\<lambda>(content_type, bytes).
     bind_cmd (upload_outcome_thumbnail (ap_uf app) (ap_markets app) (ap_storage app) stamp (actor_of_claims claims)
       (MarketId i) (OutcomeId oid) content_type bytes) (\<lambda>view.
     ret (200, market_response_of view))))"

section \<open>Users\<close>

definition get_me_endpoint :: "'s app \<Rightarrow> parts \<Rightarrow> ('s, private_user_response) endpoint" where
  "get_me_endpoint app parts = authed app parts (\<lambda>claims.
     bind_cmd (get_user (ap_users app) (user_uuid (ac_user_id claims))) (\<lambda>user.
     bind_cmd (get_user_stats (ap_bets app) (u_id user)) (\<lambda>stats.
     ret (200, private_user_response_new user stats))))"

definition get_user_endpoint :: "'s app \<Rightarrow> uuid \<Rightarrow> ('s, public_user_response) endpoint" where
  "get_user_endpoint app i =
     bind_cmd (get_user (ap_users app) i) (\<lambda>user.
     bind_cmd (get_user_stats (ap_bets app) (u_id user)) (\<lambda>stats.
     ret (200, public_user_response_new user stats)))"

definition user_bets_endpoint :: "'s app \<Rightarrow> uuid \<Rightarrow> bet_list_query \<Rightarrow> ('s, bet_response list) endpoint" where
  "user_bets_endpoint app i query =
     bind_cmd (lift (bet_list_filter query)) (\<lambda>f.
     bind_cmd (list_user_bets (ap_bets app) (ap_markets app) (ap_users app) (UserId i) f) (\<lambda>views.
     ret (200, to_responses views)))"

definition upload_avatar_endpoint :: "'s app \<Rightarrow> int \<Rightarrow> datetime \<Rightarrow> parts \<Rightarrow> (upload_field, message) result list
    \<Rightarrow> ('s, private_user_response) endpoint" where
  "upload_avatar_endpoint app stamp now parts multipart = authed app parts (\<lambda>claims.
     bind_cmd (lift (multipart_file multipart)) (\<lambda>(content_type, bytes).
     bind_cmd (upload_avatar (ap_uf app) (ap_users app) (ap_storage app) stamp now (ac_user_id claims) content_type bytes) (\<lambda>user.
     bind_cmd (get_user_stats (ap_bets app) (u_id user)) (\<lambda>stats.
     ret (200, private_user_response_new user stats)))))"

section \<open>Chat, files and the internal API\<close>

definition history_limit :: int where "history_limit = 50"

record history_query =
  hq_market_id :: "uuid option"
  hq_before_uuid :: "uuid option"
  hq_after_uuid :: "uuid option"

definition get_messages_endpoint :: "'s app \<Rightarrow> parts \<Rightarrow> history_query \<Rightarrow> ('s, chat_message_response list) endpoint" where
  "get_messages_endpoint app parts query = authed app parts (\<lambda>claims.
     bind_cmd (list_recent_messages (ap_chat app) (ap_users app) (ap_markets app) (ac_user_id claims)
       (channel_of (map_option MarketId (hq_market_id query))) history_limit
       \<lparr>hw_before = map_option MessageId (hq_before_uuid query), hw_after = map_option MessageId (hq_after_uuid query)\<rparr>) (\<lambda>views.
     ret (200, map chat_response_of_view views)))"

text \<open>A file is answered with its headers.\<close>

definition cache_control :: str where "cache_control = lit ''public, max-age=86400''"

definition get_file_endpoint :: "'s app \<Rightarrow> str \<Rightarrow> str \<Rightarrow> ('s, (str \<times> str) list \<times> nat list) endpoint" where
  "get_file_endpoint app folder name =
     bind_cmd (get_file (ap_storage app) (folder @ lit ''/'' @ name)) (\<lambda>file.
     ret (200, [(lit ''content-type'', sf_content_type file), (lit ''cache-control'', cache_control)], sf_bytes file))"

definition update_user_input_of :: "str option \<Rightarrow> (update_user_input, domain_error) result" where
  "update_user_input_of role = (case role of None \<Rightarrow> Ok \<lparr>uu_role = None\<rparr>
     | Some r \<Rightarrow> and_then (role_from_str r) (\<lambda>r. Ok \<lparr>uu_role = Some r\<rparr>))"

definition update_user_endpoint :: "'s app \<Rightarrow> datetime \<Rightarrow> parts \<Rightarrow> uuid \<Rightarrow> str option
    \<Rightarrow> ('s, private_user_response) endpoint" where
  "update_user_endpoint app now parts i role = internal app parts (
     bind_cmd (lift (map_err Domain (update_user_input_of role))) (\<lambda>input.
     bind_cmd (update_user (ap_users app) now i input) (\<lambda>user.
     bind_cmd (get_user_stats (ap_bets app) (u_id user)) (\<lambda>stats.
     ret (200, private_user_response_new user stats)))))"

section \<open>The guards\<close>

text \<open>The endpoints of the API as one type, each with its request.\<close>

datatype protected =
    PlaceBetEp clock uuid place_bet_request
  | CreateMarketEp clock uuid "nat \<Rightarrow> uuid" new_market
  | ResolveMarketEp clock uuid uuid
  | MarketThumbnailEp int uuid "(upload_field, message) result list"
  | OutcomeThumbnailEp int uuid uuid "(upload_field, message) result list"
  | MeEp
  | AvatarEp int datetime "(upload_field, message) result list"
  | MessagesEp history_query

text \<open>Only the error of a protected endpoint, whatever its body is.\<close>

definition refusal :: "('s, 'b) endpoint \<Rightarrow> 's \<Rightarrow> app_error option \<times> 's" where
  "refusal h s = (case h s of (Err e, t) \<Rightarrow> (Some e, t) | (_, t) \<Rightarrow> (None, t))"

fun run_protected :: "'s app \<Rightarrow> parts \<Rightarrow> protected \<Rightarrow> 's \<Rightarrow> app_error option \<times> 's" where
  "run_protected app parts (PlaceBetEp c f b) = refusal (place_bet_endpoint app c f parts b)"
| "run_protected app parts (CreateMarketEp c f ids b) = refusal (create_market_endpoint app c f ids parts b)"
| "run_protected app parts (ResolveMarketEp c i w) = refusal (resolve_market_endpoint app c parts i w)"
| "run_protected app parts (MarketThumbnailEp st i m) = refusal (upload_thumbnail_endpoint app st parts i m)"
| "run_protected app parts (OutcomeThumbnailEp st i oc m) = refusal (upload_outcome_thumbnail_endpoint app st parts i oc m)"
| "run_protected app parts MeEp = refusal (get_me_endpoint app parts)"
| "run_protected app parts (AvatarEp st now m) = refusal (upload_avatar_endpoint app st now parts m)"
| "run_protected app parts (MessagesEp q) = refusal (get_messages_endpoint app parts q)"

lemma authed_refused:
  assumes "current_user (ap_to_str app) (si_access_tokens (ap_sessions app)) parts = Err e"
  shows "refusal (authed app parts body) s = (Some e, s)"
  using assms by (simp add: refusal_def authed_def bind_cmd_def lift_def)

lemma protected_refused:
  assumes "current_user (ap_to_str app) (si_access_tokens (ap_sessions app)) parts = Err e"
  shows "run_protected app parts ep s = (Some e, s)"
  by (cases ep) (simp_all add: place_bet_endpoint_def create_market_endpoint_def resolve_market_endpoint_def
      upload_thumbnail_endpoint_def upload_outcome_thumbnail_endpoint_def get_me_endpoint_def
      upload_avatar_endpoint_def get_messages_endpoint_def authed_refused [OF assms])

lemma no_bearer:
  assumes "Option.bind (Option.bind (pt_authorization parts) to_str) (strip_prefix (lit ''Bearer '')) = None"
  shows "current_user to_str tokens parts = Err (Unauthorized (msg ''missing bearer token''))"
  using assms by (simp add: current_user_def)

lemma internal_refused:
  assumes "internal_auth (ap_to_str app) (ap_as_bytes app) (ap_api_key app) parts = Err e"
  shows "update_user_endpoint app now parts i role s = (Err e, s)"
  using assms by (simp add: update_user_endpoint_def internal_def seq_cmd_def bind_cmd_def lift_def)

text \<open>C33: No protected endpoint runs without its credential: whichever endpoint takes a user, a request
  whose bearer token is missing, unreadable or refused by the verifier is answered with that error and
  changes nothing, 401 when the token is missing or invalid; and the internal endpoint, whatever
  is asked of it, answers 403 and changes nothing unless the key check passes.\<close>

theorem api_guards:
  "(\<forall>e. current_user (ap_to_str app) (si_access_tokens (ap_sessions app)) parts = Err e \<longrightarrow>
      run_protected app parts ep s = (Some e, s))
   \<and> (Option.bind (Option.bind (pt_authorization parts) (ap_to_str app)) (strip_prefix (lit ''Bearer '')) = None \<longrightarrow>
      run_protected app parts ep s = (Some (Unauthorized (msg ''missing bearer token'')), s))
   \<and> (\<forall>token. Option.bind (Option.bind (pt_authorization parts) (ap_to_str app)) (strip_prefix (lit ''Bearer '')) = Some token
      \<and> at_verify (si_access_tokens (ap_sessions app)) token = Err InvalidToken \<longrightarrow>
      (\<exists>e. run_protected app parts ep s = (Some e, s) \<and> status_of e = 401))
   \<and> (internal_auth (ap_to_str app) (ap_as_bytes app) (ap_api_key app) parts \<noteq> Ok () \<longrightarrow>
      (\<exists>e. update_user_endpoint app now parts i role s = (Err e, s) \<and> status_of e = 403))"
proof (intro conjI allI impI)
  fix token
  assume "Option.bind (Option.bind (pt_authorization parts) (ap_to_str app)) (strip_prefix (lit ''Bearer '')) = Some token
    \<and> at_verify (si_access_tokens (ap_sessions app)) token = Err InvalidToken"
  then have "current_user (ap_to_str app) (si_access_tokens (ap_sessions app)) parts = Err (app_of_auth InvalidToken)"
    by (simp add: current_user_def)
  then show "\<exists>e. run_protected app parts ep s = (Some e, s) \<and> status_of e = 401"
    by (simp add: protected_refused)
next
  assume "internal_auth (ap_to_str app) (ap_as_bytes app) (ap_api_key app) parts \<noteq> Ok ()"
  then obtain e where e: "internal_auth (ap_to_str app) (ap_as_bytes app) (ap_api_key app) parts = Err e"
    and "\<exists>m. e = Forbidden m"
    by (cases "internal_auth (ap_to_str app) (ap_as_bytes app) (ap_api_key app) parts")
      (auto dest: internal_auth_Err simp: internal_auth_not_Panic)
  then show "\<exists>e. update_user_endpoint app now parts i role s = (Err e, s) \<and> status_of e = 403"
    using internal_refused [OF e] by auto
qed (auto simp: protected_refused no_bearer)

definition sample_app :: "unit world app" where
  "sample_app = \<lparr>ap_users = mem_user_repo, ap_tokens = mem_token_repo, ap_uow = mem_unit_of_work,
     ap_markets = mem_market_repo (\<lambda>_ _. []), ap_bets = mem_bet_repo None, ap_chat = mem_chat_repo None,
     ap_storage = \<lparr>fs_put = (\<lambda>_ _. ret ()), fs_get = (\<lambda>_. ret None), fs_delete = (\<lambda>_. ret ()), fs_public_url = id\<rparr>,
     ap_hasher = \<lparr>ph_hash = (\<lambda>p. Ok (PasswordHash (password_as_str p))), ph_verify = (\<lambda>_ _. Ok True)\<rparr>,
     ap_sessions = \<lparr>si_access_tokens = \<lparr>at_issue = (\<lambda>_ _. Ok (lit ''jwt'')), at_verify = (\<lambda>_. Err InvalidToken)\<rparr>,
       si_refresh_ttl = 100\<rparr>,
     ap_digest = id, ap_cookie_secure = True, ap_api_key = Some (lit ''key''), ap_lc = (\<lambda>_ _. []),
     ap_uf = undefined, ap_to_str = Some, ap_as_bytes = map of_nat\<rparr>"

definition sample_parts :: parts where
  "sample_parts = \<lparr>pt_authorization = Some (lit ''Bearer nonsense''), pt_internal_key = Some (lit ''kez'')\<rparr>"

lemma api_guards_witness:
  "\<forall>s. (\<exists>e. run_protected sample_app sample_parts (ResolveMarketEp (\<lambda>_. 0) 1 2) s = (Some e, s) \<and> status_of e = 401)
   \<and> (\<exists>e. update_user_endpoint sample_app 0 sample_parts 1 (Some (lit ''admin'')) s = (Err e, s) \<and> status_of e = 403)"
proof
  fix s
  have bearer: "Option.bind (Option.bind (pt_authorization sample_parts) (ap_to_str sample_app))
      (strip_prefix (lit ''Bearer '')) = Some (lit ''nonsense'')"
    by (simp add: sample_parts_def sample_app_def lit_def)
  have verify: "at_verify (si_access_tokens (ap_sessions sample_app)) (lit ''nonsense'') = Err InvalidToken"
    by (simp add: sample_app_def)
  have key: "internal_auth (ap_to_str sample_app) (ap_as_bytes sample_app) (ap_api_key sample_app) sample_parts \<noteq> Ok ()"
    by (simp add: sample_parts_def sample_app_def internal_auth_def constant_time_eq_iff lit_def)
  show "(\<exists>e. run_protected sample_app sample_parts (ResolveMarketEp (\<lambda>_. 0) 1 2) s = (Some e, s) \<and> status_of e = 401)
   \<and> (\<exists>e. update_user_endpoint sample_app 0 sample_parts 1 (Some (lit ''admin'')) s = (Err e, s) \<and> status_of e = 403)"
    using api_guards [of sample_app sample_parts "ResolveMarketEp (\<lambda>_. 0) 1 2" s 0 1 "Some (lit ''admin'')"]
      bearer verify key by auto
qed

end
