(* ===== verification/Socket.thy ===== *)
theory Socket
  imports Responses
begin

text \<open>
  The WebSocket endpoint (\<open>api/src/routes/ws/*.rs\<close>): wire channel names, the frames both
  directions speak, joining a channel and the handling of one client frame.  The socket is a
  sender that may find the connection gone; JSON is the web framework's, so the encoding of a
  frame is a parameter and a client frame comes decoded, or not at all.
\<close>

section \<open>Wire channel names\<close>

datatype wire_channel = ChatWire chat_channel | BetsWire bet_feed | MarketFeed market_id

definition hint :: message where
  "hint = [Lit ''expected {\"type\": \"subscribe|unsubscribe|chat_message\", \"channel\": \"global_chat\" | \"market_chat:<id>\" | \"market:<id>\" | \"market_bets:<id>\" | \"global_bets\", ...} or {\"type\": \"add_reaction|remove_reaction\", \"message_id\": \"<id>\", \"emoji\": \"'',
     TextF [128077], Lit ''\"}'']"

definition parse_wire :: "uuid_format \<Rightarrow> str \<Rightarrow> wire_channel option" where
  "parse_wire uf name =
     (if name = lit ''global_chat'' then Some (ChatWire Global)
      else if name = lit ''global_bets'' then Some (BetsWire BetsGlobal)
      else case strip_prefix (lit ''market_chat:'') name of
        Some i \<Rightarrow> map_option (\<lambda>u. ChatWire (Market (MarketId u))) (uf_parse uf i)
      | None \<Rightarrow> (case strip_prefix (lit ''market_bets:'') name of
          Some i \<Rightarrow> map_option (\<lambda>u. BetsWire (BetsMarket (MarketId u))) (uf_parse uf i)
        | None \<Rightarrow> (case strip_prefix (lit ''market:'') name of
            None \<Rightarrow> None
          | Some i \<Rightarrow> map_option (\<lambda>u. MarketFeed (MarketId u)) (uf_parse uf i))))"

section \<open>Frames\<close>

datatype client_frame =
    Subscribe str
  | Unsubscribe str
  | ChatMessageFrame str str "uuid option"
  | AddReaction uuid str
  | RemoveReaction uuid str

record reaction_update_response =
  rur_message_id :: uuid
  rur_emoji :: str
  rur_count :: int
  rur_user_id :: uuid
  rur_added :: bool

definition reaction_update_of :: "chat_reaction_broadcast \<Rightarrow> reaction_update_response" where
  "reaction_update_of r = \<lparr>rur_message_id = message_uuid (crb_message_id r), rur_emoji = crb_emoji r,
     rur_count = crb_count r, rur_user_id = user_uuid (crb_user_id r), rur_added = crb_added r\<rparr>"

record price_update_response =
  pur_outcome_id :: uuid
  pur_price :: f64
  pur_recorded_at :: datetime

definition price_update_of :: "price_tick \<Rightarrow> price_update_response" where
  "price_update_of t = \<lparr>pur_outcome_id = outcome_uuid (pt_outcome_id t), pur_price = as_fraction (pt_price t),
     pur_recorded_at = pt_recorded_at t\<rparr>"

record bet_placed_response =
  bpr_id :: uuid
  bpr_user_id :: uuid
  bpr_market_id :: uuid
  bpr_outcome_id :: outcome_id
  bpr_amount :: int
  bpr_price :: f64
  bpr_created_at :: datetime

definition bet_placed_of_broadcast :: "bet_placed_broadcast \<Rightarrow> bet_placed_response" where
  "bet_placed_of_broadcast b = \<lparr>bpr_id = bet_uuid (bp_id b), bpr_user_id = user_uuid (bp_user_id b),
     bpr_market_id = market_uuid (bp_market_id b), bpr_outcome_id = bp_outcome_id b, bpr_amount = bp_amount b,
     bpr_price = as_fraction (bp_price b), bpr_created_at = bp_created_at b\<rparr>"

definition bet_placed_of_bet :: "bet \<Rightarrow> bet_placed_response" where
  "bet_placed_of_bet b = \<lparr>bpr_id = bet_uuid (b_id b), bpr_user_id = user_uuid (b_user_id b),
     bpr_market_id = market_uuid (b_market_id b), bpr_outcome_id = b_outcome_id b, bpr_amount = b_amount b,
     bpr_price = as_fraction (b_price b), bpr_created_at = b_created_at b\<rparr>"

datatype server_frame =
    HistoryFrame str "chat_message_response list"
  | BetHistoryFrame str "bet_placed_response list"
  | ChatFrame str chat_message_response
  | ReactionFrame str reaction_update_response
  | PriceFrame str price_update_response
  | BetPlacedFrame str bet_placed_response
  | ErrorFrame message

text \<open>The write side of a socket: an error means it is gone.\<close>

record 's socket =
  so_encode :: "server_frame \<Rightarrow> str option"
  so_send :: "str \<Rightarrow> ('s, unit, unit) cmd"

definition send :: "'s socket \<Rightarrow> server_frame \<Rightarrow> ('s, unit, unit) cmd" where
  "send sock frame = (case so_encode sock frame of None \<Rightarrow> ret () | Some words \<Rightarrow> so_send sock words)"

definition send_error :: "'s socket \<Rightarrow> message \<Rightarrow> ('s, unit, unit) cmd" where
  "send_error sock m = send sock (ErrorFrame m)"

section \<open>Joining a channel\<close>

record 's ws_state =
  ws_chat :: "'s chat_repo"
  ws_users :: "'s user_repo"
  ws_markets :: "'s market_repo"
  ws_bets :: "'s bet_repo"
  ws_tokens :: access_tokens
  ws_broker :: "'s broker"
  ws_uf :: uuid_format

text \<open>The task a join spawns: the broker subscriptions it forwards and the wire name it forwards
  them under.\<close>

datatype forwarder = ForwardChat nat nat str | ForwardBets nat str | ForwardPrices nat str

type_synonym 's joined = "('s, forwarder option, unit) cmd"

text \<open>A command of the use cases whose outcome decides how the join goes on.\<close>

definition attempted :: "('s, 'a, 'e) cmd \<Rightarrow> ('s, 'a + 'e, 'f) cmd" where
  "attempted m s = (case m s of (Ok x, t) \<Rightarrow> (Ok (Inl x), t) | (Err e, t) \<Rightarrow> (Ok (Inr e), t) | (Panic, t) \<Rightarrow> (Panic, t))"

definition market_exists :: "'s socket \<Rightarrow> 's ws_state \<Rightarrow> market_id \<Rightarrow> ('s, bool, unit) cmd" where
  "market_exists sock st m =
     bind_cmd (attempted (mr_find_by_id (ws_markets st) m)) (\<lambda>found. case found of
       Inl (Some _) \<Rightarrow> ret True
     | Inl None \<Rightarrow> seq_cmd (send_error sock [Lit ''unknown market '', UuidF (market_uuid m)]) (ret False)
     | Inr e \<Rightarrow> seq_cmd (send_error sock (show_repo_error e)) (ret False))"

definition broker_stream :: "'s socket \<Rightarrow> 's ws_state \<Rightarrow> ('scope \<Rightarrow> str) \<Rightarrow> 'scope \<Rightarrow> ('s, nat option, unit) cmd" where
  "broker_stream sock st channel scope =
     bind_cmd (attempted (subscribe_broadcast (ws_broker st) channel scope)) (\<lambda>live. case live of
       Inl h \<Rightarrow> ret (Some h)
     | Inr e \<Rightarrow> seq_cmd (send_error sock (msg ''subscription failed, try again'')) (ret None))"

definition ws_history_limit :: int where "ws_history_limit = 50"

definition join_chat :: "'s socket \<Rightarrow> 's ws_state \<Rightarrow> user_id \<Rightarrow> chat_channel \<Rightarrow> str \<Rightarrow> 's joined" where
  "join_chat sock st viewer room name =
     bind_cmd (broker_stream sock st (chat_message_channel (ws_uf st)) room) (\<lambda>live.
     case live of None \<Rightarrow> ret None | Some h \<Rightarrow>
     bind_cmd (broker_stream sock st (chat_reaction_channel (ws_uf st)) room) (\<lambda>live.
     case live of None \<Rightarrow> ret None | Some h' \<Rightarrow>
     bind_cmd (attempted (list_recent_messages (ws_chat st) (ws_users st) (ws_markets st) viewer room
       ws_history_limit \<lparr>hw_before = None, hw_after = None\<rparr>)) (\<lambda>views. case views of
       Inr e \<Rightarrow> seq_cmd (send_error sock (show_app_error e)) (ret None)
     | Inl views \<Rightarrow>
         seq_cmd (send sock (HistoryFrame name (map chat_response_of_view views)))
           (ret (Some (ForwardChat h h' name))))))"

definition join_bets :: "'s socket \<Rightarrow> 's ws_state \<Rightarrow> bet_feed \<Rightarrow> str \<Rightarrow> 's joined" where
  "join_bets sock st feed name =
     bind_cmd (case feed of BetsGlobal \<Rightarrow> ret True | BetsMarket m \<Rightarrow> market_exists sock st m) (\<lambda>ok.
     if \<not> ok then ret None else
     bind_cmd (broker_stream sock st (bet_channel (ws_uf st)) feed) (\<lambda>live.
     case live of None \<Rightarrow> ret None | Some live \<Rightarrow>
     let f = bet_filter_default\<lparr>bf_limit := ws_history_limit\<rparr> in
     bind_cmd (attempted (case feed of BetsGlobal \<Rightarrow> br_feed (ws_bets st) f
       | BetsMarket m \<Rightarrow> br_find_by_market (ws_bets st) m f)) (\<lambda>history. case history of
       Inr e \<Rightarrow> seq_cmd (send_error sock (show_repo_error e)) (ret None)
     | Inl bs \<Rightarrow>
         seq_cmd (send sock (BetHistoryFrame name (map bet_placed_of_bet (rev bs))))
           (ret (Some (ForwardBets live name))))))"

definition join_prices :: "'s socket \<Rightarrow> 's ws_state \<Rightarrow> datetime \<Rightarrow> market_id \<Rightarrow> str \<Rightarrow> 's joined" where
  "join_prices sock st now m name =
     bind_cmd (market_exists sock st m) (\<lambda>ok.
     if \<not> ok then ret None else
     bind_cmd (broker_stream sock st (price_channel (ws_uf st)) m) (\<lambda>live.
     case live of None \<Rightarrow> ret None | Some live \<Rightarrow>
     bind_cmd (attempted (mr_outcomes_for (ws_markets st) m)) (\<lambda>os. case os of
       Inr e \<Rightarrow> seq_cmd (send_error sock (show_repo_error e)) (ret None)
     | Inl os \<Rightarrow>
         seq_cmd (for_each (\<lambda>oc. send sock (PriceFrame name \<lparr>pur_outcome_id = outcome_uuid (o_id oc),
           pur_price = as_fraction (o_current_price oc), pur_recorded_at = now\<rparr>)) os)
           (ret (Some (ForwardPrices live name))))))"

text \<open>What a forwarder makes of the payloads of its subscriptions; the two streams of a chat room
  are interleaved, so it is given payload by payload.\<close>

datatype live_payload = LiveMessage chat_message_broadcast | LiveReaction chat_reaction_broadcast
  | LiveBet bet_placed_broadcast | LivePrices price_update_broadcast

fun forwarded :: "str \<Rightarrow> live_payload \<Rightarrow> server_frame list" where
  "forwarded name (LiveMessage m) = [ChatFrame name (chat_response_of_broadcast m)]"
| "forwarded name (LiveReaction r) = [ReactionFrame name (reaction_update_of r)]"
| "forwarded name (LiveBet b) = [BetPlacedFrame name (bet_placed_of_broadcast b)]"
| "forwarded name (LivePrices p) = map (\<lambda>t. PriceFrame name (price_update_of t)) (pu_ticks p)"

section \<open>One client frame\<close>

type_synonym subscriptions = "(str \<times> forwarder) list"

definition join :: "'s socket \<Rightarrow> 's ws_state \<Rightarrow> datetime \<Rightarrow> user_id \<Rightarrow> wire_channel \<Rightarrow> str \<Rightarrow> 's joined" where
  "join sock st now u channel name = (case channel of
     ChatWire room \<Rightarrow> join_chat sock st u room name
   | BetsWire feed \<Rightarrow> join_bets sock st feed name
   | MarketFeed m \<Rightarrow> join_prices sock st now m name)"

text \<open>A problem with the frame is told to its sender only; the subscriptions stay.\<close>

definition tell :: "'s socket \<Rightarrow> subscriptions \<Rightarrow> message \<Rightarrow> ('s, subscriptions, unit) cmd" where
  "tell sock subs m = seq_cmd (send_error sock m) (ret subs)"

definition reported :: "'s socket \<Rightarrow> subscriptions \<Rightarrow> ('s, 'a, app_error) cmd \<Rightarrow> ('s, subscriptions, unit) cmd" where
  "reported sock subs m = bind_cmd (attempted m) (\<lambda>r. case r of
     Inl _ \<Rightarrow> ret subs | Inr e \<Rightarrow> tell sock subs (show_app_error e))"

definition handle_frame :: "'s socket \<Rightarrow> 's ws_state \<Rightarrow> clock \<Rightarrow> uuid \<Rightarrow> user_id \<Rightarrow> client_frame option
    \<Rightarrow> subscriptions \<Rightarrow> ('s, subscriptions, unit) cmd" where
  "handle_frame sock st clock fresh u frame subs =
     (case frame of
        None \<Rightarrow> tell sock subs hint
      | Some (Subscribe name) \<Rightarrow> (case parse_wire (ws_uf st) name of
          None \<Rightarrow> tell sock subs [Lit ''unknown channel '', DebugF name]
        | Some channel \<Rightarrow>
            if map_of subs name \<noteq> None then tell sock subs [Lit ''already subscribed to '', TextF name]
            else bind_cmd (join sock st (clock 0) u channel name) (\<lambda>joined. case joined of
              None \<Rightarrow> ret subs | Some f \<Rightarrow> ret (AList.update name f subs)))
      | Some (Unsubscribe name) \<Rightarrow> (case map_of subs name of
          Some _ \<Rightarrow> ret (AList.delete name subs)
        | None \<Rightarrow> tell sock subs [Lit ''not subscribed to '', TextF name])
      | Some (ChatMessageFrame name body reply_to) \<Rightarrow> (case parse_wire (ws_uf st) name of
          None \<Rightarrow> tell sock subs [Lit ''unknown channel '', DebugF name]
        | Some (ChatWire room) \<Rightarrow> reported sock subs (post_message (ws_chat st) (ws_users st) (ws_markets st)
            clock fresh u room body (map_option MessageId reply_to))
        | Some _ \<Rightarrow> tell sock subs [TextF name, Lit '' is not a chat channel''])
      | Some (AddReaction i emoji) \<Rightarrow> reported sock subs (react_add (ws_chat st) u (MessageId i) emoji)
      | Some (RemoveReaction i emoji) \<Rightarrow> reported sock subs (react_remove (ws_chat st) u (MessageId i) emoji))"

definition ws_upgrade :: "access_tokens \<Rightarrow> str \<Rightarrow> (user_id, app_error) result" where
  "ws_upgrade tokens token = and_then (map_err app_of_auth (at_verify tokens token)) (\<lambda>claims. Ok (ac_user_id claims))"

section \<open>The connection loop\<close>

text \<open>What a connection can see next: a frame of one of its forwarders, a message of the client, a
  close, or a transport error.\<close>

datatype ws_event = LiveText str | TextMessage "client_frame option" | CloseMessage | OtherMessage | TransportError

text \<open>The loop over what arrives.  The answer says whether the connection ended; its forwarders are
  aborted then.\<close>

fun socket_loop :: "'s socket \<Rightarrow> 's ws_state \<Rightarrow> clock \<Rightarrow> (nat \<Rightarrow> uuid) \<Rightarrow> user_id \<Rightarrow> ws_event list
    \<Rightarrow> subscriptions \<Rightarrow> ('s, bool \<times> subscriptions, unit) cmd" where
  "socket_loop sock st clock ids u [] subs = ret (False, subs)"
| "socket_loop sock st clock ids u (LiveText words # es) subs =
     bind_cmd (attempted (so_send sock words)) (\<lambda>r. case r of
       Inl _ \<Rightarrow> socket_loop sock st clock ids u es subs | Inr _ \<Rightarrow> ret (True, []))"
| "socket_loop sock st clock ids u (TextMessage frame # es) subs =
     bind_cmd (attempted (handle_frame sock st clock (ids (length es)) u frame subs)) (\<lambda>r. case r of
       Inl subs' \<Rightarrow> socket_loop sock st clock ids u es subs' | Inr _ \<Rightarrow> ret (True, []))"
| "socket_loop sock st clock ids u (CloseMessage # es) subs = ret (True, [])"
| "socket_loop sock st clock ids u (OtherMessage # es) subs = socket_loop sock st clock ids u es subs"
| "socket_loop sock st clock ids u (TransportError # es) subs = ret (True, [])"

section \<open>Names and streams\<close>

text \<open>The wire name of a channel: a fixed name, or a prefix and the identifier of a market.\<close>

fun wire_scope :: "wire_channel \<Rightarrow> str \<times> uuid option" where
  "wire_scope (ChatWire Global) = (lit ''global_chat'', None)"
| "wire_scope (ChatWire (Market m)) = (lit ''market_chat:'', Some (market_uuid m))"
| "wire_scope (BetsWire BetsGlobal) = (lit ''global_bets'', None)"
| "wire_scope (BetsWire (BetsMarket m)) = (lit ''market_bets:'', Some (market_uuid m))"
| "wire_scope (MarketFeed m) = (lit ''market:'', Some (market_uuid m))"

definition wire_name :: "uuid_format \<Rightarrow> wire_channel \<Rightarrow> str" where
  "wire_name uf c = (case wire_scope c of (p, None) \<Rightarrow> p | (p, Some u) \<Rightarrow> p @ uf_text uf u)"

lemma wire_lits:
  "lit ''global_chat'' = [103, 108, 111, 98, 97, 108, 95, 99, 104, 97, 116]"
  "lit ''market_chat:'' = [109, 97, 114, 107, 101, 116, 95, 99, 104, 97, 116, 58]"
  by (simp_all add: lit_def)

lemma market_id_eq: "MarketId u = m \<longleftrightarrow> u = market_uuid m"
  by (cases m) auto

lemma parse_wire_iff:
  "parse_wire uf name = Some c \<longleftrightarrow> (case wire_scope c of
     (p, None) \<Rightarrow> name = p | (p, Some u) \<Rightarrow> \<exists>words. name = p @ words \<and> uf_parse uf words = Some u)"
proof (cases c rule: wire_scope.cases)
  case 1
  then show ?thesis by (auto simp: parse_wire_def wire_lits channel_lits split: option.splits)
next
  case (2 m)
  then show ?thesis
    by (auto simp: parse_wire_def wire_lits channel_lits strip_prefix_Some market_id_eq split: option.splits)
next
  case 3
  then show ?thesis by (auto simp: parse_wire_def wire_lits channel_lits split: option.splits)
next
  case (4 m)
  then show ?thesis
    by (auto simp: parse_wire_def wire_lits channel_lits strip_prefix_Some market_id_eq split: option.splits)
next
  case (5 m)
  then show ?thesis
    by (auto simp: parse_wire_def wire_lits channel_lits strip_prefix_Some market_id_eq split: option.splits)
qed

text \<open>C34: A wire channel name is taken apart exactly: a name means a stream if and only if it is that
  stream's fixed name, or its prefix followed by a text the identifier parser takes for the market;
  so no prefix shadows another; and the printed name of every stream parses back to it, the bet and
  price feeds under the very names of their broker channels.\<close>

theorem wire_names_exact:
  assumes "uuid_format_ok uf"
  shows "(\<forall>name c. parse_wire uf name = Some c \<longleftrightarrow> (case wire_scope c of
       (p, None) \<Rightarrow> name = p | (p, Some u) \<Rightarrow> \<exists>words. name = p @ words \<and> uf_parse uf words = Some u))
     \<and> (\<forall>c. parse_wire uf (wire_name uf c) = Some c)
     \<and> (\<forall>feed. wire_name uf (BetsWire feed) = bet_channel uf feed)
     \<and> (\<forall>m. wire_name uf (MarketFeed m) = price_channel uf m)"
proof (intro conjI allI)
  show "parse_wire uf name = Some c \<longleftrightarrow> (case wire_scope c of
       (p, None) \<Rightarrow> name = p | (p, Some u) \<Rightarrow> \<exists>words. name = p @ words \<and> uf_parse uf words = Some u)" for name c
    by (rule parse_wire_iff)
  show "parse_wire uf (wire_name uf c) = Some c" for c
    using assms by (auto simp: parse_wire_iff wire_name_def uuid_format_ok_def split: prod.split option.split)
  show "wire_name uf (BetsWire feed) = bet_channel uf feed" for feed
    by (cases feed) (simp_all add: wire_name_def bet_channel_def)
  show "wire_name uf (MarketFeed m) = price_channel uf m" for m
    by (simp add: wire_name_def price_channel_def)
qed

theorem wire_names_exact_witness:
  "parse_wire bit_format (wire_name bit_format (ChatWire (Market (MarketId 7)))) = Some (ChatWire (Market (MarketId 7)))"
  using wire_names_exact [OF bit_format_ok] by blast

section \<open>Subscriptions\<close>

text \<open>The task of a subscription forwards its stream's kind of payload under the subscribed name.\<close>

fun fits :: "wire_channel \<Rightarrow> str \<Rightarrow> forwarder \<Rightarrow> bool" where
  "fits (ChatWire room) name (ForwardChat h h' n) \<longleftrightarrow> n = name"
| "fits (BetsWire feed) name (ForwardBets h n) \<longleftrightarrow> n = name"
| "fits (MarketFeed m) name (ForwardPrices h n) \<longleftrightarrow> n = name"
| "fits _ name _ \<longleftrightarrow> False"

definition subs_ok :: "uuid_format \<Rightarrow> subscriptions \<Rightarrow> bool" where
  "subs_ok uf subs \<longleftrightarrow> distinct (map fst subs)
     \<and> (\<forall>(name, f)\<in>set subs. \<exists>c. parse_wire uf name = Some c \<and> fits c name f)"

lemma subs_ok_update:
  assumes "subs_ok uf subs" "parse_wire uf name = Some c" "fits c name f"
  shows "subs_ok uf (AList.update name f subs)"
proof -
  have "set (AList.update name f subs) \<subseteq> insert (name, f) (set subs)" by (induction subs) auto
  then show ?thesis using assms by (auto simp: subs_ok_def distinct_update)
qed

lemma subs_ok_delete: "subs_ok uf subs \<Longrightarrow> subs_ok uf (AList.delete name subs)"
  using distinct_delete [of subs name] by (auto simp: subs_ok_def AList.delete_eq)

lemma subs_ok_Nil [simp]: "subs_ok uf []"
  by (simp add: subs_ok_def)

lemma attempted_Ok:
  "attempted m s = (Ok x, s') \<longleftrightarrow> (\<exists>y. x = Inl y \<and> m s = (Ok y, s')) \<or> (\<exists>e. x = Inr e \<and> m s = (Err e, s'))"
  by (auto simp: attempted_def split: prod.split result.split)

lemma join_fits:
  assumes "join sock st now u c name s = (Ok (Some f), t)"
  shows "fits c name f"
  using assms
  by (cases c) (auto simp: join_def join_chat_def join_bets_def join_prices_def attempted_Ok run_Ok Let_def
      split: option.splits if_splits)

lemma tell_Ok: "tell sock subs m s = (Ok subs', t) \<Longrightarrow> subs' = subs"
  by (auto simp: tell_def run_Ok)

lemma reported_Ok: "reported sock subs m s = (Ok subs', t) \<Longrightarrow> subs' = subs"
  by (auto simp: reported_def attempted_Ok run_Ok dest: tell_Ok)

lemma handle_frame_subs:
  assumes "subs_ok (ws_uf st) subs" "handle_frame sock st clock fresh u frame subs s = (Ok subs', t)"
  shows "subs_ok (ws_uf st) subs'"
proof (cases frame)
  case None
  then show ?thesis using assms by (auto simp: handle_frame_def dest: tell_Ok)
next
  case (Some fr)
  show ?thesis
  proof (cases fr)
    case (Subscribe name)
    show ?thesis
    proof (cases "parse_wire (ws_uf st) name")
      case None
      then show ?thesis using assms Some Subscribe by (auto simp: handle_frame_def dest: tell_Ok)
    next
      case (Some c)
      then show ?thesis
        using assms \<open>frame = Some fr\<close> Subscribe
        by (auto simp: handle_frame_def run_Ok intro: subs_ok_update join_fits split: if_splits option.splits
            dest: tell_Ok)
    qed
  qed (use assms Some in \<open>auto simp: handle_frame_def subs_ok_delete dest!: tell_Ok reported_Ok
      simp: run_Ok split: option.splits wire_channel.splits\<close>)
qed

lemma socket_loop_subs:
  "subs_ok (ws_uf st) subs \<Longrightarrow> socket_loop sock st clock ids u es subs s = (Ok (ended, subs'), t) \<Longrightarrow>
     subs_ok (ws_uf st) subs' \<and> (ended \<longrightarrow> subs' = [])"
proof (induction sock st clock ids u es subs arbitrary: s rule: socket_loop.induct)
  case (3 sock st clock ids u frame es subs)
  then show ?case
    by (auto simp: run_Ok attempted_Ok dest: handle_frame_subs)
qed (auto simp: run_Ok attempted_Ok)

text \<open>C35: A connection keeps its subscriptions straight, whatever frames arrive and however the stores,
  the broker and the socket answer: at most one forwarder per wire name, every name that of a
  stream, and the forwarder of each carries that stream's kind of payload under exactly that name;
  a connection that ended has none left running.\<close>

theorem socket_subscriptions:
  assumes "socket_loop sock st clock ids u es [] s = (Ok (ended, subs), t)"
  shows "distinct (map fst subs)
    \<and> (\<forall>(name, f)\<in>set subs. \<exists>c. parse_wire (ws_uf st) name = Some c \<and> fits c name f)
    \<and> (ended \<longrightarrow> subs = [])"
  using socket_loop_subs [OF subs_ok_Nil assms] by (simp add: subs_ok_def)


text \<open>A socket that logs what it sends, over stores that find nothing.\<close>

definition log_socket :: "str list socket" where
  "log_socket = \<lparr>so_encode = (\<lambda>frame. Some [1]), so_send = (\<lambda>words s. (Ok (), s @ [words]))\<rparr>"

definition bare_state :: "str list ws_state" where
  "bare_state = \<lparr>
     ws_chat = \<lparr>cr_save = (\<lambda>_. ret ()), cr_find_by_id = (\<lambda>_. ret None), cr_find_by_ids = (\<lambda>_. ret []),
       cr_list_recent = (\<lambda>_ _ _. ret []), cr_add_reaction = (\<lambda>_ _ _. ret False),
       cr_remove_reaction = (\<lambda>_ _ _. ret False), cr_reactions_for = (\<lambda>_ _. ret [])\<rparr>,
     ws_users = \<lparr>ur_save = (\<lambda>_. ret ()), ur_find_by_id = (\<lambda>_. ret None), ur_find_by_email = (\<lambda>_. ret None),
       ur_find_by_username = (\<lambda>_. ret None), ur_list = ret []\<rparr>,
     ws_markets = \<lparr>mr_create = (\<lambda>_ _ _. ret ()), mr_find_by_id = (\<lambda>_. ret None), mr_find_by_ids = (\<lambda>_. ret []),
       mr_outcomes_for = (\<lambda>_. ret []), mr_outcome_by_id = (\<lambda>_. ret None), mr_outcomes_for_markets = (\<lambda>_. ret []),
       mr_list = (\<lambda>_. ret []), mr_featured = ret None, mr_resolve = (\<lambda>_. ret ()),
       mr_update_thumbnail = (\<lambda>_. ret ()), mr_update_outcome_thumbnail = (\<lambda>_. ret ()),
       mr_price_history = (\<lambda>_ _. ret [])\<rparr>,
     ws_bets = \<lparr>br_place = (\<lambda>_ _ _ _. ret ()), br_active_for_market = (\<lambda>_. ret []), br_settle = (\<lambda>_ _ _. ret ()),
       br_find_by_id = (\<lambda>_. ret None), br_find_by_user = (\<lambda>_ _. ret []), br_find_by_market = (\<lambda>_ _. ret []),
       br_feed = (\<lambda>_. ret []), br_stats_for_user = (\<lambda>_. fail (Storage [])), br_active_positions = (\<lambda>_. ret [])\<rparr>,
     ws_tokens = \<lparr>at_issue = (\<lambda>_ _. Err InvalidToken), at_verify = (\<lambda>_. Err InvalidToken)\<rparr>,
     ws_broker = \<lparr>mb_publish = (\<lambda>_ _. ret ()), mb_subscribe = (\<lambda>_ s. (Ok (length s), s)), mb_received = (\<lambda>_ _. [])\<rparr>,
     ws_uf = bit_format\<rparr>"

text \<open>Joining both global feeds, one of them twice, and leaving a feed that was never joined.\<close>

theorem socket_subscriptions_witness:
  "\<exists>subs t. socket_loop log_socket bare_state (\<lambda>_. 0) (\<lambda>_. 0) (UserId 1)
      [TextMessage (Some (Subscribe (lit ''global_bets''))), TextMessage (Some (Subscribe (lit ''global_chat''))),
       TextMessage (Some (Subscribe (lit ''global_bets''))), TextMessage (Some (Unsubscribe (lit ''market:'')))] [] []
      = (Ok (False, subs), t) \<and> distinct (map fst subs) \<and> length subs = 2 \<and> length t = 4"
proof -
  let ?run = "socket_loop log_socket bare_state (\<lambda>_. 0) (\<lambda>_. 0) (UserId 1)
      [TextMessage (Some (Subscribe (lit ''global_bets''))), TextMessage (Some (Subscribe (lit ''global_chat''))),
       TextMessage (Some (Subscribe (lit ''global_bets''))), TextMessage (Some (Unsubscribe (lit ''market:'')))] [] []"
  have run: "?run = (Ok (False, [(lit ''global_bets'', ForwardBets 0 (lit ''global_bets'')),
      (lit ''global_chat'', ForwardChat 1 1 (lit ''global_chat''))]), [[1], [1], [1], [1]])"
    by code_simp
  show ?thesis using run socket_subscriptions [OF run] by auto
qed

end
