(* ===== verification/Postgres.thy ===== *)
theory Postgres
  imports Outbox "HOL-Library.Multiset"
begin

text \<open>
  The Postgres adapters' ground (\<open>infrastructure/src/persistence/postgres.rs\<close> and the row types of
  the repositories beside it): the tables with their constraints, as the statements of the
  adapters see them, single statements, and transactions.  The server is outside the repository;
  what it may do is a parameter: which statement fails and how (\<open>sv_down\<close>), in which order rows
  without an \<open>ORDER BY\<close> come (\<open>sv_plan\<close>) and what its clock says (\<open>sv_now\<close>), each by the number of
  the statement.  Concurrent transactions are not interleaved statement by statement.
\<close>

section \<open>Rows\<close>

record user_row =
  uw_id :: uuid
  uw_username :: str
  uw_email :: str
  uw_password_hash :: str
  uw_avatar_url :: "str option"
  uw_balance :: int
  uw_role :: str
  uw_created_at :: datetime
  uw_updated_at :: datetime

record token_row =
  tw_id :: uuid
  tw_user_id :: uuid
  tw_token_hash :: str
  tw_expires_at :: datetime
  tw_created_at :: datetime

record market_row =
  mw_id :: uuid
  mw_title :: str
  mw_description :: "str option"
  mw_category :: "str option"
  mw_thumbnail_url :: "str option"
  mw_status :: str
  mw_resolved_outcome_id :: "uuid option"
  mw_total_volume :: int
  mw_participants_count :: int
  mw_created_at :: datetime
  mw_closes_at :: "datetime option"

record outcome_row =
  ow_id :: uuid
  ow_market_id :: uuid
  ow_label :: str
  ow_thumbnail_url :: "str option"
  ow_current_price :: int
  ow_volume :: int

record point_row =
  pw_outcome_id :: uuid
  pw_price :: int
  pw_recorded_at :: datetime

record bet_row =
  bw_id :: uuid
  bw_user_id :: uuid
  bw_market_id :: uuid
  bw_outcome_id :: uuid
  bw_amount :: int
  bw_price :: int
  bw_status :: str
  bw_payout :: "int option"
  bw_created_at :: datetime

record message_row =
  cw_id :: uuid
  cw_author_id :: uuid
  cw_market_id :: "uuid option"
  cw_body :: str
  cw_reply_to_id :: "uuid option"
  cw_created_at :: datetime

record reaction_row =
  rw_message_id :: uuid
  rw_user_id :: uuid
  rw_emoji :: str
  rw_created_at :: datetime

section \<open>The server\<close>

datatype sqlx_error = UniqueViolation message | OtherSql message

fun map_sqlx_err :: "sqlx_error \<Rightarrow> repo_error" where
  "map_sqlx_err (UniqueViolation m) = Conflict m"
| "map_sqlx_err (OtherSql m) = Storage m"

text \<open>Outcomes are kept in the order of their serial \<open>seq\<close>, which no statement changes.  Whether the
  scope of a unit of work is still open is part of the session.\<close>

record server =
  sv_users :: "user_row list"
  sv_tokens :: "token_row list"
  sv_markets :: "market_row list"
  sv_outcomes :: "outcome_row list"
  sv_points :: "point_row list"
  sv_bets :: "bet_row list"
  sv_messages :: "message_row list"
  sv_reactions :: "reaction_row list"
  sv_down :: "nat \<Rightarrow> sqlx_error option"
  sv_plan :: "nat \<Rightarrow> nat \<Rightarrow> nat list"
  sv_now :: "nat \<Rightarrow> datetime"
  sv_sent :: nat
  sv_open :: bool

text \<open>The database is the outbox table and the other tables.\<close>

type_synonym ('j, 'z) pg = "('j, 'z server_scheme) backend"
type_synonym ('j, 'z, 'a) pg_cmd = "(('j, 'z) pg, 'a, repo_error) cmd"

section \<open>Statements\<close>

type_synonym ('z, 'a) query = "(nat \<Rightarrow> nat list) \<Rightarrow> 'z server_scheme \<Rightarrow> ('a \<times> 'z server_scheme, sqlx_error) result"

definition count_sent :: "('j, 'z) pg \<Rightarrow> ('j, 'z) pg" where
  "count_sent s = s\<lparr>bk_rest := (bk_rest s)\<lparr>sv_sent := sv_sent (bk_rest s) + 1\<rparr>\<rparr>"

definition statement :: "('z, 'a) query \<Rightarrow> ('j, 'z, 'a) pg_cmd" where
  "statement q s = (case sv_down (bk_rest s) (sv_sent (bk_rest s)) of
     Some e \<Rightarrow> (Err (map_sqlx_err e), count_sent s)
   | None \<Rightarrow> (case q (sv_plan (bk_rest s) (sv_sent (bk_rest s))) (bk_rest (count_sent s)) of
       Ok (x, r) \<Rightarrow> (Ok x, (count_sent s)\<lparr>bk_rest := r\<rparr>)
     | Err e \<Rightarrow> (Err (map_sqlx_err e), count_sent s)
     | Panic \<Rightarrow> (Panic, count_sent s)))"

text \<open>A statement without a result of interest: opening or ending a transaction.\<close>

definition plain :: "('j, 'z, unit) pg_cmd" where
  "plain = statement (\<lambda>_ r. Ok ((), r))"

definition select :: "((nat \<Rightarrow> nat list) \<Rightarrow> 'z server_scheme \<Rightarrow> 'a) \<Rightarrow> ('j, 'z, 'a) pg_cmd" where
  "select q = statement (\<lambda>p r. Ok (q p r, r))"

text \<open>Rows in the order the server happens to return them.\<close>

definition scan :: "(nat \<Rightarrow> nat list) \<Rightarrow> 'a list \<Rightarrow> 'a list" where
  "scan p xs = map (\<lambda>i. xs ! i) (p (length xs))"

text \<open>\<open>LIMIT\<close> and \<open>OFFSET\<close>: the server refuses negative ones.\<close>

definition pg_page :: "int \<Rightarrow> int \<Rightarrow> 'a list \<Rightarrow> ('a list, sqlx_error) result" where
  "pg_page limit offset rows =
     (if limit < 0 then Err (OtherSql (msg ''LIMIT must not be negative''))
      else if offset < 0 then Err (OtherSql (msg ''OFFSET must not be negative''))
      else Ok (take (nat limit) (drop (nat offset) rows)))"

text \<open>\<open>BIGINT\<close> and \<open>INTEGER\<close> columns refuse what does not fit.\<close>

definition bigint :: "int \<Rightarrow> (int, sqlx_error) result" where
  "bigint x = (if in_i64 x then Ok x else Err (OtherSql (msg ''bigint out of range'')))"

definition integer :: "int \<Rightarrow> (int, sqlx_error) result" where
  "integer x = (if - (2 ^ 31) \<le> x \<and> x < 2 ^ 31 then Ok x else Err (OtherSql (msg ''integer out of range'')))"

text \<open>\<open>UPDATE ... WHERE\<close>: every row that meets the condition, or none when one of them fails; the
  answer is how many rows it met.\<close>

definition update_rows :: "('r \<Rightarrow> bool) \<Rightarrow> ('r \<Rightarrow> ('r, sqlx_error) result) \<Rightarrow> 'r list
    \<Rightarrow> (nat \<times> 'r list, sqlx_error) result" where
  "update_rows c f rows = and_then (collect_results (map (\<lambda>r. if c r then f r else Ok r) rows))
     (\<lambda>rows'. Ok (length (filter c rows), rows'))"

definition update_users :: "(user_row \<Rightarrow> bool) \<Rightarrow> (user_row \<Rightarrow> (user_row, sqlx_error) result) \<Rightarrow> ('j, 'z, nat) pg_cmd" where
  "update_users c f = statement (\<lambda>_ r. and_then (update_rows c f (sv_users r))
     (\<lambda>(n, rows). Ok (n, r\<lparr>sv_users := rows\<rparr>)))"

definition update_markets :: "(market_row \<Rightarrow> bool) \<Rightarrow> (market_row \<Rightarrow> (market_row, sqlx_error) result) \<Rightarrow> ('j, 'z, nat) pg_cmd" where
  "update_markets c f = statement (\<lambda>_ r. and_then (update_rows c f (sv_markets r))
     (\<lambda>(n, rows). Ok (n, r\<lparr>sv_markets := rows\<rparr>)))"

definition update_outcomes :: "(outcome_row \<Rightarrow> bool) \<Rightarrow> (outcome_row \<Rightarrow> (outcome_row, sqlx_error) result) \<Rightarrow> ('j, 'z, nat) pg_cmd" where
  "update_outcomes c f = statement (\<lambda>_ r. and_then (update_rows c f (sv_outcomes r))
     (\<lambda>(n, rows). Ok (n, r\<lparr>sv_outcomes := rows\<rparr>)))"

definition update_bets :: "(bet_row \<Rightarrow> bool) \<Rightarrow> (bet_row \<Rightarrow> (bet_row, sqlx_error) result) \<Rightarrow> ('j, 'z, nat) pg_cmd" where
  "update_bets c f = statement (\<lambda>_ r. and_then (update_rows c f (sv_bets r))
     (\<lambda>(n, rows). Ok (n, r\<lparr>sv_bets := rows\<rparr>)))"

text \<open>\<open>INSERT\<close>: refused by a key that is taken, or by another constraint that does not hold.\<close>

definition insert_row :: "('z server_scheme \<Rightarrow> bool) \<Rightarrow> ('z server_scheme \<Rightarrow> bool)
    \<Rightarrow> ('z server_scheme \<Rightarrow> 'z server_scheme) \<Rightarrow> ('j, 'z, unit) pg_cmd" where
  "insert_row taken allowed put = statement (\<lambda>_ r.
     if taken r then Err (UniqueViolation (msg ''duplicate key value violates unique constraint''))
     else if \<not> allowed r then Err (OtherSql (msg ''insert violates a constraint''))
     else Ok ((), put r))"

section \<open>Transactions\<close>

text \<open>What a rollback leaves: the tables as they were, but serials stay drawn and statements sent.\<close>

definition rolled_back :: "('j, 'z) pg \<Rightarrow> ('j, 'z) pg \<Rightarrow> ('j, 'z) pg" where
  "rolled_back s t = s\<lparr>bk_serial := bk_serial t,
     bk_rest := (bk_rest s)\<lparr>sv_sent := sv_sent (bk_rest t)\<rparr>\<rparr>"

text \<open>\<open>begin ... commit\<close>: on every other way out the transaction is dropped, which rolls it back.  A
  commit that is not confirmed is taken as not made.\<close>

definition in_tx :: "('j, 'z, 'a) pg_cmd \<Rightarrow> ('j, 'z, 'a) pg_cmd" where
  "in_tx body s = (case seq_cmd plain (bind_cmd body (\<lambda>x. seq_cmd plain (ret x))) s of
     (Ok x, t) \<Rightarrow> (Ok x, t)
   | (r, t) \<Rightarrow> (r, rolled_back s t))"

text \<open>Recording an event inside the transaction.\<close>

definition pg_publish :: "'j event_codec \<Rightarrow> event \<Rightarrow> ('j, 'z, unit) pg_cmd" where
  "pg_publish codec e = seq_cmd (publish codec e) plain"

text \<open>A \<open>for\<close> loop whose statements answer how many rows they met.\<close>

definition quietly :: "('s, 'a, 'e) cmd \<Rightarrow> ('s, unit, 'e) cmd" where
  "quietly m = bind_cmd m (\<lambda>_. ret ())"

section \<open>What an execution can do\<close>

text \<open>The tables, beside the bookkeeping of the session.\<close>

definition same_tables :: "('j, 'z) pg \<Rightarrow> ('j, 'z) pg \<Rightarrow> bool" where
  "same_tables s t \<longleftrightarrow> bk_rows t = bk_rows s
     \<and> bk_rest t = (bk_rest s)\<lparr>sv_sent := sv_sent (bk_rest t)\<rparr>"

lemma same_tables_refl [simp]: "same_tables s s"
  by (simp add: same_tables_def)

lemma same_tables_trans:
  assumes st: "same_tables s t" and tu: "same_tables t u"
  shows "same_tables s u"
proof -
  obtain x where "bk_rest t = (bk_rest s)\<lparr>sv_sent := x\<rparr>" using st unfolding same_tables_def by blast
  moreover obtain y where "bk_rest u = (bk_rest t)\<lparr>sv_sent := y\<rparr>" using tu unfolding same_tables_def by blast
  ultimately show ?thesis using st tu by (simp add: same_tables_def)
qed

lemma same_tables_count_sent [simp]: "same_tables s (count_sent s)"
  by (simp add: same_tables_def count_sent_def)

lemma same_tables_rolled_back [simp]: "same_tables s (rolled_back s t)"
  by (simp add: same_tables_def rolled_back_def)

lemma same_tables_fields:
  assumes "same_tables s t"
  shows "bk_rows t = bk_rows s" "sv_users (bk_rest t) = sv_users (bk_rest s)"
    "sv_tokens (bk_rest t) = sv_tokens (bk_rest s)" "sv_markets (bk_rest t) = sv_markets (bk_rest s)"
    "sv_outcomes (bk_rest t) = sv_outcomes (bk_rest s)" "sv_points (bk_rest t) = sv_points (bk_rest s)"
    "sv_bets (bk_rest t) = sv_bets (bk_rest s)" "sv_messages (bk_rest t) = sv_messages (bk_rest s)"
    "sv_reactions (bk_rest t) = sv_reactions (bk_rest s)" "sv_plan (bk_rest t) = sv_plan (bk_rest s)"
    "sv_down (bk_rest t) = sv_down (bk_rest s)" "sv_open (bk_rest t) = sv_open (bk_rest s)"
proof -
  have e: "bk_rest t = (bk_rest s)\<lparr>sv_sent := sv_sent (bk_rest t)\<rparr>" and "bk_rows t = bk_rows s"
    using assms by (simp_all add: same_tables_def)
  then show "bk_rows t = bk_rows s" by simp
  show "sv_users (bk_rest t) = sv_users (bk_rest s)" by (subst e) simp
  show "sv_tokens (bk_rest t) = sv_tokens (bk_rest s)" by (subst e) simp
  show "sv_markets (bk_rest t) = sv_markets (bk_rest s)" by (subst e) simp
  show "sv_outcomes (bk_rest t) = sv_outcomes (bk_rest s)" by (subst e) simp
  show "sv_points (bk_rest t) = sv_points (bk_rest s)" by (subst e) simp
  show "sv_bets (bk_rest t) = sv_bets (bk_rest s)" by (subst e) simp
  show "sv_messages (bk_rest t) = sv_messages (bk_rest s)" by (subst e) simp
  show "sv_reactions (bk_rest t) = sv_reactions (bk_rest s)" by (subst e) simp
  show "sv_plan (bk_rest t) = sv_plan (bk_rest s)" by (subst e) simp
  show "sv_down (bk_rest t) = sv_down (bk_rest s)" by (subst e) simp
  show "sv_open (bk_rest t) = sv_open (bk_rest s)" by (subst e) simp
qed

lemma in_tx_failed:
  assumes "in_tx body s = (r, t)" "\<not> is_ok r"
  shows "same_tables s t"
  using assms by (auto simp: in_tx_def split: prod.splits result.splits)

lemma statement_Ok:
  "statement q s = (Ok x, t) \<longleftrightarrow> sv_down (bk_rest s) (sv_sent (bk_rest s)) = None
     \<and> (\<exists>r. q (sv_plan (bk_rest s) (sv_sent (bk_rest s))) (bk_rest (count_sent s)) = Ok (x, r)
       \<and> t = (count_sent s)\<lparr>bk_rest := r\<rparr>)"
  by (auto simp: statement_def split: option.splits result.splits)

lemma count_sent_more [simp]: "(count_sent s)\<lparr>bk_rest := bk_rest (count_sent s)\<rparr> = count_sent s"
  by simp

lemma plain_Ok: "plain s = (Ok x, t) \<longleftrightarrow> sv_down (bk_rest s) (sv_sent (bk_rest s)) = None \<and> t = count_sent s"
  by (auto simp: plain_def statement_Ok)

lemma in_tx_Ok:
  "in_tx body s = (Ok x, t) \<longleftrightarrow> (\<exists>u v. plain s = (Ok (), u) \<and> body u = (Ok x, v) \<and> plain v = (Ok (), t))"
proof -
  have "in_tx body s = (Ok x, t) \<longleftrightarrow> seq_cmd plain (bind_cmd body (\<lambda>x. seq_cmd plain (ret x))) s = (Ok x, t)"
    by (auto simp: in_tx_def split: prod.splits result.splits)
  then show ?thesis by (auto simp: run_Ok)
qed

lemma select_same: "select q s = (r, t) \<Longrightarrow> same_tables s t"
  by (auto simp: select_def statement_def split: option.splits)

lemma select_Ok:
  "select q s = (Ok x, t) \<longleftrightarrow> sv_down (bk_rest s) (sv_sent (bk_rest s)) = None
     \<and> x = q (sv_plan (bk_rest s) (sv_sent (bk_rest s))) (bk_rest (count_sent s)) \<and> t = count_sent s"
  by (auto simp: select_def statement_Ok)

lemma bk_rest_count_sent: "bk_rest (count_sent s) = (bk_rest s)\<lparr>sv_sent := sv_sent (bk_rest s) + 1\<rparr>"
  by (simp add: count_sent_def)

lemma bk_count_sent [simp]: "bk_rows (count_sent s) = bk_rows s" "bk_serial (count_sent s) = bk_serial s"
  by (simp_all add: count_sent_def)

section \<open>Rows that are updated\<close>

lemma update_rows_Ok:
  "update_rows c f rows = Ok (n, rows') \<longleftrightarrow> n = length (filter c rows)
     \<and> map (\<lambda>r. if c r then f r else Ok r) rows = map Ok rows'"
  by (auto simp: update_rows_def and_then_eq_Ok collect_results_Ok)

text \<open>A total update is a map.\<close>

lemma update_rows_map:
  "(\<And>r. r \<in> set rows \<Longrightarrow> c r \<Longrightarrow> f r = Ok (g r)) \<Longrightarrow>
   update_rows c f rows = Ok (length (filter c rows), map (\<lambda>r. if c r then g r else r) rows)"
  by (simp add: update_rows_Ok)

lemma mset_scan:
  assumes "mset (p (length xs)) = mset [0..<length xs]"
  shows "mset (scan p xs) = mset xs"
proof -
  have "mset (scan p xs) = image_mset (\<lambda>i. xs ! i) (mset [0..<length xs])"
    using assms by (simp add: scan_def)
  also have "\<dots> = mset (map (\<lambda>i. xs ! i) [0..<length xs])" by (rule mset_map [symmetric])
  also have "\<dots> = mset xs" by (simp only: map_nth)
  finally show ?thesis .
qed

end
