(* ===== verification/PgUsers.thy ===== *)
theory PgUsers
  imports Postgres
begin

text \<open>
  Users, refresh tokens and the unit of work over Postgres (\<open>persistence/postgres/user_repository.rs\<close>,
  \<open>refresh_token_repository.rs\<close>, \<open>unit_of_work.rs\<close>).  The same statements run on their own or inside
  the transaction of a scope; a scope that is dropped open rolls back.
\<close>

section \<open>Users\<close>

definition corrupt :: "string \<Rightarrow> uuid \<Rightarrow> domain_error \<Rightarrow> repo_error" where
  "corrupt what i e = Storage ([Lit what, UuidF i, Lit '': ''] @ show_domain_error e)"

definition user_of_row :: "case_table \<Rightarrow> user_row \<Rightarrow> (user, repo_error) result" where
  "user_of_row lc row = (let bad = corrupt ''corrupt user row '' (uw_id row) in
     and_then (map_err bad (username_new (uw_username row))) (\<lambda>name.
     and_then (map_err bad (email_new lc (uw_email row))) (\<lambda>mail.
     and_then (map_err bad (role_from_str (uw_role row))) (\<lambda>role.
     Ok \<lparr>u_id = UserId (uw_id row), u_username = name, u_email = mail,
       u_password_hash = PasswordHash (uw_password_hash row), u_avatar_url = uw_avatar_url row,
       u_balance = uw_balance row, u_role = role, u_created_at = uw_created_at row,
       u_updated_at = uw_updated_at row\<rparr>))))"

definition row_of_user :: "user \<Rightarrow> user_row" where
  "row_of_user u = \<lparr>uw_id = user_uuid (u_id u), uw_username = username_as_str (u_username u),
     uw_email = email_as_str (u_email u), uw_password_hash = (case u_password_hash u of PasswordHash h \<Rightarrow> h),
     uw_avatar_url = u_avatar_url u, uw_balance = u_balance u, uw_role = role_as_str (u_role u),
     uw_created_at = u_created_at u, uw_updated_at = u_updated_at u\<rparr>"

text \<open>\<open>INSERT ... ON CONFLICT (id) DO UPDATE\<close>: everything but the creation time is replaced.  The
  unique keys on email and username still hold against the other rows.\<close>

definition pg_save_user :: "user \<Rightarrow> ('j, 'z, unit) pg_cmd" where
  "pg_save_user u = (let new = row_of_user u in
     insert_row (\<lambda>r. list_ex (\<lambda>row. uw_id row \<noteq> uw_id new
         \<and> (uw_username row = uw_username new \<or> uw_email row = uw_email new)) (sv_users r)) (\<lambda>_. True)
       (\<lambda>r. r\<lparr>sv_users := (if list_ex (\<lambda>row. uw_id row = uw_id new) (sv_users r)
         then map (\<lambda>row. if uw_id row = uw_id new
           then new\<lparr>uw_created_at := uw_created_at row\<rparr> else row) (sv_users r)
         else sv_users r @ [new])\<rparr>))"

definition fetch_user :: "case_table \<Rightarrow> (user_row \<Rightarrow> bool) \<Rightarrow> ('j, 'z, user option) pg_cmd" where
  "fetch_user lc c = bind_cmd (select (\<lambda>_ r. find c (sv_users r))) (\<lambda>row. case row of
     None \<Rightarrow> ret None | Some row \<Rightarrow> bind_cmd (lift (user_of_row lc row)) (\<lambda>u. ret (Some u)))"

definition pg_find_user_by_id :: "case_table \<Rightarrow> user_id \<Rightarrow> ('j, 'z, user option) pg_cmd" where
  "pg_find_user_by_id lc i = fetch_user lc (\<lambda>row. uw_id row = user_uuid i)"

text \<open>The trusted column is one of the two unique ones.\<close>

datatype user_column = EmailColumn | UsernameColumn

fun in_column :: "user_column \<Rightarrow> user_row \<Rightarrow> str" where
  "in_column EmailColumn row = uw_email row"
| "in_column UsernameColumn row = uw_username row"

definition pg_find_user_by :: "case_table \<Rightarrow> user_column \<Rightarrow> str \<Rightarrow> ('j, 'z, user option) pg_cmd" where
  "pg_find_user_by lc column value = fetch_user lc (\<lambda>row. in_column column row = value)"

definition pg_list_users :: "case_table \<Rightarrow> ('j, 'z, user list) pg_cmd" where
  "pg_list_users lc = bind_cmd (select (\<lambda>p r. sort_key uw_created_at (scan p (sv_users r))))
     (\<lambda>rows. lift (collect_results (map (user_of_row lc) rows)))"

definition pg_user_repo :: "case_table \<Rightarrow> ('j, 'z) pg user_repo" where
  "pg_user_repo lc = \<lparr>ur_save = pg_save_user, ur_find_by_id = pg_find_user_by_id lc,
     ur_find_by_email = (\<lambda>e. pg_find_user_by lc EmailColumn (email_as_str e)),
     ur_find_by_username = (\<lambda>n. pg_find_user_by lc UsernameColumn (username_as_str n)),
     ur_list = pg_list_users lc\<rparr>"

section \<open>Refresh tokens\<close>

definition token_of_row :: "token_row \<Rightarrow> refresh_token" where
  "token_of_row row = \<lparr>t_id = tw_id row, t_user_id = UserId (tw_user_id row), t_token_hash = tw_token_hash row,
     t_expires_at = tw_expires_at row, t_created_at = tw_created_at row\<rparr>"

definition row_of_token :: "refresh_token \<Rightarrow> token_row" where
  "row_of_token t = \<lparr>tw_id = t_id t, tw_user_id = user_uuid (t_user_id t), tw_token_hash = t_token_hash t,
     tw_expires_at = t_expires_at t, tw_created_at = t_created_at t\<rparr>"

definition pg_insert_token :: "refresh_token \<Rightarrow> ('j, 'z, unit) pg_cmd" where
  "pg_insert_token t = insert_row
     (\<lambda>r. list_ex (\<lambda>row. tw_id row = t_id t \<or> tw_token_hash row = t_token_hash t) (sv_tokens r))
     (\<lambda>r. list_ex (\<lambda>row. uw_id row = user_uuid (t_user_id t)) (sv_users r))
     (\<lambda>r. r\<lparr>sv_tokens := sv_tokens r @ [row_of_token t]\<rparr>)"

definition pg_find_token_by_hash :: "str \<Rightarrow> ('j, 'z, refresh_token option) pg_cmd" where
  "pg_find_token_by_hash h = select (\<lambda>_ r. map_option token_of_row (find (\<lambda>row. tw_token_hash row = h) (sv_tokens r)))"

definition delete_tokens :: "(token_row \<Rightarrow> bool) \<Rightarrow> ('j, 'z, nat) pg_cmd" where
  "delete_tokens c = statement (\<lambda>_ r. Ok (length (filter c (sv_tokens r)),
     r\<lparr>sv_tokens := filter (\<lambda>row. \<not> c row) (sv_tokens r)\<rparr>))"

definition pg_delete_token :: "uuid \<Rightarrow> ('j, 'z, bool) pg_cmd" where
  "pg_delete_token i = bind_cmd (delete_tokens (\<lambda>row. tw_id row = i)) (\<lambda>n. ret (0 < n))"

definition pg_delete_tokens_for_user :: "user_id \<Rightarrow> ('j, 'z, unit) pg_cmd" where
  "pg_delete_tokens_for_user u = quietly (delete_tokens (\<lambda>row. tw_user_id row = user_uuid u))"

definition pg_token_repo :: "('j, 'z) pg token_repo" where
  "pg_token_repo = \<lparr>tr_save = pg_insert_token, tr_find_by_token_hash = pg_find_token_by_hash,
     tr_delete = pg_delete_token, tr_delete_all_for_user = pg_delete_tokens_for_user\<rparr>"

section \<open>The unit of work\<close>

definition set_open :: "bool \<Rightarrow> ('j, 'z) pg \<Rightarrow> ('j, 'z) pg" where
  "set_open b s = s\<lparr>bk_rest := (bk_rest s)\<lparr>sv_open := b\<rparr>\<rparr>"

definition pg_commit :: "('j, 'z, unit) pg_cmd" where
  "pg_commit = seq_cmd plain (writes (set_open False))"

text \<open>The scope of a transaction that began in \<open>start\<close>.\<close>

definition pg_scope :: "case_table \<Rightarrow> ('j, 'z) pg \<Rightarrow> ('j, 'z) pg tx_scope" where
  "pg_scope lc start = \<lparr>tx_users = pg_user_repo lc, tx_refresh_tokens = pg_token_repo, tx_commit = pg_commit,
     tx_drop = (\<lambda>t. if sv_open (bk_rest t) then rolled_back start t else t)\<rparr>"

definition pg_unit_of_work :: "case_table \<Rightarrow> ('j, 'z) pg unit_of_work" where
  "pg_unit_of_work lc s = (case plain s of
     (Ok _, t) \<Rightarrow> (Ok (pg_scope lc t), set_open True t)
   | (Err e, t) \<Rightarrow> (Err e, t)
   | (Panic, t) \<Rightarrow> (Panic, t))"

end
