(* ===== verification/PgMarkets.thy ===== *)
theory PgMarkets
  imports PgUsers "HOL-Library.Product_Lexorder"
begin

text \<open>
  The Postgres market repository (\<open>persistence/postgres/market_repository.rs\<close>).  The server's case
  folding and \<open>date_trunc\<close> are parameters.
\<close>

section \<open>Rows\<close>

definition market_of_row :: "market_row \<Rightarrow> (market, repo_error) result" where
  "market_of_row row = (let bad = corrupt ''corrupt market row '' (mw_id row) in
     and_then (map_err bad (title_new (mw_title row))) (\<lambda>title.
     and_then (map_err bad (market_status_from_str (mw_status row))) (\<lambda>status.
     Ok \<lparr>m_id = MarketId (mw_id row), m_title = title, m_description = mw_description row,
       m_category = mw_category row, m_thumbnail_url = mw_thumbnail_url row, m_status = status,
       m_resolved_outcome_id = map_option OutcomeId (mw_resolved_outcome_id row),
       m_total_volume = mw_total_volume row, m_participants_count = mw_participants_count row,
       m_created_at = mw_created_at row, m_closes_at = mw_closes_at row\<rparr>)))"

definition row_of_market :: "market \<Rightarrow> market_row" where
  "row_of_market m = \<lparr>mw_id = market_uuid (m_id m), mw_title = title_as_str (m_title m),
     mw_description = m_description m, mw_category = m_category m, mw_thumbnail_url = m_thumbnail_url m,
     mw_status = market_status_as_str (m_status m),
     mw_resolved_outcome_id = map_option outcome_uuid (m_resolved_outcome_id m),
     mw_total_volume = m_total_volume m, mw_participants_count = m_participants_count m,
     mw_created_at = m_created_at m, mw_closes_at = m_closes_at m\<rparr>"

definition outcome_of_row :: "outcome_row \<Rightarrow> (outcome, repo_error) result" where
  "outcome_of_row row = (let bad = corrupt ''corrupt outcome row '' (ow_id row) in
     and_then (map_err bad (label_new (ow_label row))) (\<lambda>label.
     and_then (map_err bad (from_ten_thousandths (ow_current_price row))) (\<lambda>price.
     Ok \<lparr>o_id = OutcomeId (ow_id row), o_market_id = MarketId (ow_market_id row), o_label = label,
       o_thumbnail_url = ow_thumbnail_url row, o_current_price = price, o_volume = ow_volume row\<rparr>)))"

definition row_of_outcome :: "outcome \<Rightarrow> outcome_row" where
  "row_of_outcome oc = \<lparr>ow_id = outcome_uuid (o_id oc), ow_market_id = market_uuid (o_market_id oc),
     ow_label = label_as_str (o_label oc), ow_thumbnail_url = o_thumbnail_url oc,
     ow_current_price = as_ten_thousandths (o_current_price oc), ow_volume = o_volume oc\<rparr>"

definition point_of_row :: "point_row \<Rightarrow> (price_point, repo_error) result" where
  "point_of_row row = and_then (map_err (corrupt ''corrupt price_history row for outcome '' (pw_outcome_id row))
       (from_ten_thousandths (pw_price row))) (\<lambda>price.
     Ok \<lparr>pp_outcome_id = OutcomeId (pw_outcome_id row), pp_price = price, pp_recorded_at = pw_recorded_at row\<rparr>)"

definition row_of_point :: "price_point \<Rightarrow> point_row" where
  "row_of_point p = \<lparr>pw_outcome_id = outcome_uuid (pp_outcome_id p), pw_price = as_ten_thousandths (pp_price p),
     pw_recorded_at = pp_recorded_at p\<rparr>"

text \<open>Decoding what a statement returned: all rows, or the one if there is one.\<close>

definition decode_all :: "('r \<Rightarrow> ('a, repo_error) result) \<Rightarrow> 'r list \<Rightarrow> ('s, 'a list, repo_error) cmd" where
  "decode_all f rows = lift (collect_results (map f rows))"

definition decode_one :: "('r \<Rightarrow> ('a, repo_error) result) \<Rightarrow> 'r option \<Rightarrow> ('s, 'a option, repo_error) cmd" where
  "decode_one f row = lift (case row of None \<Rightarrow> Ok None | Some r \<Rightarrow> and_then (f r) (\<lambda>x. Ok (Some x)))"

section \<open>Inserting\<close>

definition pg_insert_market :: "market \<Rightarrow> ('j, 'z, unit) pg_cmd" where
  "pg_insert_market m = (let new = row_of_market m in
     insert_row (\<lambda>r. list_ex (\<lambda>row. mw_id row = mw_id new) (sv_markets r))
       (\<lambda>r. case mw_resolved_outcome_id new of None \<Rightarrow> True | Some w \<Rightarrow> list_ex (\<lambda>row. ow_id row = w) (sv_outcomes r))
       (\<lambda>r. r\<lparr>sv_markets := sv_markets r @ [new]\<rparr>))"

definition pg_insert_outcome :: "outcome \<Rightarrow> ('j, 'z, unit) pg_cmd" where
  "pg_insert_outcome oc = (let new = row_of_outcome oc in
     insert_row (\<lambda>r. list_ex (\<lambda>row. ow_id row = ow_id new) (sv_outcomes r))
       (\<lambda>r. list_ex (\<lambda>row. mw_id row = ow_market_id new) (sv_markets r))
       (\<lambda>r. r\<lparr>sv_outcomes := sv_outcomes r @ [new]\<rparr>))"

definition pg_insert_price_point :: "price_point \<Rightarrow> ('j, 'z, unit) pg_cmd" where
  "pg_insert_price_point p = (let new = row_of_point p in
     insert_row (\<lambda>_. False) (\<lambda>r. list_ex (\<lambda>row. ow_id row = pw_outcome_id new) (sv_outcomes r))
       (\<lambda>r. r\<lparr>sv_points := sv_points r @ [new]\<rparr>))"

definition pg_market_create :: "datetime \<Rightarrow> market \<Rightarrow> outcome list \<Rightarrow> ('j, 'z, unit) pg_cmd" where
  "pg_market_create now m os = in_tx (seq_cmd (pg_insert_market m)
     (for_each (\<lambda>oc. seq_cmd (pg_insert_outcome oc)
       (pg_insert_price_point (price_point_new now (o_id oc) (o_current_price oc)))) os))"

section \<open>Reading\<close>

definition pg_market_find_by_id :: "market_id \<Rightarrow> ('j, 'z, market option) pg_cmd" where
  "pg_market_find_by_id i = bind_cmd (select (\<lambda>_ r. find (\<lambda>row. mw_id row = market_uuid i) (sv_markets r)))
     (decode_one market_of_row)"

definition pg_market_find_by_ids :: "market_id list \<Rightarrow> ('j, 'z, market list) pg_cmd" where
  "pg_market_find_by_ids ids = bind_cmd (select (\<lambda>p r. filter (\<lambda>row. mw_id row \<in> set (map market_uuid ids))
     (scan p (sv_markets r)))) (decode_all market_of_row)"

definition pg_outcomes_for :: "market_id \<Rightarrow> ('j, 'z, outcome list) pg_cmd" where
  "pg_outcomes_for i = bind_cmd (select (\<lambda>_ r. filter (\<lambda>row. ow_market_id row = market_uuid i) (sv_outcomes r)))
     (decode_all outcome_of_row)"

definition pg_outcome_by_id :: "outcome_id \<Rightarrow> ('j, 'z, outcome option) pg_cmd" where
  "pg_outcome_by_id i = bind_cmd (select (\<lambda>_ r. find (\<lambda>row. ow_id row = outcome_uuid i) (sv_outcomes r)))
     (decode_one outcome_of_row)"

definition pg_outcomes_for_markets :: "market_id list \<Rightarrow> ('j, 'z, outcome list) pg_cmd" where
  "pg_outcomes_for_markets ids = bind_cmd (select (\<lambda>_ r. sort_key ow_market_id
     (filter (\<lambda>row. ow_market_id row \<in> set (map market_uuid ids)) (sv_outcomes r)))) (decode_all outcome_of_row)"

text \<open>\<open>ILIKE\<close> after case folding: \<open>%\<close> is any text, \<open>_\<close> any character, a backslash takes the next
  character as it is.\<close>

fun like :: "str \<Rightarrow> str \<Rightarrow> bool" where
  "like [] t = (t = [])"
| "like (p # ps) t =
     (if p = 37 then like ps t \<or> (case t of [] \<Rightarrow> False | _ # t' \<Rightarrow> like (p # ps) t')
      else if p = 92 then (case ps of [] \<Rightarrow> False | q # qs \<Rightarrow> (case t of [] \<Rightarrow> False | c # t' \<Rightarrow> c = q \<and> like qs t'))
      else (case t of [] \<Rightarrow> False | c # t' \<Rightarrow> (p = 95 \<or> c = p) \<and> like ps t'))"

definition title_matches :: "(str \<Rightarrow> str) \<Rightarrow> str \<Rightarrow> str \<Rightarrow> bool" where
  "title_matches fold_case search title = like (fold_case (lit ''%'' @ search @ lit ''%'')) (fold_case title)"

definition market_row_matches :: "(str \<Rightarrow> str) \<Rightarrow> market_filter \<Rightarrow> market_row \<Rightarrow> bool" where
  "market_row_matches fold_case f row \<longleftrightarrow>
     (case mf_status f of None \<Rightarrow> True | Some status \<Rightarrow> mw_status row = market_status_as_str status)
     \<and> (case mf_category f of None \<Rightarrow> True | Some c \<Rightarrow> mw_category row = Some c)
     \<and> (case mf_search f of None \<Rightarrow> True | Some q \<Rightarrow> title_matches fold_case q (mw_title row))"

definition row_popularity :: "market_row \<Rightarrow> int" where
  "row_popularity row = mw_total_volume row + mw_participants_count row"

definition row_closing_key :: "market_row \<Rightarrow> int \<times> int" where
  "row_closing_key row = (case mw_closes_at row of Some t \<Rightarrow> (0, t) | None \<Rightarrow> (1, 0))"

fun pg_order_markets :: "market_sort \<Rightarrow> market_row list \<Rightarrow> market_row list" where
  "pg_order_markets Popular rows = sort_key (\<lambda>row. (- row_popularity row, - mw_created_at row)) rows"
| "pg_order_markets Newest rows = sort_key (\<lambda>row. - mw_created_at row) rows"
| "pg_order_markets Volume rows = sort_key (\<lambda>row. (- mw_total_volume row, - mw_created_at row)) rows"
| "pg_order_markets ClosingSoon rows = sort_key (\<lambda>row. (row_closing_key row, - mw_created_at row)) rows"

text \<open>The sum in the popularity order is a \<open>BIGINT\<close>.\<close>

definition sums_fit :: "market_row list \<Rightarrow> (unit, sqlx_error) result" where
  "sums_fit rows = and_then (collect_results (map (\<lambda>row. bigint (row_popularity row)) rows)) (\<lambda>_. Ok ())"

definition pg_market_list :: "(str \<Rightarrow> str) \<Rightarrow> market_filter \<Rightarrow> ('j, 'z, market list) pg_cmd" where
  "pg_market_list fold_case f = bind_cmd (statement (\<lambda>p r.
       let rows = filter (market_row_matches fold_case f) (scan p (sv_markets r)) in
       and_then (if mf_sort f = Popular then sums_fit rows else Ok ()) (\<lambda>_.
       and_then (pg_page (mf_limit f) (mf_offset f) (pg_order_markets (mf_sort f) rows)) (\<lambda>rows.
       Ok (rows, r))))) (decode_all market_of_row)"

definition pg_market_featured :: "('j, 'z, market option) pg_cmd" where
  "pg_market_featured = bind_cmd (statement (\<lambda>p r.
       let rows = filter (\<lambda>row. mw_status row = lit ''open'') (scan p (sv_markets r)) in
       and_then (sums_fit rows) (\<lambda>_. Ok (case pg_order_markets Popular rows of [] \<Rightarrow> None | row # _ \<Rightarrow> Some row, r))))
     (decode_one market_of_row)"

section \<open>Updates\<close>

definition pg_record_resolution :: "market \<Rightarrow> ('j, 'z, nat) pg_cmd" where
  "pg_record_resolution m = statement (\<lambda>_ r.
     if (case m_resolved_outcome_id m of None \<Rightarrow> True
       | Some w \<Rightarrow> list_ex (\<lambda>row. ow_id row = outcome_uuid w) (sv_outcomes r))
     then and_then (update_rows (\<lambda>row. mw_id row = market_uuid (m_id m))
       (\<lambda>row. Ok (row\<lparr>mw_status := market_status_as_str (m_status m),
         mw_resolved_outcome_id := map_option outcome_uuid (m_resolved_outcome_id m)\<rparr>)) (sv_markets r))
       (\<lambda>(n, rows). Ok (n, r\<lparr>sv_markets := rows\<rparr>))
     else Err (OtherSql (msg ''update violates a foreign key'')))"

definition pg_market_resolve :: "market \<Rightarrow> ('j, 'z, unit) pg_cmd" where
  "pg_market_resolve m = quietly (pg_record_resolution m)"

definition pg_update_thumbnail :: "market \<Rightarrow> ('j, 'z, unit) pg_cmd" where
  "pg_update_thumbnail m = quietly (update_markets (\<lambda>row. mw_id row = market_uuid (m_id m))
     (\<lambda>row. Ok (row\<lparr>mw_thumbnail_url := m_thumbnail_url m\<rparr>)))"

definition pg_update_outcome_thumbnail :: "outcome \<Rightarrow> ('j, 'z, unit) pg_cmd" where
  "pg_update_outcome_thumbnail oc = quietly (update_outcomes (\<lambda>row. ow_id row = outcome_uuid (o_id oc))
     (\<lambda>row. Ok (row\<lparr>ow_thumbnail_url := o_thumbnail_url oc\<rparr>)))"

section \<open>Price history\<close>

fun trunc_unit :: "price_interval \<Rightarrow> str" where
  "trunc_unit Minute = lit ''minute''"
| "trunc_unit Hour = lit ''hour''"
| "trunc_unit Day = lit ''day''"

text \<open>\<open>SELECT DISTINCT ON\<close>: the first row of each group, in the order of the rows.\<close>

lemma filter_shorter [termination_simp]: "length (filter P xs) < Suc (length xs)"
  by (simp add: le_imp_less_Suc)

fun distinct_on :: "('r \<Rightarrow> 'k) \<Rightarrow> 'r list \<Rightarrow> 'r list" where
  "distinct_on k [] = []"
| "distinct_on k (x # xs) = x # distinct_on k (filter (\<lambda>y. k y \<noteq> k x) xs)"

definition pg_price_history :: "(str \<Rightarrow> datetime \<Rightarrow> datetime) \<Rightarrow> market_id \<Rightarrow> price_history_query
    \<Rightarrow> ('j, 'z, price_point list) pg_cmd" where
  "pg_price_history date_trunc i q = bind_cmd (select (\<lambda>p r.
       let bucket = (\<lambda>row. (pw_outcome_id row, date_trunc (trunc_unit (phq_interval q)) (pw_recorded_at row)));
           rows = filter (\<lambda>row. list_ex (\<lambda>oc. ow_id oc = pw_outcome_id row \<and> ow_market_id oc = market_uuid i) (sv_outcomes r)
             \<and> (case phq_from q of None \<Rightarrow> True | Some from \<Rightarrow> from \<le> pw_recorded_at row)
             \<and> (case phq_to q of None \<Rightarrow> True | Some to \<Rightarrow> pw_recorded_at row \<le> to)) (scan p (sv_points r))
       in sort_key pw_recorded_at (distinct_on bucket
         (sort_key (\<lambda>row. (bucket row, - pw_recorded_at row)) rows))))
     (decode_all point_of_row)"

record dialect =
  dl_lc :: case_table
  dl_fold :: "str \<Rightarrow> str"
  dl_trunc :: "str \<Rightarrow> datetime \<Rightarrow> datetime"

definition pg_market_repo :: "dialect \<Rightarrow> ('j, 'z) pg market_repo" where
  "pg_market_repo d = \<lparr>mr_create = pg_market_create, mr_find_by_id = pg_market_find_by_id,
     mr_find_by_ids = pg_market_find_by_ids, mr_outcomes_for = pg_outcomes_for,
     mr_outcome_by_id = pg_outcome_by_id, mr_outcomes_for_markets = pg_outcomes_for_markets,
     mr_list = pg_market_list (dl_fold d), mr_featured = pg_market_featured, mr_resolve = pg_market_resolve,
     mr_update_thumbnail = pg_update_thumbnail, mr_update_outcome_thumbnail = pg_update_outcome_thumbnail,
     mr_price_history = pg_price_history (dl_trunc d)\<rparr>"

end
