(* ===== verification/PgBets.thy ===== *)
theory PgBets
  imports PgMarkets
begin

text \<open>
  The Postgres bet repository (\<open>persistence/postgres/bet_repository.rs\<close>): placing and settling are
  one transaction each, balances and volumes move relatively, and the events go into the outbox
  inside the same transaction.  \<open>now\<close> is the transaction's \<open>now()\<close>.
\<close>

section \<open>Rows\<close>

definition bet_of_row :: "bet_row \<Rightarrow> (bet, repo_error) result" where
  "bet_of_row row = (let bad = corrupt ''corrupt bet row '' (bw_id row) in
     and_then (map_err bad (from_ten_thousandths (bw_price row))) (\<lambda>price.
     and_then (map_err bad (bet_status_from_str (bw_status row))) (\<lambda>status.
     Ok \<lparr>b_id = BetId (bw_id row), b_user_id = UserId (bw_user_id row), b_market_id = MarketId (bw_market_id row),
       b_outcome_id = OutcomeId (bw_outcome_id row), b_amount = bw_amount row, b_price = price,
       b_status = status, b_payout = bw_payout row, b_created_at = bw_created_at row\<rparr>)))"

definition row_of_bet :: "bet \<Rightarrow> bet_row" where
  "row_of_bet b = \<lparr>bw_id = bet_uuid (b_id b), bw_user_id = user_uuid (b_user_id b),
     bw_market_id = market_uuid (b_market_id b), bw_outcome_id = outcome_uuid (b_outcome_id b),
     bw_amount = b_amount b, bw_price = as_ten_thousandths (b_price b),
     bw_status = bet_status_as_str (b_status b), bw_payout = b_payout b, bw_created_at = b_created_at b\<rparr>"

section \<open>Placing\<close>

text \<open>The conditional debit: the number of rows it met.\<close>

definition pg_debit :: "datetime \<Rightarrow> int \<Rightarrow> user_id \<Rightarrow> ('j, 'z, nat) pg_cmd" where
  "pg_debit now amount u = update_users (\<lambda>row. uw_id row = user_uuid u \<and> amount \<le> uw_balance row)
     (\<lambda>row. and_then (bigint (uw_balance row - amount)) (\<lambda>balance.
       Ok (row\<lparr>uw_balance := balance, uw_updated_at := now\<rparr>)))"

definition pg_insert_bet :: "bet \<Rightarrow> ('j, 'z, unit) pg_cmd" where
  "pg_insert_bet b = (let new = row_of_bet b in
     insert_row (\<lambda>r. list_ex (\<lambda>row. bw_id row = bw_id new) (sv_bets r))
       (\<lambda>r. 0 < bw_amount new \<and> 0 < bw_price new \<and> bw_price new \<le> 10000
         \<and> list_ex (\<lambda>row. uw_id row = bw_user_id new) (sv_users r)
         \<and> list_ex (\<lambda>row. mw_id row = bw_market_id new) (sv_markets r)
         \<and> list_ex (\<lambda>row. ow_id row = bw_outcome_id new) (sv_outcomes r))
       (\<lambda>r. r\<lparr>sv_bets := sv_bets r @ [new]\<rparr>))"

definition pg_move_outcome :: "bet \<Rightarrow> outcome \<Rightarrow> ('j, 'z, unit) pg_cmd" where
  "pg_move_outcome b oc = (let staked = (if o_id oc = b_outcome_id b then b_amount b else 0) in
     quietly (update_outcomes (\<lambda>row. ow_id row = outcome_uuid (o_id oc))
       (\<lambda>row. and_then (bigint (ow_volume row + staked)) (\<lambda>volume.
         Ok (row\<lparr>ow_volume := volume, ow_current_price := as_ten_thousandths (o_current_price oc)\<rparr>)))))"

definition pg_move_market :: "bet \<Rightarrow> bool \<Rightarrow> ('j, 'z, unit) pg_cmd" where
  "pg_move_market b repeat_bettor = quietly (update_markets (\<lambda>row. mw_id row = market_uuid (b_market_id b))
     (\<lambda>row. and_then (bigint (mw_total_volume row + b_amount b)) (\<lambda>volume.
       and_then (integer (mw_participants_count row + (if repeat_bettor then 0 else 1))) (\<lambda>participants.
       Ok (row\<lparr>mw_total_volume := volume, mw_participants_count := participants\<rparr>)))))"

definition pg_place :: "'j event_codec \<Rightarrow> datetime \<Rightarrow> bet \<Rightarrow> outcome list \<Rightarrow> price_point list \<Rightarrow> ('j, 'z, unit) pg_cmd" where
  "pg_place codec now b priced_outcomes points = in_tx (
     bind_cmd (pg_debit now (b_amount b) (b_user_id b)) (\<lambda>debited.
     if debited = 0 then fail (Conflict (msg ''balance no longer covers the stake''))
     else
     bind_cmd (select (\<lambda>_ r. list_ex (\<lambda>row. bw_user_id row = user_uuid (b_user_id b)
       \<and> bw_market_id row = market_uuid (b_market_id b)) (sv_bets r))) (\<lambda>repeat_bettor.
     seq_cmd (pg_insert_bet b) (
     seq_cmd (for_each (pg_move_outcome b) priced_outcomes) (
     seq_cmd (pg_move_market b repeat_bettor) (
     seq_cmd (for_each pg_insert_price_point points) (
     seq_cmd (pg_publish codec (UserBalanceChanged (b_user_id b))) (
     seq_cmd (pg_publish codec (BetPlaced (b_id b)))
       (pg_publish codec (MarketPricesUpdated (b_market_id b)))))))))))"

section \<open>Settling\<close>

definition pg_credit :: "datetime \<Rightarrow> int \<Rightarrow> user_id \<Rightarrow> ('j, 'z, unit) pg_cmd" where
  "pg_credit now payout u = quietly (update_users (\<lambda>row. uw_id row = user_uuid u)
     (\<lambda>row. and_then (bigint (uw_balance row + payout)) (\<lambda>balance.
       Ok (row\<lparr>uw_balance := balance, uw_updated_at := now\<rparr>))))"

definition pg_settle_one :: "datetime \<Rightarrow> bet \<Rightarrow> ('j, 'z, unit) pg_cmd" where
  "pg_settle_one now b = seq_cmd
     (quietly (update_bets (\<lambda>row. bw_id row = bet_uuid (b_id b))
       (\<lambda>row. Ok (row\<lparr>bw_status := bet_status_as_str (b_status b), bw_payout := b_payout b\<rparr>))))
     (case b_payout b of None \<Rightarrow> ret () | Some payout \<Rightarrow> pg_credit now payout (b_user_id b))"

text \<open>The paid users, each once; the hash set that holds them is taken in the order of the bets.\<close>

definition pg_paid :: "bet list \<Rightarrow> user_id list" where
  "pg_paid settled = remdups (map b_user_id (filter (\<lambda>b. b_payout b \<noteq> None) settled))"

definition pg_settle :: "'j event_codec \<Rightarrow> datetime \<Rightarrow> market \<Rightarrow> bet list \<Rightarrow> ('j, 'z, unit) pg_cmd" where
  "pg_settle codec now m settled = in_tx (
     seq_cmd (quietly (pg_record_resolution m)) (
     seq_cmd (for_each (pg_settle_one now) settled)
       (for_each (\<lambda>u. pg_publish codec (UserBalanceChanged u)) (pg_paid settled))))"

section \<open>Reading\<close>

fun bet_row_matches :: "bet_status_filter \<Rightarrow> bet_row \<Rightarrow> bool" where
  "bet_row_matches AnyStatus row = True"
| "bet_row_matches (IsStatus st) row = (bw_status row = bet_status_as_str st)"
| "bet_row_matches Settled row = (bw_status row \<noteq> bet_status_as_str Active)"

fun pg_order_bets :: "bet_sort \<Rightarrow> bet_row list \<Rightarrow> bet_row list" where
  "pg_order_bets BetNewest rows = sort_key (\<lambda>row. - bw_created_at row) rows"
| "pg_order_bets BetPopular rows = sort_key (\<lambda>row. (- bw_amount row, - bw_created_at row)) rows"

definition pg_list_bets :: "(bet_row \<Rightarrow> bool) \<Rightarrow> bet_filter \<Rightarrow> ('j, 'z, bet list) pg_cmd" where
  "pg_list_bets condition f = bind_cmd (statement (\<lambda>p r.
     and_then (pg_page (bf_limit f) (bf_offset f) (pg_order_bets (bf_sort f)
       (filter (\<lambda>row. condition row \<and> bet_row_matches (bf_status f) row) (scan p (sv_bets r))))) (\<lambda>rows.
     Ok (rows, r)))) (decode_all bet_of_row)"

definition pg_find_by_user :: "user_id \<Rightarrow> bet_filter \<Rightarrow> ('j, 'z, bet list) pg_cmd" where
  "pg_find_by_user u = pg_list_bets (\<lambda>row. bw_user_id row = user_uuid u)"

definition pg_find_by_market :: "market_id \<Rightarrow> bet_filter \<Rightarrow> ('j, 'z, bet list) pg_cmd" where
  "pg_find_by_market m = pg_list_bets (\<lambda>row. bw_market_id row = market_uuid m)"

definition pg_feed :: "bet_filter \<Rightarrow> ('j, 'z, bet list) pg_cmd" where
  "pg_feed = pg_list_bets (\<lambda>_. True)"

definition pg_active_for_market :: "market_id \<Rightarrow> ('j, 'z, bet list) pg_cmd" where
  "pg_active_for_market m = bind_cmd (select (\<lambda>p r. filter (\<lambda>row. bw_market_id row = market_uuid m
     \<and> bw_status row = bet_status_as_str Active) (scan p (sv_bets r)))) (decode_all bet_of_row)"

definition pg_bet_find_by_id :: "bet_id \<Rightarrow> ('j, 'z, bet option) pg_cmd" where
  "pg_bet_find_by_id i = bind_cmd (select (\<lambda>_ r. find (\<lambda>row. bw_id row = bet_uuid i) (sv_bets r)))
     (decode_one bet_of_row)"

text \<open>The aggregates are exact; the cast of the sum back to \<open>BIGINT\<close> can fail.\<close>

definition pg_stats_for_user :: "user_id \<Rightarrow> ('j, 'z, user_stats) pg_cmd" where
  "pg_stats_for_user u = statement (\<lambda>_ r.
     let rows = filter (\<lambda>row. bw_user_id row = user_uuid u) (sv_bets r) in
     and_then (bigint (sum_list (map bw_amount rows))) (\<lambda>total.
     Ok (\<lparr>us_total_bets = int (length rows),
       us_wins = int (length (filter (\<lambda>row. bw_status row = bet_status_as_str Won) rows)),
       us_losses = int (length (filter (\<lambda>row. bw_status row = bet_status_as_str Lost) rows)),
       us_total_volume = total\<rparr>, r)))"

text \<open>The grouped weighted means: the groups that hold an active bet, in any order, each floored.  The
  division of \<open>NUMERIC\<close> values is taken as exact.\<close>

definition row_position :: "bet_row \<Rightarrow> uuid \<times> uuid" where
  "row_position row = (bw_user_id row, bw_outcome_id row)"

definition weighted_mean :: "bet_row list \<Rightarrow> int" where
  "weighted_mean rows = sum_list (map (\<lambda>row. bw_amount row * bw_price row) rows) div sum_list (map bw_amount rows)"

definition position_of_row :: "uuid \<times> uuid \<times> int \<Rightarrow> (active_position, repo_error) result" where
  "position_of_row row = (case row of (u, oc, avg) \<Rightarrow>
     and_then (map_err (\<lambda>e. Storage ([Lit ''corrupt average price for user '', UuidF u, Lit '' on outcome '', UuidF oc,
       Lit '': ''] @ show_domain_error e)) (from_ten_thousandths avg)) (\<lambda>price.
     Ok \<lparr>ap_user_id = UserId u, ap_outcome_id = OutcomeId oc, ap_avg_price = price\<rparr>))"

definition pg_active_positions :: "(user_id \<times> outcome_id) list \<Rightarrow> ('j, 'z, active_position list) pg_cmd" where
  "pg_active_positions pairs = (if pairs = [] then ret [] else
     bind_cmd (statement (\<lambda>p r.
       let wanted = map (\<lambda>(u, oc). (user_uuid u, outcome_uuid oc)) pairs;
           rows = filter (\<lambda>row. bw_status row = bet_status_as_str Active \<and> row_position row \<in> set wanted) (sv_bets r);
           groups = scan p (remdups (map row_position rows))
       in and_then (collect_results (map (\<lambda>g. and_then (integer (weighted_mean (filter (\<lambda>row. row_position row = g) rows)))
            (\<lambda>avg. Ok (fst g, snd g, avg))) groups)) (\<lambda>found. Ok (found, r))))
     (\<lambda>found. decode_all position_of_row found))"

definition pg_bet_repo :: "'j event_codec \<Rightarrow> ('j, 'z) pg bet_repo" where
  "pg_bet_repo codec = \<lparr>br_place = pg_place codec, br_active_for_market = pg_active_for_market,
     br_settle = pg_settle codec, br_find_by_id = pg_bet_find_by_id, br_find_by_user = pg_find_by_user,
     br_find_by_market = pg_find_by_market, br_feed = pg_feed, br_stats_for_user = pg_stats_for_user,
     br_active_positions = pg_active_positions\<rparr>"

end
