(* ===== verification/PgLedger.thy ===== *)
theory PgLedger
  imports PgBets BetLedger
begin

text \<open>
  The Postgres repositories keep the ledger: the second interpretation of the betting contract.
  Whatever statement fails, a placement or a settlement is made as a whole or not at all, together
  with its events; the ledger is what the rows decode to.
\<close>

section \<open>Decoded rows\<close>

fun oks :: "('a, 'e) result list \<Rightarrow> 'a list" where
  "oks [] = []"
| "oks (r # rs) = (case r of Ok x \<Rightarrow> x # oks rs | _ \<Rightarrow> oks rs)"

definition decodes :: "('r \<Rightarrow> ('a, 'e) result) \<Rightarrow> 'r list \<Rightarrow> bool" where
  "decodes f rows \<longleftrightarrow> (\<forall>row\<in>set rows. is_ok (f row))"

lemma decodes_simps [simp]:
  "decodes f []" "decodes f (row # rows) \<longleftrightarrow> is_ok (f row) \<and> decodes f rows"
  "decodes f (xs @ ys) \<longleftrightarrow> decodes f xs \<and> decodes f ys"
  by (auto simp: decodes_def)

lemma oks_append [simp]: "oks (xs @ ys) = oks xs @ oks ys"
  by (induction xs) (auto split: result.splits)

lemma collect_oks: "decodes f rows \<Longrightarrow> collect_results (map f rows) = Ok (oks (map f rows))"
  by (induction rows) (auto simp: is_ok_iff)

lemma oks_map:
  "decodes f rows \<Longrightarrow> (\<And>row x. row \<in> set rows \<Longrightarrow> f row = Ok x \<Longrightarrow> f (g row) = Ok (h x)) \<Longrightarrow>
   oks (map f (map g rows)) = map h (oks (map f rows)) \<and> decodes f (map g rows)"
  by (induction rows) (auto simp: is_ok_iff)

lemma oks_filter:
  "decodes f rows \<Longrightarrow> (\<And>row x. row \<in> set rows \<Longrightarrow> f row = Ok x \<Longrightarrow> P x = c row) \<Longrightarrow>
   oks (map f (filter c rows)) = filter P (oks (map f rows)) \<and> decodes f (filter c rows)"
proof (induction rows)
  case (Cons row rows)
  then have "f row = Ok x \<Longrightarrow> P x = c row" for x by simp
  then show ?case using Cons by (cases "f row") auto
qed simp

lemma oks_find:
  "decodes f rows \<Longrightarrow> (\<And>row x. row \<in> set rows \<Longrightarrow> f row = Ok x \<Longrightarrow> P x = c row) \<Longrightarrow>
   find P (oks (map f rows)) = (case find c rows of None \<Rightarrow> None
     | Some row \<Rightarrow> (case f row of Ok x \<Rightarrow> Some x | _ \<Rightarrow> None))"
proof (induction rows)
  case (Cons row rows)
  then have "f row = Ok x \<Longrightarrow> P x = c row" for x by simp
  then show ?case using Cons by (cases "f row") auto
qed simp

lemma set_oks: "x \<in> set (oks (map f rows)) \<longleftrightarrow> (\<exists>row\<in>set rows. f row = Ok x)"
  by (induction rows) (auto split: result.splits)

lemma mset_oks:
  assumes "mset xs = mset ys"
  shows "mset (oks (map f xs)) = mset (oks (map f ys))"
proof -
  have "oks (map f zs) = concat (map (\<lambda>r. case f r of Ok x \<Rightarrow> [x] | _ \<Rightarrow> []) zs)" for zs
    by (induction zs) (auto split: result.splits)
  moreover have "mset (concat (map h zs)) = \<Sum>\<^sub># (image_mset (mset \<circ> h) (mset zs))" for h :: "'a \<Rightarrow> 'b list" and zs
    by (induction zs) auto
  ultimately show ?thesis using assms by simp
qed

section \<open>The ledger of the tables\<close>

definition users_in :: "case_table \<Rightarrow> 'z server_scheme \<Rightarrow> user list" where
  "users_in lc r = oks (map (user_of_row lc) (sv_users r))"

definition markets_in :: "'z server_scheme \<Rightarrow> market list" where
  "markets_in r = oks (map market_of_row (sv_markets r))"

definition outcomes_in :: "'z server_scheme \<Rightarrow> outcome list" where
  "outcomes_in r = oks (map outcome_of_row (sv_outcomes r))"

definition bets_in :: "'z server_scheme \<Rightarrow> bet list" where
  "bets_in r = oks (map bet_of_row (sv_bets r))"

definition pg_ledger :: "case_table \<Rightarrow> ('j, 'z) pg \<Rightarrow> ledger" where
  "pg_ledger lc s = \<lparr>lg_users = (\<lambda>i. find (\<lambda>u. u_id u = i) (users_in lc (bk_rest s))),
     lg_markets = (\<lambda>i. find (\<lambda>m. m_id m = i) (markets_in (bk_rest s))),
     lg_outcomes = outcomes_in (bk_rest s), lg_bets = bets_in (bk_rest s)\<rparr>"

text \<open>Every row decodes, the primary keys are unique, and unordered reads return every row once.\<close>

definition pg_inv :: "case_table \<Rightarrow> ('j, 'z) pg \<Rightarrow> bool" where
  "pg_inv lc s \<longleftrightarrow> decodes (user_of_row lc) (sv_users (bk_rest s)) \<and> decodes market_of_row (sv_markets (bk_rest s))
     \<and> decodes outcome_of_row (sv_outcomes (bk_rest s)) \<and> decodes bet_of_row (sv_bets (bk_rest s))
     \<and> distinct (map uw_id (sv_users (bk_rest s))) \<and> distinct (map mw_id (sv_markets (bk_rest s)))
     \<and> (\<forall>n k. mset (sv_plan (bk_rest s) n k) = mset [0..<k])"

lemma same_tables_view:
  assumes "same_tables s t"
  shows "pg_ledger lc t = pg_ledger lc s" "pg_inv lc t = pg_inv lc s"
  using same_tables_fields [OF assms]
  by (simp_all add: pg_ledger_def pg_inv_def users_in_def markets_in_def outcomes_in_def bets_in_def)

lemma user_of_row_Ok:
  "user_of_row lc row = Ok u \<longleftrightarrow> (\<exists>name mail role. username_new (uw_username row) = Ok name
     \<and> email_new lc (uw_email row) = Ok mail \<and> role_from_str (uw_role row) = Ok role
     \<and> u = \<lparr>u_id = UserId (uw_id row), u_username = name, u_email = mail,
       u_password_hash = PasswordHash (uw_password_hash row), u_avatar_url = uw_avatar_url row,
       u_balance = uw_balance row, u_role = role, u_created_at = uw_created_at row,
       u_updated_at = uw_updated_at row\<rparr>)"
  by (auto simp: user_of_row_def Let_def and_then_eq_Ok)

lemma market_of_row_Ok:
  "market_of_row row = Ok m \<longleftrightarrow> (\<exists>title status. title_new (mw_title row) = Ok title
     \<and> market_status_from_str (mw_status row) = Ok status
     \<and> m = \<lparr>m_id = MarketId (mw_id row), m_title = title, m_description = mw_description row,
       m_category = mw_category row, m_thumbnail_url = mw_thumbnail_url row, m_status = status,
       m_resolved_outcome_id = map_option OutcomeId (mw_resolved_outcome_id row),
       m_total_volume = mw_total_volume row, m_participants_count = mw_participants_count row,
       m_created_at = mw_created_at row, m_closes_at = mw_closes_at row\<rparr>)"
  by (auto simp: market_of_row_def Let_def and_then_eq_Ok)

lemma outcome_of_row_Ok:
  "outcome_of_row row = Ok oc \<longleftrightarrow> (\<exists>label price. label_new (ow_label row) = Ok label
     \<and> from_ten_thousandths (ow_current_price row) = Ok price
     \<and> oc = \<lparr>o_id = OutcomeId (ow_id row), o_market_id = MarketId (ow_market_id row), o_label = label,
       o_thumbnail_url = ow_thumbnail_url row, o_current_price = price, o_volume = ow_volume row\<rparr>)"
  by (auto simp: outcome_of_row_def Let_def and_then_eq_Ok)

lemma bet_of_row_Ok:
  "bet_of_row row = Ok b \<longleftrightarrow> (\<exists>price status. from_ten_thousandths (bw_price row) = Ok price
     \<and> bet_status_from_str (bw_status row) = Ok status
     \<and> b = \<lparr>b_id = BetId (bw_id row), b_user_id = UserId (bw_user_id row), b_market_id = MarketId (bw_market_id row),
       b_outcome_id = OutcomeId (bw_outcome_id row), b_amount = bw_amount row, b_price = price,
       b_status = status, b_payout = bw_payout row, b_created_at = bw_created_at row\<rparr>)"
  by (auto simp: bet_of_row_def Let_def and_then_eq_Ok)

lemma status_strings:
  "bet_status_from_str (bet_status_as_str st) = Ok st" "market_status_from_str (market_status_as_str ms) = Ok ms"
  "bet_status_as_str st = bet_status_as_str st' \<longleftrightarrow> st = st'"
  by (cases st; cases st'; cases ms; simp add: bet_status_from_str_def market_status_from_str_def lit_def)+

lemma bet_status_from_str_as_str:
  "bet_status_from_str s = Ok st \<Longrightarrow> s = bet_status_as_str st"
  by (auto simp: bet_status_from_str_def split: if_splits)

lemma price_decodes: "price_wf p \<Longrightarrow> from_ten_thousandths (as_ten_thousandths p) = (Ok p :: (price, domain_error) result)"
  by (cases p) (simp add: from_ten_thousandths_def price_wf_def price_scale_def)

section \<open>What the statements do\<close>

text \<open>The tables the books are kept in, with the outbox.\<close>

definition books :: "('j, 'z) pg \<Rightarrow> user_row list \<times> market_row list \<times> outcome_row list \<times> bet_row list
    \<times> (nat \<Rightarrow> nat \<Rightarrow> nat list) \<times> 'j outbox_row list" where
  "books s = (sv_users (bk_rest s), sv_markets (bk_rest s), sv_outcomes (bk_rest s), sv_bets (bk_rest s),
     sv_plan (bk_rest s), bk_rows s)"

lemma same_tables_books: "same_tables s t \<Longrightarrow> books t = books s"
  by (simp add: books_def same_tables_fields)

lemma books_count_sent [simp]: "books (count_sent s) = books s"
  by (simp add: books_def count_sent_def)

lemma plain_books: "plain s = (Ok (), t) \<Longrightarrow> books t = books s"
  by (auto simp: plain_Ok)

lemma select_books: "select q s = (r, t) \<Longrightarrow> books t = books s"
  by (rule same_tables_books) (rule select_same)

lemma books_view:
  assumes "books s = (us, ms, os, bs, p, ob)"
  shows "pg_ledger lc s = \<lparr>lg_users = (\<lambda>i. find (\<lambda>u. u_id u = i) (oks (map (user_of_row lc) us))),
      lg_markets = (\<lambda>i. find (\<lambda>m. m_id m = i) (oks (map market_of_row ms))),
      lg_outcomes = oks (map outcome_of_row os), lg_bets = oks (map bet_of_row bs)\<rparr>"
    "pg_inv lc s \<longleftrightarrow> decodes (user_of_row lc) us \<and> decodes market_of_row ms \<and> decodes outcome_of_row os
      \<and> decodes bet_of_row bs \<and> distinct (map uw_id us) \<and> distinct (map mw_id ms)
      \<and> (\<forall>n k. mset (p n k) = mset [0..<k])"
  using assms by (simp_all add: books_def pg_ledger_def pg_inv_def users_in_def markets_in_def outcomes_in_def bets_in_def)

lemma update_rows_value:
  assumes "update_rows c f rows = Ok (n, rows')" and g: "\<And>r y. f r = Ok y \<Longrightarrow> y = g r"
  shows "n = length (filter c rows) \<and> rows' = map (\<lambda>r. if c r then g r else r) rows
    \<and> (\<forall>r\<in>set rows. c r \<longrightarrow> f r = Ok (g r))"
proof -
  have len: "n = length (filter c rows)" and eq: "map (\<lambda>r. if c r then f r else Ok r) rows = map Ok rows'"
    using assms(1) by (auto simp: update_rows_Ok)
  have ok: "\<forall>r\<in>set rows. c r \<longrightarrow> f r = Ok (g r)"
  proof (intro ballI impI)
    fix r assume r: "r \<in> set rows" "c r"
    then have "f r \<in> set (map Ok rows')" using eq [symmetric] by force
    then show "f r = Ok (g r)" using g by auto
  qed
  have "update_rows c f rows = Ok (length (filter c rows), map (\<lambda>r. if c r then g r else r) rows)"
    using ok by (intro update_rows_map) simp
  then show ?thesis using assms(1) ok by simp
qed

lemma update_users_books:
  assumes "update_users c f s = (Ok n, t)" "books s = (us, ms, os, bs, p, ob)" "\<And>r y. f r = Ok y \<Longrightarrow> y = g r"
  shows "n = length (filter c us) \<and> books t = (map (\<lambda>r. if c r then g r else r) us, ms, os, bs, p, ob)
    \<and> (\<forall>r\<in>set us. c r \<longrightarrow> f r = Ok (g r))"
proof -
  obtain rows where u: "update_rows c f us = Ok (n, rows)"
    and t: "t = (count_sent s)\<lparr>bk_rest := (bk_rest (count_sent s))\<lparr>sv_users := rows\<rparr>\<rparr>"
    using assms by (auto simp: update_users_def statement_Ok and_then_eq_Ok bk_rest_count_sent books_def)
  show ?thesis using update_rows_value [OF u assms(3)] assms(2) by (simp add: t books_def bk_rest_count_sent)
qed

lemma update_markets_books:
  assumes "update_markets c f s = (Ok n, t)" "books s = (us, ms, os, bs, p, ob)" "\<And>r y. f r = Ok y \<Longrightarrow> y = g r"
  shows "n = length (filter c ms) \<and> books t = (us, map (\<lambda>r. if c r then g r else r) ms, os, bs, p, ob)
    \<and> (\<forall>r\<in>set ms. c r \<longrightarrow> f r = Ok (g r))"
proof -
  obtain rows where u: "update_rows c f ms = Ok (n, rows)"
    and t: "t = (count_sent s)\<lparr>bk_rest := (bk_rest (count_sent s))\<lparr>sv_markets := rows\<rparr>\<rparr>"
    using assms by (auto simp: update_markets_def statement_Ok and_then_eq_Ok bk_rest_count_sent books_def)
  show ?thesis using update_rows_value [OF u assms(3)] assms(2) by (simp add: t books_def bk_rest_count_sent)
qed

lemma update_outcomes_books:
  assumes "update_outcomes c f s = (Ok n, t)" "books s = (us, ms, os, bs, p, ob)" "\<And>r y. f r = Ok y \<Longrightarrow> y = g r"
  shows "n = length (filter c os) \<and> books t = (us, ms, map (\<lambda>r. if c r then g r else r) os, bs, p, ob)
    \<and> (\<forall>r\<in>set os. c r \<longrightarrow> f r = Ok (g r))"
proof -
  obtain rows where u: "update_rows c f os = Ok (n, rows)"
    and t: "t = (count_sent s)\<lparr>bk_rest := (bk_rest (count_sent s))\<lparr>sv_outcomes := rows\<rparr>\<rparr>"
    using assms by (auto simp: update_outcomes_def statement_Ok and_then_eq_Ok bk_rest_count_sent books_def)
  show ?thesis using update_rows_value [OF u assms(3)] assms(2) by (simp add: t books_def bk_rest_count_sent)
qed

lemma update_bets_books:
  assumes "update_bets c f s = (Ok n, t)" "books s = (us, ms, os, bs, p, ob)" "\<And>r y. f r = Ok y \<Longrightarrow> y = g r"
  shows "n = length (filter c bs) \<and> books t = (us, ms, os, map (\<lambda>r. if c r then g r else r) bs, p, ob)
    \<and> (\<forall>r\<in>set bs. c r \<longrightarrow> f r = Ok (g r))"
proof -
  obtain rows where u: "update_rows c f bs = Ok (n, rows)"
    and t: "t = (count_sent s)\<lparr>bk_rest := (bk_rest (count_sent s))\<lparr>sv_bets := rows\<rparr>\<rparr>"
    using assms by (auto simp: update_bets_def statement_Ok and_then_eq_Ok bk_rest_count_sent books_def)
  show ?thesis using update_rows_value [OF u assms(3)] assms(2) by (simp add: t books_def bk_rest_count_sent)
qed

lemma bigint_then: "and_then (bigint x) k = Ok y \<longleftrightarrow> in_i64 x \<and> k x = Ok y"
  by (simp add: bigint_def)

lemma integer_then: "and_then (integer x) k = Ok y \<longleftrightarrow> in_i32 x \<and> k x = Ok y"
  by (auto simp: integer_def in_i32_def)

section \<open>The statements of a placement\<close>

definition debited :: "datetime \<Rightarrow> int \<Rightarrow> user_row \<Rightarrow> user_row" where
  "debited now a row = row\<lparr>uw_balance := uw_balance row - a, uw_updated_at := now\<rparr>"

lemma debit_books:
  assumes "pg_debit now a u s = (Ok n, t)" "books s = (us, ms, os, bs, p, ob)"
  shows "n = length (filter (\<lambda>row. uw_id row = user_uuid u \<and> a \<le> uw_balance row) us)
    \<and> books t = (map (\<lambda>row. if uw_id row = user_uuid u \<and> a \<le> uw_balance row then debited now a row else row) us,
        ms, os, bs, p, ob)
    \<and> (\<forall>row\<in>set us. uw_id row = user_uuid u \<and> a \<le> uw_balance row \<longrightarrow> in_i64 (uw_balance row - a))"
  using update_users_books [OF assms(1) [unfolded pg_debit_def] assms(2), of "debited now a"]
  by (auto simp: bigint_then debited_def)

lemma insert_row_Ok:
  assumes "insert_row taken allowed put s = (Ok (), t)"
  shows "bk_rows t = bk_rows s \<and> bk_rest t = put (bk_rest (count_sent s))"
  using assms by (auto simp: insert_row_def statement_Ok split: if_splits)

lemma insert_bet_books:
  assumes "pg_insert_bet b s = (Ok (), t)" "books s = (us, ms, os, bs, p, ob)"
  shows "books t = (us, ms, os, bs @ [row_of_bet b], p, ob)"
  using insert_row_Ok [OF assms(1) [unfolded pg_insert_bet_def Let_def]] assms(2)
  by (simp add: books_def bk_rest_count_sent)

lemma insert_points_books:
  "for_each pg_insert_price_point ps s = (Ok (), t) \<Longrightarrow> books t = books s"
proof (induction ps arbitrary: s)
  case (Cons p ps)
  then obtain u where u: "pg_insert_price_point p s = (Ok (), u)" "books t = books u"
    by (auto simp: run_Ok)
  show ?case using insert_row_Ok [OF u(1) [unfolded pg_insert_price_point_def Let_def]] u(2)
    by (simp add: books_def bk_rest_count_sent)
qed (simp add: run_Ok)

definition moved :: "bet \<Rightarrow> outcome \<Rightarrow> outcome_row \<Rightarrow> outcome_row" where
  "moved b oc row = row\<lparr>ow_volume := ow_volume row + (if o_id oc = b_outcome_id b then b_amount b else 0),
     ow_current_price := as_ten_thousandths (o_current_price oc)\<rparr>"

text \<open>An update by key, and what a loop of them over distinct keys makes of a row.\<close>

definition at_key :: "('r \<Rightarrow> 'k) \<Rightarrow> ('p \<Rightarrow> 'k) \<Rightarrow> ('p \<Rightarrow> 'r \<Rightarrow> 'r) \<Rightarrow> 'p \<Rightarrow> 'r \<Rightarrow> 'r" where
  "at_key kr kp g p r = (if kr r = kp p then g p r else r)"

lemma fold_at_key_other: "kr r \<notin> kp ` set ps \<Longrightarrow> fold (at_key kr kp g) ps r = r"
  by (induction ps) (auto simp: at_key_def)

lemma fold_at_key:
  assumes "distinct (map kp ps)" "\<And>p r. kr (g p r) = kr r"
  shows "fold (at_key kr kp g) ps r = (case find (\<lambda>p. kp p = kr r) ps of None \<Rightarrow> r | Some p \<Rightarrow> g p r)"
  using assms(1)
proof (induction ps arbitrary: r)
  case (Cons p ps)
  show ?case
  proof (cases "kp p = kr r")
    case True
    then have "kr (g p r) \<notin> kp ` set ps" using Cons.prems assms(2) by auto
    moreover have "at_key kr kp g p r = g p r" using True by (simp add: at_key_def)
    ultimately show ?thesis using True by (simp add: fold_at_key_other)
  next
    case False
    then have "at_key kr kp g p r = r" by (simp add: at_key_def)
    then show ?thesis using False Cons by simp
  qed
qed simp

lemma map_fold_step: "map (fold f xs) (map (f x) rows) = map (fold f (x # xs)) rows"
  by simp

lemma move_outcome_books:
  assumes "pg_move_outcome b oc s = (Ok (), t)" "books s = (us, ms, os, bs, p, ob)"
  shows "books t = (us, ms, map (at_key ow_id (\<lambda>oc. outcome_uuid (o_id oc)) (moved b) oc) os, bs, p, ob)
    \<and> (\<forall>row\<in>set os. ow_id row = outcome_uuid (o_id oc) \<longrightarrow> in_i64 (ow_volume (moved b oc row)))"
proof -
  have "\<exists>n. update_outcomes (\<lambda>row. ow_id row = outcome_uuid (o_id oc))
      (\<lambda>row. and_then (bigint (ow_volume row + (if o_id oc = b_outcome_id b then b_amount b else 0))) (\<lambda>volume.
        Ok (row\<lparr>ow_volume := volume, ow_current_price := as_ten_thousandths (o_current_price oc)\<rparr>))) s = (Ok n, t)"
    using assms(1) by (auto simp: pg_move_outcome_def Let_def quietly_def run_Ok)
  then obtain n where u: "update_outcomes (\<lambda>row. ow_id row = outcome_uuid (o_id oc))
      (\<lambda>row. and_then (bigint (ow_volume row + (if o_id oc = b_outcome_id b then b_amount b else 0))) (\<lambda>volume.
        Ok (row\<lparr>ow_volume := volume, ow_current_price := as_ten_thousandths (o_current_price oc)\<rparr>))) s = (Ok n, t)" ..
  have "map (\<lambda>row. if ow_id row = outcome_uuid (o_id oc) then moved b oc row else row) os
      = map (at_key ow_id (\<lambda>oc. outcome_uuid (o_id oc)) (moved b) oc) os"
    by (simp add: at_key_def)
  then show ?thesis using update_outcomes_books [OF u assms(2), of "moved b oc"]
    by (auto simp: bigint_then moved_def simp del: map_eq_conv)
qed

lemma move_outcomes_books:
  assumes "for_each (pg_move_outcome b) ocs s = (Ok (), t)" "books s = (us, ms, os, bs, p, ob)"
    and "\<forall>row\<in>set os. in_i64 (ow_volume row)"
  shows "books t = (us, ms, map (fold (at_key ow_id (\<lambda>oc. outcome_uuid (o_id oc)) (moved b)) ocs) os, bs, p, ob)
    \<and> (\<forall>row\<in>set os. in_i64 (ow_volume (fold (at_key ow_id (\<lambda>oc. outcome_uuid (o_id oc)) (moved b)) ocs row)))"
  using assms
proof (induction ocs arbitrary: s os)
  case (Cons oc ocs)
  obtain u where u: "pg_move_outcome b oc s = (Ok (), u)" "for_each (pg_move_outcome b) ocs u = (Ok (), t)"
    using Cons.prems(1) by (auto simp: run_Ok)
  note one = move_outcome_books [OF u(1) Cons.prems(2)]
  have "\<forall>row\<in>set (map (at_key ow_id (\<lambda>oc. outcome_uuid (o_id oc)) (moved b) oc) os). in_i64 (ow_volume row)"
    using one Cons.prems(3) by (auto simp: at_key_def)
  from Cons.IH [OF u(2) one [THEN conjunct1] this] show ?case by simp
qed (simp add: run_Ok)

definition staked_on :: "bet \<Rightarrow> bool \<Rightarrow> market_row \<Rightarrow> market_row" where
  "staked_on b repeat_bettor row = row\<lparr>mw_total_volume := mw_total_volume row + b_amount b,
     mw_participants_count := mw_participants_count row + (if repeat_bettor then 0 else 1)\<rparr>"

lemma move_market_books:
  assumes "pg_move_market b rep s = (Ok (), t)" "books s = (us, ms, os, bs, p, ob)"
  shows "books t = (us, map (\<lambda>row. if mw_id row = market_uuid (b_market_id b) then staked_on b rep row else row) ms, os, bs, p, ob)
    \<and> (\<forall>row\<in>set ms. mw_id row = market_uuid (b_market_id b) \<longrightarrow>
        in_i64 (mw_total_volume (staked_on b rep row)) \<and> in_i32 (mw_participants_count (staked_on b rep row)))"
proof -
  obtain n where u: "update_markets (\<lambda>row. mw_id row = market_uuid (b_market_id b))
      (\<lambda>row. and_then (bigint (mw_total_volume row + b_amount b)) (\<lambda>volume.
        and_then (integer (mw_participants_count row + (if rep then 0 else 1))) (\<lambda>participants.
        Ok (row\<lparr>mw_total_volume := volume, mw_participants_count := participants\<rparr>)))) s = (Ok n, t)"
    using assms(1) by (auto simp: pg_move_market_def quietly_def run_Ok)
  show ?thesis using update_markets_books [OF u assms(2), of "staked_on b rep"]
    by (auto simp: bigint_then integer_then staked_on_def)
qed

text \<open>Publishing adds one row to the outbox and nothing to the books.\<close>

lemma pg_publish_books:
  assumes "pg_publish codec e s = (Ok (), t)" "books s = (us, ms, os, bs, p, ob)"
  shows "\<exists>n j. to_value codec e = Ok j \<and> books t = (us, ms, os, bs, p, ob @ [outbox_row_new n (topic e) j])"
  using assms
  by (auto simp: pg_publish_def publish_def run_Ok plain_Ok books_def count_sent_def writes_def)

definition recorded :: "'j event_codec \<Rightarrow> event list \<Rightarrow> 'j outbox_row list \<Rightarrow> bool" where
  "recorded codec es rows \<longleftrightarrow> list_all2 (\<lambda>e row. \<exists>n j. to_value codec e = Ok j
     \<and> row = outbox_row_new n (topic e) j) es rows"

definition placement_events :: "bet \<Rightarrow> event list" where
  "placement_events b = [UserBalanceChanged (b_user_id b), BetPlaced (b_id b), MarketPricesUpdated (b_market_id b)]"

definition covers :: "bet \<Rightarrow> user_row \<Rightarrow> bool" where
  "covers b row \<longleftrightarrow> uw_id row = user_uuid (b_user_id b) \<and> b_amount b \<le> uw_balance row"

definition has_bet :: "bet \<Rightarrow> bet_row \<Rightarrow> bool" where
  "has_bet b row \<longleftrightarrow> bw_user_id row = user_uuid (b_user_id b) \<and> bw_market_id row = market_uuid (b_market_id b)"

definition of_market :: "bet \<Rightarrow> market_row \<Rightarrow> bool" where
  "of_market b row \<longleftrightarrow> mw_id row = market_uuid (b_market_id b)"

definition moves :: "bet \<Rightarrow> outcome list \<Rightarrow> outcome_row \<Rightarrow> outcome_row" where
  "moves b = fold (at_key ow_id (\<lambda>oc. outcome_uuid (o_id oc)) (moved b))"

lemma pg_place_books:
  assumes run: "pg_place codec now b ocs points s = (Ok (), t)" and s: "books s = (us, ms, os, bs, p, ob)"
    and fit: "\<forall>row\<in>set os. in_i64 (ow_volume row)"
  shows "\<exists>new. recorded codec (placement_events b) new
    \<and> books t = (map (\<lambda>row. if covers b row then debited now (b_amount b) row else row) us,
        map (\<lambda>row. if of_market b row then staked_on b (list_ex (has_bet b) bs) row else row) ms,
        map (moves b ocs) os, bs @ [row_of_bet b], p, ob @ new)
    \<and> list_ex (covers b) us
    \<and> (\<forall>row\<in>set us. covers b row \<longrightarrow> in_i64 (uw_balance row - b_amount b))
    \<and> (\<forall>row\<in>set os. in_i64 (ow_volume (moves b ocs row)))
    \<and> (\<forall>row\<in>set ms. of_market b row \<longrightarrow> in_i64 (mw_total_volume (staked_on b (list_ex (has_bet b) bs) row))
        \<and> in_i32 (mw_participants_count (staked_on b (list_ex (has_bet b) bs) row)))"
proof -
  obtain s1 n s2 rep s3 s4 s5 s6 s7 s8 s9 s10 where
    steps: "plain s = (Ok (), s1)" "pg_debit now (b_amount b) (b_user_id b) s1 = (Ok n, s2)" "n \<noteq> 0"
      "select (\<lambda>_ r. list_ex (\<lambda>row. bw_user_id row = user_uuid (b_user_id b)
        \<and> bw_market_id row = market_uuid (b_market_id b)) (sv_bets r)) s2 = (Ok rep, s3)"
      "pg_insert_bet b s3 = (Ok (), s4)" "for_each (pg_move_outcome b) ocs s4 = (Ok (), s5)"
      "pg_move_market b rep s5 = (Ok (), s6)" "for_each pg_insert_price_point points s6 = (Ok (), s7)"
      "pg_publish codec (UserBalanceChanged (b_user_id b)) s7 = (Ok (), s8)"
      "pg_publish codec (BetPlaced (b_id b)) s8 = (Ok (), s9)"
      "pg_publish codec (MarketPricesUpdated (b_market_id b)) s9 = (Ok (), s10)" "plain s10 = (Ok (), t)"
    using run by (auto simp: pg_place_def in_tx_Ok run_Ok split: if_splits)
  have b1: "books s1 = (us, ms, os, bs, p, ob)" using plain_books [OF steps(1)] s by simp
  note d = debit_books [OF steps(2) b1]
  have ex: "list_ex (covers b) us"
    using d steps(3) by (auto simp: list_ex_iff covers_def filter_empty_conv)
  have rep: "rep = list_ex (has_bet b) bs"
    using steps(4) d by (auto simp: select_Ok books_def has_bet_def [abs_def] bk_rest_count_sent)
  have "books s3 = books s2" by (rule select_books [OF steps(4)])
  then have b3: "books s3 = (map (\<lambda>row. if covers b row then debited now (b_amount b) row else row) us, ms, os, bs, p, ob)"
    using d by (simp add: covers_def)
  note b4 = insert_bet_books [OF steps(5) b3]
  note b5 = move_outcomes_books [OF steps(6) b4 fit]
  note b6 = move_market_books [OF steps(7) b5 [THEN conjunct1]]
  have b7: "books s7 = books s6" by (rule insert_points_books [OF steps(8)])
  note b8 = pg_publish_books [OF steps(9) trans [OF b7 b6 [THEN conjunct1]]]
  then obtain e8 where e8: "recorded codec [UserBalanceChanged (b_user_id b)] [e8]"
    "books s8 = (map (\<lambda>row. if covers b row then debited now (b_amount b) row else row) us,
        map (\<lambda>row. if mw_id row = market_uuid (b_market_id b) then staked_on b rep row else row) ms,
        map (fold (at_key ow_id (\<lambda>oc. outcome_uuid (o_id oc)) (moved b)) ocs) os, bs @ [row_of_bet b], p, ob @ [e8])"
    by (auto simp: recorded_def)
  obtain e9 where e9: "recorded codec [BetPlaced (b_id b)] [e9]"
    "books s9 = (map (\<lambda>row. if covers b row then debited now (b_amount b) row else row) us,
        map (\<lambda>row. if mw_id row = market_uuid (b_market_id b) then staked_on b rep row else row) ms,
        map (fold (at_key ow_id (\<lambda>oc. outcome_uuid (o_id oc)) (moved b)) ocs) os, bs @ [row_of_bet b], p, ob @ [e8, e9])"
    using pg_publish_books [OF steps(10) e8(2)] by (auto simp: recorded_def)
  obtain e10 where e10: "recorded codec [MarketPricesUpdated (b_market_id b)] [e10]"
    "books s10 = (map (\<lambda>row. if covers b row then debited now (b_amount b) row else row) us,
        map (\<lambda>row. if mw_id row = market_uuid (b_market_id b) then staked_on b rep row else row) ms,
        map (fold (at_key ow_id (\<lambda>oc. outcome_uuid (o_id oc)) (moved b)) ocs) os, bs @ [row_of_bet b], p, ob @ [e8, e9, e10])"
    using pg_publish_books [OF steps(11) e9(2)] by (auto simp: recorded_def)
  have "recorded codec (placement_events b) [e8, e9, e10]"
    using e8(1) e9(1) e10(1) by (simp add: recorded_def placement_events_def)
  moreover have "books t = (map (\<lambda>row. if covers b row then debited now (b_amount b) row else row) us,
        map (\<lambda>row. if of_market b row then staked_on b (list_ex (has_bet b) bs) row else row) ms,
        map (moves b ocs) os, bs @ [row_of_bet b], p, ob @ [e8, e9, e10])"
    using plain_books [OF steps(12)] e10(2) by (simp add: of_market_def rep moves_def)
  ultimately show ?thesis using ex d b5 b6
    by (intro exI [of _ "[e8, e9, e10]"]) (simp add: covers_def of_market_def moves_def rep)
qed

section \<open>Decoding what a placement made\<close>

lemma find_map: "(\<And>x. x \<in> set xs \<Longrightarrow> P (f x) = P x) \<Longrightarrow> find P (map f xs) = map_option f (find P xs)"
  by (induction xs) auto

text \<open>An update by key, in the lookup of the decoded rows.\<close>

lemma find_update_by_key:
  assumes "\<And>x. k (h x) = k x" "\<And>x. k x \<noteq> a \<Longrightarrow> h x = x"
  shows "(\<lambda>i. find (\<lambda>x. k x = i) (map h xs)) = (\<lambda>i. find (\<lambda>x. k x = i) xs)(a := map_option h (find (\<lambda>x. k x = a) xs))"
proof (rule ext)
  fix i
  have "find (\<lambda>x. k x = i) (map h xs) = map_option h (find (\<lambda>x. k x = i) xs)"
    by (rule find_map) (simp add: assms(1))
  moreover have "map_option h (find (\<lambda>x. k x = i) xs) = find (\<lambda>x. k x = i) xs" if "i \<noteq> a"
    using that assms(2) by (cases "find (\<lambda>x. k x = i) xs") (auto dest: find_SomeD)
  ultimately show "find (\<lambda>x. k x = i) (map h xs)
      = ((\<lambda>i. find (\<lambda>x. k x = i) xs)(a := map_option h (find (\<lambda>x. k x = a) xs))) i"
    by simp
qed

lemma ids_of_rows [simp]: "user_uuid (UserId x) = x" "market_uuid (MarketId x) = x" "outcome_uuid (OutcomeId x) = x"
  "bet_uuid (BetId x) = x" "UserId x = u \<longleftrightarrow> x = user_uuid u" "MarketId x = m \<longleftrightarrow> x = market_uuid m"
  "OutcomeId x = oc \<longleftrightarrow> x = outcome_uuid oc" "BetId x = b \<longleftrightarrow> x = bet_uuid b"
  by (cases u; cases m; cases oc; cases b; simp)+

lemma uuid_inj: "user_uuid u = user_uuid u' \<longleftrightarrow> u = u'" "outcome_uuid oc = outcome_uuid oc' \<longleftrightarrow> oc = oc'"
  "bet_uuid b = bet_uuid b' \<longleftrightarrow> b = b'" "market_uuid m = market_uuid m' \<longleftrightarrow> m = m'"
  by (cases u; cases u'; cases oc; cases oc'; cases b; cases b'; cases m; cases m'; simp)+

lemma bet_decodes: "price_wf (b_price b) \<Longrightarrow> bet_of_row (row_of_bet b) = Ok b"
  by (cases "b_id b"; cases "b_user_id b"; cases "b_market_id b"; cases "b_outcome_id b")
    (simp add: bet_of_row_Ok row_of_bet_def price_decodes status_strings)

lemma user_fields:
  assumes "user_of_row lc row = Ok u"
  shows "u_id u = UserId (uw_id row)" "u_balance u = uw_balance row"
    "user_of_row lc (row\<lparr>uw_balance := x, uw_updated_at := now\<rparr>) = Ok (u\<lparr>u_balance := x, u_updated_at := now\<rparr>)"
proof -
  obtain name mail role where v: "username_new (uw_username row) = Ok name" "email_new lc (uw_email row) = Ok mail"
      "role_from_str (uw_role row) = Ok role"
    and u: "u = \<lparr>u_id = UserId (uw_id row), u_username = name, u_email = mail,
       u_password_hash = PasswordHash (uw_password_hash row), u_avatar_url = uw_avatar_url row,
       u_balance = uw_balance row, u_role = role, u_created_at = uw_created_at row,
       u_updated_at = uw_updated_at row\<rparr>"
    using assms by (fastforce simp only: user_of_row_Ok)
  show "u_id u = UserId (uw_id row)" "u_balance u = uw_balance row" by (simp_all add: u)
  show "user_of_row lc (row\<lparr>uw_balance := x, uw_updated_at := now\<rparr>) = Ok (u\<lparr>u_balance := x, u_updated_at := now\<rparr>)"
    by (simp add: user_of_row_def Let_def v u)
qed

lemma debit_all_decodes:
  assumes "decodes (user_of_row lc) us"
  shows "oks (map (user_of_row lc) (map (\<lambda>row. if covers b row then debited now (b_amount b) row else row) us))
      = map (\<lambda>u. if u_id u = b_user_id b \<and> b_amount b \<le> u_balance u
          then u\<lparr>u_balance := u_balance u - b_amount b, u_updated_at := now\<rparr> else u) (oks (map (user_of_row lc) us))
    \<and> decodes (user_of_row lc) (map (\<lambda>row. if covers b row then debited now (b_amount b) row else row) us)"
proof (rule oks_map [OF assms])
  fix row u assume "user_of_row lc row = Ok u"
  note f = user_fields [OF this]
  have "covers b row \<longleftrightarrow> u_id u = b_user_id b \<and> b_amount b \<le> u_balance u" by (simp add: covers_def f)
  then show "user_of_row lc (if covers b row then debited now (b_amount b) row else row)
      = Ok (if u_id u = b_user_id b \<and> b_amount b \<le> u_balance u
          then u\<lparr>u_balance := u_balance u - b_amount b, u_updated_at := now\<rparr> else u)"
    using f \<open>user_of_row lc row = Ok u\<close> by (simp add: debited_def)
qed

lemma find_user_row:
  assumes "decodes (user_of_row lc) us" "row \<in> set us" "distinct (map uw_id us)" "user_of_row lc row = Ok u"
  shows "find (\<lambda>u. u_id u = UserId (uw_id row)) (oks (map (user_of_row lc) us)) = Some u"
proof -
  have "find (\<lambda>r. uw_id r = uw_id row) us = Some row"
    using assms(2,3) by (intro find_key_Some) simp_all
  moreover have "find (\<lambda>u. u_id u = UserId (uw_id row)) (oks (map (user_of_row lc) us))
      = (case find (\<lambda>r. uw_id r = uw_id row) us of None \<Rightarrow> None
         | Some row \<Rightarrow> (case user_of_row lc row of Ok x \<Rightarrow> Some x | _ \<Rightarrow> None))"
  proof (rule oks_find [OF assms(1)])
    fix r x assume "user_of_row lc r = Ok x"
    then show "(u_id x = UserId (uw_id row)) = (uw_id r = uw_id row)" by (simp add: user_fields(1))
  qed
  ultimately show ?thesis using assms(4) by simp
qed

lemma debit_decodes:
  assumes d: "decodes (user_of_row lc) us" and dist: "distinct (map uw_id us)" and c: "list_ex (covers b) us"
    and fit: "\<forall>row\<in>set us. covers b row \<longrightarrow> in_i64 (uw_balance row - b_amount b)" and pos: "0 < b_amount b"
    and us': "us' = map (\<lambda>row. if covers b row then debited now (b_amount b) row else row) us"
  shows "decodes (user_of_row lc) us' \<and> map uw_id us' = map uw_id us
    \<and> (\<exists>u u'. find (\<lambda>u. u_id u = b_user_id b) (oks (map (user_of_row lc) us)) = Some u
      \<and> debit now (b_amount b) u = Ok u'
      \<and> (\<lambda>i. find (\<lambda>u. u_id u = i) (oks (map (user_of_row lc) us')))
        = (\<lambda>i. find (\<lambda>u. u_id u = i) (oks (map (user_of_row lc) us)))(b_user_id b \<mapsto> u'))"
proof -
  define h where "h u = (if u_id u = b_user_id b \<and> b_amount b \<le> u_balance u
    then u\<lparr>u_balance := u_balance u - b_amount b, u_updated_at := now\<rparr> else u)" for u :: user
  have m: "oks (map (user_of_row lc) us') = map h (oks (map (user_of_row lc) us))" "decodes (user_of_row lc) us'"
    using debit_all_decodes [OF d] by (simp_all add: us' h_def [abs_def])
  have ids: "map uw_id us' = map uw_id us" by (simp add: us' debited_def)
  obtain row where row: "row \<in> set us" "covers b row" using c by (auto simp: list_ex_iff)
  obtain u where u: "user_of_row lc row = Ok u" using d row by (auto simp: decodes_def is_ok_iff)
  have bal: "u_balance u = uw_balance row" "u_id u = b_user_id b" "UserId (uw_id row) = b_user_id b"
    using user_fields(1,2) [OF u] row by (simp_all add: covers_def)
  have fu: "find (\<lambda>u. u_id u = b_user_id b) (oks (map (user_of_row lc) us)) = Some u"
    using find_user_row [OF d row(1) dist u] unfolding bal(3) .
  have "b_amount b \<le> u_balance u" "in_i64 (u_balance u - b_amount b)"
    using row fit by (simp_all add: bal covers_def)
  then have "wrap_i64 (u_balance u - b_amount b) = u_balance u - b_amount b" "\<not> u_balance u < b_amount b"
      "\<not> b_amount b \<le> 0" "b_amount b \<le> u_balance u"
    using pos by (simp_all add: wrap_i64_id)
  then have db: "debit now (b_amount b) u = Ok (h u)"
    unfolding debit_def h_def by (simp only: bal(2) if_False if_True refl conj_absorb simp_thms)
  have "(\<lambda>i. find (\<lambda>u. u_id u = i) (oks (map (user_of_row lc) us')))
        = (\<lambda>i. find (\<lambda>u. u_id u = i) (oks (map (user_of_row lc) us)))(b_user_id b \<mapsto> h u)"
    unfolding m(1) by (subst find_update_by_key [of u_id h "b_user_id b"]) (simp_all add: h_def fu)
  then show ?thesis using m(2) ids fu db by (intro conjI exI [of _ u] exI [of _ "h u"])
qed

lemma market_fields:
  assumes "market_of_row row = Ok m"
  shows "m_id m = MarketId (mw_id row)" "m_total_volume m = mw_total_volume row"
    "m_participants_count m = mw_participants_count row"
    "market_of_row (row\<lparr>mw_total_volume := x, mw_participants_count := n\<rparr>)
      = Ok (m\<lparr>m_total_volume := x, m_participants_count := n\<rparr>)"
    "market_of_row (row\<lparr>mw_status := market_status_as_str st, mw_resolved_outcome_id := w\<rparr>)
      = Ok (m\<lparr>m_status := st, m_resolved_outcome_id := map_option OutcomeId w\<rparr>)"
proof -
  obtain title status where v: "title_new (mw_title row) = Ok title" "market_status_from_str (mw_status row) = Ok status"
    and m: "m = \<lparr>m_id = MarketId (mw_id row), m_title = title, m_description = mw_description row,
       m_category = mw_category row, m_thumbnail_url = mw_thumbnail_url row, m_status = status,
       m_resolved_outcome_id = map_option OutcomeId (mw_resolved_outcome_id row),
       m_total_volume = mw_total_volume row, m_participants_count = mw_participants_count row,
       m_created_at = mw_created_at row, m_closes_at = mw_closes_at row\<rparr>"
    using assms by (fastforce simp only: market_of_row_Ok)
  show "m_id m = MarketId (mw_id row)" "m_total_volume m = mw_total_volume row"
    "m_participants_count m = mw_participants_count row" by (simp_all add: m)
  show "market_of_row (row\<lparr>mw_total_volume := x, mw_participants_count := n\<rparr>)
      = Ok (m\<lparr>m_total_volume := x, m_participants_count := n\<rparr>)"
    by (simp add: market_of_row_def Let_def v m)
  show "market_of_row (row\<lparr>mw_status := market_status_as_str st, mw_resolved_outcome_id := w\<rparr>)
      = Ok (m\<lparr>m_status := st, m_resolved_outcome_id := map_option OutcomeId w\<rparr>)"
    by (simp add: market_of_row_def Let_def v m status_strings)
qed

lemma outcome_fields:
  assumes "outcome_of_row row = Ok oc"
  shows "o_id oc = OutcomeId (ow_id row)" "o_market_id oc = MarketId (ow_market_id row)" "o_volume oc = ow_volume row"
    "price_wf q \<Longrightarrow> outcome_of_row (row\<lparr>ow_volume := x, ow_current_price := as_ten_thousandths q\<rparr>)
      = Ok (oc\<lparr>o_volume := x, o_current_price := q\<rparr>)"
proof -
  obtain label price where v: "label_new (ow_label row) = Ok label" "from_ten_thousandths (ow_current_price row) = Ok price"
    and oc: "oc = \<lparr>o_id = OutcomeId (ow_id row), o_market_id = MarketId (ow_market_id row), o_label = label,
       o_thumbnail_url = ow_thumbnail_url row, o_current_price = price, o_volume = ow_volume row\<rparr>"
    using assms by (fastforce simp only: outcome_of_row_Ok)
  show "o_id oc = OutcomeId (ow_id row)" "o_market_id oc = MarketId (ow_market_id row)" "o_volume oc = ow_volume row"
    by (simp_all add: oc)
  show "price_wf q \<Longrightarrow> outcome_of_row (row\<lparr>ow_volume := x, ow_current_price := as_ten_thousandths q\<rparr>)
      = Ok (oc\<lparr>o_volume := x, o_current_price := q\<rparr>)"
    by (simp add: outcome_of_row_def Let_def v oc price_decodes)
qed

lemma bet_fields:
  assumes "bet_of_row row = Ok b"
  shows "b_id b = BetId (bw_id row)" "b_user_id b = UserId (bw_user_id row)" "b_market_id b = MarketId (bw_market_id row)"
    "b_status b = st \<longleftrightarrow> bw_status row = bet_status_as_str st"
    "bet_of_row (row\<lparr>bw_status := bet_status_as_str st', bw_payout := q\<rparr>) = Ok (b\<lparr>b_status := st', b_payout := q\<rparr>)"
proof -
  obtain price status where v: "from_ten_thousandths (bw_price row) = Ok price" "bet_status_from_str (bw_status row) = Ok status"
    and b: "b = \<lparr>b_id = BetId (bw_id row), b_user_id = UserId (bw_user_id row), b_market_id = MarketId (bw_market_id row),
       b_outcome_id = OutcomeId (bw_outcome_id row), b_amount = bw_amount row, b_price = price,
       b_status = status, b_payout = bw_payout row, b_created_at = bw_created_at row\<rparr>"
    using assms by (fastforce simp only: bet_of_row_Ok)
  show "b_id b = BetId (bw_id row)" "b_user_id b = UserId (bw_user_id row)" "b_market_id b = MarketId (bw_market_id row)"
    by (simp_all add: b)
  show "b_status b = st \<longleftrightarrow> bw_status row = bet_status_as_str st"
    using bet_status_from_str_as_str [OF v(2)] by (simp add: b status_strings)
  show "bet_of_row (row\<lparr>bw_status := bet_status_as_str st', bw_payout := q\<rparr>) = Ok (b\<lparr>b_status := st', b_payout := q\<rparr>)"
    by (simp add: bet_of_row_def Let_def v b status_strings)
qed

lemma stake_decodes:
  assumes d: "decodes market_of_row ms"
    and fit: "\<forall>row\<in>set ms. of_market b row \<longrightarrow> in_i64 (mw_total_volume (staked_on b rep row))
      \<and> in_i32 (mw_participants_count (staked_on b rep row))"
    and ms': "ms' = map (\<lambda>row. if of_market b row then staked_on b rep row else row) ms"
  shows "decodes market_of_row ms' \<and> map mw_id ms' = map mw_id ms
    \<and> (\<lambda>i. find (\<lambda>m. m_id m = i) (oks (map market_of_row ms')))
      = (\<lambda>i. find (\<lambda>m. m_id m = i) (oks (map market_of_row ms)))(b_market_id b
          := map_option (record_stake (b_amount b) (\<not> rep)) (find (\<lambda>m. m_id m = b_market_id b) (oks (map market_of_row ms))))"
proof -
  define h where "h m = (if m_id m = b_market_id b then record_stake (b_amount b) (\<not> rep) m else m)" for m
  have m: "oks (map market_of_row ms') = map h (oks (map market_of_row ms)) \<and> decodes market_of_row ms'"
    unfolding ms'
  proof (rule oks_map [OF d])
    fix row m assume row: "row \<in> set ms" "market_of_row row = Ok m"
    note f = market_fields [OF row(2)]
    have c: "of_market b row \<longleftrightarrow> m_id m = b_market_id b" by (simp add: of_market_def f)
    show "market_of_row (if of_market b row then staked_on b rep row else row) = Ok (h m)"
    proof (cases "of_market b row")
      case True
      then have "sat_i64 (m_total_volume m + b_amount b) = m_total_volume m + b_amount b"
        "\<not> rep \<Longrightarrow> wrap_i32 (m_participants_count m + 1) = m_participants_count m + 1"
        using fit row(1) by (auto simp: staked_on_def f sat_i64_id wrap_i32_id)
      moreover have r: "row\<lparr>mw_total_volume := x, mw_participants_count := mw_participants_count row\<rparr>
          = row\<lparr>mw_total_volume := x\<rparr>" for x by simp
      have m: "m\<lparr>m_total_volume := x, m_participants_count := mw_participants_count row\<rparr>
          = m\<lparr>m_total_volume := x\<rparr>" for x by (simp flip: f(3))
      have "market_of_row (row\<lparr>mw_total_volume := mw_total_volume row + b_amount b\<rparr>)
          = Ok (m\<lparr>m_total_volume := m_total_volume m + b_amount b\<rparr>)"
        using f(4) [where x = "mw_total_volume row + b_amount b" and n = "mw_participants_count row"]
        by (simp only: f(2) r m)
      moreover note f(4) [where x = "mw_total_volume row + b_amount b" and n = "mw_participants_count row + 1"]
      ultimately show ?thesis using True c
        by (cases rep) (simp_all add: staked_on_def h_def record_stake_def f(2,3))
    qed (use row c in \<open>simp add: h_def\<close>)
  qed
  have "m_id (h x) = m_id x" for x by (simp add: h_def record_stake_def Let_def)
  then have "(\<lambda>i. find (\<lambda>m. m_id m = i) (map h xs)) = (\<lambda>i. find (\<lambda>m. m_id m = i) xs)(b_market_id b
      := map_option h (find (\<lambda>m. m_id m = b_market_id b) xs))" for xs
    by (intro find_update_by_key) (simp_all add: h_def)
  moreover have "map_option h (find (\<lambda>m. m_id m = b_market_id b) xs)
      = map_option (record_stake (b_amount b) (\<not> rep)) (find (\<lambda>m. m_id m = b_market_id b) xs)" for xs
    by (cases "find (\<lambda>m. m_id m = b_market_id b) xs") (auto simp: h_def dest: find_SomeD)
  ultimately show ?thesis using m by (simp add: ms' staked_on_def)
qed

lemma frame_eq:
  "frame oc = frame x \<Longrightarrow> oc = x\<lparr>o_volume := o_volume oc, o_current_price := o_current_price oc\<rparr>"
  by (simp add: frame_def)

lemma frame_moved:
  assumes "frame oc = frame (backed b x)"
  shows "oc = x\<lparr>o_volume := (if o_id x = b_outcome_id b then sat_i64 (o_volume x + b_amount b) else o_volume x),
    o_current_price := o_current_price oc\<rparr>"
proof -
  have "frame oc = frame (x\<lparr>o_volume := o_volume oc\<rparr>)" using assms by (simp add: frame_backed) (simp add: frame_def)
  from frame_eq [OF this] have "oc = x\<lparr>o_volume := o_volume oc, o_current_price := o_current_price oc\<rparr>" by simp
  moreover have "o_volume oc = (if o_id x = b_outcome_id b then sat_i64 (o_volume x + b_amount b) else o_volume x)"
    using assms by (simp add: frame_backed) (simp add: frame_def)
  ultimately show ?thesis by simp
qed

lemma moves_eq:
  assumes "distinct (map o_id ocs)" "outcome_of_row row = Ok x"
  shows "moves b ocs row = (case find (\<lambda>oc. o_id oc = o_id x) ocs of None \<Rightarrow> row | Some oc \<Rightarrow> moved b oc row)"
proof -
  have "distinct (map (\<lambda>oc. outcome_uuid (o_id oc)) ocs)"
    using assms(1) by (induction ocs) (auto simp: uuid_inj)
  moreover have "(outcome_uuid (o_id oc) = ow_id row) = (o_id oc = o_id x)" for oc :: outcome
    using outcome_fields(1) [OF assms(2)] by (metis ids_of_rows(7))
  ultimately show ?thesis by (simp add: moves_def fold_at_key moved_def)
qed

lemma moves_decode:
  assumes d: "decodes outcome_of_row os" and dist: "distinct (map o_id (oks (map outcome_of_row os)))"
    and rp: "repriced (map (backed b) (market_outcomes (b_market_id b) (oks (map outcome_of_row os)))) ocs"
    and fit: "\<forall>row\<in>set os. in_i64 (ow_volume (moves b ocs row))"
  shows "oks (map outcome_of_row (map (moves b ocs) os)) = map (overlay o_id ocs) (oks (map outcome_of_row os))
    \<and> decodes outcome_of_row (map (moves b ocs) os)"
proof (rule oks_map [OF d])
  fix row x assume row: "row \<in> set os" "outcome_of_row row = Ok x"
  let ?OS = "oks (map outcome_of_row os)"
  note f = outcome_fields [OF row(2)]
  have x: "x \<in> set ?OS" using row by (auto simp: set_oks)
  have ids: "map o_id ocs = map o_id (market_outcomes (b_market_id b) ?OS)" by (rule repriced_ids [OF rp])
  have "distinct (map o_id ocs)" using dist by (simp add: ids market_outcomes_def distinct_map_filter)
  note mv = moves_eq [OF this row(2), of b]
  show "outcome_of_row (moves b ocs row) = Ok (overlay o_id ocs x)"
  proof (cases "find (\<lambda>oc. o_id oc = o_id x) ocs")
    case None
    then show ?thesis using row mv by (simp add: overlay_def)
  next
    case (Some oc)
    then have oc: "o_id oc = o_id x" "oc \<in> set ocs" by (auto dest: find_SomeD)
    then have "o_id x \<in> set (map o_id (market_outcomes (b_market_id b) ?OS))" using ids by (metis image_eqI set_map)
    then obtain y where "y \<in> set ?OS" "o_market_id y = b_market_id b" "o_id y = o_id x"
      by (auto simp: market_outcomes_def)
    moreover from this x have "y = x" using dist by (simp add: distinct_map inj_on_def)
    ultimately have "o_market_id x = b_market_id b" by simp
    then have "frame oc = frame (backed b x)"
      using overlay_repriced(3) [OF dist rp x] Some by (simp add: overlay_def)
    note e = frame_moved [OF this]
    have p: "price_wf (o_current_price oc)" using rp oc by (simp add: repriced_def)
    have "in_i64 (ow_volume (moved b oc row))" using fit row mv Some by fastforce
    then have "(if o_id x = b_outcome_id b then sat_i64 (o_volume x + b_amount b) else o_volume x)
        = ow_volume (moved b oc row)"
      using oc by (cases "o_id x = b_outcome_id b") (simp_all add: moved_def f(3) sat_i64_id)
    then have "oc = x\<lparr>o_volume := ow_volume (moved b oc row), o_current_price := o_current_price oc\<rparr>"
      using e by simp
    moreover have "moved b oc row = row\<lparr>ow_volume := ow_volume (moved b oc row),
        ow_current_price := as_ten_thousandths (o_current_price oc)\<rparr>"
      by (simp add: moved_def)
    ultimately show ?thesis using f(4) [OF p, of "ow_volume (moved b oc row)"] mv Some
      by (simp add: overlay_def)
  qed
qed

lemma first_bet_decodes:
  assumes "decodes bet_of_row bs"
  shows "first_bet (b_user_id b) (b_market_id b) (oks (map bet_of_row bs)) \<longleftrightarrow> \<not> list_ex (has_bet b) bs"
proof -
  have key: "(b_user_id x = b_user_id b \<and> b_market_id x = b_market_id b) = has_bet b row"
    if "bet_of_row row = Ok x" for row x
    using bet_fields(2,3) [OF that] by (simp add: has_bet_def)
  show ?thesis using assms
  proof (induction bs)
    case (Cons row bs)
    then obtain x where x: "bet_of_row row = Ok x" by (auto simp: is_ok_iff)
    have "first_bet u m (y # ys) \<longleftrightarrow> \<not> (b_user_id y = u \<and> b_market_id y = m) \<and> first_bet u m ys" for u m y ys
      by (auto simp: first_bet_def)
    then show ?case using Cons x key [OF x] by auto
  qed (simp add: first_bet_def)
qed

text \<open>A placement is the ledger's, with its three events, or leaves the tables as they were.\<close>

lemma pg_place_ledger:
  assumes inv: "pg_inv lc s" and wf: "ledger_wf (pg_ledger lc s)" and pl: "placeable (pg_ledger lc s) b ocs"
  shows "wp (pg_place codec now b ocs points) (\<lambda>r t. pg_inv lc t
    \<and> (if is_ok r then ledger_place now b ocs (pg_ledger lc s) = Some (pg_ledger lc t)
         \<and> (\<exists>new. recorded codec (placement_events b) new \<and> bk_rows t = bk_rows s @ new)
       else same_tables s t)) s"
proof (rule wpI)
  fix r t assume run: "pg_place codec now b ocs points s = (r, t)"
  show "pg_inv lc t \<and> (if is_ok r then ledger_place now b ocs (pg_ledger lc s) = Some (pg_ledger lc t)
         \<and> (\<exists>new. recorded codec (placement_events b) new \<and> bk_rows t = bk_rows s @ new)
       else same_tables s t)"
  proof (cases "is_ok r")
    case False
    then have "same_tables s t" using in_tx_failed run by (fastforce simp: pg_place_def)
    then show ?thesis using False inv same_tables_view(2) [of s t lc] by simp
  next
    case True
    then have run: "pg_place codec now b ocs points s = (Ok (), t)" using run by (cases r) simp_all
    obtain us ms os bs p ob where s: "books s = (us, ms, os, bs, p, ob)" by (cases "books s")
    note L = books_view(1) [OF s, of lc]
    have i: "decodes (user_of_row lc) us" "decodes market_of_row ms" "decodes outcome_of_row os"
      "decodes bet_of_row bs" "distinct (map uw_id us)" "distinct (map mw_id ms)" "\<forall>n k. mset (p n k) = mset [0..<k]"
      using inv books_view(2) [OF s, of lc] by simp_all
    have dist: "distinct (map o_id (oks (map outcome_of_row os)))" using wf L by (simp add: ledger_wf_def)
    have b: "0 < b_amount b" "price_wf (b_price b)"
      and rp: "repriced (map (backed b) (market_outcomes (b_market_id b) (oks (map outcome_of_row os)))) ocs"
      using pl L by (simp_all add: placeable_def bet_wf_def)
    have fit: "\<forall>row\<in>set os. in_i64 (ow_volume row)"
    proof
      fix row assume row: "row \<in> set os"
      then obtain x where x: "outcome_of_row row = Ok x" using i(3) by (auto simp: decodes_def is_ok_iff)
      then have "x \<in> set (lg_outcomes (pg_ledger lc s))" using row L by (auto simp: set_oks)
      then have "o_volume x = sat_i64 (staked (\<lambda>b. b_outcome_id b = o_id x) (lg_bets (pg_ledger lc s)))"
        using wf by (simp add: ledger_wf_def outcome_ok_def)
      then show "in_i64 (ow_volume row)" using outcome_fields(3) [OF x] in_i64_sat by metis
    qed
    obtain new where new: "recorded codec (placement_events b) new"
      and t: "books t = (map (\<lambda>row. if covers b row then debited now (b_amount b) row else row) us,
        map (\<lambda>row. if of_market b row then staked_on b (list_ex (has_bet b) bs) row else row) ms,
        map (moves b ocs) os, bs @ [row_of_bet b], p, ob @ new)"
      and c: "list_ex (covers b) us" "\<forall>row\<in>set us. covers b row \<longrightarrow> in_i64 (uw_balance row - b_amount b)"
      and f: "\<forall>row\<in>set os. in_i64 (ow_volume (moves b ocs row))"
        "\<forall>row\<in>set ms. of_market b row \<longrightarrow> in_i64 (mw_total_volume (staked_on b (list_ex (has_bet b) bs) row))
          \<and> in_i32 (mw_participants_count (staked_on b (list_ex (has_bet b) bs) row))"
      using pg_place_books [OF run s fit] by blast
    note U = debit_decodes [OF i(1,5) c b(1) refl, of now]
    note M = stake_decodes [OF i(2) f(2) refl]
    note O = moves_decode [OF i(3) dist rp f(1)]
    note B = bet_decodes [OF b(2)] and F = first_bet_decodes [OF i(4), of b]
    note L' = books_view [OF t, of lc]
    have "pg_inv lc t" using U M O B i by (simp add: L'(2) del: map_map map_eq_conv)
    moreover obtain u u' where u: "find (\<lambda>u. u_id u = b_user_id b) (oks (map (user_of_row lc) us)) = Some u"
      "debit now (b_amount b) u = Ok u'" "(\<lambda>i. find (\<lambda>u. u_id u = i) (oks (map (user_of_row lc)
          (map (\<lambda>row. if covers b row then debited now (b_amount b) row else row) us))))
        = (\<lambda>i. find (\<lambda>u. u_id u = i) (oks (map (user_of_row lc) us)))(b_user_id b \<mapsto> u')"
      using U by (elim conjE exE)
    then have "ledger_place now b ocs (pg_ledger lc s) = Some (pg_ledger lc t)"
      using M O B F by (simp add: L L'(1) ledger_place_def del: map_map map_eq_conv)
    moreover have "bk_rows t = bk_rows s @ new" using s t by (simp add: books_def)
    ultimately show ?thesis using new True by auto
  qed
qed

section \<open>Settling\<close>

definition settled_row :: "bet \<Rightarrow> bet_row \<Rightarrow> bet_row" where
  "settled_row b row = row\<lparr>bw_status := bet_status_as_str (b_status b), bw_payout := b_payout b\<rparr>"

definition lookup_in :: "case_table \<Rightarrow> user_row list \<Rightarrow> user_id \<Rightarrow> user option" where
  "lookup_in lc us i = find (\<lambda>u. u_id u = i) (oks (map (user_of_row lc) us))"

lemma credit_books:
  assumes run: "pg_credit now q u s = (Ok (), t)" and s: "books s = (us, ms, os, bs, p, ob)"
    and d: "decodes (user_of_row lc) us"
  shows "\<exists>us'. books t = (us', ms, os, bs, p, ob) \<and> decodes (user_of_row lc) us' \<and> map uw_id us' = map uw_id us
    \<and> lookup_in lc us' = (lookup_in lc us)(u := map_option
        (\<lambda>v. v\<lparr>u_balance := sat_i64 (u_balance v + q), u_updated_at := now\<rparr>) (lookup_in lc us u))"
proof -
  define g where "g row = row\<lparr>uw_balance := uw_balance row + q, uw_updated_at := now\<rparr>" for row :: user_row
  define us' where "us' = map (\<lambda>row. if uw_id row = user_uuid u then g row else row) us"
  define h where "h v = (if u_id v = u then v\<lparr>u_balance := sat_i64 (u_balance v + q), u_updated_at := now\<rparr> else v)"
    for v :: user
  obtain n where up: "update_users (\<lambda>row. uw_id row = user_uuid u)
     (\<lambda>row. and_then (bigint (uw_balance row + q)) (\<lambda>balance.
       Ok (row\<lparr>uw_balance := balance, uw_updated_at := now\<rparr>))) s = (Ok n, t)"
    using run by (auto simp: pg_credit_def quietly_def run_Ok)
  have eff: "books t = (us', ms, os, bs, p, ob)"
    "\<forall>row\<in>set us. uw_id row = user_uuid u \<longrightarrow> in_i64 (uw_balance row + q)"
    using update_users_books [OF up s, of g] by (auto simp: bigint_then g_def us'_def)
  have m: "oks (map (user_of_row lc) us') = map h (oks (map (user_of_row lc) us)) \<and> decodes (user_of_row lc) us'"
    unfolding us'_def
  proof (rule oks_map [OF d])
    fix row v assume row: "row \<in> set us" "user_of_row lc row = Ok v"
    note f = user_fields [OF row(2)]
    have c: "uw_id row = user_uuid u \<longleftrightarrow> u_id v = u" by (simp add: f)
    have "uw_id row = user_uuid u \<Longrightarrow> sat_i64 (uw_balance row + q) = uw_balance row + q"
      using eff(2) row(1) by (intro sat_i64_id) blast
    then show "user_of_row lc (if uw_id row = user_uuid u then g row else row) = Ok (h v)"
      using row(2) c by (auto simp: g_def h_def f(2,3))
  qed
  have "map uw_id us' = map uw_id us" by (simp add: us'_def g_def)
  moreover have "u_id (h v) = u_id v" for v by (simp add: h_def)
  then have "(\<lambda>i. find (\<lambda>x. u_id x = i) (map h xs)) = (\<lambda>i. find (\<lambda>x. u_id x = i) xs)
      (u := map_option h (find (\<lambda>x. u_id x = u) xs))" for xs
    by (intro find_update_by_key) (simp_all add: h_def)
  moreover have "map_option h (find (\<lambda>x. u_id x = u) xs)
      = map_option (\<lambda>v. v\<lparr>u_balance := sat_i64 (u_balance v + q), u_updated_at := now\<rparr>) (find (\<lambda>x. u_id x = u) xs)" for xs
    by (cases "find (\<lambda>x. u_id x = u) xs") (auto simp: h_def dest: find_SomeD)
  ultimately show ?thesis using m eff(1) by (intro exI [of _ us']) (simp add: lookup_in_def [abs_def])
qed

lemma settle_one_books:
  assumes run: "pg_settle_one now b s = (Ok (), t)" and s: "books s = (us, ms, os, bs, p, ob)"
    and d: "decodes (user_of_row lc) us"
  shows "\<exists>us'. books t = (us', ms, os, map (at_key bw_id (\<lambda>b. bet_uuid (b_id b)) settled_row b) bs, p, ob)
    \<and> decodes (user_of_row lc) us' \<and> map uw_id us' = map uw_id us
    \<and> lookup_in lc us' = credit_user now b (lookup_in lc us)"
proof -
  obtain n u where up: "update_bets (\<lambda>row. bw_id row = bet_uuid (b_id b))
       (\<lambda>row. Ok (row\<lparr>bw_status := bet_status_as_str (b_status b), bw_payout := b_payout b\<rparr>)) s = (Ok n, u)"
    and k: "(case b_payout b of None \<Rightarrow> ret () | Some payout \<Rightarrow> pg_credit now payout (b_user_id b)) u = (Ok (), t)"
    using run by (auto simp: pg_settle_one_def quietly_def run_Ok)
  have u: "books u = (us, ms, os, map (at_key bw_id (\<lambda>b. bet_uuid (b_id b)) settled_row b) bs, p, ob)"
    using update_bets_books [OF up s, of "settled_row b"] by (simp add: settled_row_def at_key_def)
  show ?thesis
  proof (cases "b_payout b")
    case None
    then show ?thesis using k u d by (simp add: ret_eq_Ok credit_user_def)
  next
    case (Some q)
    then show ?thesis using credit_books [OF _ u d, of now q "b_user_id b" t] k
      by (simp add: credit_user_def)
  qed
qed

lemma settle_each_books:
  assumes "for_each (pg_settle_one now) settled s = (Ok (), t)" "books s = (us, ms, os, bs, p, ob)"
    and "decodes (user_of_row lc) us"
  shows "\<exists>us'. books t = (us', ms, os, map (fold (at_key bw_id (\<lambda>b. bet_uuid (b_id b)) settled_row) settled) bs, p, ob)
    \<and> decodes (user_of_row lc) us' \<and> map uw_id us' = map uw_id us
    \<and> lookup_in lc us' = fold (credit_user now) settled (lookup_in lc us)"
  using assms
proof (induction settled arbitrary: s us bs)
  case (Cons b settled)
  obtain u where u: "pg_settle_one now b s = (Ok (), u)" "for_each (pg_settle_one now) settled u = (Ok (), t)"
    using Cons.prems(1) by (auto simp: run_Ok)
  obtain us1 where one: "books u = (us1, ms, os, map (at_key bw_id (\<lambda>b. bet_uuid (b_id b)) settled_row b) bs, p, ob)"
    "decodes (user_of_row lc) us1" "map uw_id us1 = map uw_id us" "lookup_in lc us1 = credit_user now b (lookup_in lc us)"
    using settle_one_books [OF u(1) Cons.prems(2,3)] by blast
  show ?case using Cons.IH [OF u(2) one(1,2)] one(3,4) by (simp add: comp_def)
qed (simp add: run_Ok)

lemma publish_each_books:
  assumes "for_each (\<lambda>u. pg_publish codec (ev u)) xs s = (Ok (), t)" "books s = (us, ms, os, bs, p, ob)"
  shows "\<exists>new. recorded codec (map ev xs) new \<and> books t = (us, ms, os, bs, p, ob @ new)"
  using assms
proof (induction xs arbitrary: s ob)
  case (Cons x xs)
  obtain u where u: "pg_publish codec (ev x) s = (Ok (), u)" "for_each (\<lambda>u. pg_publish codec (ev u)) xs u = (Ok (), t)"
    using Cons.prems(1) by (auto simp: run_Ok)
  obtain n j where one: "to_value codec (ev x) = Ok j" "books u = (us, ms, os, bs, p, ob @ [outbox_row_new n (topic (ev x)) j])"
    using pg_publish_books [OF u(1) Cons.prems(2)] by blast
  obtain new where "recorded codec (map ev xs) new" "books t = (us, ms, os, bs, p, (ob @ [outbox_row_new n (topic (ev x)) j]) @ new)"
    using Cons.IH [OF u(2) one(2)] by blast
  then show ?case using one(1)
    by (intro exI [of _ "outbox_row_new n (topic (ev x)) j # new"]) (auto simp: recorded_def)
qed (simp add: run_Ok recorded_def)

definition resolved_row :: "market \<Rightarrow> market_row \<Rightarrow> market_row" where
  "resolved_row m row = row\<lparr>mw_status := market_status_as_str (m_status m),
     mw_resolved_outcome_id := map_option outcome_uuid (m_resolved_outcome_id m)\<rparr>"

lemma record_resolution_books:
  assumes "pg_record_resolution m s = (Ok n, t)" "books s = (us, ms, os, bs, p, ob)"
  shows "books t = (us, map (\<lambda>row. if mw_id row = market_uuid (m_id m) then resolved_row m row else row) ms, os, bs, p, ob)"
proof -
  obtain rows where u: "update_rows (\<lambda>row. mw_id row = market_uuid (m_id m)) (\<lambda>row. Ok (resolved_row m row)) ms = Ok (n, rows)"
    and t: "t = (count_sent s)\<lparr>bk_rest := (bk_rest (count_sent s))\<lparr>sv_markets := rows\<rparr>\<rparr>"
    using assms by (auto simp: pg_record_resolution_def statement_Ok and_then_eq_Ok bk_rest_count_sent books_def
        resolved_row_def split: if_splits)
  show ?thesis using update_rows_value [OF u, of "resolved_row m"] assms(2)
    by (simp add: t books_def bk_rest_count_sent)
qed

lemma pg_settle_books:
  assumes run: "pg_settle codec now m settled s = (Ok (), t)" and s: "books s = (us, ms, os, bs, p, ob)"
    and d: "decodes (user_of_row lc) us"
  shows "\<exists>us' new. recorded codec (map UserBalanceChanged (pg_paid settled)) new
    \<and> books t = (us', map (\<lambda>row. if mw_id row = market_uuid (m_id m) then resolved_row m row else row) ms, os,
        map (fold (at_key bw_id (\<lambda>b. bet_uuid (b_id b)) settled_row) settled) bs, p, ob @ new)
    \<and> decodes (user_of_row lc) us' \<and> map uw_id us' = map uw_id us
    \<and> lookup_in lc us' = fold (credit_user now) settled (lookup_in lc us)"
proof -
  obtain s1 n s2 s3 s4 where steps: "plain s = (Ok (), s1)" "pg_record_resolution m s1 = (Ok n, s2)"
      "for_each (pg_settle_one now) settled s2 = (Ok (), s3)"
      "for_each (\<lambda>u. pg_publish codec (UserBalanceChanged u)) (pg_paid settled) s3 = (Ok (), s4)" "plain s4 = (Ok (), t)"
    using run by (auto simp: pg_settle_def in_tx_Ok quietly_def run_Ok)
  have b1: "books s1 = (us, ms, os, bs, p, ob)" using plain_books [OF steps(1)] s by simp
  note b2 = record_resolution_books [OF steps(2) b1]
  obtain us' where b3: "books s3 = (us', map (\<lambda>row. if mw_id row = market_uuid (m_id m) then resolved_row m row else row) ms,
      os, map (fold (at_key bw_id (\<lambda>b. bet_uuid (b_id b)) settled_row) settled) bs, p, ob)"
    and us': "decodes (user_of_row lc) us'" "map uw_id us' = map uw_id us"
      "lookup_in lc us' = fold (credit_user now) settled (lookup_in lc us)"
    using settle_each_books [OF steps(3) b2 d] by blast
  obtain new where "recorded codec (map UserBalanceChanged (pg_paid settled)) new"
    "books s4 = (us', map (\<lambda>row. if mw_id row = market_uuid (m_id m) then resolved_row m row else row) ms,
      os, map (fold (at_key bw_id (\<lambda>b. bet_uuid (b_id b)) settled_row) settled) bs, p, ob @ new)"
    using publish_each_books [OF steps(4) b3] by blast
  then show ?thesis using plain_books [OF steps(5)] us'
    by (intro exI [of _ us'] exI [of _ new] conjI) simp_all
qed

lemma settled_decode:
  assumes d: "decodes bet_of_row bs" and dist: "distinct (map b_id (oks (map bet_of_row bs)))"
    and perm: "mset chosen = mset (filter P (oks (map bet_of_row bs)))"
  shows "oks (map bet_of_row (map (fold (at_key bw_id (\<lambda>b. bet_uuid (b_id b)) settled_row) (map (settled_as w) chosen)) bs))
      = map (overlay b_id (map (settled_as w) chosen)) (oks (map bet_of_row bs))
    \<and> decodes bet_of_row (map (fold (at_key bw_id (\<lambda>b. bet_uuid (b_id b)) settled_row) (map (settled_as w) chosen)) bs)"
proof (rule oks_map [OF d])
  fix row x assume row: "row \<in> set bs" "bet_of_row row = Ok x"
  let ?B = "oks (map bet_of_row bs)" and ?S = "map (settled_as w) chosen"
  note f = bet_fields [OF row(2)]
  have x: "x \<in> set ?B" using row by (auto simp: set_oks)
  have sub: "set chosen \<subseteq> set ?B" using mset_eq_setD [OF perm] by auto
  have "mset (map b_id chosen) = mset (map b_id (filter P ?B))" using perm by simp
  then have "distinct (map b_id chosen)"
    using mset_eq_imp_distinct_iff distinct_map_filter [OF dist] by blast
  then have "distinct (map (\<lambda>b. bet_uuid (b_id b)) ?S)" by (induction chosen) (auto simp: uuid_inj)
  then have fo: "fold (at_key bw_id (\<lambda>b. bet_uuid (b_id b)) settled_row) ?S row
      = (case find (\<lambda>b. bet_uuid (b_id b) = bw_id row) ?S of None \<Rightarrow> row | Some y \<Rightarrow> settled_row y row)"
    by (rule fold_at_key) (simp add: settled_row_def)
  have key: "(bet_uuid (b_id y) = bw_id row) = (b_id y = b_id x)" for y :: bet
    using f(1) by (metis ids_of_rows(8))
  show "bet_of_row (fold (at_key bw_id (\<lambda>b. bet_uuid (b_id b)) settled_row) ?S row) = Ok (overlay b_id ?S x)"
  proof (cases "find (\<lambda>y. b_id y = b_id x) ?S")
    case None
    then show ?thesis using row by (simp only: fo key overlay_def) simp
  next
    case (Some y)
    then obtain z where z: "z \<in> set chosen" "y = settled_as w z" "b_id z = b_id x"
      by (auto dest!: find_SomeD)
    then have "z = x" using sub x dist by (auto simp: distinct_map inj_on_def)
    then have "x\<lparr>b_status := b_status y, b_payout := b_payout y\<rparr> = y" using z by (simp add: settled_as_def)
    moreover have "bet_of_row (settled_row y row) = Ok (x\<lparr>b_status := b_status y, b_payout := b_payout y\<rparr>)"
      by (simp add: settled_row_def f(5))
    ultimately show ?thesis using Some by (simp only: fo key overlay_def) simp
  qed
qed

lemma resolution_decodes:
  assumes d: "decodes market_of_row ms" and m: "find (\<lambda>x. m_id x = m_id m) (oks (map market_of_row ms)) = Some m"
    and m': "m' = m\<lparr>m_status := Resolved, m_resolved_outcome_id := Some w\<rparr>"
    and ms': "ms' = map (\<lambda>row. if mw_id row = market_uuid (m_id m') then resolved_row m' row else row) ms"
  shows "decodes market_of_row ms' \<and> map mw_id ms' = map mw_id ms
    \<and> (\<lambda>i. find (\<lambda>x. m_id x = i) (oks (map market_of_row ms')))
      = (\<lambda>i. find (\<lambda>x. m_id x = i) (oks (map market_of_row ms)))(m_id m \<mapsto> m')"
proof -
  define h where "h x = (if m_id x = m_id m then x\<lparr>m_status := Resolved, m_resolved_outcome_id := Some w\<rparr> else x)" for x :: market
  have hm: "oks (map market_of_row ms') = map h (oks (map market_of_row ms)) \<and> decodes market_of_row ms'"
    unfolding ms'
  proof (rule oks_map [OF d])
    fix row x assume "market_of_row row = Ok x"
    note f = market_fields [OF this]
    have "OutcomeId (outcome_uuid w) = w" by simp
    then show "market_of_row (if mw_id row = market_uuid (m_id m') then resolved_row m' row else row) = Ok (h x)"
      using f(5) [where st = Resolved and w = "Some (outcome_uuid w)"] \<open>market_of_row row = Ok x\<close>
      by (simp add: m' resolved_row_def h_def f(1))
  qed
  have "m_id (h x) = m_id x" for x by (simp add: h_def)
  then have "(\<lambda>i. find (\<lambda>x. m_id x = i) (map h xs)) = (\<lambda>i. find (\<lambda>x. m_id x = i) xs)
      (m_id m := map_option h (find (\<lambda>x. m_id x = m_id m) xs))" for xs
    by (intro find_update_by_key) (simp_all add: h_def)
  then have "(\<lambda>i. find (\<lambda>x. m_id x = i) (map h (oks (map market_of_row ms))))
      = (\<lambda>i. find (\<lambda>x. m_id x = i) (oks (map market_of_row ms)))(m_id m \<mapsto> m')"
    by (simp add: m h_def m')
  moreover have "map mw_id ms' = map mw_id ms" by (simp add: ms' resolved_row_def)
  ultimately show ?thesis using hm by simp
qed

text \<open>A settlement is the ledger's, with one event for every user it paid, or leaves the tables as
  they were.\<close>

lemma pg_settle_ledger:
  assumes inv: "pg_inv lc s" and wf: "ledger_wf (pg_ledger lc s)" and rs: "resolvable (pg_ledger lc s) mid w m"
    and perm: "mset chosen = mset (open_bets mid (pg_ledger lc s))"
  shows "wp (pg_settle codec now (m\<lparr>m_status := Resolved, m_resolved_outcome_id := Some w\<rparr>) (map (settled_as w) chosen))
    (\<lambda>r t. pg_inv lc t \<and> (if is_ok r
      then pg_ledger lc t = ledger_settle now (m\<lparr>m_status := Resolved, m_resolved_outcome_id := Some w\<rparr>)
          (map (settled_as w) chosen) (pg_ledger lc s)
        \<and> (\<exists>new. recorded codec (map UserBalanceChanged (pg_paid (map (settled_as w) chosen))) new
          \<and> bk_rows t = bk_rows s @ new)
      else same_tables s t)) s"
    (is "wp (pg_settle _ _ ?m ?S) ?Q s")
proof (rule wpI)
  fix r t assume run: "pg_settle codec now ?m ?S s = (r, t)"
  show "?Q r t"
  proof (cases "is_ok r")
    case False
    then have "same_tables s t" using in_tx_failed run by (fastforce simp: pg_settle_def)
    then show ?thesis using False inv same_tables_view(2) [of s t lc] by simp
  next
    case True
    then have run: "pg_settle codec now ?m ?S s = (Ok (), t)" using run by (cases r) simp_all
    obtain us ms os bs p ob where s: "books s = (us, ms, os, bs, p, ob)" by (cases "books s")
    note L = books_view(1) [OF s, of lc]
    have i: "decodes (user_of_row lc) us" "decodes market_of_row ms" "decodes outcome_of_row os"
      "decodes bet_of_row bs" "distinct (map uw_id us)" "distinct (map mw_id ms)" "\<forall>n k. mset (p n k) = mset [0..<k]"
      using inv books_view(2) [OF s, of lc] by simp_all
    have "lg_markets (pg_ledger lc s) mid = Some m" using rs by (simp add: resolvable_def)
    moreover from this have "market_ok (lg_bets (pg_ledger lc s)) (lg_outcomes (pg_ledger lc s)) mid m"
      using wf by (simp add: ledger_wf_def)
    ultimately have mid: "m_id m = mid" "find (\<lambda>x. m_id x = m_id m) (oks (map market_of_row ms)) = Some m"
      by (simp_all add: market_ok_def L)
    have dist: "distinct (map b_id (oks (map bet_of_row bs)))" using wf L by (simp add: ledger_wf_def)
    have perm': "mset chosen = mset (filter (\<lambda>b. b_market_id b = mid \<and> b_status b = Active) (oks (map bet_of_row bs)))"
      using perm L by (simp add: open_bets_def)
    obtain us' new where new: "recorded codec (map UserBalanceChanged (pg_paid ?S)) new"
      and t: "books t = (us', map (\<lambda>row. if mw_id row = market_uuid (m_id ?m) then resolved_row ?m row else row) ms, os,
        map (fold (at_key bw_id (\<lambda>b. bet_uuid (b_id b)) settled_row) ?S) bs, p, ob @ new)"
      and us': "decodes (user_of_row lc) us'" "map uw_id us' = map uw_id us"
        "lookup_in lc us' = fold (credit_user now) ?S (lookup_in lc us)"
      using pg_settle_books [OF run s i(1)] by blast
    note M = resolution_decodes [OF i(2) mid(2) refl refl, of w]
    note B = settled_decode [OF i(4) dist perm', of w]
    note L' = books_view [OF t, of lc]
    have "distinct (map uw_id us')" using us'(2) i(5) by simp
    then have "pg_inv lc t" using us'(1) M B i by (simp add: L'(2) del: map_map map_eq_conv)
    moreover have "pg_ledger lc t = ledger_settle now ?m ?S (pg_ledger lc s)"
      using M B mid(2) us'(3) [unfolded lookup_in_def [abs_def]]
      unfolding L L'(1) ledger_settle_def by (simp del: map_map map_eq_conv)
    moreover have "bk_rows t = bk_rows s @ new" using s t by (simp add: books_def)
    ultimately show ?thesis using new True by auto
  qed
qed

section \<open>Queries\<close>

lemma statement_same:
  assumes "\<And>p r x r'. q p r = Ok (x, r') \<Longrightarrow> r' = r" "statement q s = (v, t)"
  shows "same_tables s t"
  using assms by (auto simp: statement_def split: option.splits result.splits dest!: assms(1))

lemma answers_tables:
  assumes "\<And>s v t. m s = (v, t) \<Longrightarrow> same_tables s t"
    and "\<And>s x t. pg_inv lc s \<Longrightarrow> m s = (Ok x, t) \<Longrightarrow> P (pg_ledger lc s) x"
  shows "answers (pg_inv lc) (pg_ledger lc) m P"
  unfolding answers_def
proof (intro allI impI wpI)
  fix s r t assume "pg_inv lc s" "m s = (r, t)"
  then show "pg_inv lc t \<and> pg_ledger lc t = pg_ledger lc s \<and> (\<forall>x. r = Ok x \<longrightarrow> P (pg_ledger lc s) x)"
    using same_tables_view [OF assms(1)] assms(2) by metis
qed

lemma then_lift_same:
  assumes "\<And>s v t. m s = (v, t) \<Longrightarrow> same_tables s t" "bind_cmd m (\<lambda>x. lift (k x)) s = (v, t)"
  shows "same_tables s t"
proof (cases "m s")
  case (Pair r u)
  then have "u = t" using assms(2) by (cases r) (simp_all add: bind_cmd_def lift_def)
  then show ?thesis using assms(1) Pair by blast
qed

lemma answers_select:
  assumes "\<And>(s :: ('j, 'z) pg) n v. pg_inv lc s \<Longrightarrow> k (q (sv_plan (bk_rest s) n) (bk_rest s)) = Ok v \<Longrightarrow> P (pg_ledger lc s) v"
  shows "answers (pg_inv lc) (pg_ledger lc) (bind_cmd (select q) (\<lambda>x. lift (k x)) :: ('j, 'z, 'a) pg_cmd) P"
proof (rule answers_tables)
  show "bind_cmd (select q) (\<lambda>x. lift (k x)) s = (v, t) \<Longrightarrow> same_tables s t" for s t :: "('j, 'z) pg" and v
    by (rule then_lift_same [OF select_same])
next
  fix s t :: "('j, 'z) pg" and x
  assume i: "pg_inv lc s" and run: "bind_cmd (select q) (\<lambda>x. lift (k x)) s = (Ok x, t)"
  have p: "sv_plan (bk_rest (count_sent s)) n = sv_plan (bk_rest s) n" for n
    by (simp add: bk_rest_count_sent)
  have "k (q (sv_plan (bk_rest (count_sent s)) (sv_sent (bk_rest s))) (bk_rest (count_sent s))) = Ok x"
    using run by (auto simp: run_Ok select_Ok p)
  moreover have "pg_inv lc (count_sent s)" "pg_ledger lc (count_sent s) = pg_ledger lc s"
    using same_tables_view [OF same_tables_count_sent [of s], of lc] i by simp_all
  ultimately show "P (pg_ledger lc s) x" using assms [of "count_sent s"] by fastforce
qed

lemma decode_find:
  assumes "decodes f rows" "\<And>row x. f row = Ok x \<Longrightarrow> P x = c row"
    and "(case find c rows of None \<Rightarrow> Ok None | Some r \<Rightarrow> and_then (f r) (\<lambda>x. Ok (Some x))) = Ok v"
  shows "v = find P (oks (map f rows))"
  using oks_find [OF assms(1), of P c] assms(2,3) by (auto simp: and_then_eq_Ok split: option.splits)

lemma decode_filter:
  assumes "decodes f rows" "\<And>row x. f row = Ok x \<Longrightarrow> P x = c row"
    and "collect_results (map f (filter c rows)) = Ok v"
  shows "v = filter P (oks (map f rows))"
  using oks_filter [OF assms(1), of P c] collect_oks [of f "filter c rows"] assms(2,3) by simp

lemma pg_outcome_by_id_answers:
  "answers (pg_inv lc) (pg_ledger lc) (pg_outcome_by_id i) (\<lambda>L r. r = find (\<lambda>oc. o_id oc = i) (lg_outcomes L))"
  unfolding pg_outcome_by_id_def decode_one_def
  apply (rule answers_select)
  subgoal premises p for s n v
    using decode_find [OF _ _ p(2), of "\<lambda>oc. o_id oc = i"] p(1) outcome_fields(1)
    by (simp add: pg_inv_def pg_ledger_def outcomes_in_def)
  done

lemma pg_market_by_id_answers:
  "answers (pg_inv lc) (pg_ledger lc) (pg_market_find_by_id mid) (\<lambda>L r. r = lg_markets L mid)"
  unfolding pg_market_find_by_id_def decode_one_def
  apply (rule answers_select)
  subgoal premises p for s n v
    using decode_find [OF _ _ p(2), of "\<lambda>m. m_id m = mid"] p(1) market_fields(1)
    by (simp add: pg_inv_def pg_ledger_def markets_in_def)
  done

lemma pg_outcomes_for_answers:
  "answers (pg_inv lc) (pg_ledger lc) (pg_outcomes_for mid) (\<lambda>L r. r = market_outcomes mid (lg_outcomes L))"
  unfolding pg_outcomes_for_def decode_all_def
  apply (rule answers_select)
  subgoal premises p for s n v
    using decode_filter [OF _ _ p(2), of "\<lambda>oc. o_market_id oc = mid"] p(1) outcome_fields(2)
    by (simp add: pg_inv_def pg_ledger_def outcomes_in_def market_outcomes_def)
  done

lemma fetch_user_lift: "fetch_user lc c = bind_cmd (select (\<lambda>_ r. find c (sv_users r))) (\<lambda>row. lift (case row of
    None \<Rightarrow> Ok None | Some r \<Rightarrow> and_then (user_of_row lc r) (\<lambda>x. Ok (Some x))))"
  unfolding fetch_user_def
  by (rule arg_cong [where f = "bind_cmd _"])
    (auto simp: fun_eq_iff ret_def lift_def bind_cmd_def split: option.split result.split)

lemma pg_user_by_id_answers:
  "answers (pg_inv lc) (pg_ledger lc) (pg_find_user_by_id lc u) (\<lambda>L r. r = lg_users L u)"
  unfolding pg_find_user_by_id_def fetch_user_lift
  apply (rule answers_select)
  subgoal premises p for s n v
    using decode_find [OF _ _ p(2), of "\<lambda>v. u_id v = u"] p(1) user_fields(1)
    by (simp add: pg_inv_def pg_ledger_def users_in_def)
  done

lemma pg_active_for_market_answers:
  "answers (pg_inv lc) (pg_ledger lc) (pg_active_for_market mid) (\<lambda>L r. mset r = mset (open_bets mid L))"
  unfolding pg_active_for_market_def decode_all_def
  apply (rule answers_select)
  subgoal premises h for s n v
  proof -
    let ?scan = "scan (sv_plan (bk_rest s) n) (sv_bets (bk_rest s))"
    have p: "mset ?scan = mset (sv_bets (bk_rest s))" using h(1) by (intro mset_scan) (simp add: pg_inv_def)
    then have "decodes bet_of_row ?scan" using h(1) mset_eq_setD [OF p] by (simp add: pg_inv_def decodes_def)
    then have "v = filter (\<lambda>b. b_market_id b = mid \<and> b_status b = Active) (oks (map bet_of_row ?scan))"
      using decode_filter [OF _ _ h(2), of "\<lambda>b. b_market_id b = mid \<and> b_status b = Active"] bet_fields(3,4) by simp
    then show ?thesis
      using mset_oks [OF p, of bet_of_row] by (simp add: pg_ledger_def bets_in_def open_bets_def mset_filter)
  qed
  done

lemma pg_active_positions_answers:
  "answers (pg_inv lc) (pg_ledger lc) (pg_active_positions ps) (\<lambda>L r. True)"
proof (rule answers_tables)
  fix s v t assume run: "pg_active_positions ps s = (v, t)"
  show "same_tables s t"
  proof (cases "ps = []")
    case True
    then show ?thesis using run by (simp add: pg_active_positions_def ret_def)
  next
    case False
    show ?thesis using run
      unfolding pg_active_positions_def decode_all_def Let_def if_not_P [OF False]
      by (rule then_lift_same [rotated], elim statement_same [rotated]) (auto simp: and_then_eq_Ok)
  qed
qed simp

interpretation pg: bet_ledger "pg_market_repo d" "pg_bet_repo codec" "pg_user_repo (dl_lc d)"
  "pg_ledger (dl_lc d)" "pg_inv (dl_lc d)"
proof (unfold_locales, goal_cases)
  case (7 s now bet os points)
  show ?case unfolding pg_bet_repo_def bet_repo.simps
    by (rule wp_mono [OF pg_place_ledger [OF 7]]) (auto simp: same_tables_view split: if_splits)
next
  case (8 s now mid w m bs)
  show ?case unfolding pg_bet_repo_def bet_repo.simps
    by (rule wp_mono [OF pg_settle_ledger [OF 8]]) (auto simp: same_tables_view split: if_splits)
qed (simp_all add: pg_market_repo_def pg_bet_repo_def pg_user_repo_def pg_outcome_by_id_answers
    pg_market_by_id_answers pg_outcomes_for_answers pg_user_by_id_answers pg_active_for_market_answers
    pg_active_positions_answers)

end
