(* ===== verification/PgBetting.thy ===== *)
theory PgBetting
  imports PgLedger Settlement
begin

text \<open>
  Betting over the Postgres repositories: placements and settlements are atomic whatever statement
  fails, the use cases refine the ledger, entities survive the trip through their rows, and what two
  resolutions that read before either settles do to the balances.
\<close>

section \<open>Entities and their rows\<close>

definition storable_user :: "case_table \<Rightarrow> user \<Rightarrow> bool" where
  "storable_user lc u \<longleftrightarrow> username_new (username_as_str (u_username u)) = Ok (u_username u)
     \<and> email_new lc (email_as_str (u_email u)) = Ok (u_email u)"

lemma role_string: "role_from_str (role_as_str r) = Ok r"
  by (cases r) (simp_all add: role_from_str_def lit_def)

lemma uuid_ids [simp]: "UserId (user_uuid u) = u" "MarketId (market_uuid m) = m" "OutcomeId (outcome_uuid oc) = oc"
  "BetId (bet_uuid b) = b"
  by simp_all

lemma user_decodes: "storable_user lc u \<Longrightarrow> user_of_row lc (row_of_user u) = Ok u"
  by (cases "u_id u"; cases "u_password_hash u")
    (simp add: user_of_row_Ok row_of_user_def storable_user_def role_string)

lemma market_decodes: "title_new (title_as_str (m_title m)) = Ok (m_title m) \<Longrightarrow> market_of_row (row_of_market m) = Ok m"
  by (cases "m_id m") (simp add: market_of_row_Ok row_of_market_def status_strings option.map_comp o_def option.map_ident del: ids_of_rows(7))

lemma outcome_decodes:
  "label_new (label_as_str (o_label oc)) = Ok (o_label oc) \<Longrightarrow> price_wf (o_current_price oc) \<Longrightarrow>
   outcome_of_row (row_of_outcome oc) = Ok oc"
  by (cases "o_id oc"; cases "o_market_id oc") (simp add: outcome_of_row_Ok row_of_outcome_def price_decodes)

lemma oks_decoded: "(\<And>x. x \<in> set xs \<Longrightarrow> f (g x) = Ok x) \<Longrightarrow> oks (map f (map g xs)) = xs \<and> decodes f (map g xs)"
  by (induction xs) auto

section \<open>A small database\<close>

definition database :: "user list \<Rightarrow> market list \<Rightarrow> outcome list \<Rightarrow> bet list \<Rightarrow> (event, unit) pg" where
  "database us ms os bs = \<lparr>bk_serial = 1, bk_rows = [], bk_rest = \<lparr>sv_users = map row_of_user us, sv_tokens = [],
     sv_markets = map row_of_market ms, sv_outcomes = map row_of_outcome os, sv_points = [],
     sv_bets = map row_of_bet bs, sv_messages = [], sv_reactions = [], sv_down = (\<lambda>_. None),
     sv_plan = (\<lambda>_ n. [0..<n]), sv_now = (\<lambda>_. 9), sv_sent = 0, sv_open = False, \<dots> = ()\<rparr>\<rparr>"

text \<open>The same database with a server that fails the \<open>k\<close>-th statement.\<close>

definition failing :: "nat \<Rightarrow> (event, unit) pg \<Rightarrow> (event, unit) pg" where
  "failing k s = s\<lparr>bk_rest := (bk_rest s)\<lparr>sv_down := (\<lambda>n. if n = k then Some (OtherSql (msg ''connection reset'')) else None)\<rparr>\<rparr>"

lemma database_view:
  assumes "\<forall>u\<in>set us. storable_user lc u" "\<forall>m\<in>set ms. title_new (title_as_str (m_title m)) = Ok (m_title m)"
    and "\<forall>oc\<in>set os. label_new (label_as_str (o_label oc)) = Ok (o_label oc) \<and> price_wf (o_current_price oc)"
    and "\<forall>b\<in>set bs. price_wf (b_price b)" "distinct (map (\<lambda>u. user_uuid (u_id u)) us)" "distinct (map (\<lambda>m. market_uuid (m_id m)) ms)"
  shows "pg_ledger lc (database us ms os bs) = \<lparr>lg_users = (\<lambda>i. find (\<lambda>u. u_id u = i) us),
      lg_markets = (\<lambda>i. find (\<lambda>m. m_id m = i) ms), lg_outcomes = os, lg_bets = bs\<rparr>"
    "pg_inv lc (database us ms os bs)"
proof -
  have b: "books (database us ms os bs) = (map row_of_user us, map row_of_market ms, map row_of_outcome os, map row_of_bet bs, \<lambda>_ n. [0..<n], [])"
    by (simp add: books_def database_def)
  have u: "oks (map (user_of_row lc) (map row_of_user us)) = us \<and> decodes (user_of_row lc) (map row_of_user us)"
    using assms(1) by (intro oks_decoded user_decodes) simp
  have m: "oks (map market_of_row (map row_of_market ms)) = ms \<and> decodes market_of_row (map row_of_market ms)"
    using assms(2) by (intro oks_decoded market_decodes) simp
  have oc: "oks (map outcome_of_row (map row_of_outcome os)) = os \<and> decodes outcome_of_row (map row_of_outcome os)"
    using assms(3) by (intro oks_decoded outcome_decodes) simp_all
  have bt: "oks (map bet_of_row (map row_of_bet bs)) = bs \<and> decodes bet_of_row (map row_of_bet bs)"
    using assms(4) by (intro oks_decoded bet_decodes) simp
  show "pg_ledger lc (database us ms os bs) = \<lparr>lg_users = (\<lambda>i. find (\<lambda>u. u_id u = i) us),
      lg_markets = (\<lambda>i. find (\<lambda>m. m_id m = i) ms), lg_outcomes = os, lg_bets = bs\<rparr>"
    using u m oc bt by (simp add: books_view(1) [OF b] del: map_map)
  have "map uw_id (map row_of_user us) = map (\<lambda>u. user_uuid (u_id u)) us"
    "map mw_id (map row_of_market ms) = map (\<lambda>m. market_uuid (m_id m)) ms"
    by (simp_all add: row_of_user_def row_of_market_def)
  then show "pg_inv lc (database us ms os bs)"
    using u m oc bt assms(5,6) by (simp add: books_view(2) [OF b] del: map_map)
qed

lemma failing_view: "pg_ledger lc (failing k s) = pg_ledger lc s" "pg_inv lc (failing k s) = pg_inv lc s"
  by (simp_all add: failing_def pg_ledger_def pg_inv_def users_in_def markets_in_def outcomes_in_def bets_in_def)

lemma ledger_wf_users:
  "ledger_wf L \<Longrightarrow> users_ok us \<Longrightarrow> \<forall>b\<in>set (lg_bets L). us (b_user_id b) \<noteq> None \<Longrightarrow> ledger_wf (L\<lparr>lg_users := us\<rparr>)"
  by (auto simp: ledger_wf_def bet_ok_def)

definition new_database :: "(event, unit) pg" where
  "new_database = database [sample_user 1 RUser] [sample_market] [sample_outcome 1, sample_outcome 2] []"

definition backed_database :: "(event, unit) pg" where
  "backed_database = database [sample_user 1 RUser] [sample_market\<lparr>m_total_volume := 100, m_participants_count := 1\<rparr>]
     [(sample_outcome 1)\<lparr>o_volume := 100\<rparr>, sample_outcome 2] [sample_bet]"

lemma sample_storable:
  "storable_user lc (sample_user i r)" "title_new (title_as_str (m_title sample_market)) = Ok (m_title sample_market)"
  "label_new (label_as_str (o_label (sample_outcome i))) = Ok (o_label (sample_outcome i))"
  "price_wf (o_current_price (sample_outcome i))" "price_wf (b_price sample_bet)"
  by (simp_all add: storable_user_def sample_user_def username_new_def email_new_def to_lowercase_def lit_def
    sample_market_def market_new_def title_new_def sample_outcome_def outcome_new_def label_new_def
    price_wf_def price_scale_def sample_bet_def is_ascii_alphanumeric_def is_ascii_digit_def Let_def trim_def
    is_whitespace_def title_max_def label_max_def ascii_lower_def email_shape_def split_once_def starts_with_def
    ends_with_def)

lemma single_user_ok: "users_ok (\<lambda>i. find (\<lambda>u. u_id u = i) [sample_user 1 RUser])"
  by (auto simp: users_ok_def sample_user_wf dom_def split: if_splits)

lemma new_database_books:
  "pg_inv lc new_database" "ledger_wf (pg_ledger lc new_database)"
  "pg_ledger lc new_database = (ledger_of sample_world)\<lparr>lg_users := \<lambda>i. find (\<lambda>u. u_id u = i) [sample_user 1 RUser]\<rparr>"
proof -
  have w: "(\<lambda>i. find (\<lambda>m. m_id m = i) [sample_market]) = lookup_market sample_world"
    "[sample_outcome 1, sample_outcome 2] = outcomes sample_world" "[] = bets sample_world"
    by (simp_all add: lookup_market_def sample_world_def fun_eq_iff)
  have v: "pg_ledger lc new_database = \<lparr>lg_users = (\<lambda>i. find (\<lambda>u. u_id u = i) [sample_user 1 RUser]),
      lg_markets = (\<lambda>i. find (\<lambda>m. m_id m = i) [sample_market]), lg_outcomes = [sample_outcome 1, sample_outcome 2], lg_bets = []\<rparr>"
    "pg_inv lc new_database"
    unfolding new_database_def by (rule database_view; simp add: sample_storable)+
  show "pg_inv lc new_database" by (rule v(2))
  show "pg_ledger lc new_database = (ledger_of sample_world)\<lparr>lg_users := \<lambda>i. find (\<lambda>u. u_id u = i) [sample_user 1 RUser]\<rparr>"
    unfolding v(1) w ledger_of_def by simp
  then show "ledger_wf (pg_ledger lc new_database)"
    using sample_books single_user_ok by (simp only:) (intro ledger_wf_users, simp_all add: sample_world_def)
qed

lemma backed_database_books:
  "pg_inv lc backed_database" "ledger_wf (pg_ledger lc backed_database)"
  "pg_ledger lc backed_database = (ledger_of backed_world)\<lparr>lg_users := \<lambda>i. find (\<lambda>u. u_id u = i) [sample_user 1 RUser]\<rparr>"
proof -
  let ?m = "sample_market\<lparr>m_total_volume := 100, m_participants_count := 1\<rparr>"
  have w: "(\<lambda>i. find (\<lambda>m. m_id m = i) [?m]) = lookup_market backed_world"
    "[(sample_outcome 1)\<lparr>o_volume := 100\<rparr>, sample_outcome 2] = outcomes backed_world" "[sample_bet] = bets backed_world"
    by (simp_all add: lookup_market_def backed_world_def fun_eq_iff)
  have v: "pg_ledger lc backed_database = \<lparr>lg_users = (\<lambda>i. find (\<lambda>u. u_id u = i) [sample_user 1 RUser]),
      lg_markets = (\<lambda>i. find (\<lambda>m. m_id m = i) [?m]), lg_outcomes = [(sample_outcome 1)\<lparr>o_volume := 100\<rparr>, sample_outcome 2],
      lg_bets = [sample_bet]\<rparr>" "pg_inv lc backed_database"
    unfolding backed_database_def by (rule database_view; simp add: sample_storable)+
  show "pg_inv lc backed_database" by (rule v(2))
  show e: "pg_ledger lc backed_database = (ledger_of backed_world)\<lparr>lg_users := \<lambda>i. find (\<lambda>u. u_id u = i) [sample_user 1 RUser]\<rparr>"
    unfolding v(1) w ledger_of_def by simp
  have "b_user_id sample_bet = u_id (sample_user 1 RUser)" by (simp add: sample_bet_def sample_user_def)
  then show "ledger_wf (pg_ledger lc backed_database)"
    unfolding e using backed_books single_user_ok by (intro ledger_wf_users) (simp_all add: w(3) [symmetric])
qed

section \<open>Atomic placements and settlements\<close>

text \<open>C10: Placing a bet over Postgres is atomic.  Whatever statement of the transaction the server
  fails, begin and commit included, either every table is as it was, or the bet is placed exactly as
  the abstract ledger places it, with exactly its three events appended to the outbox.\<close>

theorem pg_place_atomic:
  assumes "pg_inv lc s" "ledger_wf (pg_ledger lc s)" "placeable (pg_ledger lc s) b ocs"
    and run: "pg_place codec now b ocs points s = (r, t)"
  shows "pg_inv lc t \<and> ledger_wf (pg_ledger lc t)
    \<and> (if r = Ok () then ledger_place now b ocs (pg_ledger lc s) = Some (pg_ledger lc t)
         \<and> (\<exists>new. recorded codec (placement_events b) new \<and> bk_rows t = bk_rows s @ new)
       else same_tables s t)"
proof -
  have u: "is_ok r \<longleftrightarrow> r = Ok ()" by (cases r) simp_all
  note p = wpD [OF pg_place_ledger [OF assms(1-3)] run, unfolded u]
  moreover have "ledger_wf (pg_ledger lc t)"
  proof (cases "r = Ok ()")
    case True
    then show ?thesis using p assms(2,3) by (auto intro: ledger_place_wf)
  next
    case False
    then show ?thesis using p assms(2) same_tables_view(1) [of s t lc] by simp
  qed
  ultimately show ?thesis by blast
qed

text \<open>C11: Settling a market over Postgres is atomic.  Whatever statement fails, and in whatever order
  the open bets were read, either every table is as it was, or the market is resolved, every open bet
  settled and every payout credited exactly as the abstract ledger does, with one balance event for
  every user who was paid.\<close>

theorem pg_settle_atomic:
  assumes "pg_inv lc s" "ledger_wf (pg_ledger lc s)" "resolvable (pg_ledger lc s) mid w m"
    and "mset chosen = mset (open_bets mid (pg_ledger lc s))"
    and run: "pg_settle codec now (m\<lparr>m_status := Resolved, m_resolved_outcome_id := Some w\<rparr>) (map (settled_as w) chosen) s = (r, t)"
  shows "pg_inv lc t \<and> ledger_wf (pg_ledger lc t)
    \<and> (if r = Ok () then pg_ledger lc t = resolved_ledger now mid w m (pg_ledger lc s)
         \<and> (\<exists>new. recorded codec (map UserBalanceChanged (pg_paid (map (settled_as w) chosen))) new
           \<and> bk_rows t = bk_rows s @ new)
       else same_tables s t)"
proof -
  have u: "is_ok r \<longleftrightarrow> r = Ok ()" by (cases r) simp_all
  note p = wpD [OF pg_settle_ledger [OF assms(1-4)] run, unfolded u ledger_settle_perm [OF assms(2,4)]]
  moreover have "ledger_wf (pg_ledger lc t)"
  proof (cases "r = Ok ()")
    case True
    then show ?thesis using p ledger_settle_wf [OF assms(2,3), of now] by simp
  next
    case False
    then show ?thesis using p assms(2) same_tables_view(1) [of s t lc] by simp
  qed
  ultimately show ?thesis by blast
qed

section \<open>The use cases\<close>

abbreviation pg_place_bet where
  "pg_place_bet d codec \<equiv> place_bet (pg_market_repo d) (pg_bet_repo codec) (pg_user_repo (dl_lc d))"

abbreviation pg_resolve_market where
  "pg_resolve_market d codec \<equiv> resolve_market (pg_market_repo d) (pg_bet_repo codec)"

text \<open>C12: Over Postgres, with any statement failing at any time, \<open>PlaceBet\<close> keeps the books
  well-formed, changes the ledger by one accepted bet or not at all, and answers with a bet only when
  that bet has been recorded.\<close>

theorem pg_place_bet_refines:
  assumes inv: "pg_inv (dl_lc d) s" and wf: "ledger_wf (pg_ledger (dl_lc d) s)"
    and fresh: "BetId fresh \<notin> b_id ` set (lg_bets (pg_ledger (dl_lc d) s))"
    and run: "pg_place_bet d codec clock fresh actor input s = (r, t)"
  shows "pg_inv (dl_lc d) t \<and> ledger_wf (pg_ledger (dl_lc d) t)
    \<and> (pg_ledger (dl_lc d) t = pg_ledger (dl_lc d) s \<and> \<not> is_ok r
      \<or> (\<exists>b. placed_once clock fresh actor input (pg_ledger (dl_lc d) s) (pg_ledger (dl_lc d) t) b
        \<and> (\<forall>v. r = Ok v \<longrightarrow> bv_bet v = b)))"
  using wpD [OF pg.place_bet_refines [OF inv wf fresh] run] wpD [OF pg.place_bet_wf [OF inv wf fresh] run]
  by (elim conjE, intro conjI)

text \<open>C13: Over Postgres, with any statement failing at any time, \<open>ResolveMarket\<close> keeps the books
  well-formed; it answers success exactly when an administrator's resolution of an unresolved market
  to one of its own outcomes has been made as a whole, and changes nothing otherwise.\<close>

theorem pg_resolve_market_refines:
  assumes inv: "pg_inv (dl_lc d) s" and wf: "ledger_wf (pg_ledger (dl_lc d) s)"
    and run: "pg_resolve_market d codec clock actor mid w s = (r, t)"
  shows "pg_inv (dl_lc d) t \<and> ledger_wf (pg_ledger (dl_lc d) t)
    \<and> (if is_ok r then actor_role actor = RAdmin \<and> (\<exists>m. resolvable (pg_ledger (dl_lc d) s) mid w m
          \<and> pg_ledger (dl_lc d) t = resolved_ledger (clock 0) mid w m (pg_ledger (dl_lc d) s))
        else pg_ledger (dl_lc d) t = pg_ledger (dl_lc d) s)"
  using wpD [OF pg.resolve_market_refines [OF inv wf] run] wpD [OF pg.resolve_market_wf [OF inv wf] run]
  by (elim conjE, intro conjI)

section \<open>A settlement that was read too early\<close>

text \<open>A server on which no statement fails: there a settlement goes through when every account has room
  for its payouts.\<close>

definition healthy :: "('j, 'z) pg \<Rightarrow> bool" where
  "healthy s \<longleftrightarrow> sv_down (bk_rest s) = (\<lambda>_. None)"

lemma healthy_count_sent [simp]: "healthy (count_sent s) = healthy s"
  by (simp add: healthy_def count_sent_def)

lemma statement_healthy:
  "healthy s \<Longrightarrow> q (sv_plan (bk_rest s) (sv_sent (bk_rest s))) (bk_rest (count_sent s)) = Ok (x, r)
    \<Longrightarrow> statement q s = (Ok x, (count_sent s)\<lparr>bk_rest := r\<rparr>)"
  by (simp add: healthy_def statement_def)

lemma plain_healthy: "healthy s \<Longrightarrow> plain s = (Ok (), count_sent s)"
  by (simp add: plain_Ok healthy_def)

text \<open>Room in every account for what a settlement pays.\<close>

definition payable :: "bet list \<Rightarrow> ('j, 'z) pg \<Rightarrow> bool" where
  "payable bs s \<longleftrightarrow> (\<forall>row\<in>set (sv_users (bk_rest s)).
     0 \<le> uw_balance row \<and> uw_balance row + credited (UserId (uw_id row)) bs \<le> i64_max)"

lemma payable_count_sent [simp]: "payable bs (count_sent s) = payable bs s"
  by (simp add: payable_def count_sent_def)

lemma settle_one_runs:
  assumes "healthy s" "payable (b # bs) s" "paying (b # bs)"
  shows "\<exists>t. pg_settle_one now b s = (Ok (), t) \<and> healthy t \<and> payable bs t"
proof -
  define h where "h row = row\<lparr>bw_status := bet_status_as_str (b_status b), bw_payout := b_payout b\<rparr>" for row :: bet_row
  let ?c = "\<lambda>row. bw_id row = bet_uuid (b_id b)"
  define s1 where "s1 = (count_sent s)\<lparr>bk_rest := (bk_rest (count_sent s))\<lparr>sv_bets :=
    map (\<lambda>r. if ?c r then h r else r) (sv_bets (bk_rest (count_sent s)))\<rparr>\<rparr>"
  have bets: "update_bets ?c (\<lambda>row. Ok (h row)) s = (Ok (length (filter ?c (sv_bets (bk_rest (count_sent s))))), s1)"
    unfolding update_bets_def s1_def
    by (rule statement_healthy [OF assms(1)]) (simp add: update_rows_map [where g = h])
  have s1: "healthy s1" "sv_users (bk_rest s1) = sv_users (bk_rest s)"
    using assms(1) by (simp_all add: s1_def healthy_def count_sent_def)
  show ?thesis
  proof (cases "b_payout b")
    case None
    then have "pg_settle_one now b s = (Ok (), s1)"
      using bets by (simp add: pg_settle_one_def quietly_def h_def seq_cmd_def bind_cmd_def ret_def)
    moreover have "payable bs s1" using assms(2) None by (simp add: payable_def s1(2) credited_def)
    ultimately show ?thesis using s1(1) by blast
  next
    case (Some q)
    define g where "g row = row\<lparr>uw_balance := uw_balance row + q, uw_updated_at := now\<rparr>" for row :: user_row
    let ?d = "\<lambda>row. uw_id row = user_uuid (b_user_id b)"
    define t where "t = (count_sent s1)\<lparr>bk_rest := (bk_rest (count_sent s1))\<lparr>sv_users :=
      map (\<lambda>r. if ?d r then g r else r) (sv_users (bk_rest (count_sent s1)))\<rparr>\<rparr>"
    have q: "0 < q" "0 \<le> credited i bs" for i
      using assms(3) Some credited_nonneg [of bs i] by (auto simp: paying_def)
    have c: "credited (UserId (uw_id row)) (b # bs) = (if ?d row then q else 0) + credited (UserId (uw_id row)) bs" for row
      using Some by (cases "b_user_id b") (auto simp: credited_def)
    have rows: "sv_users (bk_rest (count_sent s1)) = sv_users (bk_rest s)" by (simp add: count_sent_def s1(2))
    have fits: "and_then (bigint (uw_balance row + q)) (\<lambda>balance. Ok (row\<lparr>uw_balance := balance, uw_updated_at := now\<rparr>)) = Ok (g row)"
      if "row \<in> set (sv_users (bk_rest s))" "?d row" for row
    proof -
      have "0 \<le> uw_balance row" "uw_balance row + (q + credited (UserId (uw_id row)) bs) \<le> i64_max"
        using assms(2) that c [of row] by (auto simp: payable_def)
      then have "in_i64 (uw_balance row + q)" using q(1) q(2) [of "UserId (uw_id row)"]
        by (simp add: in_i64_def i64_min_def)
      then show ?thesis by (simp add: bigint_def g_def)
    qed
    have "update_users ?d (\<lambda>row. and_then (bigint (uw_balance row + q)) (\<lambda>balance.
        Ok (row\<lparr>uw_balance := balance, uw_updated_at := now\<rparr>))) s1
      = (Ok (length (filter ?d (sv_users (bk_rest (count_sent s1))))), t)"
      unfolding update_users_def t_def
      by (rule statement_healthy [OF s1(1)]) (simp add: update_rows_map [where g = g] rows fits)
    then have "pg_settle_one now b s = (Ok (), t)"
      using bets Some by (simp add: pg_settle_one_def pg_credit_def quietly_def h_def seq_cmd_def bind_cmd_def ret_def)
    moreover have "payable bs t" using assms(2) q
      by (auto simp: payable_def t_def rows g_def c split: if_splits)
    moreover have "healthy t" using s1(1) by (simp add: t_def healthy_def count_sent_def)
    ultimately show ?thesis by blast
  qed
qed

lemma settle_each_runs:
  assumes "healthy s" "payable bs s" "paying bs"
  shows "\<exists>t. for_each (pg_settle_one now) bs s = (Ok (), t) \<and> healthy t"
  using assms
proof (induction bs arbitrary: s)
  case (Cons b bs)
  obtain u where u: "pg_settle_one now b s = (Ok (), u)" "healthy u" "payable bs u"
    using settle_one_runs [OF Cons.prems] by blast
  have "paying bs" using Cons.prems(3) by (simp add: paying_def)
  from Cons.IH [OF u(2,3) this] show ?case using u(1) by (auto simp: run_Ok)
qed (simp add: run_Ok)

lemma publish_each_runs:
  assumes "event_codec_ok codec" "healthy s"
  shows "\<exists>t. for_each (\<lambda>u. pg_publish codec (ev u)) xs s = (Ok (), t) \<and> healthy t"
  using assms(2)
proof (induction xs arbitrary: s)
  case (Cons x xs)
  obtain j where "to_value codec (ev x) = Ok j" using assms(1) by (auto simp: event_codec_ok_def)
  then obtain u where u: "publish codec (ev x) s = (Ok (), u)" "healthy u"
    using Cons.prems by (auto simp: publish_def healthy_def cmd_simps writes_def)
  then have "pg_publish codec (ev x) s = (Ok (), count_sent u)"
    by (simp add: pg_publish_def seq_cmd_def bind_cmd_def plain_healthy)
  then show ?case using Cons.IH [of "count_sent u"] u(2) by (auto simp: run_Ok)
qed (simp add: run_Ok)

lemma settle_runs:
  assumes "event_codec_ok codec" "healthy s" "payable bs s" "paying bs"
    and won: "\<And>w. m_resolved_outcome_id m = Some w \<Longrightarrow> outcome_uuid w \<in> ow_id ` set (sv_outcomes (bk_rest s))"
  shows "\<exists>t. pg_settle codec now m bs s = (Ok (), t) \<and> healthy t"
proof -
  let ?s = "count_sent s"
  let ?c = "\<lambda>row. mw_id row = market_uuid (m_id m)"
  define s1 where "s1 = (count_sent ?s)\<lparr>bk_rest := (bk_rest (count_sent ?s))\<lparr>sv_markets :=
    map (\<lambda>r. if ?c r then resolved_row m r else r) (sv_markets (bk_rest (count_sent ?s)))\<rparr>\<rparr>"
  have stored: "case m_resolved_outcome_id m of None \<Rightarrow> True
      | Some w \<Rightarrow> list_ex (\<lambda>row. ow_id row = outcome_uuid w) (sv_outcomes (bk_rest (count_sent ?s)))"
    using won by (force simp: list_ex_iff count_sent_def split: option.splits)
  have rec: "pg_record_resolution m ?s = (Ok (length (filter ?c (sv_markets (bk_rest (count_sent ?s))))), s1)"
    unfolding pg_record_resolution_def s1_def
    by (rule statement_healthy)
      (use assms(2) stored in \<open>simp_all add: update_rows_map [where g = "resolved_row m"] resolved_row_def\<close>)
  have "healthy s1" "payable bs s1"
    using assms(2,3) by (simp_all add: s1_def healthy_def payable_def count_sent_def)
  then obtain s2 where s2: "for_each (pg_settle_one now) bs s1 = (Ok (), s2)" "healthy s2"
    using settle_each_runs [OF _ _ assms(4)] by blast
  obtain s3 where s3: "for_each (\<lambda>u. pg_publish codec (UserBalanceChanged u)) (pg_paid bs) s2 = (Ok (), s3)" "healthy s3"
    using publish_each_runs [OF assms(1) s2(2), of UserBalanceChanged] by blast
  have "pg_settle codec now m bs s = (Ok (), count_sent s3)"
    using rec s2(1) s3(1) plain_healthy [OF assms(2)] plain_healthy [OF s3(2)]
    by (auto simp: pg_settle_def in_tx_Ok run_Ok quietly_def)
  then show ?thesis using s3(2) by simp
qed

lemma looked_up:
  assumes "decodes (user_of_row lc) us" "distinct (map uw_id us)" "row \<in> set us"
  shows "\<exists>v. lookup_in lc us (UserId (uw_id row)) = Some v \<and> u_balance v = uw_balance row"
proof -
  obtain v where v: "user_of_row lc row = Ok v" using assms(1,3) by (auto simp: decodes_def is_ok_iff)
  show ?thesis
    using find_user_row [OF assms(1,3,2) v] user_fields(2) [OF v] by (simp add: lookup_in_def)
qed

text \<open>One settlement, with success as part of the conclusion.\<close>

lemma settlement_pays:
  assumes s: "books s = (us, ms, os, xs, p, ob)" "decodes (user_of_row lc) us" "distinct (map uw_id us)"
    and uok: "users_ok (lookup_in lc us)" and pay: "paying bs" and server: "event_codec_ok codec" "healthy s"
    and won: "\<And>w. m_resolved_outcome_id m = Some w \<Longrightarrow> outcome_uuid w \<in> ow_id ` set os"
    and room: "\<And>i u. lookup_in lc us i = Some u \<Longrightarrow> u_balance u + credited i bs \<le> i64_max"
  shows "\<exists>t us1 ms1 xs1 ob1. pg_settle codec now m bs s = (Ok (), t) \<and> healthy t
    \<and> books t = (us1, ms1, os, xs1, p, ob1) \<and> decodes (user_of_row lc) us1 \<and> distinct (map uw_id us1)
    \<and> users_ok (lookup_in lc us1)
    \<and> (\<forall>i. case lookup_in lc us i of None \<Rightarrow> lookup_in lc us1 i = None
        | Some u \<Rightarrow> \<exists>a. lookup_in lc us1 i = Some (u\<lparr>u_balance := u_balance u + credited i bs, u_updated_at := a\<rparr>))"
proof -
  have rows: "sv_users (bk_rest s) = us" "sv_outcomes (bk_rest s) = os" using s(1) by (simp_all add: books_def)
  have pos: "0 \<le> u_balance u" if "lookup_in lc us i = Some u" for i u
    using uok that by (simp add: users_ok_def user_wf_def)
  have "payable bs s"
    unfolding payable_def rows
  proof
    fix row assume "row \<in> set us"
    then obtain v where v: "lookup_in lc us (UserId (uw_id row)) = Some v" "u_balance v = uw_balance row"
      using looked_up [OF s(2,3)] by blast
    show "0 \<le> uw_balance row \<and> uw_balance row + credited (UserId (uw_id row)) bs \<le> i64_max"
      using pos [OF v(1)] room [OF v(1)] v(2) by simp
  qed
  then obtain t where t: "pg_settle codec now m bs s = (Ok (), t)" "healthy t"
    using settle_runs [OF server _ pay, of m now] won unfolding rows by blast
  obtain us1 new ms1 xs1 where t1: "books t = (us1, ms1, os, xs1, p, ob @ new)" "decodes (user_of_row lc) us1"
    "map uw_id us1 = map uw_id us" "lookup_in lc us1 = fold (credit_user now) bs (lookup_in lc us)"
    using pg_settle_books [OF t(1) s(1,2)] by blast
  have "in_i64 (u_balance u + credited i bs)" if "lookup_in lc us i = Some u" for i u
    using pos [OF that] room [OF that] credited_nonneg [OF pay, of i] by (simp add: in_i64_def i64_min_def)
  then have "case lookup_in lc us i of None \<Rightarrow> lookup_in lc us1 i = None
      | Some u \<Rightarrow> \<exists>a. lookup_in lc us1 i = Some (u\<lparr>u_balance := u_balance u + credited i bs, u_updated_at := a\<rparr>)" for i
    using credit_all [OF uok pay, of i now] by (auto simp: t1(4) sat_i64_id split: option.splits)
  moreover have "users_ok (lookup_in lc us1)" using users_ok_credit [OF uok pay] t1(4) by simp
  moreover have "distinct (map uw_id us1)" using s(3) t1(3) by simp
  ultimately show ?thesis using t t1(1,2) by blast
qed

text \<open>C14: Nothing in the database refuses a second settlement.  Take two resolutions of a market to the
  same outcome that both read its open bets before either settles, on a server that fails no statement,
  with a codec that encodes its events and accounts with room in 64 bits for both payouts.  Then the
  first transaction commits, and the second, run after it with what was read before it, commits as
  well: every user is paid twice, each balance ending at exactly the initial one plus twice the payouts.\<close>

theorem pg_stale_settlement:
  assumes inv: "pg_inv lc s" and wf: "ledger_wf (pg_ledger lc s)"
    and res: "resolvable (pg_ledger lc s) mid w m"
    and bs: "bs = map (settled_as w) (open_bets mid (pg_ledger lc s))"
    and m': "m' = m\<lparr>m_status := Resolved, m_resolved_outcome_id := Some w\<rparr>"
    and server: "event_codec_ok codec" "sv_down (bk_rest s) = (\<lambda>_. None)"
    and room: "\<forall>i u. lg_users (pg_ledger lc s) i = Some u \<longrightarrow> u_balance u + 2 * credited i bs \<le> i64_max"
  shows "\<exists>t t'. pg_settle codec now m' bs s = (Ok (), t) \<and> pg_settle codec now' m' bs t = (Ok (), t')
    \<and> (\<forall>i u. lg_users (pg_ledger lc s) i = Some u \<longrightarrow> (\<exists>u'. lg_users (pg_ledger lc t') i = Some u'
         \<and> u_balance u' = u_balance u + 2 * credited i bs))"
proof -
  have view: "lg_users (pg_ledger lc x) = lookup_in lc us" if "books x = (us, ms, os, xs, p, ob)" for x us ms os xs p ob
    using books_view(1) [OF that] by (simp add: lookup_in_def [abs_def])
  obtain us ms os xs p ob where s: "books s = (us, ms, os, xs, p, ob)" by (cases "books s")
  have d: "decodes (user_of_row lc) us" "decodes outcome_of_row os" and dist: "distinct (map uw_id us)"
    using inv books_view(2) [OF s] by simp_all
  have pay: "paying bs" using paying_settled [OF wf] by (simp add: bs)
  have uok: "users_ok (lookup_in lc us)" using wf view [OF s] by (simp add: ledger_wf_def)
  obtain oc where "oc \<in> set (oks (map outcome_of_row os))" "o_id oc = w"
    using res books_view(1) [OF s, of lc] by (auto simp: resolvable_def)
  then obtain row where "row \<in> set os" "outcome_of_row row = Ok oc" "o_id oc = w" by (auto simp: set_oks)
  then have "outcome_uuid w \<in> ow_id ` set os" using outcome_fields(1) [of row oc] by (auto intro!: image_eqI [of _ _ row])
  then have won: "outcome_uuid w' \<in> ow_id ` set os" if "m_resolved_outcome_id m' = Some w'" for w'
    using that by (simp add: m')
  have room2: "u_balance u + 2 * credited i bs \<le> i64_max" if "lookup_in lc us i = Some u" for i u
    using room that view [OF s] by simp
  then have room1: "u_balance u + credited i bs \<le> i64_max" if "lookup_in lc us i = Some u" for i u
    using that credited_nonneg [OF pay, of i] by fastforce
  have h: "healthy s" using server(2) by (simp add: healthy_def)
  obtain t us1 ms1 xs1 ob1 where t: "pg_settle codec now m' bs s = (Ok (), t)" "healthy t"
      "books t = (us1, ms1, os, xs1, p, ob1)" "decodes (user_of_row lc) us1" "distinct (map uw_id us1)"
      "users_ok (lookup_in lc us1)"
    and one: "\<And>i. case lookup_in lc us i of None \<Rightarrow> lookup_in lc us1 i = None
      | Some u \<Rightarrow> \<exists>a. lookup_in lc us1 i = Some (u\<lparr>u_balance := u_balance u + credited i bs, u_updated_at := a\<rparr>)"
    using settlement_pays [OF s d(1) dist uok pay server(1) h won room1] by blast
  have "u_balance v + credited i bs \<le> i64_max" if "lookup_in lc us1 i = Some v" for i v
    using one [of i] room2 [of i] that by (auto split: option.splits)
  then obtain t' us2 ms2 xs2 ob2 where t': "pg_settle codec now' m' bs t = (Ok (), t')" "books t' = (us2, ms2, os, xs2, p, ob2)"
    and two: "\<And>i. case lookup_in lc us1 i of None \<Rightarrow> lookup_in lc us2 i = None
      | Some u \<Rightarrow> \<exists>a. lookup_in lc us2 i = Some (u\<lparr>u_balance := u_balance u + credited i bs, u_updated_at := a\<rparr>)"
    using settlement_pays [OF t(3-6) pay server(1) t(2) won] by blast
  have "\<exists>u'. lookup_in lc us2 i = Some u' \<and> u_balance u' = u_balance u + 2 * credited i bs"
    if u: "lookup_in lc us i = Some u" for i u
    using one [of i] two [of i] u by (auto split: option.splits)
  then show ?thesis using t(1) t'(1) by (intro exI [of _ t] exI [of _ t']) (simp add: view [OF s] view [OF t'(2)])
qed

section \<open>Executions\<close>

definition placed_bet :: bet where
  "placed_bet = the_bet (\<lambda>_. 5) 9 sample_bettor sample_input sample_market (sample_outcome 1)"

definition placed_outcomes :: "outcome list" where
  "placed_outcomes = priced (map (backed placed_bet) [sample_outcome 1, sample_outcome 2])"

lemma placed_bet_placeable: "placeable (pg_ledger lc new_database) placed_bet placed_outcomes"
proof -
  let ?L = "pg_ledger lc new_database"
  note L = new_database_books(3) [of lc]
  have "lg_users ?L (UserId 1) = Some (sample_user 1 RUser)" unfolding L by (simp add: sample_user_def)
  then have ac: "accepted ?L (\<lambda>_. 5) sample_bettor sample_input sample_market (sample_outcome 1) (sample_user 1 RUser)"
    using sample_accepted unfolding L by (simp add: accepted_def sample_bettor_def)
  have os: "market_outcomes (m_id sample_market) (lg_outcomes ?L) = [sample_outcome 1, sample_outcome 2]"
    "lg_bets ?L = []"
    unfolding L by (simp_all add: market_outcomes_def sample_world_def sample_market_def market_new_def
        sample_outcome_def outcome_new_def)
  let ?os = "map (backed placed_bet) [sample_outcome 1, sample_outcome 2]"
  have "outcomes_of (m_id sample_market) sample_world = [sample_outcome 1, sample_outcome 2]"
    by (simp add: outcomes_of_def sample_world_def sample_market_def market_new_def sample_outcome_def outcome_new_def)
  then have "volumes_ok ?os" using sample_room by (simp only: placed_bet_def)
  then have "recalculate_prices ?os = (Ok placed_outcomes :: (_, unit) result)"
    unfolding placed_outcomes_def by (rule recalculate_eq) simp
  moreover have "\<forall>oc\<in>set ?os. price_wf (o_current_price oc)"
    by (simp add: backed_def add_volume_def sample_storable)
  ultimately have rp: "repriced ?os placed_outcomes" by (rule recalculate_repriced)
  show ?thesis unfolding placed_bet_def
    by (rule accepted_placeable [OF new_database_books(2) ac])
      (simp_all only: os placed_bet_def [symmetric] rp list.set image_empty empty_iff not_False_eq_True)
qed

lemma resolvable_users: "resolvable (L\<lparr>lg_users := us\<rparr>) mid w m = resolvable L mid w m"
  "open_bets mid (L\<lparr>lg_users := us\<rparr>) = open_bets mid L"
  by (simp_all add: resolvable_def open_bets_def)

lemma backed_database_open:
  "resolvable (pg_ledger lc backed_database) (MarketId 1) (OutcomeId 1) (sample_market\<lparr>m_total_volume := 100, m_participants_count := 1\<rparr>)"
  "open_bets (MarketId 1) (pg_ledger lc backed_database) = [sample_bet]"
  using backed_resolvable unfolding backed_database_books(3) resolvable_users
  by (simp_all add: open_bets_def) (simp_all add: backed_world_def sample_bet_def)

abbreviation (input) rain :: market where
  "rain \<equiv> sample_market\<lparr>m_total_volume := 100, m_participants_count := 1\<rparr>"

abbreviation (input) rain_yes :: market where
  "rain_yes \<equiv> sample_market\<lparr>m_total_volume := 100, m_participants_count := 1, m_status := Resolved,
     m_resolved_outcome_id := Some (OutcomeId 1)\<rparr>"

definition sample_dialect :: dialect where
  "sample_dialect = \<lparr>dl_lc = \<lambda>_ _. [], dl_fold = \<lambda>s. s, dl_trunc = \<lambda>_ t. t\<rparr>"

text \<open>Running the statements by rewriting: the tables of the small databases stay as they are written.\<close>

lemmas pg_run = in_tx_def seq_cmd_def bind_cmd_def ret_def fail_def lift_def conv_def writes_def plain_def statement_def
  count_sent_def select_def update_rows_def quietly_def insert_row_def pg_publish_def publish_def outbox_row_new_def
  bigint_def integer_def in_i64_def i64_min_def i64_max_def Let_def plain_codec_def

lemmas pg_statements = pg_place_def pg_debit_def update_users_def pg_insert_bet_def pg_move_outcome_def
  update_outcomes_def pg_move_market_def update_markets_def pg_settle_def pg_record_resolution_def pg_settle_one_def
  update_bets_def pg_credit_def

lemma sample_rows:
  "uw_id (row_of_user (sample_user i r)) = of_nat i" "uw_balance (row_of_user (sample_user i r)) = 10000"
  "mw_id (row_of_market sample_market) = 1" "mw_total_volume (row_of_market sample_market) = 0"
  "mw_participants_count (row_of_market sample_market) = 0"
  "mw_id (row_of_market rain) = 1" "market_uuid (m_id sample_market) = 1"
  "ow_id (row_of_outcome (sample_outcome i)) = of_nat i" "ow_volume (row_of_outcome (sample_outcome i)) = 0"
  "ow_market_id (row_of_outcome (sample_outcome i)) = 1"
  "ow_id (row_of_outcome ((sample_outcome i)\<lparr>o_volume := v\<rparr>)) = of_nat i"
  "ow_market_id (row_of_outcome ((sample_outcome i)\<lparr>o_volume := v\<rparr>)) = 1"
  "o_id (sample_outcome i) = OutcomeId (of_nat i)" "o_volume (sample_outcome i) = 0" "o_market_id (sample_outcome i) = MarketId 1"
  "m_id sample_market = MarketId 1" "m_status sample_market = Open" "m_closes_at sample_market = None"
  "u_balance (sample_user i r) = 10000"
  by (simp_all add: row_of_user_def sample_user_def row_of_market_def sample_market_def market_new_def
      row_of_outcome_def sample_outcome_def outcome_new_def)

lemma placed_bet_fields:
  "b_id placed_bet = BetId 9" "b_user_id placed_bet = UserId 1" "b_market_id placed_bet = MarketId 1"
  "b_outcome_id placed_bet = OutcomeId 1" "b_amount placed_bet = 100" "b_status placed_bet = Active"
  "as_ten_thousandths (b_price placed_bet) = 5000"
  by (code_simp+)

lemma placed_outcomes_eq:
  obtains p q where "placed_outcomes = [(sample_outcome 1)\<lparr>o_volume := 100, o_current_price := p\<rparr>, (sample_outcome 2)\<lparr>o_current_price := q\<rparr>]"
proof
  show "placed_outcomes = [(sample_outcome 1)\<lparr>o_volume := 100, o_current_price := o_current_price (placed_outcomes ! 0)\<rparr>,
     (sample_outcome 2)\<lparr>o_current_price := o_current_price (placed_outcomes ! 1)\<rparr>]"
    by code_simp
qed

lemma row_of_bet_fields:
  "bw_id (row_of_bet b) = bet_uuid (b_id b)" "bw_user_id (row_of_bet b) = user_uuid (b_user_id b)"
  "bw_market_id (row_of_bet b) = market_uuid (b_market_id b)" "bw_outcome_id (row_of_bet b) = outcome_uuid (b_outcome_id b)"
  "bw_amount (row_of_bet b) = b_amount b" "bw_price (row_of_bet b) = as_ten_thousandths (b_price b)"
  "bw_status (row_of_bet b) = bet_status_as_str (b_status b)"
  by (simp_all add: row_of_bet_def)

lemmas sample_run = pg_run pg_statements new_database_def backed_database_def failing_def database_def sample_rows
  placed_bet_fields row_of_bet_fields

lemma placed_run:
  "case pg_place plain_codec 5 placed_bet placed_outcomes [] new_database of (r, d) \<Rightarrow>
     r = Ok () \<and> map uw_balance (sv_users (bk_rest d)) = [9900] \<and> map uw_id (sv_users (bk_rest d)) = [1]
     \<and> sv_down (bk_rest d) (sv_sent (bk_rest d)) = None"
proof (rule placed_outcomes_eq)
  fix p q assume placed: "placed_outcomes = [(sample_outcome 1)\<lparr>o_volume := 100, o_current_price := p\<rparr>, (sample_outcome 2)\<lparr>o_current_price := q\<rparr>]"
  show ?thesis unfolding placed by (simp add: sample_run del: One_nat_def)
qed

lemma failed_run:
  "fst (pg_place plain_codec 5 placed_bet placed_outcomes [] (failing 7 new_database)) = Err (Storage (msg ''connection reset''))"
proof (rule placed_outcomes_eq)
  fix p q assume placed: "placed_outcomes = [(sample_outcome 1)\<lparr>o_volume := 100, o_current_price := p\<rparr>, (sample_outcome 2)\<lparr>o_current_price := q\<rparr>]"
  show ?thesis unfolding placed by (simp add: sample_run del: One_nat_def)
qed

lemma settled_fields:
  "settled_as (OutcomeId 1) sample_bet = sample_bet\<lparr>b_status := Won, b_payout := Some 200\<rparr>"
  "b_id sample_bet = BetId 3" "b_user_id sample_bet = UserId 1" "b_market_id sample_bet = MarketId 1"
  "b_status sample_bet = Active"
proof -
  have "sat_i64 1000000 = 1000000" by (simp add: sat_i64_def i64_min_def i64_max_def)
  then show "settled_as (OutcomeId 1) sample_bet = sample_bet\<lparr>b_status := Won, b_payout := Some 200\<rparr>"
    by (simp add: settled_as_def payout_of_def sample_bet_def)
qed (simp_all add: sample_bet_def)

lemma settled_run:
  "case pg_settle plain_codec 5 rain_yes [settled_as (OutcomeId 1) sample_bet] backed_database of (r, d) \<Rightarrow>
     r = Ok () \<and> fst (pg_settle plain_codec 6 rain_yes [settled_as (OutcomeId 1) sample_bet] d) = Ok ()"
  by (simp add: sample_run settled_fields pg_paid_def del: One_nat_def)

lemmas pg_queries = pg_market_repo_def pg_bet_repo_def pg_user_repo_def pg_market_find_by_id_def pg_outcomes_for_def
  pg_outcome_by_id_def pg_find_user_by_id_def fetch_user_def decode_one_def decode_all_def pg_active_for_market_def
  pg_active_positions_def scan_def row_position_def weighted_mean_def position_of_row_def

lemma sample_decodes:
  "market_of_row (row_of_market sample_market) = Ok sample_market" "market_of_row (row_of_market rain) = Ok rain"
  "outcome_of_row (row_of_outcome (sample_outcome i)) = Ok (sample_outcome i)"
  "outcome_of_row (row_of_outcome ((sample_outcome i)\<lparr>o_volume := v\<rparr>)) = Ok ((sample_outcome i)\<lparr>o_volume := v\<rparr>)"
  "user_of_row lc (row_of_user (sample_user i r)) = Ok (sample_user i r)"
  "bet_of_row (row_of_bet sample_bet) = Ok sample_bet"
  by (intro market_decodes outcome_decodes user_decodes bet_decodes; simp add: sample_storable)+

lemma sample_placement:
  "bet_place 9 5 (UserId 1) (MarketId 1) (OutcomeId 1) 100 (max (o_current_price (sample_outcome 1)) min_tick) = Ok placed_bet"
  "settle_bet (OutcomeId 1) sample_bet = Ok (settled_as (OutcomeId 1) sample_bet)"
  "recalculate_prices [add_volume 100 (sample_outcome 1), sample_outcome 2] = (Ok placed_outcomes :: (_, app_error) result)"
  by (code_simp+)

lemmas sample_use = sample_run pg_queries sample_decodes sample_placement(1,2) sample_dialect_def sample_bettor_def sample_input_def
  settled_fields pg_paid_def stake_points_def pg_insert_price_point_def row_of_point_def price_point_new_def accepts_bets_def
  from_ten_thousandths_def price_scale_def

lemma placed_bet_run:
  "is_ok (fst (pg_place_bet sample_dialect plain_codec (\<lambda>_. 5) 9 sample_bettor sample_input new_database))"
proof (rule placed_outcomes_eq)
  fix p q assume "placed_outcomes = [(sample_outcome 1)\<lparr>o_volume := 100, o_current_price := p\<rparr>, (sample_outcome 2)\<lparr>o_current_price := q\<rparr>]"
  note placed = sample_placement(3) [unfolded this]
  show ?thesis
    by (simp add: place_bet_def commit_bet_def sample_use placed del: One_nat_def)
qed

lemma resolved_run:
  "is_ok (fst (pg_resolve_market sample_dialect plain_codec (\<lambda>_. 6) \<lparr>actor_user_id = UserId 2, actor_role = RAdmin\<rparr>
     (MarketId 1) (OutcomeId 1) backed_database))"
  by (simp add: resolve_market_def can_manage_markets_def market_resolve_def sample_use del: One_nat_def)

theorem pg_place_atomic_witness:
  "(\<exists>t. pg_place plain_codec 5 placed_bet placed_outcomes [] new_database = (Ok (), t) \<and> length (bk_rows t) = 3)
   \<and> (\<exists>e t. pg_place plain_codec 5 placed_bet placed_outcomes [] (failing 7 new_database) = (Err e, t)
     \<and> same_tables (failing 7 new_database) t)"
proof
  let ?run = "pg_place plain_codec 5 placed_bet placed_outcomes []"
  have "fst (?run new_database) = Ok ()" using placed_run by (simp split: prod.splits)
  then obtain t where run: "?run new_database = (Ok (), t)" by (cases "?run new_database") simp
  have "bk_rows new_database = []" by (simp add: new_database_def database_def)
  then show "\<exists>t. ?run new_database = (Ok (), t) \<and> length (bk_rows t) = 3"
    using run pg_place_atomic [OF new_database_books(1,2) [of "\<lambda>_ _. []"] placed_bet_placeable run]
    by (auto simp: recorded_def placement_events_def dest: list_all2_lengthD)
  obtain t where run': "?run (failing 7 new_database) = (Err (Storage (msg ''connection reset'')), t)"
    using failed_run by (cases "?run (failing 7 new_database)") simp
  have "same_tables (failing 7 new_database) t"
    using pg_place_atomic [OF _ _ _ run', of "\<lambda>_ _. []"] new_database_books placed_bet_placeable
    by (simp add: failing_view)
  then show "\<exists>e t. ?run (failing 7 new_database) = (Err e, t) \<and> same_tables (failing 7 new_database) t"
    using run' by blast
qed

theorem pg_settle_atomic_witness:
  "\<exists>t. pg_settle plain_codec 5 rain_yes [settled_as (OutcomeId 1) sample_bet] backed_database = (Ok (), t)
     \<and> length (bk_rows t) = 1 \<and> (\<forall>b\<in>set (lg_bets (pg_ledger (\<lambda>_ _. []) t)). b_status b \<noteq> Active)"
proof -
  let ?run = "pg_settle plain_codec 5 rain_yes [settled_as (OutcomeId 1) sample_bet] backed_database"
  obtain t where run: "?run = (Ok (), t)" using settled_run by (cases ?run) simp
  note b = backed_database_books(1,2) [of "\<lambda>_ _. []"] backed_database_open [of "\<lambda>_ _. []"]
  have "pg_paid [settled_as (OutcomeId 1) sample_bet] = [UserId 1]" "bk_rows backed_database = []"
    by (simp_all add: pg_paid_def settled_as_def sample_bet_def backed_database_def database_def)
  moreover have "lg_bets (resolved_ledger 5 (MarketId 1) (OutcomeId 1) rain (pg_ledger (\<lambda>_ _. []) backed_database))
      = [settled_as (OutcomeId 1) sample_bet]"
  proof -
    have "lg_bets (pg_ledger (\<lambda>_ _. []) backed_database) = [sample_bet]"
      unfolding backed_database_books(3) by (simp add: backed_world_def)
    then show ?thesis unfolding resolved_bets [OF b(2,3)] by simp (simp add: sample_bet_def)
  qed
  ultimately show ?thesis
    using run pg_settle_atomic [OF b(1-3), of "[sample_bet]" plain_codec 5 "Ok ()" t]
    by (auto simp: b(4) recorded_def dest: list_all2_lengthD)
qed

theorem pg_place_bet_refines_witness:
  "\<exists>v t. pg_place_bet sample_dialect plain_codec (\<lambda>_. 5) 9 sample_bettor sample_input new_database = (Ok v, t)
     \<and> placed_once (\<lambda>_. 5) 9 sample_bettor sample_input (pg_ledger (\<lambda>_ _. []) new_database)
         (pg_ledger (\<lambda>_ _. []) t) (bv_bet v)"
proof -
  let ?run = "pg_place_bet sample_dialect plain_codec (\<lambda>_. 5) 9 sample_bettor sample_input new_database"
  note placed_bet_run
  then obtain v t where run: "?run = (Ok v, t)" by (cases ?run) (auto simp: is_ok_iff)
  have lc: "dl_lc sample_dialect = (\<lambda>_ _. [])" by (simp add: sample_dialect_def)
  have "BetId 9 \<notin> b_id ` set (lg_bets (pg_ledger (dl_lc sample_dialect) new_database))"
    unfolding new_database_books(3) by (simp add: sample_world_def)
  from pg_place_bet_refines [OF new_database_books(1,2) this run]
  show ?thesis using run by (auto simp: lc)
qed

theorem pg_resolve_market_refines_witness:
  "\<exists>v t. pg_resolve_market sample_dialect plain_codec (\<lambda>_. 6) \<lparr>actor_user_id = UserId 2, actor_role = RAdmin\<rparr>
       (MarketId 1) (OutcomeId 1) backed_database = (Ok v, t)
     \<and> ledger_wf (pg_ledger (\<lambda>_ _. []) t) \<and> (\<forall>b\<in>set (lg_bets (pg_ledger (\<lambda>_ _. []) t)). b_status b = Won)"
proof -
  let ?a = "\<lparr>actor_user_id = UserId 2, actor_role = RAdmin\<rparr>"
  let ?run = "pg_resolve_market sample_dialect plain_codec (\<lambda>_. 6) ?a (MarketId 1) (OutcomeId 1) backed_database"
  note resolved_run
  then obtain v t where run: "?run = (Ok v, t)" by (cases ?run) (auto simp: is_ok_iff)
  have lc: "dl_lc sample_dialect = (\<lambda>_ _. [])" by (simp add: sample_dialect_def)
  note w = backed_database_books(2) [of "\<lambda>_ _. []"]
  from pg_resolve_market_refines [OF backed_database_books(1,2) run]
  obtain m where m: "resolvable (pg_ledger (\<lambda>_ _. []) backed_database) (MarketId 1) (OutcomeId 1) m"
    "pg_ledger (\<lambda>_ _. []) t = resolved_ledger 6 (MarketId 1) (OutcomeId 1) m (pg_ledger (\<lambda>_ _. []) backed_database)"
    "ledger_wf (pg_ledger (\<lambda>_ _. []) t)"
    by (auto simp: lc)
  have "lg_bets (pg_ledger (\<lambda>_ _. []) backed_database) = [sample_bet]"
    unfolding backed_database_books(3) by (simp add: backed_world_def)
  then have "lg_bets (pg_ledger (\<lambda>_ _. []) t) = [settled_as (OutcomeId 1) sample_bet]"
    unfolding m(2) resolved_bets [OF w m(1)] by simp (simp add: sample_bet_def)
  moreover have "b_status (settled_as (OutcomeId 1) sample_bet) = Won" by (simp add: settled_as_def sample_bet_def)
  ultimately show ?thesis using run m(3) by auto
qed

theorem pg_stale_settlement_witness:
  "\<exists>t t' u. pg_settle plain_codec 5 rain_yes [settled_as (OutcomeId 1) sample_bet] backed_database = (Ok (), t)
     \<and> pg_settle plain_codec 6 rain_yes [settled_as (OutcomeId 1) sample_bet] t = (Ok (), t')
     \<and> lg_users (pg_ledger (\<lambda>_ _. []) t') (UserId 1) = Some u \<and> u_balance u = 10400"
proof -
  note b = backed_database_books(1,2) [of "\<lambda>_ _. []"] backed_database_open [of "\<lambda>_ _. []"]
  have bs: "[settled_as (OutcomeId 1) sample_bet] = map (settled_as (OutcomeId 1)) (open_bets (MarketId 1) (pg_ledger (\<lambda>_ _. []) backed_database))"
    by (simp add: b(4))
  have us: "lg_users (pg_ledger (\<lambda>_ _. []) backed_database) = (\<lambda>i. find (\<lambda>u. u_id u = i) [sample_user 1 RUser])"
    unfolding backed_database_books(3) by simp
  have "sat_i64 1000000 = 1000000" by (simp add: sat_i64_def i64_min_def i64_max_def)
  then have paid: "credited i [settled_as (OutcomeId 1) sample_bet] = (if i = UserId 1 then 200 else 0)" for i
    by (cases i) (simp add: credited_def settled_as_def payout_of_def sample_bet_def)
  have room: "\<forall>i u. lg_users (pg_ledger (\<lambda>_ _. []) backed_database) i = Some u \<longrightarrow>
      u_balance u + 2 * credited i [settled_as (OutcomeId 1) sample_bet] \<le> i64_max"
    by (simp add: us paid sample_user_def i64_max_def)
  have up: "sv_down (bk_rest backed_database) = (\<lambda>_. None)" by (simp add: backed_database_def database_def)
  have u: "lg_users (pg_ledger (\<lambda>_ _. []) backed_database) (UserId 1) = Some (sample_user 1 RUser)"
    by (simp add: us sample_user_def)
  from pg_stale_settlement [OF b(1-3) bs _ plain_codec_ok up room, of rain_yes 5 6] u
  show ?thesis by (fastforce simp: sample_user_def paid)
qed

end
