(* ===== verification/PgAccounts.thy ===== *)
theory PgAccounts
  imports PgBetting Accounts
begin

text \<open>
  Accounts over Postgres: a registration or a session refresh runs in one unit of work, and what the
  scope rolls back when a statement fails.
\<close>

section \<open>Open scopes\<close>

text \<open>A body that fails leaves its scope open, so that dropping it rolls back.\<close>

definition stays_open :: "('j, 'z) pg \<Rightarrow> bool" where
  "stays_open s \<longleftrightarrow> sv_open (bk_rest s)"

definition open_unless_ok :: "(('j, 'z) pg, 'a, 'e) cmd \<Rightarrow> bool" where
  "open_unless_ok m \<longleftrightarrow> (\<forall>s r t. stays_open s \<longrightarrow> m s = (r, t) \<longrightarrow> \<not> is_ok r \<longrightarrow> stays_open t)"

lemma open_unless_ok_bind:
  assumes "keeps stays_open m" "\<And>x. open_unless_ok (k x)"
  shows "open_unless_ok (bind_cmd m k)"
  unfolding open_unless_ok_def
proof (intro allI impI)
  fix s r t assume s: "stays_open s" and run: "bind_cmd m k s = (r, t)" and r: "\<not> is_ok r"
  obtain r1 u where m: "m s = (r1, u)" by fastforce
  have u: "stays_open u" using assms(1) s m by (metis keeps_def snd_conv)
  show "stays_open t"
  proof (cases r1)
    case (Ok x)
    then have "k x u = (r, t)" using run m by (simp add: bind_cmd_def)
    then show ?thesis using assms(2) u r unfolding open_unless_ok_def by blast
  qed (use run m u in \<open>simp_all add: bind_cmd_def\<close>)
qed

lemma open_unless_ok_keeps: "keeps stays_open m \<Longrightarrow> open_unless_ok m"
  by (simp add: open_unless_ok_def keeps_def) (metis snd_conv)

lemma open_unless_ok_seq: "keeps stays_open m \<Longrightarrow> open_unless_ok k \<Longrightarrow> open_unless_ok (seq_cmd m k)"
  by (simp add: seq_cmd_def open_unless_ok_bind)

lemma keeps_statement:
  assumes "\<And>p r x r'. q p r = Ok (x, r') \<Longrightarrow> sv_open r' = sv_open r"
  shows "keeps stays_open (statement q)"
  unfolding keeps_def stays_open_def
  by (auto simp: statement_def bk_rest_count_sent split: option.splits result.splits dest!: assms)

lemma keeps_select: "keeps stays_open (select q)"
  unfolding select_def by (rule keeps_statement) simp

lemma keeps_insert: "(\<And>r. sv_open (put r) = sv_open r) \<Longrightarrow> keeps stays_open (insert_row taken allowed put)"
  unfolding insert_row_def by (rule keeps_statement) (auto split: if_splits)

lemma keeps_plain: "keeps stays_open plain"
  unfolding plain_def by (rule keeps_statement) simp

lemma pg_users_keep_open [keeps_intros]:
  "keeps stays_open (pg_save_user u)" "keeps stays_open (fetch_user lc c)" "keeps stays_open (pg_insert_token tk)"
  "keeps stays_open (pg_find_token_by_hash h)" "keeps stays_open (pg_delete_token i)"
proof -
  show "keeps stays_open (pg_save_user u)" unfolding pg_save_user_def Let_def by (rule keeps_insert) simp
  show "keeps stays_open (pg_insert_token tk)" unfolding pg_insert_token_def by (rule keeps_insert) simp
  show "keeps stays_open (pg_find_token_by_hash h)" unfolding pg_find_token_by_hash_def by (rule keeps_select)
  have "read_only (case row of None \<Rightarrow> ret None | Some row \<Rightarrow> bind_cmd (lift (user_of_row lc row)) (\<lambda>u. ret (Some u)))" for row
    by (auto intro: keeps_intros split: option.split)
  then show "keeps stays_open (fetch_user lc c)"
    unfolding fetch_user_def by (intro keeps_bind keeps_select keeps_read_only)
  show "keeps stays_open (pg_delete_token i)"
    unfolding pg_delete_token_def delete_tokens_def
    by (intro keeps_bind keeps_read_only [OF read_only_ret] keeps_statement) auto
qed

lemma commit_open: "open_unless_ok (seq_cmd (conv f pg_commit) (ret x))"
  unfolding open_unless_ok_def
proof (intro allI impI)
  fix s r t assume s: "stays_open s" and run: "seq_cmd (conv f pg_commit) (ret x) s = (r, t)" and r: "\<not> is_ok r"
  obtain r1 u where p: "plain s = (r1, u)" by fastforce
  have "stays_open u" using keeps_plain s p by (metis keeps_def snd_conv)
  moreover have "\<not> is_ok r1" using run r p
    by (cases r1) (auto simp: seq_cmd_def bind_cmd_def conv_def pg_commit_def writes_def ret_def)
  ultimately show "stays_open t" using run p
    by (cases r1) (auto simp: seq_cmd_def bind_cmd_def conv_def pg_commit_def)
qed

lemma rolled_back_same: "same_tables s u \<Longrightarrow> same_tables s (rolled_back u v)"
  by (rule same_tables_trans [OF _ same_tables_rolled_back])

text \<open>A scope whose body fails open leaves every table as it was.\<close>

lemma with_scope_failed:
  assumes run: "with_scope (pg_unit_of_work lc) body s = (r, t)" and r: "\<not> is_ok r"
    and body: "\<And>start. open_unless_ok (body (pg_scope lc start))"
  shows "same_tables s t"
proof -
  obtain r1 u where p: "plain s = (r1, u)" by fastforce
  have u: "same_tables s u" by (rule statement_same [OF _ p [unfolded plain_def]]) simp
  show ?thesis
  proof (cases r1)
    case (Ok x)
    obtain r2 v where b: "body (pg_scope lc u) (set_open True u) = (r2, v)" by fastforce
    have t: "r = r2" "t = tx_drop (pg_scope lc u) v"
      using run p Ok b by (simp_all add: with_scope_def pg_unit_of_work_def bind_cmd_def conv_def)
    have "stays_open (set_open True u)" by (simp add: stays_open_def set_open_def)
    then have "stays_open v" using body b r t(1) unfolding open_unless_ok_def by blast
    then show ?thesis using t(2) rolled_back_same [OF u] by (simp add: pg_scope_def stays_open_def)
  qed (use run p u in \<open>auto simp: with_scope_def pg_unit_of_work_def bind_cmd_def conv_def\<close>)
qed

lemma open_unless_ok_if: "open_unless_ok a \<Longrightarrow> open_unless_ok b \<Longrightarrow> open_unless_ok (if c then a else b)"
  by simp

lemma open_unless_ok_fail: "open_unless_ok (fail e)"
  by (rule open_unless_ok_keeps) (rule keeps_read_only [OF read_only_fail])

lemma open_unless_ok_lift: "(\<And>x. open_unless_ok (k x)) \<Longrightarrow> open_unless_ok (bind_cmd (lift q) k)"
  by (rule open_unless_ok_bind) (rule keeps_read_only [OF read_only_lift])

lemma open_unless_ok_conv: "keeps stays_open m \<Longrightarrow> (\<And>x. open_unless_ok (k x)) \<Longrightarrow> open_unless_ok (bind_cmd (conv f m) k)"
  by (rule open_unless_ok_bind) (rule keeps_conv)

lemma issue_open: "(\<And>x. open_unless_ok (k x)) \<Longrightarrow>
    open_unless_ok (bind_cmd (issue_session si digest dr u (tx_refresh_tokens (pg_scope lc start))) k)"
  unfolding issue_session_def Let_def pg_scope_def pg_token_repo_def tx_scope.simps token_repo.simps
  by (rule open_unless_ok_bind)
    (intro keeps_bind keeps_seq keeps_conv pg_users_keep_open keeps_read_only [OF read_only_lift] keeps_read_only [OF read_only_ret])

section \<open>Registering\<close>

lemma register_in_open: "open_unless_ok (register_in (pg_scope lc start) si digest fresh now dr name mail hash)"
  unfolding register_in_def Let_def
  apply (subst seq_cmd_def)
  apply (intro open_unless_ok_conv open_unless_ok_if open_unless_ok_fail issue_open)
     apply (simp_all add: pg_scope_def pg_user_repo_def pg_find_user_by_def pg_users_keep_open commit_open)
  done

lemma fetch_user_None:
  assumes "fetch_user lc c s = (Ok None, t)"
  shows "t = count_sent s \<and> (\<forall>row\<in>set (sv_users (bk_rest s)). \<not> c row)"
  using assms
  by (auto simp: fetch_user_lift run_Ok select_Ok bk_rest_count_sent and_then_eq_Ok find_None_iff split: option.splits)

lemma same_tables_iff:
  "same_tables s t \<longleftrightarrow> bk_rows t = bk_rows s \<and> sv_users (bk_rest t) = sv_users (bk_rest s)
     \<and> sv_tokens (bk_rest t) = sv_tokens (bk_rest s) \<and> sv_markets (bk_rest t) = sv_markets (bk_rest s)
     \<and> sv_outcomes (bk_rest t) = sv_outcomes (bk_rest s) \<and> sv_points (bk_rest t) = sv_points (bk_rest s)
     \<and> sv_bets (bk_rest t) = sv_bets (bk_rest s) \<and> sv_messages (bk_rest t) = sv_messages (bk_rest s)
     \<and> sv_reactions (bk_rest t) = sv_reactions (bk_rest s) \<and> sv_down (bk_rest t) = sv_down (bk_rest s)
     \<and> sv_plan (bk_rest t) = sv_plan (bk_rest s) \<and> sv_now (bk_rest t) = sv_now (bk_rest s)
     \<and> sv_open (bk_rest t) = sv_open (bk_rest s) \<and> server.more (bk_rest t) = server.more (bk_rest s)"
  by (cases "bk_rest s"; cases "bk_rest t") (auto simp: same_tables_def)

lemma tables_count_sent:
  "same_tables s (count_sent s)" by simp

definition with_account :: "user_row \<Rightarrow> token_row \<Rightarrow> ('j, 'z) pg \<Rightarrow> ('j, 'z) pg" where
  "with_account u tk s = s\<lparr>bk_rest := (bk_rest s)\<lparr>sv_users := sv_users (bk_rest s) @ [u],
     sv_tokens := sv_tokens (bk_rest s) @ [tk], sv_open := False\<rparr>\<rparr>"

lemma row_of_session: "row_of_token (refresh_token_new (dr_id dr) (dr_created dr) (u_id u) (digest (dr_raw dr))
    (dr_expiry_base dr + si_refresh_ttl si)) = row_of_token (session_record si digest dr u)"
  by (simp add: refresh_token_new_def session_record_def)

lemma register_in_Ok:
  assumes run: "register_in (pg_scope lc start) si digest fresh now dr name mail hash s = (Ok v, t)"
    and fresh: "\<forall>row\<in>set (sv_users (bk_rest s)). uw_id row \<noteq> fresh"
  shows "(\<forall>row\<in>set (sv_users (bk_rest s)). uw_email row \<noteq> email_as_str mail \<and> uw_username row \<noteq> username_as_str name)
    \<and> as_user v = user_new fresh now name mail hash
    \<and> same_tables (with_account (row_of_user (as_user v)) (row_of_token (session_record si digest dr (as_user v))) s) t"
proof -
  let ?u = "user_new fresh now name mail hash"
  obtain s1 s2 s3 s4 where e: "pg_find_user_by lc EmailColumn (email_as_str mail) s = (Ok None, s1)"
      "pg_find_user_by lc UsernameColumn (username_as_str name) s1 = (Ok None, s2)" "pg_save_user ?u s2 = (Ok (), s3)"
      "issue_session si digest dr ?u pg_token_repo s3 = (Ok v, s4)" "pg_commit s4 = (Ok (), t)"
    using run by (auto simp: register_in_def run_Ok pg_scope_def pg_user_repo_def Let_def split: if_splits)
  note f1 = fetch_user_None [OF e(1) [unfolded pg_find_user_by_def]]
  note f2 = fetch_user_None [OF e(2) [unfolded pg_find_user_by_def]]
  have s2: "s2 = count_sent (count_sent s)" using f1 f2 by simp
  have unique: "\<forall>row\<in>set (sv_users (bk_rest s)). uw_email row \<noteq> email_as_str mail \<and> uw_username row \<noteq> username_as_str name"
    using f1 f2 by (simp add: bk_rest_count_sent)
  have v: "as_user v = ?u" and tk: "pg_insert_token (session_record si digest dr ?u) s3 = (Ok (), s4)"
    using e(4) by (auto simp: issue_session_def run_Ok pg_token_repo_def refresh_token_new_def session_record_def)
  have new: "\<not> list_ex (\<lambda>row. uw_id row = uw_id (row_of_user ?u)) (sv_users (bk_rest s))"
    using fresh by (auto simp: list_ex_iff row_of_user_def user_new_def)
  have s3: "bk_rows s3 = bk_rows s2 \<and> bk_rest s3 = (bk_rest (count_sent s2))\<lparr>sv_users := sv_users (bk_rest s) @ [row_of_user ?u]\<rparr>"
    using insert_row_Ok [OF e(3) [unfolded pg_save_user_def Let_def]] new by (simp add: s2 bk_rest_count_sent)
  have s4: "bk_rows s4 = bk_rows s3 \<and> bk_rest s4 = (bk_rest (count_sent s3))\<lparr>sv_tokens :=
      sv_tokens (bk_rest s3) @ [row_of_token (session_record si digest dr ?u)]\<rparr>"
    using insert_row_Ok [OF tk [unfolded pg_insert_token_def]] by (simp add: bk_rest_count_sent)
  have t: "bk_rows t = bk_rows s4 \<and> bk_rest t = (bk_rest (count_sent s4))\<lparr>sv_open := False\<rparr>"
    using e(5) by (auto simp: pg_commit_def run_Ok plain_Ok writes_def set_open_def)
  show ?thesis using unique v
    by (simp add: same_tables_iff with_account_def t s4 s3 s2 bk_rest_count_sent)
qed

lemma with_scope_Ok:
  assumes "with_scope (pg_unit_of_work lc) body s = (Ok v, t)"
  shows "\<exists>u w. plain s = (Ok (), u) \<and> body (pg_scope lc u) (set_open True u) = (Ok v, w)
    \<and> t = tx_drop (pg_scope lc u) w"
proof -
  obtain r u where p: "plain s = (r, u)" by fastforce
  then have "r = Ok ()" using assms
    by (cases r) (auto simp: with_scope_def pg_unit_of_work_def bind_cmd_def conv_def)
  then show ?thesis using assms p
    by (auto simp: with_scope_def pg_unit_of_work_def bind_cmd_def conv_def split: prod.splits)
qed

text \<open>C17: A registration over Postgres happens as a whole or not at all.  Whatever statement of its
  unit of work fails, and whatever it refuses, every table is as it was; when it answers, nobody had
  the email or the username, and exactly the new account's row and its token's row have been added.\<close>

theorem pg_register_atomic:
  assumes run: "register lc (pg_unit_of_work lc) hasher si digest fresh now dr input s = (r, t)"
    and fresh: "\<forall>row\<in>set (sv_users (bk_rest s)). uw_id row \<noteq> fresh"
  shows "case r of Ok v \<Rightarrow>
      (\<forall>row\<in>set (sv_users (bk_rest s)). uw_email row \<noteq> email_as_str (u_email (as_user v))
        \<and> uw_username row \<noteq> username_as_str (u_username (as_user v)))
      \<and> same_tables (with_account (row_of_user (as_user v)) (row_of_token (session_record si digest dr (as_user v))) s) t
    | _ \<Rightarrow> same_tables s t"
proof (cases "is_ok r")
  case True
  then obtain v where r: "r = Ok v" by (auto simp: is_ok_iff)
  obtain name mail hash where w: "with_scope (pg_unit_of_work lc)
      (\<lambda>tx. register_in tx si digest fresh now dr name mail hash) s = (Ok v, t)"
    using run r by (auto simp: register_def run_Ok)
  obtain u w where p: "plain s = (Ok (), u)"
      "register_in (pg_scope lc u) si digest fresh now dr name mail hash (set_open True u) = (Ok v, w)"
      "t = tx_drop (pg_scope lc u) w"
    using with_scope_Ok [OF w] by blast
  have u: "u = count_sent s" using p(1) by (simp add: plain_Ok)
  have rows: "sv_users (bk_rest (set_open True u)) = sv_users (bk_rest s)"
    by (simp add: u set_open_def bk_rest_count_sent)
  note k = register_in_Ok [OF p(2), unfolded rows, OF fresh]
  then have "sv_open (bk_rest w) = False" by (auto simp: same_tables_iff with_account_def)
  then have "t = w" using p(3) by (simp add: pg_scope_def)
  then show ?thesis using k r
    by (simp add: same_tables_iff with_account_def u set_open_def bk_rest_count_sent user_new_def)
next
  case False
  have "same_tables s t"
  proof (cases "\<exists>name mail hash. with_scope (pg_unit_of_work lc)
      (\<lambda>tx. register_in tx si digest fresh now dr name mail hash) s = (r, t)")
    case True
    then obtain name mail hash where w: "with_scope (pg_unit_of_work lc)
      (\<lambda>tx. register_in tx si digest fresh now dr name mail hash) s = (r, t)" by blast
    show ?thesis by (rule with_scope_failed [OF w False]) (rule register_in_open)
  next
    case nowhere: False
    then have "t = s" using run
      by (auto simp: register_def bind_cmd_def lift_def split: result.splits)
    then show ?thesis by simp
  qed
  then show ?thesis using False by (cases r) simp_all
qed

theorem pg_register_atomic_witness:
  "(\<exists>v t. register (\<lambda>_ _. []) (pg_unit_of_work (\<lambda>_ _. [])) toy_hasher toy_issuer (\<lambda>s. s) 4 5 (toy_draws ''raw'' 6) bob_input
      new_database = (Ok v, t) \<and> length (sv_users (bk_rest t)) = 2 \<and> length (sv_tokens (bk_rest t)) = 1)
   \<and> (\<exists>e t. register (\<lambda>_ _. []) (pg_unit_of_work (\<lambda>_ _. [])) toy_hasher toy_issuer (\<lambda>s. s) 4 5 (toy_draws ''raw'' 6) bob_input
      (failing 4 new_database) = (Err e, t) \<and> same_tables (failing 4 new_database) t)"
proof
  let ?run = "register (\<lambda>_ _. []) (pg_unit_of_work (\<lambda>_ _. [])) toy_hasher toy_issuer (\<lambda>s. s) 4 5 (toy_draws ''raw'' 6) bob_input"
  have rows: "sv_users (bk_rest new_database) = [row_of_user (sample_user 1 RUser)]" "sv_tokens (bk_rest new_database) = []"
    "bk_rest (failing 4 new_database) = (bk_rest new_database)\<lparr>sv_down := sv_down (bk_rest (failing 4 new_database))\<rparr>"
    by (simp_all add: new_database_def database_def failing_def)
  have fresh: "\<forall>row\<in>set (sv_users (bk_rest new_database)). uw_id row \<noteq> 4"
    by (simp add: rows row_of_user_def sample_user_def)
  have "is_ok (fst (?run new_database))" by code_simp
  then obtain v t where run: "?run new_database = (Ok v, t)" by (cases "?run new_database") (auto simp: is_ok_iff)
  show "\<exists>v t. ?run new_database = (Ok v, t) \<and> length (sv_users (bk_rest t)) = 2 \<and> length (sv_tokens (bk_rest t)) = 1"
    using run pg_register_atomic [OF run fresh] by (simp add: same_tables_iff with_account_def rows)
  have fresh': "\<forall>row\<in>set (sv_users (bk_rest (failing 4 new_database))). uw_id row \<noteq> 4"
    using fresh by (simp add: failing_def)
  have "fst (?run (failing 4 new_database)) = Err (Internal (msg ''connection reset''))" by code_simp
  then obtain e t where run': "?run (failing 4 new_database) = (Err e, t)" by (cases "?run (failing 4 new_database)") simp
  then show "\<exists>e t. ?run (failing 4 new_database) = (Err e, t) \<and> same_tables (failing 4 new_database) t"
    using pg_register_atomic [OF run' fresh'] by simp
qed

end
