(* ===== verification/PgSearch.thy ===== *)
theory PgSearch
  imports PgBetting MemMarkets
begin

text \<open>
  Where the two market repositories agree: the conditions of the Postgres listing against the filter
  of the in-memory one.  The title search of the statement is a pattern, and what the user typed is
  not escaped in it.
\<close>

definition plain_text :: "str \<Rightarrow> bool" where
  "plain_text q \<longleftrightarrow> 37 \<notin> set q \<and> 95 \<notin> set q \<and> 92 \<notin> set q"

lemma like_any: "like [37] t"
  by (induction t) simp_all

lemma like_prefix: "plain_text q \<Longrightarrow> like (q @ [37]) t \<longleftrightarrow> is_prefix_of q t"
proof (induction q arbitrary: t)
  case Nil
  show ?case using like_any by simp
next
  case (Cons c q)
  then show ?case by (cases t) (auto simp: plain_text_def)
qed

lemma like_contains: "plain_text q \<Longrightarrow> like (37 # q @ [37]) t \<longleftrightarrow> contains_str t q"
proof (induction t)
  case Nil
  then show ?case using like_prefix [of q "[]"] by (cases q) simp_all
next
  case (Cons c t)
  then show ?case using like_prefix [of q "c # t"] by simp
qed

lemma like_one_character: "like [37, 95, 37] t \<longleftrightarrow> t \<noteq> []"
proof (cases t)
  case (Cons c t')
  have "like [95, 37] (c # t')" by (subst like.simps(2)) (simp add: like_any del: like.simps)
  then show ?thesis using Cons by simp
qed simp

lemma market_status_string: "market_status_as_str st = market_status_as_str st' \<longleftrightarrow> st = st'"
  by (cases st; cases st'; simp add: lit_def)

lemma plain_text_lower: "plain_text q \<Longrightarrow> plain_text (map ascii_lower q)"
  by (auto simp: plain_text_def ascii_lower_def split: if_splits)

text \<open>C16: On ASCII text the two searches agree.  Take a server whose \<open>ILIKE\<close> folds ASCII text letter by
  letter, as every locale without special rules for those letters does, and a market with an ASCII
  title.  As long as the text searched for, if any, is ASCII and holds no \<open>%\<close>, \<open>_\<close> or backslash, the
  market meets the conditions of the Postgres listing exactly when it meets the in-memory filter.  A
  search for \<open>_\<close> finds every such market over Postgres, whatever its title.  Nothing is said of text
  beyond ASCII, whose folding is the locale's.\<close>

theorem pg_filter_agrees:
  assumes fold: "\<forall>s. ascii s \<longrightarrow> fold_case s = map ascii_lower s"
    and title: "ascii (title_as_str (m_title m))" "title_as_str (m_title m) \<noteq> []"
  shows "((\<forall>q. mf_search f = Some q \<longrightarrow> ascii q \<and> plain_text q)
      \<longrightarrow> market_row_matches fold_case f (row_of_market m) = market_matches lc f m)
    \<and> market_row_matches fold_case (f\<lparr>mf_search := Some (lit ''_'')\<rparr>) (row_of_market m)
      = market_matches lc (f\<lparr>mf_search := None\<rparr>) m"
proof -
  let ?t = "title_as_str (m_title m)"
  have pattern: "title_matches fold_case q ?t = like (37 # map ascii_lower q @ [37]) (map ascii_lower ?t)" if "ascii q" for q
  proof -
    have "ascii (37 # q @ [37])" using that by (simp add: ascii_def)
    then have "fold_case (37 # q @ [37]) = 37 # map ascii_lower q @ [37]" using fold by (simp add: ascii_lower_def)
    moreover have "fold_case ?t = map ascii_lower ?t" using fold title(1) by simp
    ultimately show ?thesis by (simp add: title_matches_def lit_def)
  qed
  have search: "title_matches fold_case q ?t = contains_str (to_lowercase lc ?t) (to_lowercase lc q)"
    if "ascii q" "plain_text q" for q
    using pattern [OF that(1)] like_contains [OF plain_text_lower [OF that(2)]] that(1) title(1)
    by (simp add: to_lowercase_ascii)
  have "ascii [95]" "map ascii_lower [95] = [95]" by (simp_all add: ascii_def ascii_lower_def)
  then have any: "title_matches fold_case (lit ''_'') ?t" using title(2) pattern [of "[95]"]
    by (simp add: lit_def like_one_character del: like.simps)
  show ?thesis using search any
    by (simp add: market_row_matches_def market_matches_def row_of_market_def market_status_string split: option.split)
qed

theorem pg_filter_agrees_witness:
  "market_row_matches (map ascii_lower) (market_filter_default\<lparr>mf_search := Some (lit ''_'')\<rparr>) (row_of_market sample_market)
   \<and> \<not> market_row_matches (map ascii_lower) (market_filter_default\<lparr>mf_search := Some (lit ''snow'')\<rparr>) (row_of_market sample_market)"
proof -
  let ?f = "market_filter_default\<lparr>mf_search := Some (lit ''snow'')\<rparr>" and ?lc = "\<lambda>_ _. [] :: str"
  have t: "ascii (title_as_str (m_title sample_market))" "title_as_str (m_title sample_market) \<noteq> []"
    by (simp_all add: sample_market_def market_new_def ascii_def lit_def)
  have q: "\<forall>q. mf_search ?f = Some q \<longrightarrow> ascii q \<and> plain_text q"
    by (simp add: ascii_def plain_text_def lit_def)
  note p = pg_filter_agrees [where fold_case = "map ascii_lower" and lc = ?lc and m = sample_market, OF _ t]
  have "\<not> market_matches ?lc ?f sample_market"
    by (simp add: market_matches_def market_filter_default_def sample_market_def market_new_def to_lowercase_def lit_def
        ascii_lower_def)
  then have "\<not> market_row_matches (map ascii_lower) ?f (row_of_market sample_market)" using p [of ?f] q by simp
  moreover have "market_row_matches (map ascii_lower) (market_filter_default\<lparr>mf_search := Some (lit ''_'')\<rparr>) (row_of_market sample_market)"
    using p [of market_filter_default] by (simp add: market_matches_def market_filter_default_def)
  ultimately show ?thesis by simp
qed

end
