(* ===== verification/PgChat.thy ===== *)
theory PgChat
  imports PgBetting MemChat
begin

text \<open>
  The Postgres chat repository (\<open>persistence/postgres/chat_message_repository.rs\<close>): messages with
  their events in one transaction, pages of a room by row-value comparison, and reactions whose
  primary key absorbs repeats.  The collation that orders emoji is a parameter.
\<close>

section \<open>Messages\<close>

definition message_of_row :: "message_row \<Rightarrow> (chat_message, repo_error) result" where
  "message_of_row row = and_then (map_err (corrupt ''corrupt chat message row '' (cw_id row)) (body_new (cw_body row)))
     (\<lambda>body. Ok \<lparr>c_id = MessageId (cw_id row), c_author_id = UserId (cw_author_id row),
       c_channel = channel_of (map_option MarketId (cw_market_id row)), c_body = body,
       c_reply_to = map_option MessageId (cw_reply_to_id row), c_created_at = cw_created_at row\<rparr>)"

definition row_of_message :: "chat_message \<Rightarrow> message_row" where
  "row_of_message m = \<lparr>cw_id = message_uuid (c_id m), cw_author_id = user_uuid (c_author_id m),
     cw_market_id = map_option market_uuid (channel_market_id (c_channel m)), cw_body = body_as_str (c_body m),
     cw_reply_to_id = map_option message_uuid (c_reply_to m), cw_created_at = c_created_at m\<rparr>"

definition pg_insert_message :: "chat_message \<Rightarrow> ('j, 'z, unit) pg_cmd" where
  "pg_insert_message m = (let new = row_of_message m in
     insert_row (\<lambda>r. list_ex (\<lambda>row. cw_id row = cw_id new) (sv_messages r))
       (\<lambda>r. list_ex (\<lambda>row. uw_id row = cw_author_id new) (sv_users r)
         \<and> (case cw_market_id new of None \<Rightarrow> True | Some i \<Rightarrow> list_ex (\<lambda>row. mw_id row = i) (sv_markets r))
         \<and> (case cw_reply_to_id new of None \<Rightarrow> True | Some i \<Rightarrow> list_ex (\<lambda>row. cw_id row = i) (sv_messages r)))
       (\<lambda>r. r\<lparr>sv_messages := sv_messages r @ [new]\<rparr>))"

definition pg_message_save :: "'j event_codec \<Rightarrow> chat_message \<Rightarrow> ('j, 'z, unit) pg_cmd" where
  "pg_message_save codec m = in_tx (seq_cmd (pg_insert_message m) (pg_publish codec (ChatMessagePosted (c_id m))))"

definition pg_message_find_by_id :: "message_id \<Rightarrow> ('j, 'z, chat_message option) pg_cmd" where
  "pg_message_find_by_id i = bind_cmd (select (\<lambda>_ r. find (\<lambda>row. cw_id row = message_uuid i) (sv_messages r)))
     (decode_one message_of_row)"

definition pg_message_find_by_ids :: "message_id list \<Rightarrow> ('j, 'z, chat_message list) pg_cmd" where
  "pg_message_find_by_ids ids = (if ids = [] then ret [] else
     bind_cmd (select (\<lambda>p r. filter (\<lambda>row. cw_id row \<in> set (map message_uuid ids)) (scan p (sv_messages r))))
       (decode_all message_of_row))"

definition row_key :: "message_row \<Rightarrow> datetime \<times> uuid" where
  "row_key row = (cw_created_at row, cw_id row)"

definition in_room :: "chat_channel \<Rightarrow> message_row \<Rightarrow> bool" where
  "in_room channel row \<longleftrightarrow> cw_market_id row = map_option market_uuid (channel_market_id channel)"

definition past_cursor :: "message_cursor option \<Rightarrow> message_row \<Rightarrow> bool" where
  "past_cursor cursor row = (case cursor of
     None \<Rightarrow> True
   | Some (Before a) \<Rightarrow> row_key row < (an_created_at a, message_uuid (an_id a))
   | Some (After a) \<Rightarrow> (an_created_at a, message_uuid (an_id a)) < row_key row)"

definition pg_list_recent :: "chat_channel \<Rightarrow> int \<Rightarrow> message_cursor option \<Rightarrow> ('j, 'z, chat_message list) pg_cmd" where
  "pg_list_recent channel limit cursor = bind_cmd (statement (\<lambda>p r.
     let ascending = sort_key row_key (filter (\<lambda>row. in_room channel row \<and> past_cursor cursor row) (scan p (sv_messages r)))
     in and_then (pg_page limit 0 (case cursor of Some (After _) \<Rightarrow> ascending | _ \<Rightarrow> rev ascending))
       (\<lambda>page. Ok (sort_key row_key page, r)))) (decode_all message_of_row)"

section \<open>Reactions\<close>

definition is_reaction :: "message_id \<Rightarrow> user_id \<Rightarrow> reaction_emoji \<Rightarrow> reaction_row \<Rightarrow> bool" where
  "is_reaction m u e row \<longleftrightarrow> rw_message_id row = message_uuid m \<and> rw_user_id row = user_uuid u
     \<and> rw_emoji row = emoji_as_str e"

text \<open>\<open>INSERT ... ON CONFLICT DO NOTHING\<close>: how many rows it inserted.\<close>

definition pg_insert_reaction :: "message_id \<Rightarrow> user_id \<Rightarrow> reaction_emoji \<Rightarrow> ('j, 'z, nat) pg_cmd" where
  "pg_insert_reaction m u e = statement (\<lambda>_ r.
     if list_ex (is_reaction m u e) (sv_reactions r) then Ok (0, r)
     else if \<not> (list_ex (\<lambda>row. cw_id row = message_uuid m) (sv_messages r)
       \<and> list_ex (\<lambda>row. uw_id row = user_uuid u) (sv_users r))
     then Err (OtherSql (msg ''insert violates a constraint''))
     else Ok (1, r\<lparr>sv_reactions := sv_reactions r @ [\<lparr>rw_message_id = message_uuid m, rw_user_id = user_uuid u,
       rw_emoji = emoji_as_str e, rw_created_at = sv_now r (sv_sent r)\<rparr>]\<rparr>))"

definition pg_delete_reaction :: "message_id \<Rightarrow> user_id \<Rightarrow> reaction_emoji \<Rightarrow> ('j, 'z, nat) pg_cmd" where
  "pg_delete_reaction m u e = statement (\<lambda>_ r. Ok (length (filter (is_reaction m u e) (sv_reactions r)),
     r\<lparr>sv_reactions := filter (\<lambda>row. \<not> is_reaction m u e row) (sv_reactions r)\<rparr>))"

definition publish_reaction_change :: "'j event_codec \<Rightarrow> message_id \<Rightarrow> user_id \<Rightarrow> reaction_emoji \<Rightarrow> bool
    \<Rightarrow> ('j, 'z, unit) pg_cmd" where
  "publish_reaction_change codec m u e added = pg_publish codec (ChatReactionChanged m u (emoji_as_str e) added)"

definition pg_add_reaction :: "'j event_codec \<Rightarrow> message_id \<Rightarrow> user_id \<Rightarrow> reaction_emoji \<Rightarrow> ('j, 'z, bool) pg_cmd" where
  "pg_add_reaction codec m u e = in_tx (bind_cmd (pg_insert_reaction m u e) (\<lambda>n.
     if 0 < n then seq_cmd (publish_reaction_change codec m u e True) (ret True) else ret False))"

definition pg_remove_reaction :: "'j event_codec \<Rightarrow> message_id \<Rightarrow> user_id \<Rightarrow> reaction_emoji \<Rightarrow> ('j, 'z, bool) pg_cmd" where
  "pg_remove_reaction codec m u e = in_tx (bind_cmd (pg_delete_reaction m u e) (\<lambda>n.
     if 0 < n then seq_cmd (publish_reaction_change codec m u e False) (ret True) else ret False))"

text \<open>The grouped pass, and the loop that sorts its rows under their messages.\<close>

definition reaction_group :: "reaction_row \<Rightarrow> uuid \<times> str" where
  "reaction_group row = (rw_message_id row, rw_emoji row)"

fun group_tallies :: "(uuid \<times> str \<times> int \<times> bool) list \<Rightarrow> (message_id \<times> reaction_tally list) list
    \<Rightarrow> ((message_id \<times> reaction_tally list) list, repo_error) result" where
  "group_tallies [] tallies = Ok tallies"
| "group_tallies ((i, emoji, n, reacted) # rows) tallies =
     and_then (map_err (corrupt ''corrupt reaction on chat message '' i) (emoji_new emoji)) (\<lambda>emoji.
     let held = (case map_of tallies (MessageId i) of None \<Rightarrow> [] | Some ts \<Rightarrow> ts) in
     group_tallies rows (AList.update (MessageId i)
       (held @ [\<lparr>rt_emoji = emoji, rt_count = n, rt_reacted = reacted\<rparr>]) tallies))"

definition pg_reactions_for :: "(str \<Rightarrow> int) \<Rightarrow> message_id list \<Rightarrow> user_id
    \<Rightarrow> ('j, 'z, (message_id \<times> reaction_tally list) list) pg_cmd" where
  "pg_reactions_for collate ids viewer = (if ids = [] then ret [] else
     bind_cmd (select (\<lambda>p r.
       let rows = filter (\<lambda>row. rw_message_id row \<in> set (map message_uuid ids)) (sv_reactions r);
           members = (\<lambda>g. filter (\<lambda>row. reaction_group row = g) rows);
           groups = sort_key (\<lambda>g. (fst g, Min (set (map rw_created_at (members g))), collate (snd g)))
             (scan p (remdups (map reaction_group rows)))
       in map (\<lambda>g. (fst g, snd g, int (length (members g)),
            list_ex (\<lambda>row. rw_user_id row = user_uuid viewer) (members g))) groups))
     (\<lambda>rows. lift (group_tallies rows [])))"

definition pg_chat_repo :: "(str \<Rightarrow> int) \<Rightarrow> 'j event_codec \<Rightarrow> ('j, 'z) pg chat_repo" where
  "pg_chat_repo collate codec = \<lparr>cr_save = pg_message_save codec, cr_find_by_id = pg_message_find_by_id,
     cr_find_by_ids = pg_message_find_by_ids, cr_list_recent = pg_list_recent,
     cr_add_reaction = pg_add_reaction codec, cr_remove_reaction = pg_remove_reaction codec,
     cr_reactions_for = pg_reactions_for collate\<rparr>"

section \<open>Pages\<close>

fun val_of :: "('a, 'e) result \<Rightarrow> 'a" where
  "val_of (Ok x) = x"

lemma decodes_val: "decodes f rows \<Longrightarrow> row \<in> set rows \<Longrightarrow> f row = Ok (val_of (f row))"
  by (auto simp: decodes_def is_ok_iff)

lemma oks_val: "decodes f rows \<Longrightarrow> oks (map f rows) = map (\<lambda>row. val_of (f row)) rows"
  by (induction rows) (auto simp: is_ok_iff)

lemma collect_val: "decodes f rows \<Longrightarrow> collect_results (map f rows) = Ok (map (\<lambda>row. val_of (f row)) rows)"
  using collect_oks oks_val by metis

lemma sort_rev_sorted:
  fixes k :: "'a \<Rightarrow> 'b :: linorder"
  assumes "sorted (map k xs)" "distinct (map k xs)"
  shows "sort_key k (rev xs) = xs" "sort_key k xs = xs"
proof -
  have "inj_on k (set xs)" using assms(2) by (simp add: distinct_map)
  moreover have "distinct (map k (sort_key k (rev xs)))" using assms(2)
    by (simp add: distinct_map)
  ultimately show "sort_key k (rev xs) = xs"
    using assms by (intro map_sorted_distinct_set_unique [of k]) simp_all
  show "sort_key k xs = xs" using assms(1) by (rule sort_key_id_if_sorted)
qed

lemma message_row_fields:
  assumes "message_of_row row = Ok m"
  shows "message_key m = row_key row" "c_channel m = channel \<longleftrightarrow> in_room channel row" "c_id m = MessageId (cw_id row)"
  using assms
  by (cases channel; cases "cw_market_id row";
      auto simp: message_of_row_def and_then_eq_Ok message_key_def row_key_def in_room_def)+

definition past :: "message_cursor option \<Rightarrow> chat_message \<Rightarrow> bool" where
  "past cursor m = (case cursor of None \<Rightarrow> True | Some (Before a) \<Rightarrow> message_key m < anchor_key a
     | Some (After a) \<Rightarrow> anchor_key a < message_key m)"

lemma past_row: "message_of_row row = Ok m \<Longrightarrow> past cursor m = past_cursor cursor row"
  using message_row_fields(1) [of row m]
  by (auto simp: past_def past_cursor_def anchor_key_def split: option.split message_cursor.split)

lemma message_key_inj: "message_key x = message_key y \<Longrightarrow> c_id x = c_id y"
  by (cases "c_id x"; cases "c_id y") (auto simp: message_key_def)

text \<open>The rows of a room in order are the messages of the room in order.\<close>

lemma ascending_rows:
  assumes rows: "decodes message_of_row rows" "distinct (map cw_id rows)"
    and same: "set (messages w) = set (oks (map message_of_row rows))" "distinct (map c_id (messages w))"
  shows "map (\<lambda>row. val_of (message_of_row row)) (sort_key row_key (filter (\<lambda>row. in_room channel row \<and> past_cursor cursor row) rows))
    = filter (past cursor) (room channel w)"
    "distinct (map row_key rows)"
proof -
  let ?g = "\<lambda>row. val_of (message_of_row row)"
  let ?asc = "sort_key row_key (filter (\<lambda>row. in_room channel row \<and> past_cursor cursor row) rows)"
  have g: "message_of_row row = Ok (?g row)" if "row \<in> set rows" for row by (rule decodes_val [OF rows(1) that])
  show dk: "distinct (map row_key rows)"
    using rows(2) by (simp add: distinct_map inj_on_def row_key_def)
  have keys: "map message_key (map ?g ?asc) = map row_key ?asc"
    using message_row_fields(1) [OF g] by simp
  have dasc: "distinct (map row_key ?asc)"
    using distinct_map_filter [OF dk] by (simp add: distinct_map)
  have all: "set (oks (map message_of_row rows)) = ?g ` set rows"
    using oks_val [OF rows(1)] by simp
  have ok: "(in_room channel row \<and> past_cursor cursor row) = (c_channel (?g row) = channel \<and> past cursor (?g row))"
    if "row \<in> set rows" for row
    using message_row_fields(2) [OF g [OF that]] past_row [OF g [OF that]] by simp
  have "set (map ?g ?asc) = ?g ` {row \<in> set rows. in_room channel row \<and> past_cursor cursor row}"
    by simp
  also have "\<dots> = ?g ` {row \<in> set rows. c_channel (?g row) = channel \<and> past cursor (?g row)}"
    by (intro arg_cong [where f = "image ?g"] Collect_cong conj_cong [OF refl] ok)
  also have "\<dots> = {m \<in> ?g ` set rows. c_channel m = channel \<and> past cursor m}" by auto
  also have "\<dots> = set (filter (past cursor) (room channel w))"
    by (simp add: room_set same(1) all)
  finally have set_asc: "set (map ?g ?asc) = set (filter (past cursor) (room channel w))" .
  have "distinct (map c_id (filter (past cursor) (room channel w)))"
    by (rule distinct_map_filter) (rule room_distinct [OF same(2)])
  then have droom: "distinct (map message_key (filter (past cursor) (room channel w)))"
    unfolding distinct_map inj_on_def using message_key_inj by blast
  show "map ?g ?asc = filter (past cursor) (room channel w)"
  proof (rule map_sorted_distinct_set_unique [of message_key])
    show "inj_on message_key (set (map ?g ?asc) \<union> set (filter (past cursor) (room channel w)))"
      using droom unfolding set_asc by (simp add: distinct_map)
    show "sorted (map message_key (map ?g ?asc))" "distinct (map message_key (map ?g ?asc))"
      unfolding keys using dasc by simp_all
    show "sorted (map message_key (filter (past cursor) (room channel w)))"
      by (rule sorted_filter) (rule room_sorted)
  qed (use droom set_asc in simp_all)
qed

lemma pg_list_recent_answers:
  assumes "decodes message_of_row (sv_messages (bk_rest s))"
    and "\<forall>n k. mset (sv_plan (bk_rest s) n k) = mset [0..<k]"
    and "sv_down (bk_rest s) (sv_sent (bk_rest s)) = None" "0 \<le> limit"
  shows "\<exists>page t. pg_list_recent channel limit cursor s = (Ok page, t)"
proof -
  let ?scan = "scan (sv_plan (bk_rest s) (sv_sent (bk_rest s))) (sv_messages (bk_rest s))"
  let ?asc = "sort_key row_key (filter (\<lambda>row. in_room channel row \<and> past_cursor cursor row) ?scan)"
  let ?page = "sort_key row_key (take (nat limit) (case cursor of Some (After _) \<Rightarrow> ?asc | _ \<Rightarrow> rev ?asc))"
  have "mset ?scan = mset (sv_messages (bk_rest s))" using assms(2) by (intro mset_scan) simp
  then have "set ?scan = set (sv_messages (bk_rest s))" by (rule mset_eq_setD)
  moreover have "set ?page \<subseteq> set ?scan"
    by (auto dest!: in_set_takeD split: option.splits message_cursor.splits)
  ultimately have "decodes message_of_row ?page" using assms(1) by (auto simp: decodes_def)
  then obtain ms where "collect_results (map message_of_row ?page) = Ok ms" using collect_val by blast
  then show ?thesis using assms(3,4)
    by (simp add: pg_list_recent_def decode_all_def Let_def bind_cmd_def statement_def bk_rest_count_sent
        pg_page_def lift_def cong del: option.case_cong_weak message_cursor.case_cong_weak)
qed

text \<open>C22: Over Postgres a room is read exactly as in memory.  For the same messages, kept in whatever
  order, a page the database answers is the page the in-memory store answers, before or after an
  honest anchor or from the end of the room; reading changes no table, a negative limit is refused, and any other
  page is answered when the server is up.\<close>

theorem pg_pages_agree:
  assumes rows: "decodes message_of_row (sv_messages (bk_rest s))" "distinct (map cw_id (sv_messages (bk_rest s)))"
    and plan: "\<forall>n k. mset (sv_plan (bk_rest s) n k) = mset [0..<k]"
    and same: "set (messages w) = set (oks (map message_of_row (sv_messages (bk_rest s))))" "distinct (map c_id (messages w))"
    and honest: "\<forall>a. cursor = Some (After a) \<longrightarrow> honest_anchor w a"
    and run: "pg_list_recent channel limit cursor s = (r, t)"
  shows "same_tables s t \<and> (\<forall>page. r = Ok page \<longrightarrow> 0 \<le> limit \<and> mem_list_recent channel limit cursor w = (Ok page, w))
    \<and> (sv_down (bk_rest s) (sv_sent (bk_rest s)) = None \<and> 0 \<le> limit \<longrightarrow> is_ok r)"
proof -
  let ?rows = "sv_messages (bk_rest s)" and ?g = "\<lambda>row. val_of (message_of_row row)"
  let ?scan = "scan (sv_plan (bk_rest s) (sv_sent (bk_rest s))) ?rows"
  let ?asc = "sort_key row_key (filter (\<lambda>row. in_room channel row \<and> past_cursor cursor row) ?scan)"
  let ?page = "take (nat limit) (case cursor of Some (After _) \<Rightarrow> ?asc | _ \<Rightarrow> rev ?asc)"
  have scan: "mset ?scan = mset ?rows" using plan by (intro mset_scan) simp
  have srows: "decodes message_of_row ?scan" "distinct (map cw_id ?scan)"
    "set (messages w) = set (oks (map message_of_row ?scan))"
  proof -
    show "decodes message_of_row ?scan" using rows(1) mset_eq_setD [OF scan] by (simp add: decodes_def)
    have "mset (map cw_id ?scan) = mset (map cw_id ?rows)" using scan by simp
    then show "distinct (map cw_id ?scan)" using rows(2) mset_eq_imp_distinct_iff by blast
    show "set (messages w) = set (oks (map message_of_row ?scan))"
      using same(1) mset_eq_setD [OF mset_oks [OF scan, where f = message_of_row]] by (simp only:)
  qed
  note asc = ascending_rows(1) [OF srows same(2), of channel cursor]
  note keyed = ascending_rows(2) [OF srows same(2)]
  have tables: "same_tables s t"
    using run unfolding pg_list_recent_def decode_all_def Let_def
    by (rule then_lift_same [rotated], elim statement_same [rotated]) (auto simp: and_then_eq_Ok)
  have "0 \<le> limit \<and> mem_list_recent channel limit cursor w = (Ok page, w)" if "r = Ok page" for page
  proof -
    have lim: "0 \<le> limit" and page: "collect_results (map message_of_row (sort_key row_key ?page)) = Ok page"
      using run that
      by (auto simp: pg_list_recent_def decode_all_def Let_def run_Ok statement_Ok and_then_eq_Ok bk_rest_count_sent
          pg_page_def split: if_splits cong del: option.case_cong_weak message_cursor.case_cong_weak)
    have srt: "sorted (map row_key ?asc)" "distinct (map row_key ?asc)"
      using distinct_map_filter [OF keyed] by (simp_all add: distinct_map)
    have shown: "sort_key row_key ?page = (case cursor of Some (After _) \<Rightarrow> take (nat limit) ?asc | _ \<Rightarrow> last_n (nat limit) ?asc)"
    proof -
      have "sorted (map row_key (drop n ?asc))" "distinct (map row_key (drop n ?asc))"
        "sorted (map row_key (take n ?asc))" for n
        using srt by (simp_all add: drop_map [symmetric] take_map [symmetric] sorted_wrt_drop sorted_wrt_take)
      then have "sort_key row_key (rev (last_n n ?asc)) = last_n n ?asc" "sort_key row_key (take n ?asc) = take n ?asc" for n
        by (simp_all add: last_n_def sort_rev_sorted(1) sort_key_id_if_sorted)
      then show ?thesis by (auto simp: take_rev last_n_def split: option.split message_cursor.split)
    qed
    have "set (sort_key row_key ?page) \<subseteq> set ?scan"
      by (auto dest!: in_set_takeD split: option.splits message_cursor.splits)
    then have "decodes message_of_row (sort_key row_key ?page)" using srows(1) by (auto simp: decodes_def)
    then have "page = map ?g (sort_key row_key ?page)" using page collect_val by fastforce
    also have "\<dots> = (case cursor of Some (After _) \<Rightarrow> take (nat limit) (map ?g ?asc) | _ \<Rightarrow> last_n (nat limit) (map ?g ?asc))"
      unfolding shown by (auto simp: take_map drop_map last_n_def split: option.split message_cursor.split)
    finally have "page = (case cursor of Some (After _) \<Rightarrow> take (nat limit) (filter (past cursor) (room channel w))
        | _ \<Rightarrow> last_n (nat limit) (filter (past cursor) (room channel w)))" unfolding asc .
    moreover have "past None = (\<lambda>_. True)" "past (Some (Before a)) = (\<lambda>m. message_key m < anchor_key a)"
      "past (Some (After a)) = (\<lambda>m. anchor_key a < message_key m)" for a
      by (simp_all add: past_def fun_eq_iff)
    ultimately show ?thesis
      using lim list_recent_eq [OF same(2) honest, where channel = channel and limit = limit]
      by (simp split: option.splits message_cursor.splits)
  qed
  moreover have "is_ok r" if "sv_down (bk_rest s) (sv_sent (bk_rest s)) = None" "0 \<le> limit"
    using pg_list_recent_answers [OF rows(1) plan that, of channel cursor] run by auto
  ultimately show ?thesis using tables by blast
qed

section \<open>Reactions as a set\<close>

definition reaction_keys :: "('j, 'z) pg \<Rightarrow> (uuid \<times> uuid \<times> str) set" where
  "reaction_keys s = (\<lambda>row. (rw_message_id row, rw_user_id row, rw_emoji row)) ` set (sv_reactions (bk_rest s))"

definition reaction_key :: "message_id \<Rightarrow> user_id \<Rightarrow> reaction_emoji \<Rightarrow> uuid \<times> uuid \<times> str" where
  "reaction_key m u e = (message_uuid m, user_uuid u, emoji_as_str e)"

lemma held_key: "list_ex (is_reaction m u e) (sv_reactions (bk_rest s)) \<longleftrightarrow> reaction_key m u e \<in> reaction_keys s"
  by (auto simp: list_ex_iff is_reaction_def reaction_key_def reaction_keys_def image_iff eq_commute)

lemma toggle_Ok:
  assumes "in_tx (bind_cmd m (\<lambda>n :: nat. if 0 < n then seq_cmd (publish_reaction_change codec i u e a) (ret True) else ret False)) s
    = (Ok b, t)"
  shows "\<exists>s1 n s2. plain s = (Ok (), s1) \<and> m s1 = (Ok n, s2) \<and> b = (0 < n)
    \<and> sv_reactions (bk_rest t) = sv_reactions (bk_rest s2)
    \<and> (if b then \<exists>row. recorded codec [ChatReactionChanged i u (emoji_as_str e) a] [row] \<and> bk_rows t = bk_rows s2 @ [row]
       else bk_rows t = bk_rows s2)"
proof -
  obtain s1 n s2 s3 where e: "plain s = (Ok (), s1)" "m s1 = (Ok (n :: nat), s2)"
      "(if 0 < n then seq_cmd (publish_reaction_change codec i u e a) (ret True) else ret False) s2 = (Ok b, s3)"
      "plain s3 = (Ok (), t)"
    using assms by (auto simp: in_tx_Ok run_Ok)
  have t: "sv_reactions (bk_rest t) = sv_reactions (bk_rest s3)" "bk_rows t = bk_rows s3"
    using e(4) by (auto simp: plain_Ok bk_rest_count_sent)
  show ?thesis
  proof (cases "0 < n")
    case True
    then have "publish_reaction_change codec i u e a s2 = (Ok (), s3)" "b" using e(3) by (auto simp: run_Ok)
    then have "sv_reactions (bk_rest s3) = sv_reactions (bk_rest s2)"
        "\<exists>row. recorded codec [ChatReactionChanged i u (emoji_as_str e) a] [row] \<and> bk_rows s3 = bk_rows s2 @ [row]"
      by (auto simp: publish_reaction_change_def pg_publish_def publish_def run_Ok plain_Ok writes_def
          bk_rest_count_sent recorded_def)
    then show ?thesis using e(1,2) t True \<open>b\<close> by auto
  qed (use e t in \<open>auto simp: run_Ok\<close>)
qed

lemma one_event:
  assumes "if b then \<exists>row. recorded codec [e] [row] \<and> rows' = rows @ [row] else rows' = rows"
  shows "\<exists>new. recorded codec (if b then [e] else []) new \<and> rows' = rows @ new"
proof (cases b)
  case True
  then show ?thesis using assms by auto
next
  case False
  then show ?thesis using assms by (intro exI [of _ "[]"]) (simp add: recorded_def)
qed

lemma insert_reaction_rows:
  assumes "pg_insert_reaction m u e s = (Ok n, t)"
  shows "bk_rows t = bk_rows s \<and> (0 < n \<longleftrightarrow> reaction_key m u e \<notin> reaction_keys s)
    \<and> reaction_keys t = insert (reaction_key m u e) (reaction_keys s)"
proof (cases "list_ex (is_reaction m u e) (sv_reactions (bk_rest s))")
  case True
  then have "bk_rows t = bk_rows s" "n = 0" "sv_reactions (bk_rest t) = sv_reactions (bk_rest s)"
    using assms by (auto simp: pg_insert_reaction_def statement_Ok bk_rest_count_sent)
  moreover from this have "reaction_keys t = reaction_keys s" by (simp add: reaction_keys_def)
  ultimately show ?thesis using True [unfolded held_key] by (simp add: insert_absorb)
next
  case False
  then obtain row where "bk_rows t = bk_rows s" "n = 1" "sv_reactions (bk_rest t) = sv_reactions (bk_rest s) @ [row]"
      "(rw_message_id row, rw_user_id row, rw_emoji row) = reaction_key m u e"
    using assms by (auto simp: pg_insert_reaction_def statement_Ok bk_rest_count_sent reaction_key_def split: if_splits)
  then show ?thesis using False [unfolded held_key] by (simp add: reaction_keys_def)
qed

lemma delete_reaction_rows:
  assumes "pg_delete_reaction m u e s = (Ok n, t)"
  shows "bk_rows t = bk_rows s \<and> (0 < n \<longleftrightarrow> reaction_key m u e \<in> reaction_keys s)
    \<and> reaction_keys t = reaction_keys s - {reaction_key m u e}"
proof -
  have d: "bk_rows t = bk_rows s" "n = length (filter (is_reaction m u e) (sv_reactions (bk_rest s)))"
      "sv_reactions (bk_rest t) = filter (\<lambda>row. \<not> is_reaction m u e row) (sv_reactions (bk_rest s))"
    using assms by (auto simp: pg_delete_reaction_def statement_Ok bk_rest_count_sent)
  have "is_reaction m u e row \<longleftrightarrow> (rw_message_id row, rw_user_id row, rw_emoji row) = reaction_key m u e" for row
    by (simp add: is_reaction_def reaction_key_def)
  then have "reaction_keys t = reaction_keys s - {reaction_key m u e}"
    unfolding reaction_keys_def d(3) by auto
  moreover have "0 < n \<longleftrightarrow> reaction_key m u e \<in> reaction_keys s"
    unfolding d(2) held_key [symmetric] by (auto simp: list_ex_iff filter_empty_conv)
  ultimately show ?thesis using d(1) by simp
qed

lemma plain_reactions: "plain s = (Ok (), t) \<Longrightarrow> reaction_keys t = reaction_keys s \<and> bk_rows t = bk_rows s"
  by (auto simp: plain_Ok bk_rest_count_sent reaction_keys_def)

lemma pg_add_reaction_set:
  assumes "pg_add_reaction codec m u e s = (r, t)"
  shows "case r of Ok b \<Rightarrow> b = (reaction_key m u e \<notin> reaction_keys s)
        \<and> reaction_keys t = insert (reaction_key m u e) (reaction_keys s)
        \<and> (\<exists>new. recorded codec (if b then [ChatReactionChanged m u (emoji_as_str e) True] else []) new \<and> bk_rows t = bk_rows s @ new)
      | _ \<Rightarrow> same_tables s t"
proof (cases r)
  case (Ok b)
  obtain s1 n s2 where x: "plain s = (Ok (), s1)" "pg_insert_reaction m u e s1 = (Ok n, s2)" "b = (0 < n)"
      "sv_reactions (bk_rest t) = sv_reactions (bk_rest s2)"
      "if b then \<exists>row. recorded codec [ChatReactionChanged m u (emoji_as_str e) True] [row] \<and> bk_rows t = bk_rows s2 @ [row]
       else bk_rows t = bk_rows s2"
    using toggle_Ok [OF assms [unfolded pg_add_reaction_def Ok]] by blast
  have "reaction_keys t = reaction_keys s2" by (simp add: reaction_keys_def x(4))
  then show ?thesis
    using insert_reaction_rows [OF x(2)] plain_reactions [OF x(1)] one_event [OF x(5)] unfolding Ok x(3) by simp
qed (use in_tx_failed [OF assms [unfolded pg_add_reaction_def]] in simp_all)

lemma pg_remove_reaction_set:
  assumes "pg_remove_reaction codec m u e s = (r', t')"
  shows "case r' of Ok b \<Rightarrow> b = (reaction_key m u e \<in> reaction_keys s)
        \<and> reaction_keys t' = reaction_keys s - {reaction_key m u e}
        \<and> (\<exists>new. recorded codec (if b then [ChatReactionChanged m u (emoji_as_str e) False] else []) new \<and> bk_rows t' = bk_rows s @ new)
      | _ \<Rightarrow> same_tables s t'"
proof (cases r')
  case (Ok b)
  obtain s1 n s2 where x: "plain s = (Ok (), s1)" "pg_delete_reaction m u e s1 = (Ok n, s2)" "b = (0 < n)"
      "sv_reactions (bk_rest t') = sv_reactions (bk_rest s2)"
      "if b then \<exists>row. recorded codec [ChatReactionChanged m u (emoji_as_str e) False] [row] \<and> bk_rows t' = bk_rows s2 @ [row]
       else bk_rows t' = bk_rows s2"
    using toggle_Ok [OF assms [unfolded pg_remove_reaction_def Ok]] by blast
  have "reaction_keys t' = reaction_keys s2" by (simp add: reaction_keys_def x(4))
  then show ?thesis
    using delete_reaction_rows [OF x(2)] plain_reactions [OF x(1)] one_event [OF x(5)] unfolding Ok x(3) by simp
qed (use in_tx_failed [OF assms [unfolded pg_remove_reaction_def]] in simp_all)

text \<open>C23: The reaction rows of Postgres implement a set of (message, user, emoji) triples, whatever
  statement fails: adding inserts, removing deletes, both answer whether the set changed, a change
  records exactly one event and no change records none; when either fails, every table is as it was.\<close>

theorem pg_reactions_refine_set:
  assumes add: "pg_add_reaction codec m u e s = (r, t)" and remove: "pg_remove_reaction codec m u e s = (r', t')"
  shows "(case r of Ok b \<Rightarrow> b = (reaction_key m u e \<notin> reaction_keys s)
        \<and> reaction_keys t = insert (reaction_key m u e) (reaction_keys s)
        \<and> (\<exists>new. recorded codec (if b then [ChatReactionChanged m u (emoji_as_str e) True] else []) new \<and> bk_rows t = bk_rows s @ new)
      | _ \<Rightarrow> same_tables s t)
    \<and> (case r' of Ok b \<Rightarrow> b = (reaction_key m u e \<in> reaction_keys s)
        \<and> reaction_keys t' = reaction_keys s - {reaction_key m u e}
        \<and> (\<exists>new. recorded codec (if b then [ChatReactionChanged m u (emoji_as_str e) False] else []) new \<and> bk_rows t' = bk_rows s @ new)
      | _ \<Rightarrow> same_tables s t')"
  using pg_add_reaction_set [OF add] pg_remove_reaction_set [OF remove] by (rule conjI)

section \<open>Executions\<close>

definition chat_database :: "(event, unit) pg" where
  "chat_database = new_database\<lparr>bk_rest := (bk_rest new_database)\<lparr>sv_messages := map row_of_message (messages chat_world)\<rparr>\<rparr>"

theorem pg_pages_agree_witness:
  "\<exists>page t. pg_list_recent Global 2 (Some (Before (anchor_of (sample_message 4 Global)))) chat_database = (Ok page, t)
     \<and> mem_list_recent Global 2 (Some (Before (anchor_of (sample_message 4 Global)))) chat_world = (Ok page, chat_world)"
proof -
  let ?c = "Some (Before (anchor_of (sample_message 4 Global)))"
  obtain r t where run: "pg_list_recent Global 2 ?c chat_database = (r, t)" by fastforce
  have m: "message_of_row (row_of_message (sample_message i ch)) = Ok (sample_message i ch)" for i ch
  proof -
    have "body_new (lit ''hi'') = Ok (MessageBody (lit ''hi''))" by code_simp
    then show ?thesis by (cases ch) (simp_all add: message_of_row_def row_of_message_def sample_message_def)
  qed
  have rows: "sv_messages (bk_rest chat_database) = map row_of_message (messages chat_world)"
    by (simp add: chat_database_def)
  have dec: "oks (map message_of_row (map row_of_message (messages chat_world))) = messages chat_world
      \<and> decodes message_of_row (map row_of_message (messages chat_world))"
    by (rule oks_decoded) (auto simp: chat_world_def m)
  have d: "distinct (map c_id (messages chat_world))" "distinct (map cw_id (map row_of_message (messages chat_world)))"
    by (simp_all add: chat_world_def sample_message_def row_of_message_def)
  have up: "\<forall>n k. mset (sv_plan (bk_rest chat_database) n k) = mset [0..<k]"
    "sv_down (bk_rest chat_database) (sv_sent (bk_rest chat_database)) = None"
    by (simp_all add: chat_database_def new_database_def database_def)
  from pg_pages_agree [OF _ _ up(1) _ d(1) _ run, unfolded rows] dec d(2) up(2) have
    "is_ok r" "\<forall>page. r = Ok page \<longrightarrow> mem_list_recent Global 2 ?c chat_world = (Ok page, chat_world)"
    by (simp_all del: map_map)
  then show ?thesis using run by (auto simp: is_ok_iff)
qed

theorem pg_reactions_refine_set_witness:
  "\<exists>t. pg_add_reaction plain_codec (MessageId 1) (UserId 1) (ReactionEmoji (lit ''+'')) chat_database = (Ok True, t)
     \<and> length (bk_rows t) = 1 \<and> (1, 1, lit ''+'') \<in> reaction_keys t"
proof -
  let ?add = "pg_add_reaction plain_codec (MessageId 1) (UserId 1) (ReactionEmoji (lit ''+'')) chat_database"
  let ?remove = "pg_remove_reaction plain_codec (MessageId 1) (UserId 1) (ReactionEmoji (lit ''+'')) chat_database"
  have "fst ?add = Ok True" by code_simp
  then obtain t where add: "?add = (Ok True, t)" by (cases ?add) simp
  obtain r' t' where remove: "?remove = (r', t')" by (cases ?remove)
  have "bk_rows chat_database = []" by (simp add: chat_database_def new_database_def database_def)
  then show ?thesis using pg_reactions_refine_set [OF add remove] add
    by (auto simp: reaction_key_def recorded_def dest: list_all2_lengthD)
qed

end
