(* ===== verification/UserCache.thy ===== *)
theory UserCache
  imports PgAccounts
begin

text \<open>
  The Redis cache (\<open>persistence/redis/cache.rs\<close>), the cached user repository in front of another one
  (\<open>persistence/redis/user_repository.rs\<close>) and the handler that evicts a user whose balance changed
  (\<open>events/user_cache.rs\<close>).  Redis is outside the repository: it keeps the last text set under a key
  until it is deleted or expires, and an operation may fail or time out with some of its commands
  done.  When entries expire and which operations fail are parameters, by the number of the
  operation; so is the JSON of a record.
\<close>

section \<open>Redis\<close>

record 's cached =
  rc_entries :: "str \<Rightarrow> str option"
  rc_gone :: "nat \<Rightarrow> str \<Rightarrow> bool"
  rc_fault :: "nat \<Rightarrow> nat option"
  rc_ops :: nat
  rc_inner :: 's

text \<open>What one round trip finds: the expired entries are gone, and it counts.\<close>

definition arrived :: "'s cached \<Rightarrow> 's cached" where
  "arrived s = s\<lparr>rc_entries := (\<lambda>k. if rc_gone s (rc_ops s) k then None else rc_entries s k), rc_ops := rc_ops s + 1\<rparr>"

text \<open>A pipeline of writes, bounded by the time-out: a failing one has done its first \<open>n\<close> commands.\<close>

definition pipeline :: "(str \<times> str option) list \<Rightarrow> 's cached \<Rightarrow> bool \<times> 's cached" where
  "pipeline commands s = (let t = arrived s; apply = (\<lambda>ws. t\<lparr>rc_entries := fold (\<lambda>(k, v) m. m(k := v)) ws (rc_entries t)\<rparr>) in
     case rc_fault s (rc_ops s) of None \<Rightarrow> (True, apply commands) | Some n \<Rightarrow> (False, apply (take n commands)))"

definition redis_get :: "str \<Rightarrow> 's cached \<Rightarrow> str option option \<times> 's cached" where
  "redis_get key s = (case rc_fault s (rc_ops s) of
     None \<Rightarrow> (Some (rc_entries (arrived s) key), arrived s) | Some _ \<Rightarrow> (None, arrived s))"

section \<open>The cache of one record type\<close>

record 'c json_format =
  js_to :: "'c \<Rightarrow> (str, message) result"
  js_from :: "str \<Rightarrow> 'c option"

definition cache_delete :: "str \<Rightarrow> ('s cached, bool, 'e) cmd" where
  "cache_delete key s = (case pipeline [(key, None)] s of (done, t) \<Rightarrow> (Ok done, t))"

definition cache_get :: "'c json_format \<Rightarrow> ('c \<Rightarrow> ('t, domain_error) result) \<Rightarrow> str \<Rightarrow> ('s cached, 't option, 'e) cmd" where
  "cache_get js try_from key s = (case redis_get key s of
     (None, t) \<Rightarrow> (Ok None, t)
   | (Some None, t) \<Rightarrow> (Ok None, t)
   | (Some (Some raw), t) \<Rightarrow> (case js_from js raw of
       None \<Rightarrow> seq_cmd (cache_delete key) (ret None) t
     | Some c \<Rightarrow> (case try_from c of
         Ok v \<Rightarrow> (Ok (Some v), t)
       | _ \<Rightarrow> seq_cmd (cache_delete key) (ret None) t)))"

definition cache_put :: "'c json_format \<Rightarrow> ('t \<Rightarrow> 'c) \<Rightarrow> str list \<Rightarrow> 't \<Rightarrow> ('s cached, unit, 'e) cmd" where
  "cache_put js from keys v s = (case js_to js (from v) of
     Ok text \<Rightarrow> (Ok (), snd (pipeline (map (\<lambda>k. (k, Some text)) keys) s))
   | _ \<Rightarrow> (Ok (), s))"

definition in_inner :: "('s, 'a, 'e) cmd \<Rightarrow> ('s cached, 'a, 'e) cmd" where
  "in_inner m s = (case m (rc_inner s) of (r, i) \<Rightarrow> (r, s\<lparr>rc_inner := i\<rparr>))"

definition get_or_load :: "'c json_format \<Rightarrow> ('c \<Rightarrow> ('t, domain_error) result) \<Rightarrow> ('t \<Rightarrow> 'c) \<Rightarrow> str
    \<Rightarrow> ('s, 't option, 'e) cmd \<Rightarrow> ('t \<Rightarrow> str list) \<Rightarrow> ('s cached, 't option, 'e) cmd" where
  "get_or_load js try_from from key load keys_for =
     bind_cmd (cache_get js try_from key) (\<lambda>hit. case hit of
       Some v \<Rightarrow> ret (Some v)
     | None \<Rightarrow> bind_cmd (in_inner load) (\<lambda>found.
         seq_cmd (case found of None \<Rightarrow> ret () | Some v \<Rightarrow> cache_put js from (keys_for v) v) (ret found)))"

section \<open>Cached users\<close>

record cached_user =
  cu_id :: uuid
  cu_username :: str
  cu_email :: str
  cu_password_hash :: str
  cu_avatar_url :: "str option"
  cu_balance :: int
  cu_role :: str
  cu_created_at :: datetime
  cu_updated_at :: datetime

definition cached_of :: "user \<Rightarrow> cached_user" where
  "cached_of u = \<lparr>cu_id = user_uuid (u_id u), cu_username = username_as_str (u_username u),
     cu_email = email_as_str (u_email u), cu_password_hash = (case u_password_hash u of PasswordHash h \<Rightarrow> h),
     cu_avatar_url = u_avatar_url u, cu_balance = u_balance u, cu_role = role_as_str (u_role u),
     cu_created_at = u_created_at u, cu_updated_at = u_updated_at u\<rparr>"

definition user_of_cached :: "case_table \<Rightarrow> cached_user \<Rightarrow> (user, domain_error) result" where
  "user_of_cached lc c =
     and_then (username_new (cu_username c)) (\<lambda>name.
     and_then (email_new lc (cu_email c)) (\<lambda>mail.
     and_then (role_from_str (cu_role c)) (\<lambda>role.
     Ok \<lparr>u_id = UserId (cu_id c), u_username = name, u_email = mail,
       u_password_hash = PasswordHash (cu_password_hash c), u_avatar_url = cu_avatar_url c,
       u_balance = cu_balance c, u_role = role, u_created_at = cu_created_at c, u_updated_at = cu_updated_at c\<rparr>)))"

definition id_key :: "uuid_format \<Rightarrow> user_id \<Rightarrow> str" where
  "id_key uf i = lit ''user:id:'' @ uf_text uf (user_uuid i)"

definition email_key :: "email \<Rightarrow> str" where
  "email_key e = lit ''user:email:'' @ email_as_str e"

definition username_key :: "username \<Rightarrow> str" where
  "username_key n = lit ''user:username:'' @ username_as_str n"

definition user_keys :: "uuid_format \<Rightarrow> user \<Rightarrow> str list" where
  "user_keys uf u = [id_key uf (u_id u), email_key (u_email u), username_key (u_username u)]"

text \<open>What the repository is built from.\<close>

record cache_format =
  cf_json :: "cached_user json_format"
  cf_uuid :: uuid_format
  cf_case :: case_table

definition find_cached :: "cache_format \<Rightarrow> str \<Rightarrow> ('s, user option, repo_error) cmd \<Rightarrow> ('s cached, user option, repo_error) cmd" where
  "find_cached cf key load = get_or_load (cf_json cf) (user_of_cached (cf_case cf)) cached_of key load (user_keys (cf_uuid cf))"

definition cached_save :: "cache_format \<Rightarrow> 's user_repo \<Rightarrow> user \<Rightarrow> ('s cached, unit, repo_error) cmd" where
  "cached_save cf inner u = seq_cmd (in_inner (ur_save inner u))
     (cache_put (cf_json cf) cached_of (user_keys (cf_uuid cf) u) u)"

definition cached_user_repo :: "cache_format \<Rightarrow> 's user_repo \<Rightarrow> 's cached user_repo" where
  "cached_user_repo cf inner = \<lparr>ur_save = cached_save cf inner,
     ur_find_by_id = (\<lambda>i. find_cached cf (id_key (cf_uuid cf) i) (ur_find_by_id inner i)),
     ur_find_by_email = (\<lambda>e. find_cached cf (email_key e) (ur_find_by_email inner e)),
     ur_find_by_username = (\<lambda>n. find_cached cf (username_key n) (ur_find_by_username inner n)),
     ur_list = in_inner (ur_list inner)\<rparr>"

definition evict :: "cache_format \<Rightarrow> user_id \<Rightarrow> ('s cached, bool, 'e) cmd" where
  "evict cf i = cache_delete (id_key (cf_uuid cf) i)"

text \<open>The handler of \<open>UserBalanceChanged\<close>; its registration filters the other events.\<close>

definition invalidate_cached_user :: "cache_format \<Rightarrow> user_id \<Rightarrow> ('s cached, unit, message) cmd" where
  "invalidate_cached_user cf i = bind_cmd (evict cf i) (\<lambda>evicted.
     if evicted then ret ()
     else fail [Lit ''could not evict user '', UuidF (user_uuid i), Lit '' from cache''])"

section \<open>Reading through the cache\<close>

lemma inner_arrived [simp]: "rc_inner (arrived s) = rc_inner s"
  by (simp add: arrived_def)

lemma inner_pipeline: "rc_inner (snd (pipeline ws s)) = rc_inner s"
  by (simp add: pipeline_def Let_def split: option.split)

lemma cache_delete_eq: "cache_delete key s = (Ok (fst (pipeline [(key, None)] s)), snd (pipeline [(key, None)] s))"
  by (simp add: cache_delete_def split: prod.split)

text \<open>What the cache answers a lookup with.\<close>

definition cache_hit :: "cache_format \<Rightarrow> str \<Rightarrow> 's cached \<Rightarrow> user \<Rightarrow> bool" where
  "cache_hit cf key s v \<longleftrightarrow> rc_fault s (rc_ops s) = None \<and> (\<exists>raw c. rc_entries (arrived s) key = Some raw
     \<and> js_from (cf_json cf) raw = Some c \<and> user_of_cached (cf_case cf) c = Ok v)"

lemma cache_get_hit: "cache_hit cf key s v \<Longrightarrow>
    cache_get (cf_json cf) (user_of_cached (cf_case cf)) key s = (Ok (Some v), arrived s)"
  by (auto simp: cache_hit_def cache_get_def redis_get_def)

lemma cache_get_miss:
  assumes "\<nexists>v. cache_hit cf key s v"
  shows "\<exists>t. cache_get (cf_json cf) (user_of_cached (cf_case cf)) key s = ((Ok None, t) :: (_, repo_error) result \<times> _)
    \<and> rc_inner t = rc_inner s"
proof (cases "rc_fault s (rc_ops s)")
  case None
  then show ?thesis using assms
    by (auto simp: cache_hit_def cache_get_def redis_get_def seq_cmd_def bind_cmd_def ret_def cache_delete_eq
        inner_pipeline split: option.split result.split)
qed (simp add: cache_get_def redis_get_def)

lemma cache_put_run: "\<exists>t. cache_put js from keys v s = (Ok (), t) \<and> rc_inner t = rc_inner s"
  by (auto simp: cache_put_def inner_pipeline split: result.split)

lemma find_cached_hit: "cache_hit cf key s v \<Longrightarrow> find_cached cf key load s = (Ok (Some v), arrived s)"
  by (simp add: find_cached_def get_or_load_def bind_cmd_def cache_get_hit ret_def)

lemma find_cached_miss:
  assumes "\<nexists>v. cache_hit cf key s v" "find_cached cf key load s = (r, t)"
  shows "r = fst (load (rc_inner s)) \<and> rc_inner t = snd (load (rc_inner s))"
proof -
  obtain u where g: "cache_get (cf_json cf) (user_of_cached (cf_case cf)) key s = ((Ok None, u) :: (_, repo_error) result \<times> _)"
    "rc_inner u = rc_inner s"
    using cache_get_miss [OF assms(1)] by blast
  obtain r1 i where l: "load (rc_inner s) = (r1, i)" by fastforce
  have m: "find_cached cf key load s = bind_cmd (in_inner load) (\<lambda>found.
      seq_cmd (case found of None \<Rightarrow> ret () | Some v \<Rightarrow> cache_put (cf_json cf) cached_of (user_keys (cf_uuid cf) v) v)
        (ret found)) u"
    unfolding find_cached_def get_or_load_def bind_cmd_def [of "cache_get _ _ _"] by (simp add: g)
  show ?thesis
  proof (cases r1)
    case (Ok found)
    then have "in_inner load u = (Ok found, u\<lparr>rc_inner := i\<rparr>)" using l g by (simp add: in_inner_def)
    then have run: "seq_cmd (case found of None \<Rightarrow> ret ()
        | Some v \<Rightarrow> cache_put (cf_json cf) cached_of (user_keys (cf_uuid cf) v) v) (ret found) (u\<lparr>rc_inner := i\<rparr>) = (r, t)"
      using assms(2) m by (simp add: bind_cmd_def)
    show ?thesis
    proof (cases found)
      case None
      then show ?thesis using run l Ok by (auto simp: seq_cmd_def bind_cmd_def ret_def)
    next
      case (Some v)
      obtain w where "cache_put (cf_json cf) cached_of (user_keys (cf_uuid cf) v) v (u\<lparr>rc_inner := i\<rparr>)
          = ((Ok (), w) :: (unit, repo_error) result \<times> _)" "rc_inner w = i"
        using cache_put_run [of "cf_json cf" cached_of "user_keys (cf_uuid cf) v" v "u\<lparr>rc_inner := i\<rparr>"] by auto
      then show ?thesis using run l Ok Some by (auto simp: seq_cmd_def bind_cmd_def ret_def)
    qed
  qed (use assms(2) m g l in \<open>auto simp: bind_cmd_def in_inner_def\<close>)
qed

lemma evicted_misses:
  assumes "invalidate_cached_user cf i s = (Ok (), t)"
  shows "rc_inner t = rc_inner s \<and> (\<nexists>v. cache_hit cf (id_key (cf_uuid cf) i) t v)"
proof -
  have f: "rc_fault s (rc_ops s) = None" and t: "t = snd (pipeline [(id_key (cf_uuid cf) i, None)] s)"
    using assms by (auto simp: invalidate_cached_user_def evict_def cache_delete_eq run_Ok pipeline_def Let_def
        split: option.splits if_splits)
  then have "rc_entries t (id_key (cf_uuid cf) i) = None" by (simp add: pipeline_def Let_def)
  then have "rc_entries (arrived t) (id_key (cf_uuid cf) i) = None" by (simp add: arrived_def)
  then show ?thesis using inner_pipeline t by (auto simp: cache_hit_def)
qed

text \<open>C20: The user cache fails open and forgets what it is told to.  Whatever Redis does, a lookup
  answers with a valid user the cache holds or exactly what the repository behind it answers; once the
  handler of a balance change has returned without an error, the next lookup of that user by its
  identifier is the repository's.\<close>

theorem cache_fails_open:
  assumes run: "ur_find_by_id (cached_user_repo cf inner) i s = (r, t)"
    and evicted: "invalidate_cached_user cf i s' = (Ok (), u)"
  shows "((\<exists>v. cache_hit cf (id_key (cf_uuid cf) i) s v \<and> r = Ok (Some v) \<and> rc_inner t = rc_inner s)
      \<or> (r = fst (ur_find_by_id inner i (rc_inner s)) \<and> rc_inner t = snd (ur_find_by_id inner i (rc_inner s))))
    \<and> rc_inner u = rc_inner s'
    \<and> fst (ur_find_by_id (cached_user_repo cf inner) i u) = fst (ur_find_by_id inner i (rc_inner s'))"
proof -
  let ?key = "id_key (cf_uuid cf) i"
  have find: "ur_find_by_id (cached_user_repo cf inner) i = find_cached cf ?key (ur_find_by_id inner i)"
    by (simp add: cached_user_repo_def)
  have "(\<exists>v. cache_hit cf ?key s v \<and> r = Ok (Some v) \<and> rc_inner t = rc_inner s)
      \<or> (r = fst (ur_find_by_id inner i (rc_inner s)) \<and> rc_inner t = snd (ur_find_by_id inner i (rc_inner s)))"
  proof (cases "\<exists>v. cache_hit cf ?key s v")
    case True
    then show ?thesis using run find_cached_hit unfolding find by fastforce
  next
    case False
    then show ?thesis using run find_cached_miss unfolding find by blast
  qed
  moreover note e = evicted_misses [OF evicted]
  moreover obtain r2 u2 where "find_cached cf ?key (ur_find_by_id inner i) u = (r2, u2)" by fastforce
  moreover from this have "r2 = fst (ur_find_by_id inner i (rc_inner u))"
    using find_cached_miss e by blast
  ultimately show ?thesis by (simp add: find)
qed

lemma user_cached: "storable_user lc u \<Longrightarrow> user_of_cached lc (cached_of u) = Ok u"
  by (cases "u_id u"; cases "u_password_hash u")
    (simp add: user_of_cached_def cached_of_def storable_user_def role_string)

section \<open>A user that was read before a bet\<close>

definition cached_as :: "cache_format \<Rightarrow> user \<Rightarrow> 's cached \<Rightarrow> bool" where
  "cached_as cf u s \<longleftrightarrow> rc_fault s = (\<lambda>_. None) \<and> rc_gone s = (\<lambda>_ _. False) \<and> storable_user (cf_case cf) u
     \<and> (\<exists>raw. rc_entries s (id_key (cf_uuid cf) (u_id u)) = Some raw \<and> js_from (cf_json cf) raw = Some (cached_of u))"

lemma cached_as_hit: "cached_as cf u s \<Longrightarrow> cache_hit cf (id_key (cf_uuid cf) (u_id u)) s u"
  by (auto simp: cached_as_def cache_hit_def arrived_def user_cached)

definition only_row :: "user \<Rightarrow> user_row list \<Rightarrow> bool" where
  "only_row u rows \<longleftrightarrow> (\<exists>row\<in>set rows. uw_id row = user_uuid (u_id u))
     \<and> (\<forall>row\<in>set rows. uw_id row \<noteq> user_uuid (u_id u) \<longrightarrow>
         uw_username row \<noteq> username_as_str (u_username u) \<and> uw_email row \<noteq> email_as_str (u_email u))"

lemma pg_save_known:
  assumes "only_row u (sv_users (bk_rest s))" "sv_down (bk_rest s) (sv_sent (bk_rest s)) = None"
  shows "\<exists>t. pg_save_user u s = (Ok (), t) \<and> sv_users (bk_rest t) = map (\<lambda>row. if uw_id row = user_uuid (u_id u)
      then (row_of_user u)\<lparr>uw_created_at := uw_created_at row\<rparr> else row) (sv_users (bk_rest s))"
proof -
  have "\<not> list_ex (\<lambda>row. uw_id row \<noteq> uw_id (row_of_user u) \<and> (uw_username row = uw_username (row_of_user u)
      \<or> uw_email row = uw_email (row_of_user u))) (sv_users (bk_rest s))"
    and "list_ex (\<lambda>row. uw_id row = uw_id (row_of_user u)) (sv_users (bk_rest s))"
    using assms(1) by (auto simp: only_row_def list_ex_iff row_of_user_def)
  then show ?thesis using assms(2)
    by (simp add: pg_save_user_def Let_def insert_row_def statement_def bk_rest_count_sent) (simp add: row_of_user_def)
qed

text \<open>C19: A cached user who is saved again takes back the stakes of the bets placed since.  While the
  cache still holds a user as they were, an administrator's patch of their role through the cached
  repository writes the whole old user into Postgres, balance included, whatever the balance has
  become there.\<close>

theorem stale_write_back:
  assumes c: "cached_as cf u s" and only: "only_row u (sv_users (bk_rest (rc_inner s)))"
    and up: "sv_down (bk_rest (rc_inner s)) (sv_sent (bk_rest (rc_inner s))) = None"
  shows "\<exists>t. update_user (cached_user_repo cf (pg_user_repo lc)) now (user_uuid (u_id u)) \<lparr>uu_role = Some role\<rparr> s
      = (Ok (set_role now role u), t)
    \<and> map uw_balance (sv_users (bk_rest (rc_inner t))) = map (\<lambda>row. if uw_id row = user_uuid (u_id u)
      then u_balance u else uw_balance row) (sv_users (bk_rest (rc_inner s)))"
proof -
  let ?u = "set_role now role u"
  have id: "UserId (user_uuid (u_id u)) = u_id u" by simp
  have f: "ur_find_by_id (cached_user_repo cf (pg_user_repo lc)) (u_id u) s = (Ok (Some u), arrived s)"
    using find_cached_hit [OF cached_as_hit [OF c]] by (simp add: cached_user_repo_def)
  have "only_row ?u (sv_users (bk_rest (rc_inner s)))" using only by (simp add: only_row_def set_role_def)
  from pg_save_known [OF this up] obtain d where d: "pg_save_user ?u (rc_inner s) = (Ok (), d)"
    "sv_users (bk_rest d) = map (\<lambda>row. if uw_id row = user_uuid (u_id ?u)
      then (row_of_user ?u)\<lparr>uw_created_at := uw_created_at row\<rparr> else row) (sv_users (bk_rest (rc_inner s)))"
    by blast
  obtain t where t: "cache_put (cf_json cf) cached_of (user_keys (cf_uuid cf) ?u) ?u ((arrived s)\<lparr>rc_inner := d\<rparr>)
      = ((Ok (), t) :: (unit, repo_error) result \<times> _)" "rc_inner t = d"
    using cache_put_run [of "cf_json cf" cached_of "user_keys (cf_uuid cf) ?u" ?u "(arrived s)\<lparr>rc_inner := d\<rparr>"] by auto
  have "ur_save (cached_user_repo cf (pg_user_repo lc)) ?u (arrived s) = (Ok (), t)"
    using d(1) t(1) by (simp add: cached_user_repo_def cached_save_def pg_user_repo_def seq_cmd_def bind_cmd_def in_inner_def)
  then have "update_user (cached_user_repo cf (pg_user_repo lc)) now (user_uuid (u_id u)) \<lparr>uu_role = Some role\<rparr> s = (Ok ?u, t)"
    using f unfolding update_user_def id
    by (simp add: patch_is_empty_def bind_cmd_def conv_def lift_def seq_cmd_def ret_def Let_def)
  moreover have "map uw_balance (sv_users (bk_rest d)) = map (\<lambda>row. if uw_id row = user_uuid (u_id u)
      then u_balance u else uw_balance row) (sv_users (bk_rest (rc_inner s)))"
    by (simp add: d(2) row_of_user_def set_role_def)
  ultimately show ?thesis using t(2) by blast
qed

section \<open>Executions\<close>

definition sample_format :: cache_format where
  "sample_format = \<lparr>cf_json = \<lparr>js_to = (\<lambda>c. if c = cached_of (sample_user 1 RUser) then Ok (lit ''alice'') else Err (msg ''unknown'')),
     js_from = (\<lambda>raw. if raw = lit ''alice'' then Some (cached_of (sample_user 1 RUser)) else None)\<rparr>,
     cf_uuid = bit_format, cf_case = (\<lambda>_ _. [])\<rparr>"

definition warm_cache :: "'s \<Rightarrow> 's cached" where
  "warm_cache inner = \<lparr>rc_entries = (\<lambda>k. if k = id_key bit_format (UserId 1) then Some (lit ''alice'') else None),
     rc_gone = (\<lambda>_ _. False), rc_fault = (\<lambda>_. None), rc_ops = 0, rc_inner = inner\<rparr>"

lemma warm_cached: "cached_as sample_format (sample_user 1 RUser) (warm_cache inner)"
  by (simp add: cached_as_def warm_cache_def sample_format_def sample_storable) (simp add: sample_user_def)

theorem cache_fails_open_witness:
  "\<exists>t. invalidate_cached_user sample_format (UserId 1) (warm_cache new_database) = (Ok (), t)
     \<and> fst (ur_find_by_id (cached_user_repo sample_format (pg_user_repo (\<lambda>_ _. []))) (UserId 1) t)
       = fst (ur_find_by_id (pg_user_repo (\<lambda>_ _. [])) (UserId 1) new_database)"
proof -
  obtain t where t: "invalidate_cached_user sample_format (UserId 1) (warm_cache new_database) = (Ok (), t)"
    by (simp add: invalidate_cached_user_def evict_def cache_delete_eq bind_cmd_def pipeline_def Let_def warm_cache_def
        arrived_def ret_def)
  obtain r u where run: "ur_find_by_id (cached_user_repo sample_format (pg_user_repo (\<lambda>_ _. []))) (UserId 1)
      (warm_cache new_database) = (r, u)" by fastforce
  have "rc_inner (warm_cache new_database) = new_database" by (simp add: warm_cache_def)
  then show ?thesis using cache_fails_open [OF run t] t by auto
qed

theorem stale_write_back_witness:
  "\<exists>d t. pg_place plain_codec 5 placed_bet placed_outcomes [] new_database = (Ok (), d)
     \<and> map uw_balance (sv_users (bk_rest d)) = [9900]
     \<and> update_user (cached_user_repo sample_format (pg_user_repo (\<lambda>_ _. []))) 6 1 \<lparr>uu_role = Some RAdmin\<rparr> (warm_cache d)
       = (Ok (set_role 6 RAdmin (sample_user 1 RUser)), t)
     \<and> map uw_balance (sv_users (bk_rest (rc_inner t))) = [10000]"
proof -
  let ?run = "pg_place plain_codec 5 placed_bet placed_outcomes [] new_database"
  obtain d where d: "?run = (Ok (), d)" "map uw_balance (sv_users (bk_rest d)) = [9900]"
      "map uw_id (sv_users (bk_rest d)) = [1]" "sv_down (bk_rest d) (sv_sent (bk_rest d)) = None"
    using placed_run by (cases ?run) simp
  have id: "user_uuid (u_id (sample_user 1 RUser)) = 1" "u_balance (sample_user 1 RUser) = 10000"
    by (simp_all add: sample_user_def)
  have inner: "rc_inner (warm_cache d) = d" by (simp add: warm_cache_def)
  have only: "only_row (sample_user 1 RUser) (sv_users (bk_rest (rc_inner (warm_cache d))))"
    using d(3) by (auto simp: only_row_def id inner simp del: One_nat_def)
  show ?thesis
    using stale_write_back [OF warm_cached only, of "\<lambda>_ _. []" 6 RAdmin] d by (auto simp: inner id simp del: One_nat_def)
qed

end
