(* ===== verification/DemoContent.thy ===== *)
theory DemoContent
  imports Platform
begin

text \<open>
  What the bots of the demo trade on and talk about: the tables of \<open>demo/src/content.rs\<close>, the names
  of the cast (\<open>demo/src/cast.rs\<close>) and the temperaments of \<open>demo/src/llm.rs\<close>.  A scalar that is not
  printable ASCII, and a quotation mark, is written as its number.
\<close>

section \<open>Markets\<close>

record market_template =
  mt_title :: str
  mt_description :: str
  mt_category :: str
  mt_outcomes :: "str list"
  mt_open_for_hours :: int

definition market_templates :: "market_template list" where
  "market_templates =
    [\<lparr>mt_title = lit ''Will Bitcoin close above $150,000 this year?'',
      mt_description = lit ''Resolves on the closing price of the last trading day of the year.'',
      mt_category = lit ''crypto'', mt_outcomes = [lit ''Yes'', lit ''No''],
      mt_open_for_hours = 720\<rparr>,
     \<lparr>mt_title = lit ''Which team lifts the Champions League trophy?'',
      mt_description = lit ''Resolves to the winner of the final. Anyone not listed resolves to Field.'',
      mt_category = lit ''sports'', mt_outcomes = [lit ''Real Madrid'', lit ''Manchester City'', lit ''Bayern Munich'', lit ''Field''],
      mt_open_for_hours = 480\<rparr>,
     \<lparr>mt_title = lit ''What does the central bank do at the next meeting?'',
      mt_description = lit ''Resolves on the published rate decision.'',
      mt_category = lit ''economics'', mt_outcomes = [lit ''Cut'', lit ''Hold'', lit ''Hike''],
      mt_open_for_hours = 336\<rparr>,
     \<lparr>mt_title = lit ''Will a crewed mission leave for Mars before 2030?'',
      mt_description = lit ''Resolves Yes on a crewed launch on a Mars trajectory before Jan 1, 2030.'',
      mt_category = lit ''space'', mt_outcomes = [lit ''Yes'', lit ''No''],
      mt_open_for_hours = 2160\<rparr>,
     \<lparr>mt_title = (lit ''How many goals in Sunday'' @ [39] @ lit ''s derby?''),
      mt_description = lit ''Combined goals, extra time excluded.'',
      mt_category = lit ''sports'', mt_outcomes = [lit ''0-1'', lit ''2-3'', lit ''4 or more''],
      mt_open_for_hours = 20\<rparr>,
     \<lparr>mt_title = (lit ''Will it snow in Kyiv on New Year'' @ [39] @ lit ''s Eve?''),
      mt_description = lit ''Resolves on the official observation for Dec 31.'',
      mt_category = lit ''weather'', mt_outcomes = [lit ''Yes'', lit ''No''],
      mt_open_for_hours = 168\<rparr>,
     \<lparr>mt_title = lit ''Will the sequel open above $200M domestically?'',
      mt_description = lit ''Resolves on reported opening-weekend domestic box office.'',
      mt_category = lit ''movies'', mt_outcomes = [lit ''Yes'', lit ''No''],
      mt_open_for_hours = 240\<rparr>,
     \<lparr>mt_title = lit ''Which party forms the next coalition?'',
      mt_description = lit ''Resolves to the party leading the government after talks conclude.'',
      mt_category = lit ''politics'', mt_outcomes = [lit ''Left bloc'', lit ''Right bloc'', lit ''Grand coalition'', lit ''Snap election''],
      mt_open_for_hours = 600\<rparr>,
     \<lparr>mt_title = lit ''Will ETH flip BTC in market cap this cycle?'',
      mt_description = (lit ''Resolves Yes if ETH market cap exceeds BTC'' @ [39] @ lit ''s for a full trading day.''),
      mt_category = lit ''crypto'', mt_outcomes = [lit ''Yes'', lit ''No''],
      mt_open_for_hours = 1440\<rparr>,
     \<lparr>mt_title = lit ''Which console sells the most units this quarter?'',
      mt_description = lit ''Resolves on reported quarterly hardware sales.'',
      mt_category = lit ''gaming'', mt_outcomes = [lit ''Switch'', lit ''PlayStation'', lit ''Xbox''],
      mt_open_for_hours = 900\<rparr>,
     \<lparr>mt_title = lit ''Will remote roles pass 30% of new postings by year end?'',
      mt_description = lit ''Resolves on the December share of postings advertised as remote.'',
      mt_category = lit ''work'', mt_outcomes = [lit ''Yes'', lit ''No''],
      mt_open_for_hours = 1000\<rparr>,
     \<lparr>mt_title = lit ''Will this feed pass 10,000 bets this month?'',
      mt_description = (lit ''Settles on the platform'' @ [39] @ lit ''s own counter. Yes, we bet on ourselves.''),
      mt_category = lit ''meta'', mt_outcomes = [lit ''Yes'', lit ''No''],
      mt_open_for_hours = 72\<rparr>,
     \<lparr>mt_title = lit ''Coffee or tea: what does the office run out of first?'',
      mt_description = lit ''Deadly serious. Resolves on the empty tin.'',
      mt_category = lit ''meta'', mt_outcomes = [lit ''Coffee'', lit ''Tea'', lit ''Neither, someone restocked''],
      mt_open_for_hours = 48\<rparr>]"

section \<open>Lines and reactions\<close>

definition global_lines :: "str list" where
  "global_lines = [(lit ''gm '' @ [0x2615]),
    lit ''this feed moves fast today'',
    lit ''anyone else up three markets in a row?'',
    lit ''my portfolio is 90% vibes at this point'',
    lit ''just topped up, feeling reckless'',
    (lit ''who'' @ [39] @ lit ''s fading the favourite today?''),
    (lit ''new here '' @ [0x2014] @ lit '' what'' @ [39] @ lit ''s everyone trading?''),
    lit ''liquidity looks healthy this morning'',
    lit ''screenshot this, I called it first'',
    lit ''brb making coffee, nobody move the odds'',
    lit ''someone explain why I keep buying the top'',
    (lit ''back to break even, I'' @ [39] @ lit ''ll take it''),
    lit ''the charts on the new markets are wild'',
    (lit ''I only bet on things I can'' @ [39] @ lit ''t influence, keeps it honest''),
    lit ''reading the board like tea leaves'',
    lit ''quiet in here, someone open a market'']"

definition market_lines :: "str list" where
  "market_lines = [lit ''{outcome} at {price} is a steal'',
    lit ''no way {outcome} stays this cheap'',
    lit ''loaded up on {outcome}, see you at resolution'',
    (lit ''{outcome} is overpriced, I'' @ [39] @ lit ''m fading it''),
    lit ''who keeps pumping {outcome}?'',
    lit ''this resolves {outcome}, mark it'',
    lit ''{price} on {outcome}? free money'',
    (lit ''I'' @ [39] @ lit ''d take the other side of {outcome} all day''),
    lit ''waiting for {outcome} to dip before I add'',
    lit ''the whole board is mispricing {outcome}'',
    (lit ''still can'' @ [39] @ lit ''t believe {outcome} is the favourite''),
    ([34] @ lit ''{title}'' @ [34] @ lit '' is the only question that matters today''),
    lit ''in on {outcome}, small size, big conviction'',
    lit ''moved my stake off {outcome}, the news changed'',
    (lit ''{outcome} at {price} and nobody'' @ [39] @ lit ''s talking about it'')]"

definition reply_lines :: "str list" where
  "reply_lines = [lit ''this'',
    lit ''^ exactly my read'',
    lit ''bold'',
    (lit ''you'' @ [39] @ lit ''ll regret that '' @ [0x1F604]),
    lit ''hard disagree'',
    lit ''screenshotting this for later'',
    lit ''sir, this is a prediction market'',
    (lit ''let'' @ [39] @ lit ''s see how that ages''),
    lit ''finally someone said it'',
    lit ''the odds disagree with you'',
    lit ''same trade, different reasoning'',
    lit ''respectfully, no'']"

definition reactions_pool :: "str list" where
  "reactions_pool = [[0x1F525],
    [0x1F44D],
    [0x1F602],
    [0x1F680],
    [0x1F480],
    [0x1F914],
    [0x1F4B0],
    [0x1F440],
    [0x1F3AF],
    [0x1F62D],
    [0x1F64C],
    [0x1F4C8],
    [0x1F4C9],
    [0x1F9E0],
    [0x1F37F]]"

section \<open>The cast\<close>

definition email_domain :: str where
  "email_domain = lit ''bots.betsphere.invalid''"

definition host_name :: str where
  "host_name = lit ''the_oracle''"

definition bot_names :: "str list" where
  "bot_names = [lit ''hedge_hana'',
    lit ''long_leo'',
    lit ''short_sasha'',
    lit ''odds_omar'',
    lit ''delta_dana'',
    lit ''spread_sven'',
    lit ''chalk_chloe'',
    lit ''parlay_pia'',
    lit ''tilt_tomas'',
    lit ''arb_arjun'',
    lit ''punt_priya'',
    lit ''edge_elena'',
    lit ''fade_felix'',
    lit ''vega_vik'',
    lit ''yield_yuki'',
    lit ''moon_mika'']"

definition temperaments :: "(str \<times> str) list" where
  "temperaments =
    [(lit ''the_oracle'',
       lit ''You opened half these markets and you talk like the house: every take in here is a donation.''),
     (lit ''hedge_hana'',
       lit ''You hedge everything and think everyone else in here is one bad print from zero.''),
     (lit ''long_leo'',
       lit ''You are long everything forever, you buy every dip, and you think bears are just slow.''),
     (lit ''short_sasha'',
       lit ''You think it is all a bubble and you are waiting, loudly, to say you told them so.''),
     (lit ''odds_omar'',
       lit ''You quote the implied odds back at people and treat anyone who cannot do the arithmetic as free money.''),
     (lit ''delta_dana'',
       lit ''You are the smartest quant in the room and you explain, slowly, why the last message was wrong.''),
     (lit ''spread_sven'',
       lit ''You only care about the spread and you tell everyone how badly they are getting filled.''),
     (lit ''chalk_chloe'',
       lit ''You back the favourite every time and you laugh at whoever is chasing a longshot.''),
     (lit ''parlay_pia'',
       lit ''You stack absurd parlays and call anyone betting one leg boring.''),
     (lit ''tilt_tomas'',
       lit ''You are permanently tilted, loud about your losses, and certain the market is rigged against you.''),
     (lit ''arb_arjun'',
       lit ''Whatever is being discussed, you already arbed it, and you mention that.''),
     (lit ''punt_priya'',
       lit ''You bet on gut feeling and you mock everyone who needs a spreadsheet to press a button.''),
     (lit ''edge_elena'',
       lit ''You have edge on everything and you are insufferable about the people who do not.''),
     (lit ''fade_felix'',
       lit ''You fade this room on principle, because the crowd in here has never been right yet.''),
     (lit ''vega_vik'',
       (lit ''You trade the volatility and you find the room'' @ [39] @ lit ''s certainty about anything hilarious.'')),
     (lit ''yield_yuki'',
       lit ''You grind small consistent profits and you sneer at the gamblers doing it the loud way.''),
     (lit ''moon_mika'',
       lit ''Everything is going to the moon, you are early, and the doubters are just poor.'')]"

section \<open>What the domain makes of them\<close>

definition acceptable :: "market_template \<Rightarrow> bool" where
  "acceptable t \<longleftrightarrow> is_ok (title_new (mt_title t)) \<and> trim (mt_title t) = mt_title t
     \<and> 2 \<le> length (mt_outcomes t) \<and> list_all (\<lambda>l. is_ok (label_new l)) (mt_outcomes t)
     \<and> 0 < mt_open_for_hours t"

lemma templates_acceptable: "list_all acceptable market_templates"
  by code_simp

lemma template_titles_distinct: "distinct (map mt_title market_templates)"
  by code_simp

definition bot_email :: "str \<Rightarrow> str" where
  "bot_email name = name @ [64] @ email_domain"

lemma bot_names_accepted:
  "list_all (\<lambda>n. is_ok (username_new n) \<and> ascii n \<and> map ascii_lower n = n \<and> \<not> list_ex is_whitespace n \<and> email_shape (bot_email n))
     (host_name # bot_names)"
  by code_simp

lemma bot_names_distinct: "distinct (host_name # bot_names)"
  by code_simp

end
