(* ===== verification/DemoModel.thy ===== *)
theory DemoModel
  imports DemoContent
begin

text \<open>
  The optional language model of the demo (\<open>demo/src/llm.rs\<close>): what it is asked, and what is made of
  its answer before a bot posts it.  The model server is outside the repository: \<open>ll_send\<close> is one round
  trip to it.  How a price is printed as a percentage is floating-point formatting and the parameter
  \<open>percent\<close>.
\<close>

section \<open>Text\<close>

text \<open>\<open>str::rsplit_once\<close>, \<open>lines\<close>, \<open>trim_matches\<close> and \<open>eq_ignore_ascii_case\<close>.\<close>

fun rsplit_once :: "str \<Rightarrow> str \<Rightarrow> (str \<times> str) option" where
  "rsplit_once p [] = None"
| "rsplit_once p (x # xs) = (case rsplit_once p xs of
     Some (l, r) \<Rightarrow> Some (x # l, r)
   | None \<Rightarrow> map_option (\<lambda>r. ([], r)) (strip_prefix p (x # xs)))"

definition strip_cr :: "str \<Rightarrow> str" where
  "strip_cr l = (if ends_with 13 l then butlast l else l)"

definition str_lines :: "str \<Rightarrow> str list" where
  "str_lines s = (let ls = split_on 10 s in map strip_cr (butlast ls) @ (if last ls = [] then [] else [last ls]))"

definition trim_end_set :: "nat list \<Rightarrow> str \<Rightarrow> str" where
  "trim_end_set cs s = rev (dropWhile (\<lambda>c. c \<in> set cs) (rev s))"

definition trim_set :: "nat list \<Rightarrow> str \<Rightarrow> str" where
  "trim_set cs s = trim_end_set cs (dropWhile (\<lambda>c. c \<in> set cs) s)"

definition same_ignoring_case :: "str \<Rightarrow> str \<Rightarrow> bool" where
  "same_ignoring_case s t \<longleftrightarrow> map ascii_lower s = map ascii_lower t"

fun join_str :: "str \<Rightarrow> str list \<Rightarrow> str" where
  "join_str sep [] = []"
| "join_str sep [s] = s"
| "join_str sep (s # ss) = s @ sep @ join_str sep ss"

fun find_map :: "('a \<Rightarrow> 'b option) \<Rightarrow> 'a list \<Rightarrow> 'b option" where
  "find_map f [] = None"
| "find_map f (x # xs) = (case f x of Some y \<Rightarrow> Some y | None \<Rightarrow> find_map f xs)"

text \<open>The UTF-8 encoding of a scalar.\<close>

definition utf8_bytes :: "nat \<Rightarrow> nat list" where
  "utf8_bytes c = (if c < 0x80 then [c]
     else if c < 0x800 then [0xC0 + c div 0x40, 0x80 + c mod 0x40]
     else if c < 0x10000 then [0xE0 + c div 0x1000, 0x80 + c div 0x40 mod 0x40, 0x80 + c mod 0x40]
     else [0xF0 + c div 0x40000, 0x80 + c div 0x1000 mod 0x40, 0x80 + c div 0x40 mod 0x40, 0x80 + c mod 0x40])"

section \<open>What the model is told\<close>

record scene =
  sc_bot :: str
  sc_market :: "market_view option"
  sc_recent :: "chat_message_view list"

definition context_messages :: nat where "context_messages = 6"

definition temperament :: "str \<Rightarrow> str" where
  "temperament who = (case find (\<lambda>(name, _). same_ignoring_case name who) temperaments of
     Some (_, t) \<Rightarrow> t
   | None \<Rightarrow> snd (temperaments ! (sum_list (concat (map utf8_bytes who)) mod length temperaments)))"

definition persona :: "str \<Rightarrow> str" where
  "persona who = lit ''You are '' @ who @ lit '', one of the most toxic regulars in a prediction market chat. '' @ temperament who @
     [10] @ lit ''Write ONE short chat message, lowercase, under 100 characters. Be smug, arrogant, inflammatory, ''
     @ lit ''and relentlessly trash-talk every bad take. Laugh at terrible entries, overpriced positions, and ''
     @ lit ''obvious mistakes. Act completely convinced you'' @ [39] @ lit ''re right, never hedge, and always try to provoke a ''
     @ lit ''reaction. Keep it punchy. No quotes, no hashtags, no emoji, no explanation of yourself.''"

definition board :: "(price \<Rightarrow> str) \<Rightarrow> market_view \<Rightarrow> str" where
  "board percent view = join_str (lit '', '')
     (map (\<lambda>oc. label_as_str (o_label oc) @ [32] @ percent (o_current_price oc)) (mv_outcomes view))"

definition said_line :: "chat_message_view \<Rightarrow> str" where
  "said_line view = username_as_str (u_username (cv_author view)) @ lit '': '' @ body_as_str (c_body (cv_message view)) @ [10]"

definition brief :: "(price \<Rightarrow> str) \<Rightarrow> scene \<Rightarrow> str" where
  "brief percent scene =
     (let place = (case sc_market scene of
          Some view \<Rightarrow> (lit ''You are in the chat room of the market '' @ [34]) @ title_as_str (m_title (mv_market view)) @ ([34] @ lit ''.'' @ [10] @ lit ''The board: '') @ board percent view @ (lit ''.'' @ [10])
        | None \<Rightarrow> (lit ''You are in the site'' @ [39] @ lit ''s global chat, where every market is fair game.'' @ [10]));
          tail = drop (length (sc_recent scene) - context_messages) (sc_recent scene)
      in place @ (if tail = [] then [] else (lit ''Recent messages:'' @ [10]) @ concat (map said_line tail)))"

section \<open>One round trip\<close>

record chat_request =
  cq_model :: str
  cq_system :: str
  cq_user :: str
  cq_max_tokens :: nat
  cq_stream :: bool

text \<open>The server is not reached, or it answers with a status and a body, of which only the contents of
  the choices are read, when it has the expected shape.\<close>

datatype model_answer = Unreachable | Answered nat "str list option"

record llm =
  ll_model :: str
  ll_send :: "chat_request \<Rightarrow> model_answer"

definition max_tokens :: nat where "max_tokens = 60"

definition llm_complete :: "llm \<Rightarrow> str \<Rightarrow> str \<Rightarrow> str option" where
  "llm_complete llm system user =
     (case ll_send llm \<lparr>cq_model = ll_model llm, cq_system = system, cq_user = user, cq_max_tokens = max_tokens,
         cq_stream = False\<rparr> of
       Unreachable \<Rightarrow> None
     | Answered status body \<Rightarrow>
         if \<not> (200 \<le> status \<and> status < 300) then None
         else (case body of Some (content # _) \<Rightarrow> Some content | _ \<Rightarrow> None))"

section \<open>What is made of the answer\<close>

definition max_chars :: nat where "max_chars = 180"

definition strip_thinking :: "str \<Rightarrow> str" where
  "strip_thinking raw = (case rsplit_once (lit ''</think>'') raw of None \<Rightarrow> raw | Some (_, said) \<Rightarrow> said)"

definition strip_speaker :: "str \<Rightarrow> str \<Rightarrow> str" where
  "strip_speaker line who = (case split_once 58 line of
     Some (name, said) \<Rightarrow> if same_ignoring_case (trim name) who then trim said else line
   | None \<Rightarrow> line)"

definition shorten :: "str \<Rightarrow> str" where
  "shorten line = (if length line \<le> max_chars then line
     else let head = take max_chars line in
       trim (trim_end_set [44, 59, 45, 40, 0x2014] (case rsplit_once [32] head of None \<Rightarrow> head | Some (kept, _) \<Rightarrow> kept)))"

definition tidy :: "str \<Rightarrow> str \<Rightarrow> str option" where
  "tidy raw who =
     (let said = strip_thinking raw in
      case find (\<lambda>l. l \<noteq> []) (map trim (str_lines said)) of
        None \<Rightarrow> None
      | Some line \<Rightarrow>
          let line = trim (trim_set [34, 39, 96, 42, 95] line);
              line = strip_speaker line who
          in (case body_new (shorten line) of Ok body \<Rightarrow> Some (body_as_str body) | _ \<Rightarrow> None))"

definition is_modifier :: "nat \<Rightarrow> bool" where
  "is_modifier c \<longleftrightarrow> c = 0x200D \<or> c = 0xFE0E \<or> c = 0xFE0F \<or> c = 0x20E3 \<or> in_range 0xE0020 0xE007F c"

definition as_emoji :: "str \<Rightarrow> str option" where
  "as_emoji s = (case emoji_new s of Ok e \<Rightarrow> Some (emoji_as_str e) | _ \<Rightarrow> None)"

definition first_emoji :: "str \<Rightarrow> str option" where
  "first_emoji raw =
     (let answer = trim raw in
      case (if list_ex (\<lambda>c. \<not> is_modifier c) answer then as_emoji answer else None) of
        Some e \<Rightarrow> Some e
      | None \<Rightarrow> find_map (\<lambda>c. as_emoji [c]) (filter (\<lambda>c. \<not> is_modifier c) answer))"

section \<open>Lines, replies and reactions\<close>

definition llm_line :: "(price \<Rightarrow> str) \<Rightarrow> llm \<Rightarrow> scene \<Rightarrow> str option" where
  "llm_line percent llm scene =
     (case llm_complete llm (persona (sc_bot scene)) (brief percent scene @ [10] @ lit ''Write your next message.'') of
       None \<Rightarrow> None | Some raw \<Rightarrow> tidy raw (sc_bot scene))"

definition llm_reply :: "(price \<Rightarrow> str) \<Rightarrow> llm \<Rightarrow> scene \<Rightarrow> chat_message_view \<Rightarrow> str option" where
  "llm_reply percent llm scene target =
     (let prompt = brief percent scene @ [10] @ username_as_str (u_username (cv_author target)) @ (lit '' just said: '' @ [34])
        @ body_as_str (c_body (cv_message target)) @ ([34, 10] @ lit ''Write your reply to them.'') in
      case llm_complete llm (persona (sc_bot scene)) prompt of None \<Rightarrow> None | Some raw \<Rightarrow> tidy raw (sc_bot scene))"

definition llm_reaction :: "llm \<Rightarrow> chat_message_view \<Rightarrow> str option" where
  "llm_reaction llm target =
     (case llm_complete llm (lit ''You react to chat messages with a single emoji. Answer with one emoji and nothing else.'')
        ((lit ''In the chat of a betting site, someone wrote: '' @ [34]) @ body_as_str (c_body (cv_message target)) @ ([34, 10] @ lit ''React.'')) of
       None \<Rightarrow> None | Some raw \<Rightarrow> first_emoji raw)"

section \<open>What a tidied answer is\<close>

lemma set_trim: "set (trim s) \<subseteq> set s"
  unfolding trim_def by (auto dest!: set_dropWhileD)

lemma set_trim_end_set: "set (trim_end_set cs s) \<subseteq> set s"
  unfolding trim_end_set_def by (auto dest!: set_dropWhileD)

lemma set_trim_set: "set (trim_set cs s) \<subseteq> set s"
  unfolding trim_set_def using set_trim_end_set [of cs] by (auto dest!: set_dropWhileD)

lemma length_trim_end_set: "length (trim_end_set cs s) \<le> length s"
  unfolding trim_end_set_def by (metis length_dropWhile_le length_rev)

lemma rsplit_once_Some: "rsplit_once p s = Some (l, r) \<Longrightarrow> s = l @ p @ r"
proof (induction s arbitrary: l)
  case (Cons x s)
  then show ?case
    by (cases "rsplit_once p s") (auto simp: strip_prefix_Some split: prod.splits)
qed simp

lemma rsplit_once_append:
  "rsplit_once p s = Some (l, r) \<Longrightarrow> rsplit_once p (t @ s) = Some (t @ l, r)"
  by (induction t) simp_all

lemma set_strip_speaker: "set (strip_speaker line who) \<subseteq> set line"
  using set_trim
  by (auto simp: strip_speaker_def split_once_def split: option.splits prod.splits if_splits
      dest!: subsetD [OF set_trim] list.set_sel(2) [rotated] set_dropWhileD)

lemma set_shorten: "set (shorten line) \<subseteq> set line"
proof -
  have "set (case rsplit_once [32] (take max_chars line) of None \<Rightarrow> take max_chars line | Some (kept, _) \<Rightarrow> kept) \<subseteq> set line"
    by (auto split: option.splits dest!: rsplit_once_Some) (metis Un_iff in_set_takeD set_append)+
  then show ?thesis
    unfolding shorten_def Let_def using set_trim set_trim_end_set by (auto dest!: subsetD [OF set_trim] subsetD [OF set_trim_end_set])
qed

lemma length_shorten: "length (shorten line) \<le> max_chars"
proof (cases "length line \<le> max_chars")
  case False
  let ?head = "take max_chars line"
  let ?kept = "case rsplit_once [32] ?head of None \<Rightarrow> ?head | Some (kept, _) \<Rightarrow> kept"
  have "length ?kept \<le> length ?head"
    by (cases "rsplit_once [32] ?head") (auto simp del: length_take dest!: rsplit_once_Some)
  then have "length (trim (trim_end_set [44, 59, 45, 40, 0x2014] ?kept)) \<le> max_chars"
    using length_trim_le [of "trim_end_set [44, 59, 45, 40, 0x2014] ?kept"]
      length_trim_end_set [of "[44, 59, 45, 40, 0x2014]" ?kept] by simp
  then show ?thesis using False by (simp add: shorten_def Let_def)
qed (simp add: shorten_def)

lemma split_on_free: "l \<in> set (split_on c s) \<Longrightarrow> c \<notin> set l"
  by (induction s arbitrary: l) (auto split: if_splits list.splits)

lemma strip_cr_free: "c \<notin> set l \<Longrightarrow> c \<notin> set (strip_cr l)"
  by (auto simp: strip_cr_def dest: in_set_butlastD)

lemma str_lines_free: "l \<in> set (str_lines s) \<Longrightarrow> 10 \<notin> set l"
  using split_on_free [of _ 10 s] last_in_set [OF split_on_not_Nil [of 10 s]]
  by (auto simp: str_lines_def Let_def split: if_splits dest!: in_set_butlastD dest: strip_cr_free)


lemma tidy_line:
  assumes "tidy raw who = Some s"
  shows "s = trim s" "s \<noteq> []" "length s \<le> max_chars" "10 \<notin> set s"
proof -
  obtain line where l: "find (\<lambda>l. l \<noteq> []) (map trim (str_lines (strip_thinking raw))) = Some line"
    and b: "body_new (shorten (strip_speaker (trim (trim_set [34, 39, 96, 42, 95] line)) who)) = Ok (MessageBody s)"
    using assms by (auto simp: tidy_def Let_def new_Ok split: option.splits result.splits)
  let ?x = "shorten (strip_speaker (trim (trim_set [34, 39, 96, 42, 95] line)) who)"
  have s: "s = trim ?x" "s \<noteq> []" using b by (auto simp: new_Ok)
  show "s = trim s" "s \<noteq> []" using s by simp_all
  show "length s \<le> max_chars"
    using length_trim_le [of ?x] length_shorten [of "strip_speaker (trim (trim_set [34, 39, 96, 42, 95] line)) who"] s(1) by simp
  have "10 \<notin> set line"
    using find_SomeD [OF l] set_trim str_lines_free by fastforce
  moreover have "set s \<subseteq> set line"
    unfolding s(1) using set_trim set_shorten set_strip_speaker set_trim_set by (meson subset_trans)
  ultimately show "10 \<notin> set s" by blast
qed

lemma strip_thinking_after: "strip_thinking (t @ lit ''</think>'' @ said) = strip_thinking said"
proof (cases "rsplit_once (lit ''</think>'') said")
  case None
  have "rsplit_once (lit ''</think>'') (lit ''</think>'' @ said) = Some ([], said)"
    using None by (simp add: lit_def)
  then have "rsplit_once (lit ''</think>'') (t @ lit ''</think>'' @ said) = Some (t, said)"
    using rsplit_once_append by fastforce
  then show ?thesis using None by (simp add: strip_thinking_def)
next
  case (Some lr)
  then obtain l r where "rsplit_once (lit ''</think>'') said = Some (l, r)" by (cases lr) simp
  then show ?thesis
    using rsplit_once_append [of "lit ''</think>''" said l r "t @ lit ''</think>''"]
    by (simp add: strip_thinking_def)
qed

lemma as_emoji_Some: "as_emoji s = Some e \<longleftrightarrow> e = s \<and> emoji_new s = Ok (ReactionEmoji s)"
proof (cases "emoji_new s")
  case (Ok e')
  then show ?thesis using emoji_new_Ok [of s e'] by (auto simp: as_emoji_def)
qed (simp_all add: as_emoji_def)

lemma find_map_Some: "find_map f xs = Some y \<Longrightarrow> \<exists>x\<in>set xs. f x = Some y"
  by (induction xs) (auto split: option.splits)

lemma find_map_None: "find_map f xs = None \<longleftrightarrow> (\<forall>x\<in>set xs. f x = None)"
  by (induction xs) (auto split: option.splits)

lemma first_emoji_Some:
  assumes "first_emoji raw = Some e"
  shows "emoji_new e = Ok (ReactionEmoji e)" "\<exists>c\<in>set e. \<not> is_modifier c" "set e \<subseteq> set raw"
  using assms set_trim [of raw]
  by (auto simp: first_emoji_def Let_def as_emoji_Some list_ex_iff split: option.splits if_splits dest!: find_map_Some)

lemma single_emoji: "is_emoji_scalar c \<Longrightarrow> as_emoji [c] = Some [c]"
  by (simp add: as_emoji_Some emoji_new_def max_scalars_def is_sequence_scalar_def)

lemma first_emoji_finds:
  assumes "c \<in> set (trim raw)" "is_emoji_scalar c" "\<not> is_modifier c"
  shows "first_emoji raw \<noteq> None"
proof -
  have "find_map (\<lambda>c. as_emoji [c]) (filter (\<lambda>c. \<not> is_modifier c) (trim raw)) \<noteq> None"
    using assms single_emoji [of c] unfolding find_map_None by auto
  then show ?thesis by (simp add: first_emoji_def Let_def split: option.split)
qed

lemma is_prefix_strip: "is_prefix_of p s \<longleftrightarrow> strip_prefix p s \<noteq> None"
  by (induction p s rule: is_prefix_of.induct) simp_all

lemma contains_append: "p \<noteq> [] \<Longrightarrow> contains_str s p \<Longrightarrow> contains_str (t @ s) p"
  by (induction t) simp_all

lemma rsplit_once_None: "p \<noteq> [] \<Longrightarrow> rsplit_once p s = None \<longleftrightarrow> \<not> contains_str s p"
  by (induction s) (auto simp: is_prefix_strip split: option.splits)

lemma rsplit_once_last: "p \<noteq> [] \<Longrightarrow> rsplit_once p s = Some (l, r) \<Longrightarrow> \<not> contains_str r p"
proof (induction s arbitrary: l)
  case (Cons x s)
  show ?case
  proof (cases "rsplit_once p s")
    case None
    then have r: "strip_prefix p (x # s) = Some r" using Cons.prems(2) by simp
    have "\<not> contains_str s p" using None rsplit_once_None [OF Cons.prems(1)] by simp
    note r = r this
    have "x # s = p @ r" using r(1) by (simp add: strip_prefix_Some)
    then obtain q where "s = q @ r" using Cons.prems(1) by (cases p) auto
    then show ?thesis using r(2) contains_append [OF Cons.prems(1), of r q] by blast
  next
    case (Some lr)
    then show ?thesis using Cons by (cases lr) auto
  qed
qed simp

lemma strip_thinking_exact:
  "if contains_str raw (lit ''</think>'')
   then (\<exists>thoughts. raw = thoughts @ lit ''</think>'' @ strip_thinking raw) \<and> \<not> contains_str (strip_thinking raw) (lit ''</think>'')
   else strip_thinking raw = raw"
proof -
  have ne: "lit ''</think>'' \<noteq> []" by (simp add: lit_def)
  show ?thesis
  proof (cases "rsplit_once (lit ''</think>'') raw")
    case None
    then show ?thesis using rsplit_once_None [OF ne, of raw] by (simp add: strip_thinking_def)
  next
    case (Some lr)
    then obtain l r where lr: "rsplit_once (lit ''</think>'') raw = Some (l, r)" by (cases lr) simp
    then have "contains_str raw (lit ''</think>'')" using rsplit_once_None [OF ne, of raw] by simp
    moreover have "strip_thinking raw = r" using lr by (simp add: strip_thinking_def)
    ultimately show ?thesis using rsplit_once_Some [OF lr] rsplit_once_last [OF ne lr] by auto
  qed
qed

lemma cut_thinking: "tidy (lit ''<think>hm'') who = Some (lit ''<think>hm'')"
  by code_simp

text \<open>C40: Whatever the model answers, a bot posts only what the domain accepts.  A tidied answer is one
  line of at most 180 characters that is a valid message body as it stands.  What is tidied is exactly the
  text after the last \<open></think>\<close>, or the whole answer when it holds none: the thinking of an answer
  that was cut off before it closed the block is kept, and \<open><think>hm\<close> is posted as it is.  A reaction is
  a valid emoji out of the answer that stands on its own, and an answer that holds one is never refused.\<close>

theorem model_answers_postable:
  shows "(\<forall>s. tidy raw who = Some s \<longrightarrow> body_new s = Ok (MessageBody s) \<and> length s \<le> 180 \<and> 10 \<notin> set s)
    \<and> (if contains_str raw (lit ''</think>'')
       then (\<exists>thoughts. raw = thoughts @ lit ''</think>'' @ strip_thinking raw) \<and> \<not> contains_str (strip_thinking raw) (lit ''</think>'')
       else strip_thinking raw = raw)
    \<and> tidy raw who = tidy (strip_thinking raw) who \<and> tidy (thoughts @ lit ''</think>'' @ raw) who = tidy raw who
    \<and> tidy (lit ''<think>hm'') who = Some (lit ''<think>hm'')
    \<and> (\<forall>e. first_emoji raw = Some e \<longrightarrow> emoji_new e = Ok (ReactionEmoji e) \<and> (\<exists>c\<in>set e. \<not> is_modifier c) \<and> set e \<subseteq> set raw)
    \<and> (\<forall>c\<in>set (trim raw). is_emoji_scalar c \<and> \<not> is_modifier c \<longrightarrow> first_emoji raw \<noteq> None)"
proof (intro conjI allI ballI impI)
  fix s assume s: "tidy raw who = Some s"
  show "body_new s = Ok (MessageBody s)" "length s \<le> 180" "10 \<notin> set s"
    using tidy_line [OF s] by (simp_all add: new_Ok body_max_def max_chars_def)
next
  have "strip_thinking (strip_thinking raw) = strip_thinking raw"
    using strip_thinking_exact [of raw] strip_thinking_exact [of "strip_thinking raw"] by (simp split: if_splits)
  then show "tidy raw who = tidy (strip_thinking raw) who" by (simp add: tidy_def)
  show "tidy (thoughts @ lit ''</think>'' @ raw) who = tidy raw who" by (simp add: tidy_def strip_thinking_after)
qed (rule strip_thinking_exact cut_thinking | use first_emoji_Some first_emoji_finds in auto)+

theorem model_answers_postable_witness:
  "tidy (lit ''<think>hm</think> the_oracle: long yes'') (lit ''the_oracle'') = Some (lit ''long yes'')
   \<and> body_new (lit ''long yes'') = Ok (MessageBody (lit ''long yes''))"
proof -
  have "tidy (lit ''<think>hm</think> the_oracle: long yes'') (lit ''the_oracle'') = Some (lit ''long yes'')"
    by code_simp
  then show ?thesis
    using model_answers_postable [of "lit ''<think>hm</think> the_oracle: long yes''" "lit ''the_oracle''" "[]"] by blast
qed

end
