(* ===== verification/DemoBots.thy ===== *)
theory DemoBots
  imports DemoModel UseAuth
begin

text \<open>
  The bots of the demo (\<open>demo/src\<close>) over any implementation of the ports: who they are
  (\<open>cast.rs\<close>), and one turn of each of the three loops (\<open>market_maker.rs\<close>, \<open>bettor.rs\<close>,
  \<open>chatter.rs\<close>).  The random generator is an input: \<open>d i\<close> is what a turn draws the \<open>i\<close>-th time it may
  draw, \<open>clock i\<close> its \<open>i\<close>-th clock read, and identifiers are given as to the use cases.
\<close>

section \<open>Drawing\<close>

text \<open>\<open>choose\<close> (\<open>draw_one\<close>) answers nothing on an empty slice and may answer any element otherwise; a coin may fall
  either way.  \<open>choose_weighted\<close> may answer any element of positive weight, and fails when there is
  no element or the weights, which are positive here, do not add up in 32 bits.\<close>

definition draw_one :: "nat \<Rightarrow> 'a list \<Rightarrow> 'a option" where
  "draw_one r xs = (if xs = [] then None else Some (xs ! (r mod length xs)))"

definition heads :: "nat \<Rightarrow> bool" where
  "heads r \<longleftrightarrow> odd r"

fun nth_weighted :: "('a \<Rightarrow> int) \<Rightarrow> 'a list \<Rightarrow> int \<Rightarrow> 'a option" where
  "nth_weighted w [] r = None"
| "nth_weighted w (x # xs) r = (if r < w x then Some x else nth_weighted w xs (r - w x))"

definition choose_weighted :: "('a \<Rightarrow> int) \<Rightarrow> nat \<Rightarrow> 'a list \<Rightarrow> 'a option" where
  "choose_weighted w r xs =
     (let total = sum_list (map w xs) in
      if xs = [] \<or> \<not> in_i32 total then None else nth_weighted w xs (int r mod total))"

text \<open>Indexing the first element of a slice.\<close>

definition first_or_panic :: "'a list \<Rightarrow> ('a, 'e) result" where
  "first_or_panic xs = (case xs of [] \<Rightarrow> Panic | x # _ \<Rightarrow> Ok x)"

section \<open>The cast\<close>

record bot =
  bt_name :: str
  bt_actor :: actor

record cast =
  ca_host :: bot
  ca_bots :: "bot list"

definition anyone :: "cast \<Rightarrow> nat \<Rightarrow> bot" where
  "anyone ca r = (case draw_one r (ca_bots ca) of Some b \<Rightarrow> b | None \<Rightarrow> ca_host ca)"

definition account :: "case_table \<Rightarrow> 's user_repo \<Rightarrow> datetime \<Rightarrow> uuid \<Rightarrow> str \<Rightarrow> role \<Rightarrow> password_hash
    \<Rightarrow> ('s, bot, app_error) cmd" where
  "account lc urepo now fresh name role hash =
     bind_cmd (lift (map_err Domain (email_new lc (bot_email name)))) (\<lambda>mail.
     bind_cmd (conv app_of_repo (ur_find_by_email urepo mail)) (\<lambda>found.
     bind_cmd (case found of
         Some user \<Rightarrow>
           if u_role user \<noteq> role
           then let user = set_role now role user in
             seq_cmd (conv app_of_repo (ur_save urepo user)) (ret user)
           else ret user
       | None \<Rightarrow>
           bind_cmd (lift (map_err Domain (username_new name))) (\<lambda>username.
           let user = set_role now role (user_new fresh now username mail hash) in
             seq_cmd (conv app_of_repo (ur_save urepo user)) (ret user)))
       (\<lambda>user. ret \<lparr>bt_name = name, bt_actor = \<lparr>actor_user_id = u_id user, actor_role = role\<rparr>\<rparr>)))"

text \<open>The loop over the extras; \<open>fresh i\<close> is the identifier the \<open>i\<close>-th account would get.\<close>

fun extras :: "case_table \<Rightarrow> 's user_repo \<Rightarrow> datetime \<Rightarrow> (nat \<Rightarrow> uuid) \<Rightarrow> nat \<Rightarrow> str list \<Rightarrow> password_hash \<Rightarrow> bot list
    \<Rightarrow> ('s, bot list, app_error) cmd" where
  "extras lc urepo now fresh i [] hash bots = ret bots"
| "extras lc urepo now fresh i (name # names) hash bots =
     bind_cmd (account lc urepo now (fresh i) name RUser hash) (\<lambda>b.
     extras lc urepo now fresh (i + 1) names hash (bots @ [b]))"

record llm_config =
  lf_url :: str
  lf_model :: str
  lf_timeout :: nat

record demo_config =
  dc_bots :: nat
  dc_bot_password :: str
  dc_chat_every :: nat
  dc_bet_every :: nat
  dc_market_every :: nat
  dc_llm :: "llm_config option"

definition demo_config_default :: demo_config where
  "demo_config_default = \<lparr>dc_bots = 12, dc_bot_password = lit ''demo-password'', dc_chat_every = 15,
     dc_bet_every = 25, dc_market_every = 300, dc_llm = None\<rparr>"

definition default_model :: str where "default_model = lit ''qwen2.5:0.5b''"

definition default_timeout :: nat where "default_timeout = 10"

definition provision :: "case_table \<Rightarrow> 's user_repo \<Rightarrow> password_hasher \<Rightarrow> datetime \<Rightarrow> (nat \<Rightarrow> uuid) \<Rightarrow> demo_config
    \<Rightarrow> ('s, cast, app_error) cmd" where
  "provision lc urepo hasher now fresh config =
     bind_cmd (lift (map_err Domain (password_new (dc_bot_password config)))) (\<lambda>password.
     bind_cmd (lift (map_err app_of_auth (ph_hash hasher password))) (\<lambda>hash.
     bind_cmd (account lc urepo now (fresh 0) host_name RAdmin hash) (\<lambda>host.
     bind_cmd (extras lc urepo now fresh 1
         (take (min (dc_bots config - 1) (length bot_names)) bot_names) hash [host]) (\<lambda>bots.
     ret \<lparr>ca_host = host, ca_bots = bots\<rparr>))))"

section \<open>What is on the board\<close>

definition market_sample :: int where "market_sample = 50"

definition open_markets :: "'s market_repo \<Rightarrow> ('s, market_view list, app_error) cmd" where
  "open_markets mrepo = list_markets mrepo
     (market_filter_default\<lparr>mf_status := Some Open, mf_sort := Newest, mf_limit := market_sample\<rparr>)"

section \<open>The bettor\<close>

definition min_stake :: int where "min_stake = 50"
definition max_stake :: int where "max_stake = 900"
definition stake_step :: int where "stake_step = 25"

definition stake :: "nat \<Rightarrow> int" where
  "stake r = (let l = min_stake div stake_step; h = max_stake div stake_step in
     (l + int r mod (h - l + 1)) * stake_step)"

definition pick_outcome :: "outcome list \<Rightarrow> nat \<Rightarrow> nat \<Rightarrow> (outcome, app_error) result" where
  "pick_outcome os coin r =
     (case (if heads coin then max_by_key (\<lambda>oc. as_ten_thousandths (o_current_price oc)) os else draw_one r os) of
       Some oc \<Rightarrow> Ok oc
     | None \<Rightarrow> first_or_panic os)"

definition top_up :: "'s user_repo \<Rightarrow> datetime \<Rightarrow> bot \<Rightarrow> int \<Rightarrow> ('s, unit, app_error) cmd" where
  "top_up urepo now b amount =
     bind_cmd (conv app_of_repo (ur_find_by_id urepo (actor_user_id (bt_actor b)))) (\<lambda>found.
     bind_cmd (lift (ok_or found (NotFound [Lit ''bot '', TextF (bt_name b)]))) (\<lambda>user.
     if u_balance user \<ge> amount then ret ()
     else
     let target = max starting_balance amount in
     bind_cmd (lift (map_err Domain (credit now (wrap_i64 (target - u_balance user)) user))) (\<lambda>user.
     seq_cmd (conv app_of_repo (ur_save urepo user)) (ret ()))))"

definition bettor_tick :: "'s market_repo \<Rightarrow> 's bet_repo \<Rightarrow> 's user_repo \<Rightarrow> cast \<Rightarrow> (nat \<Rightarrow> nat) \<Rightarrow> clock \<Rightarrow> uuid
    \<Rightarrow> ('s, unit, app_error) cmd" where
  "bettor_tick mrepo brepo urepo ca d clock fresh =
     (let now = clock 0 in
     bind_cmd (open_markets mrepo) (\<lambda>views.
     let tradable = filter (\<lambda>v. accepts_bets now (mv_market v) \<and> length (mv_outcomes v) \<ge> 2) views in
     case draw_one (d 0) tradable of
       None \<Rightarrow> ret ()
     | Some view \<Rightarrow>
         let b = anyone ca (d 1) in
         bind_cmd (lift (pick_outcome (mv_outcomes view) (d 2) (d 3))) (\<lambda>oc.
         let amount = stake (d 4) in
         seq_cmd (top_up urepo (clock 1) b amount)
         (seq_cmd (place_bet mrepo brepo urepo (\<lambda>i. clock (i + 2)) fresh (bt_actor b)
             \<lparr>nb_outcome_id = o_id oc, nb_amount = amount\<rparr>)
           (ret ())))))"

section \<open>The market maker\<close>

definition pick_winner :: "outcome list \<Rightarrow> nat \<Rightarrow> (outcome, app_error) result" where
  "pick_winner os r =
     (case choose_weighted (\<lambda>oc. max (as_ten_thousandths (o_current_price oc)) 1) r os of
       Some oc \<Rightarrow> Ok oc
     | None \<Rightarrow> first_or_panic os)"

definition open_market :: "'s chat_repo \<Rightarrow> 's user_repo \<Rightarrow> 's market_repo \<Rightarrow> int \<Rightarrow> cast \<Rightarrow> nat \<Rightarrow> clock \<Rightarrow> uuid
    \<Rightarrow> (nat \<Rightarrow> uuid) \<Rightarrow> uuid \<Rightarrow> ('s, unit, app_error) cmd" where
  "open_market crepo urepo mrepo hour ca r clock fresh ids fresh_msg =
     bind_cmd (open_markets mrepo) (\<lambda>live.
     let available = filter (\<lambda>t. \<not> list_ex (\<lambda>v. title_as_str (m_title (mv_market v)) = mt_title t) live) market_templates in
     case draw_one r available of
       None \<Rightarrow> ret ()
     | Some t \<Rightarrow>
         seq_cmd (create_market mrepo (\<lambda>i. clock (i + 1)) fresh ids (bt_actor (ca_host ca))
             \<lparr>nm_title = mt_title t, nm_description = Some (mt_description t), nm_category = Some (mt_category t),
              nm_closes_at = Some (clock 0 + hour * mt_open_for_hours t), nm_outcomes = mt_outcomes t\<rparr>)
         (seq_cmd (post_message crepo urepo mrepo (\<lambda>i. clock (i + 3)) fresh_msg (actor_user_id (bt_actor (ca_host ca)))
             Global (lit ''new market open: '' @ mt_title t @ [32, 0x1F4CA]) None)
           (ret ())))"

definition settle_expired :: "'s chat_repo \<Rightarrow> 's user_repo \<Rightarrow> 's market_repo \<Rightarrow> 's bet_repo \<Rightarrow> cast \<Rightarrow> (nat \<Rightarrow> nat)
    \<Rightarrow> clock \<Rightarrow> uuid \<Rightarrow> ('s, unit, app_error) cmd" where
  "settle_expired crepo urepo mrepo brepo ca d clock fresh_msg =
     (let now = clock 0 in
     bind_cmd (open_markets mrepo) (\<lambda>live.
     let expired = filter (\<lambda>v. \<not> accepts_bets now (mv_market v) \<and> length (mv_outcomes v) \<ge> 2) live in
     case draw_one (d 0) expired of
       None \<Rightarrow> ret ()
     | Some view \<Rightarrow>
         bind_cmd (lift (pick_winner (mv_outcomes view) (d 1))) (\<lambda>winner.
         seq_cmd (resolve_market mrepo brepo (\<lambda>i. clock (i + 1)) (bt_actor (ca_host ca)) (m_id (mv_market view)) (o_id winner))
         (seq_cmd (post_message crepo urepo mrepo (\<lambda>i. clock (i + 2)) fresh_msg (actor_user_id (bt_actor (ca_host ca)))
             (Market (m_id (mv_market view)))
             (lit ''resolved: '' @ label_as_str (o_label winner) @ (32 # 0x1F3C1 # lit '' paying out now'')) None)
           (ret ())))))"

text \<open>The identifiers a round of the maker draws.\<close>

record round_ids =
  ri_settled_msg :: uuid
  ri_market :: uuid
  ri_outcomes :: "nat \<Rightarrow> uuid"
  ri_opened_msg :: uuid

definition maker_tick :: "'s chat_repo \<Rightarrow> 's user_repo \<Rightarrow> 's market_repo \<Rightarrow> 's bet_repo \<Rightarrow> int \<Rightarrow> cast \<Rightarrow> (nat \<Rightarrow> nat)
    \<Rightarrow> clock \<Rightarrow> round_ids \<Rightarrow> ('s, unit, app_error) cmd" where
  "maker_tick crepo urepo mrepo brepo hour ca d clock ids =
     seq_cmd (settle_expired crepo urepo mrepo brepo ca d clock (ri_settled_msg ids))
       (open_market crepo urepo mrepo hour ca (d 2) (\<lambda>i. clock (i + 3)) (ri_market ids) (ri_outcomes ids) (ri_opened_msg ids))"

section \<open>The chatter\<close>

definition history_depth :: int where "history_depth = 20"

definition pick :: "str list \<Rightarrow> nat \<Rightarrow> str" where
  "pick ls r = (case draw_one r ls of Some l \<Rightarrow> l | None \<Rightarrow> lit ''gm'')"

text \<open>\<open>str::replace\<close>, left to right; the number counts what is left of a match.\<close>

fun replace_from :: "str \<Rightarrow> str \<Rightarrow> nat \<Rightarrow> str \<Rightarrow> str" where
  "replace_from p t k [] = []"
| "replace_from p t (Suc k) (x # xs) = replace_from p t k xs"
| "replace_from p t 0 (x # xs) =
     (if is_prefix_of p (x # xs) then t @ replace_from p t (length p - 1) xs else x # replace_from p t 0 xs)"

definition replace_all :: "str \<Rightarrow> str \<Rightarrow> str \<Rightarrow> str" where
  "replace_all p t s = replace_from p t 0 s"

definition pick_room :: "'s market_repo \<Rightarrow> nat \<Rightarrow> nat \<Rightarrow> datetime \<Rightarrow> ('s, market_view option, app_error) cmd" where
  "pick_room mrepo coin r now =
     (if \<not> heads coin then ret None
      else bind_cmd (open_markets mrepo) (\<lambda>views.
        ret (draw_one r (filter (\<lambda>v. accepts_bets now (mv_market v) \<and> mv_outcomes v \<noteq> []) views))))"

definition canned_line :: "(price \<Rightarrow> str) \<Rightarrow> market_view option \<Rightarrow> (nat \<Rightarrow> nat) \<Rightarrow> str" where
  "canned_line percent place d =
     (case place of
       None \<Rightarrow> pick global_lines (d 1)
     | Some view \<Rightarrow>
         if \<not> heads (d 0) then pick global_lines (d 1)
         else (case draw_one (d 1) (mv_outcomes view) of
           None \<Rightarrow> pick global_lines (d 2)
         | Some oc \<Rightarrow>
             replace_all (lit ''{title}'') (title_as_str (m_title (mv_market view)))
               (replace_all (lit ''{price}'') (percent (o_current_price oc))
                 (replace_all (lit ''{outcome}'') (label_as_str (o_label oc)) (pick market_lines (d 2))))))"

definition chatter_line :: "(price \<Rightarrow> str) \<Rightarrow> llm option \<Rightarrow> scene \<Rightarrow> (nat \<Rightarrow> nat) \<Rightarrow> str" where
  "chatter_line percent model scene d =
     (case (case model of None \<Rightarrow> None | Some llm \<Rightarrow> llm_line percent llm scene) of
       Some line \<Rightarrow> line
     | None \<Rightarrow> canned_line percent (sc_market scene) d)"

definition chatter_reply :: "(price \<Rightarrow> str) \<Rightarrow> llm option \<Rightarrow> scene \<Rightarrow> chat_message_view \<Rightarrow> nat \<Rightarrow> str" where
  "chatter_reply percent model scene target r =
     (case (case model of None \<Rightarrow> None | Some llm \<Rightarrow> llm_reply percent llm scene target) of
       Some reply \<Rightarrow> reply
     | None \<Rightarrow> pick reply_lines r)"

definition someone_else :: "chat_message_view list \<Rightarrow> user_id \<Rightarrow> chat_message_view list option" where
  "someone_else recent i =
     (let others = filter (\<lambda>v. u_id (cv_author v) \<noteq> i) recent in if others \<noteq> [] then Some others else None)"

definition chatter_react :: "'s chat_repo \<Rightarrow> llm option \<Rightarrow> bot \<Rightarrow> chat_message_view list \<Rightarrow> (nat \<Rightarrow> nat)
    \<Rightarrow> ('s, unit, app_error) cmd" where
  "chatter_react crepo model b recent d =
     (case draw_one (d 0) recent of
       None \<Rightarrow> ret ()
     | Some target \<Rightarrow>
         let emoji = (case (case model of None \<Rightarrow> None | Some llm \<Rightarrow> llm_reaction llm target) of
             Some e \<Rightarrow> e
           | None \<Rightarrow> pick reactions_pool (d 1));
           m = c_id (cv_message target) in
         seq_cmd (if heads (d 2) then react_remove crepo (actor_user_id (bt_actor b)) m emoji
             else react_add crepo (actor_user_id (bt_actor b)) m emoji)
           (ret ()))"

definition chatter_tick :: "'s chat_repo \<Rightarrow> 's user_repo \<Rightarrow> 's market_repo \<Rightarrow> (price \<Rightarrow> str) \<Rightarrow> llm option \<Rightarrow> cast
    \<Rightarrow> (nat \<Rightarrow> nat) \<Rightarrow> clock \<Rightarrow> uuid \<Rightarrow> ('s, unit, app_error) cmd" where
  "chatter_tick crepo urepo mrepo percent model ca d clock fresh =
     (let b = anyone ca (d 0); i = actor_user_id (bt_actor b) in
     bind_cmd (pick_room mrepo (d 1) (d 2) (clock 0)) (\<lambda>place.
     let channel = (case place of None \<Rightarrow> Global | Some view \<Rightarrow> Market (m_id (mv_market view))) in
     bind_cmd (list_recent_messages crepo urepo mrepo i channel history_depth
         \<lparr>hw_before = None, hw_after = None\<rparr>) (\<lambda>recent.
     if recent \<noteq> [] \<and> heads (d 3) then chatter_react crepo model b recent (\<lambda>j. d (j + 4))
     else
     let reply_to = (case someone_else recent i of
           None \<Rightarrow> None
         | Some others \<Rightarrow> if heads (d 4) then draw_one (d 5) others else None);
         scene = \<lparr>sc_bot = bt_name b, sc_market = place, sc_recent = recent\<rparr>;
         body = (case reply_to of
           Some target \<Rightarrow> chatter_reply percent model scene target (d 6)
         | None \<Rightarrow> chatter_line percent model scene (\<lambda>j. d (j + 6))) in
     seq_cmd (post_message crepo urepo mrepo (\<lambda>j. clock (j + 1)) fresh i channel body
         (map_option (\<lambda>v. c_id (cv_message v)) reply_to))
       (ret ()))))"

section \<open>Starting\<close>

text \<open>Failing to provision disables the demo and nothing else.  Building the model's client is outside.\<close>

definition connect_model :: "(llm_config \<Rightarrow> llm option) \<Rightarrow> llm_config \<Rightarrow> llm option" where
  "connect_model build config = (case build config of Some l \<Rightarrow> Some l | None \<Rightarrow> None)"

definition start_demo :: "case_table \<Rightarrow> 's user_repo \<Rightarrow> password_hasher \<Rightarrow> datetime \<Rightarrow> (nat \<Rightarrow> uuid)
    \<Rightarrow> (llm_config \<Rightarrow> llm option) \<Rightarrow> demo_config \<Rightarrow> ('s, (cast \<times> llm option) option, app_error) cmd" where
  "start_demo lc urepo hasher now fresh build config s =
     (case provision lc urepo hasher now fresh config s of
       (Ok ca, t) \<Rightarrow> (Ok (Some (ca, (case dc_llm config of None \<Rightarrow> None | Some c \<Rightarrow> connect_model build c))), t)
     | (Err e, t) \<Rightarrow> (Ok None, t)
     | (Panic, t) \<Rightarrow> (Panic, t))"

end
