(* ===== verification/DemoCast.thy ===== *)
theory DemoCast
  imports DemoBots
begin

text \<open>
  The cast of the demo over the in-memory stores: what provisioning leaves behind, that a restart
  resumes the cast it finds, and who may find itself in it.
\<close>

section \<open>The names are accepted as they stand\<close>

lemma trim_free:
  assumes "\<forall>c\<in>set s. \<not> is_whitespace c"
  shows "trim s = s"
proof -
  have "dropWhile is_whitespace s = s" by (rule dropWhile_eq_self_iff [THEN iffD2]) (use assms in \<open>cases s; auto\<close>)
  moreover have "dropWhile is_whitespace (rev s) = rev s"
    by (rule dropWhile_eq_self_iff [THEN iffD2]) (use assms hd_in_set [of "rev s"] in auto)
  ultimately show ?thesis by (simp add: trim_def)
qed

definition cast_names :: "str list" where
  "cast_names = host_name # bot_names"

lemma domain_accepted: "ascii email_domain \<and> map ascii_lower email_domain = email_domain \<and> \<not> list_ex is_whitespace email_domain"
  by code_simp

lemma bot_email_new:
  assumes "name \<in> set cast_names"
  shows "email_new lc (bot_email name) = Ok (Email (bot_email name))"
proof -
  have name: "ascii name" "map ascii_lower name = name" "\<not> list_ex is_whitespace name" "email_shape (bot_email name)"
    using assms bot_names_accepted by (auto simp: cast_names_def list_all_iff simp del: list.pred_inject)
  have "trim (bot_email name) = bot_email name"
  proof (rule trim_free)
    have "\<not> is_whitespace 64" by (simp add: is_whitespace_def)
    then show "\<forall>c\<in>set (bot_email name). \<not> is_whitespace c"
      using name(3) domain_accepted by (auto simp: bot_email_def list_ex_iff)
  qed
  moreover have "ascii (bot_email name)" "map ascii_lower (bot_email name) = bot_email name"
    using name domain_accepted by (auto simp: bot_email_def ascii_def ascii_lower_def)
  ultimately show ?thesis using name(4) by (simp add: email_new_Ok to_lowercase_ascii)
qed

lemma bot_username_new:
  assumes "name \<in> set cast_names"
  shows "username_new name = Ok (Username name)"
proof -
  have "is_ok (username_new name)" "\<not> list_ex is_whitespace name"
    using assms bot_names_accepted by (auto simp: cast_names_def list_all_iff simp del: list.pred_inject)
  then show ?thesis using trim_free [of name] by (auto simp: is_ok_iff username_new_Ok list_ex_iff)
qed

lemma bot_email_inject: "bot_email n = bot_email n' \<longleftrightarrow> n = n'"
  by (simp add: bot_email_def)

lemma cast_names_distinct: "distinct cast_names"
  using bot_names_distinct by (simp add: cast_names_def)

lemma length_bot_names: "length bot_names = 16"
  by (simp add: bot_names_def)

section \<open>One account\<close>

definition emails_unique :: "'z world \<Rightarrow> bool" where
  "emails_unique s \<longleftrightarrow> (\<forall>i j u v. lookup_user s i = Some u \<longrightarrow> lookup_user s j = Some v \<longrightarrow> u_email u = u_email v \<longrightarrow> i = j)"

text \<open>A bot plays when its account is stored under its address with its role.\<close>

definition plays :: "'z world \<Rightarrow> bot \<Rightarrow> bool" where
  "plays s b \<longleftrightarrow> (\<exists>u. lookup_user s (actor_user_id (bt_actor b)) = Some u
     \<and> u_email u = Email (bot_email (bt_name b)) \<and> u_role u = actor_role (bt_actor b))"

text \<open>Accounts of \<open>s\<close> in \<open>t\<close>: only roles and times of update differ, and new ones are bots of \<open>bs\<close>.\<close>

definition recast :: "'z world \<Rightarrow> bot list \<Rightarrow> 'z world \<Rightarrow> bool" where
  "recast s bs t \<longleftrightarrow> (\<exists>us. t = s\<lparr>users := us\<rparr>) \<and> users_wf t \<and> emails_unique t
     \<and> (\<forall>i u. lookup_user s i = Some u \<longrightarrow> (\<exists>v. lookup_user t i = Some v
          \<and> v = u\<lparr>u_role := u_role v, u_updated_at := u_updated_at v\<rparr>
          \<and> (u_email u \<notin> (\<lambda>b. Email (bot_email (bt_name b))) ` set bs \<longrightarrow> v = u)))
     \<and> (\<forall>i v. lookup_user s i = None \<longrightarrow> lookup_user t i = Some v \<longrightarrow>
          u_balance v = starting_balance \<and> (\<exists>b\<in>set bs. i = actor_user_id (bt_actor b)))"

lemma find_email:
  assumes "users_wf s"
  shows "case find (\<lambda>u. u_email u = e) (map snd (users s)) of
    None \<Rightarrow> \<forall>i u. lookup_user s i = Some u \<longrightarrow> u_email u \<noteq> e
  | Some u \<Rightarrow> lookup_user s (u_id u) = Some u \<and> u_email u = e"
  using mem_users.find_by_email [of s e "find (\<lambda>u. u_email u = e) (map snd (users s))" s] assms
  by (simp add: mem_simps cmd_simps split: option.splits)

lemma users_wf_id: "users_wf s \<Longrightarrow> lookup_user s i = Some u \<Longrightarrow> u_id u = i"
  by (auto simp: users_wf_def user_map_wf_def lookup_user_def dest!: map_of_SomeD)

lemma users_wf_update: "users_wf s \<Longrightarrow> users_wf (s\<lparr>users := AList.update (u_id u) u (users s)\<rparr>)"
  using user_map_wf_update by (simp add: users_wf_def)

lemma lookup_update: "lookup_user (s\<lparr>users := AList.update i u (users s)\<rparr>) = (lookup_user s)(i \<mapsto> u)"
  by (simp add: lookup_user_def update_conv')

lemma account_existing:
  assumes name: "name \<in> set cast_names" and wf: "users_wf s" "emails_unique s"
    and u: "lookup_user s i = Some u" "u_email u = Email (bot_email name)"
  shows "account lc mem_user_repo now fresh name role hash s
    = (Ok \<lparr>bt_name = name, bt_actor = \<lparr>actor_user_id = i, actor_role = role\<rparr>\<rparr>,
       if u_role u = role then s else s\<lparr>users := AList.update i (set_role now role u) (users s)\<rparr>)"
proof -
  have "find (\<lambda>u. u_email u = Email (bot_email name)) (map snd (users s)) = Some u"
  proof (cases "find (\<lambda>u. u_email u = Email (bot_email name)) (map snd (users s))")
    case None
    then show ?thesis using find_email [OF wf(1), of "Email (bot_email name)"] u by simp
  next
    case (Some a)
    then have a: "lookup_user s (u_id a) = Some a" "u_email a = Email (bot_email name)"
      using find_email [OF wf(1), of "Email (bot_email name)"] by simp_all
    then have "u_id a = i" using wf(2) u unfolding emails_unique_def by metis
    then show ?thesis using Some a(1) u(1) by simp
  qed
  then show ?thesis using users_wf_id [OF wf(1) u(1)]
    by (simp add: account_def bot_email_new [OF name] mem_simps cmd_simps set_role_def Let_def)
qed

lemma account_new:
  assumes name: "name \<in> set cast_names" and wf: "users_wf s"
    and none: "\<And>i u. lookup_user s i = Some u \<Longrightarrow> u_email u \<noteq> Email (bot_email name)"
  shows "account lc mem_user_repo now fresh name role hash s
    = (Ok \<lparr>bt_name = name, bt_actor = \<lparr>actor_user_id = UserId fresh, actor_role = role\<rparr>\<rparr>,
       s\<lparr>users := AList.update (UserId fresh)
         (set_role now role (user_new fresh now (Username name) (Email (bot_email name)) hash)) (users s)\<rparr>)"
proof -
  have "find (\<lambda>u. u_email u = Email (bot_email name)) (map snd (users s)) = None"
    using find_email [OF wf, of "Email (bot_email name)"] none
    by (cases "find (\<lambda>u. u_email u = Email (bot_email name)) (map snd (users s))") auto
  then show ?thesis
    by (simp add: account_def bot_email_new [OF name] bot_username_new [OF name] mem_simps cmd_simps set_role_def user_new_def Let_def)
qed

text \<open>Only the address is looked up: a name somebody else has taken is stored a second time.\<close>

lemma taken_name_twice:
  assumes name: "name \<in> set cast_names" and wf: "users_wf s" and fresh: "lookup_user s (UserId fresh) = None"
    and none: "\<And>i u. lookup_user s i = Some u \<Longrightarrow> u_email u \<noteq> Email (bot_email name)"
    and taken: "lookup_user s i = Some u" "u_username u = Username name"
  shows "\<exists>b t v. account lc mem_user_repo now fresh name role hash s = (Ok b, t) \<and> UserId fresh \<noteq> i
    \<and> lookup_user t i = Some u \<and> lookup_user t (UserId fresh) = Some v \<and> u_username v = u_username u"
proof -
  have "UserId fresh \<noteq> i" using fresh taken(1) by auto
  then show ?thesis
    using account_new [OF name wf, of lc now fresh role hash] none taken
    by (simp add: lookup_update set_role_def user_new_def)
qed

lemma recast_refl: "users_wf s \<Longrightarrow> emails_unique s \<Longrightarrow> recast s bs s"
  by (auto simp: recast_def intro: exI [of _ "users s"])

lemma account_run:
  assumes name: "name \<in> set cast_names" and wf: "users_wf s" "emails_unique s"
    and fresh: "lookup_user s (UserId fresh) = None"
  shows "\<exists>b t. account lc mem_user_repo now fresh name role hash s = (Ok b, t) \<and> bt_name b = name
    \<and> actor_role (bt_actor b) = role \<and> plays t b \<and> recast s [b] t
    \<and> (\<forall>b'. plays s b' \<longrightarrow> bt_name b' \<noteq> name \<longrightarrow> plays t b')
    \<and> dom (lookup_user t) \<subseteq> insert (UserId fresh) (dom (lookup_user s))"
proof (cases "\<exists>i u. lookup_user s i = Some u \<and> u_email u = Email (bot_email name)")
  case True
  then obtain i u where u: "lookup_user s i = Some u" "u_email u = Email (bot_email name)" by blast
  note run = account_existing [OF name wf u, of lc now fresh role hash]
  show ?thesis
  proof (cases "u_role u = role")
    case True
    then show ?thesis using run u recast_refl [OF wf] by (auto simp: plays_def)
  next
    case False
    let ?t = "s\<lparr>users := AList.update i (set_role now role u) (users s)\<rparr>"
    have id: "u_id (set_role now role u) = i" using users_wf_id [OF wf(1) u(1)] by (simp add: set_role_def)
    have "users_wf ?t" using users_wf_update [OF wf(1), of "set_role now role u"] id by simp
    moreover have "emails_unique ?t" using wf(2) u unfolding emails_unique_def lookup_update
      by (auto simp: set_role_def)
    ultimately show ?thesis using run u False
      by (auto simp: plays_def recast_def lookup_update set_role_def bot_email_inject)
  qed
next
  case False
  then have none: "\<And>i u. lookup_user s i = Some u \<Longrightarrow> u_email u \<noteq> Email (bot_email name)" by blast
  let ?u = "set_role now role (user_new fresh now (Username name) (Email (bot_email name)) hash)"
  let ?t = "s\<lparr>users := AList.update (UserId fresh) ?u (users s)\<rparr>"
  have mail: "u_email ?u = Email (bot_email name)" by (simp add: set_role_def user_new_def)
  have "users_wf ?t" using users_wf_update [OF wf(1), of ?u] by (simp add: set_role_def user_new_def)
  moreover have "emails_unique ?t" using wf(2) none mail unfolding emails_unique_def lookup_update
    by (metis fun_upd_apply option.inject)
  ultimately show ?thesis using account_new [OF name wf(1), of lc now fresh role hash] none fresh
    by (auto simp: plays_def recast_def lookup_update set_role_def user_new_def)
qed

lemma account_again:
  assumes "plays s b" "bt_name b \<in> set cast_names" "users_wf s" "emails_unique s"
  shows "account lc mem_user_repo now fresh (bt_name b) (actor_role (bt_actor b)) hash s = (Ok b, s)"
proof -
  obtain u where "lookup_user s (actor_user_id (bt_actor b)) = Some u" "u_email u = Email (bot_email (bt_name b))"
      "u_role u = actor_role (bt_actor b)"
    using assms(1) by (auto simp: plays_def)
  then show ?thesis using account_existing [OF assms(2-4)] by simp
qed

section \<open>Provisioning\<close>

lemma recast_trans:
  assumes "recast s bs t" "recast t cs r"
  shows "recast s (bs @ cs) r"
proof -
  have old: "\<exists>w. lookup_user r i = Some w \<and> w = u\<lparr>u_role := u_role w, u_updated_at := u_updated_at w\<rparr>
      \<and> (u_email u \<notin> (\<lambda>b. Email (bot_email (bt_name b))) ` set (bs @ cs) \<longrightarrow> w = u)"
    if u: "lookup_user s i = Some u" for i u
  proof -
    obtain v where v: "lookup_user t i = Some v" "v = u\<lparr>u_role := u_role v, u_updated_at := u_updated_at v\<rparr>"
        "u_email u \<notin> (\<lambda>b. Email (bot_email (bt_name b))) ` set bs \<longrightarrow> v = u"
      using assms(1) u unfolding recast_def by blast
    obtain w where w: "lookup_user r i = Some w" "w = v\<lparr>u_role := u_role w, u_updated_at := u_updated_at w\<rparr>"
        "u_email v \<notin> (\<lambda>b. Email (bot_email (bt_name b))) ` set cs \<longrightarrow> w = v"
      using assms(2) v(1) unfolding recast_def by blast
    have "w = u\<lparr>u_role := u_role w, u_updated_at := u_updated_at w\<rparr>" using v(2) w(2) by (cases u; cases v; cases w) simp
    then show ?thesis using v(3) w(1,3) by auto
  qed
  have new: "u_balance w = starting_balance \<and> (\<exists>b\<in>set (bs @ cs). i = actor_user_id (bt_actor b))"
    if w: "lookup_user s i = None" "lookup_user r i = Some w" for i w
  proof (cases "lookup_user t i")
    case None
    then show ?thesis using assms(2) w(2) unfolding recast_def by (metis Un_iff set_append)
  next
    case (Some v)
    then have "u_balance v = starting_balance" "\<exists>b\<in>set bs. i = actor_user_id (bt_actor b)"
      using assms(1) w(1) unfolding recast_def by blast+
    moreover obtain w' where "lookup_user r i = Some w'" "w' = v\<lparr>u_role := u_role w', u_updated_at := u_updated_at w'\<rparr>"
      using assms(2) Some unfolding recast_def by blast
    moreover have "u_balance (v\<lparr>u_role := x, u_updated_at := y\<rparr>) = u_balance v" for x y by simp
    ultimately show ?thesis using w(2) by (metis Un_iff option.inject set_append)
  qed
  show ?thesis using assms old new unfolding recast_def by (auto 0 3)
qed

lemma extras_run:
  assumes "set names \<subseteq> set cast_names" "users_wf s" "emails_unique s" "distinct names"
    "\<forall>k<length names. lookup_user s (UserId (fresh (i + k))) = None"
    "inj_on fresh {..16}" "i + length names \<le> 17"
  shows "\<exists>bs t. extras lc mem_user_repo now fresh i names hash acc s = (Ok (acc @ bs), t) \<and> map bt_name bs = names
    \<and> (\<forall>b\<in>set bs. actor_role (bt_actor b) = RUser \<and> plays t b) \<and> recast s bs t
    \<and> (\<forall>b'. plays s b' \<longrightarrow> bt_name b' \<notin> set names \<longrightarrow> plays t b')"
  using assms
proof (induction names arbitrary: s i acc)
  case Nil
  then show ?case using recast_refl by (auto simp: ret_def)
next
  case (Cons name names)
  have fr: "lookup_user s (UserId (fresh i)) = None" using Cons.prems(5) by (auto dest: spec [of _ 0])
  obtain b t where run: "account lc mem_user_repo now (fresh i) name RUser hash s = (Ok b, t)" "bt_name b = name"
      "actor_role (bt_actor b) = RUser" "plays t b" "recast s [b] t"
      "\<And>b'. plays s b' \<Longrightarrow> bt_name b' \<noteq> name \<Longrightarrow> plays t b'"
      "dom (lookup_user t) \<subseteq> insert (UserId (fresh i)) (dom (lookup_user s))"
    using account_run [OF _ Cons.prems(2,3) fr, of name lc now RUser hash] Cons.prems(1) by auto
  have wf: "users_wf t" "emails_unique t" using run(5) by (simp_all add: recast_def)
  have "lookup_user t (UserId (fresh (i + 1 + k))) = None" if "k < length names" for k
  proof -
    have "lookup_user s (UserId (fresh (i + Suc k))) = None" using Cons.prems(5) that
      by (metis Suc_less_eq length_Cons)
    moreover have "fresh (i + Suc k) \<noteq> fresh i"
      using inj_onD [OF Cons.prems(6), of "i + Suc k" i] Cons.prems(7) that by auto
    ultimately show ?thesis using run(7) by (auto simp: domIff)
  qed
  then obtain bs r where rest: "extras lc mem_user_repo now fresh (i + 1) names hash (acc @ [b]) t = (Ok ((acc @ [b]) @ bs), r)"
      "map bt_name bs = names" "\<forall>b\<in>set bs. actor_role (bt_actor b) = RUser \<and> plays r b" "recast t bs r"
      "\<And>b'. plays t b' \<Longrightarrow> bt_name b' \<notin> set names \<Longrightarrow> plays r b'"
    using Cons.IH [of t "i + 1" "acc @ [b]"] wf Cons.prems by auto
  have "plays r b" using rest(5) run(2,4) Cons.prems(4) by simp
  then show ?case
    using run rest recast_trans [OF run(5) rest(4)]
    by (intro exI [of _ "b # bs"] exI [of _ r]) (auto simp: bind_cmd_def)
qed

lemma extras_again:
  assumes "\<forall>b\<in>set bs. plays s b \<and> bt_name b \<in> set cast_names \<and> actor_role (bt_actor b) = RUser" "users_wf s" "emails_unique s"
  shows "extras lc mem_user_repo now fresh i (map bt_name bs) hash acc s = (Ok (acc @ bs), s)"
  using assms
proof (induction bs arbitrary: i acc)
  case (Cons b bs)
  have "account lc mem_user_repo now (fresh i) (bt_name b) RUser hash s = (Ok b, s)"
    using account_again [of s b lc now "fresh i" hash] Cons.prems by simp
  then show ?case using Cons by (simp add: bind_cmd_def)
qed (simp add: ret_def)

text \<open>What provisioning answers and leaves behind.\<close>

definition in_play :: "nat \<Rightarrow> cast \<Rightarrow> 'z world \<Rightarrow> bool" where
  "in_play n ca t \<longleftrightarrow> map bt_name (ca_bots ca) = take (max n 1) cast_names \<and> ca_host ca = hd (ca_bots ca)
     \<and> actor_role (bt_actor (ca_host ca)) = RAdmin
     \<and> (\<forall>b\<in>set (tl (ca_bots ca)). actor_role (bt_actor b) = RUser)
     \<and> (\<forall>b\<in>set (ca_bots ca). plays t b)"

lemma provision_run:
  assumes "users_wf s" "emails_unique s" "password_new (dc_bot_password config) = Ok pw" "ph_hash hasher pw = Ok hash"
    "inj_on fresh {..16}" "\<forall>k\<le>16. lookup_user s (UserId (fresh k)) = None"
  shows "\<exists>ca t. provision lc mem_user_repo hasher now fresh config s = (Ok ca, t)
    \<and> in_play (dc_bots config) ca t \<and> recast s (ca_bots ca) t"
proof -
  let ?names = "take (min (dc_bots config - 1) (length bot_names)) bot_names"
  have names: "set (host_name # ?names) \<subseteq> set cast_names" "distinct (host_name # ?names)"
    using cast_names_distinct by (auto simp: cast_names_def dest: in_set_takeD)
  obtain h t where host: "account lc mem_user_repo now (fresh 0) host_name RAdmin hash s = (Ok h, t)" "bt_name h = host_name"
      "actor_role (bt_actor h) = RAdmin" "plays t h" "recast s [h] t"
      "dom (lookup_user t) \<subseteq> insert (UserId (fresh 0)) (dom (lookup_user s))"
    using account_run [OF _ assms(1,2), of host_name "fresh 0" lc now RAdmin hash] assms(6) names(1) by auto
  have wf: "users_wf t" "emails_unique t" using host(5) by (simp_all add: recast_def)
  have "lookup_user t (UserId (fresh (1 + k))) = None" if "k < length ?names" for k
  proof -
    have "lookup_user s (UserId (fresh (1 + k))) = None" using assms(6) that by (simp add: length_bot_names)
    moreover have "fresh (1 + k) \<noteq> fresh 0"
      using inj_onD [OF assms(5), of "1 + k" 0] that by (auto simp: length_bot_names)
    ultimately show ?thesis using host(6) by (auto simp: domIff)
  qed
  then obtain bs r where rest: "extras lc mem_user_repo now fresh 1 ?names hash [h] t = (Ok ([h] @ bs), r)"
      "map bt_name bs = ?names" "\<forall>b\<in>set bs. actor_role (bt_actor b) = RUser \<and> plays r b" "recast t bs r"
      "\<And>b'. plays t b' \<Longrightarrow> bt_name b' \<notin> set ?names \<Longrightarrow> plays r b'"
    using extras_run [of ?names t fresh 1 lc now hash "[h]"] wf names assms(5) by (auto simp: length_bot_names)
  let ?ca = "\<lparr>ca_host = h, ca_bots = h # bs\<rparr>"
  have "plays r h" using rest(5) [OF host(4)] host(2) names(2) by simp
  moreover have "take (max (dc_bots config) 1) cast_names = host_name # ?names"
    by (cases "dc_bots config") (simp_all add: cast_names_def max_def min_def)
  ultimately have "in_play (dc_bots config) ?ca r" using host rest by (auto simp: in_play_def)
  moreover have "provision lc mem_user_repo hasher now fresh config s = (Ok ?ca, r)"
    using assms(3,4) host(1) rest(1) by (simp add: provision_def cmd_simps)
  ultimately show ?thesis using recast_trans [OF host(5) rest(4)] by auto
qed

lemma provision_again:
  assumes "in_play (dc_bots config) ca s" "users_wf s" "emails_unique s"
    "password_new (dc_bot_password config) = Ok pw" "ph_hash hasher pw = Ok hash"
  shows "provision lc mem_user_repo hasher now fresh config s = (Ok ca, s)"
proof -
  let ?names = "take (min (dc_bots config - 1) (length bot_names)) bot_names"
  have all: "take (max (dc_bots config) 1) cast_names = host_name # ?names"
    by (cases "dc_bots config") (simp_all add: cast_names_def max_def min_def)
  obtain h bs where bots: "ca_bots ca = h # bs" "ca_host ca = h"
    using assms(1) all by (cases "ca_bots ca") (auto simp: in_play_def)
  then have p: "plays s h" "bt_name h = host_name" "actor_role (bt_actor h) = RAdmin" "map bt_name bs = ?names"
      "\<forall>b\<in>set bs. plays s b \<and> actor_role (bt_actor b) = RUser"
    using assms(1) all by (auto simp: in_play_def)
  have "bt_name b \<in> set cast_names" if "b \<in> set bs" for b
  proof -
    have "bt_name b \<in> set ?names" using that unfolding p(4) [symmetric] by simp
    then show ?thesis by (auto simp: cast_names_def dest: in_set_takeD)
  qed
  then have "extras lc mem_user_repo now fresh 1 ?names hash [h] s = (Ok ([h] @ bs), s)"
    using extras_again [of bs s lc now fresh 1 hash "[h]"] p assms(2,3) by auto
  moreover have "account lc mem_user_repo now (fresh 0) host_name RAdmin hash s = (Ok h, s)"
    using account_again [OF p(1) _ assms(2,3), of lc now "fresh 0" hash] p(2,3) by (simp add: cast_names_def)
  moreover have "\<lparr>ca_host = h, ca_bots = h # bs\<rparr> = ca" using bots by (cases ca) simp
  ultimately show ?thesis using assms(4,5) by (simp add: provision_def cmd_simps)
qed

lemma platform_users:
  assumes "platform_over R s"
  shows "users_wf s" "emails_unique s" "lookup_user s i = Some u \<Longrightarrow> user_wf u"
proof -
  show "users_wf s" using assms by (simp add: platform_over_def mem_inv_def)
  have "unique_accounts R (ledger_of s)" using assms by (simp add: platform_over_def)
  then show "emails_unique s" using unique_accountsD unfolding emails_unique_def clash_def by fastforce
  have "ledger_wf (ledger_of s)" using assms by (simp add: platform_over_def)
  then show "lookup_user s i = Some u \<Longrightarrow> user_wf u" by (simp add: ledger_wf_def users_ok_def)
qed

lemma provision_cast:
  assumes ok: "platform_over R s"
    and config: "password_new (dc_bot_password config) = Ok pw" "ph_hash hasher pw = Ok hash" "ph_hash hasher' pw = Ok hash'"
    and ids: "inj_on fresh {..16}" "\<forall>k\<le>16. lookup_user s (UserId (fresh k)) = None"
  shows "\<exists>ca t. provision lc mem_user_repo hasher now fresh config s = (Ok ca, t)
    \<and> map bt_name (ca_bots ca) = take (max (dc_bots config) 1) (host_name # bot_names)
    \<and> ca_host ca = hd (ca_bots ca)
    \<and> map (\<lambda>b. actor_role (bt_actor b)) (ca_bots ca) = RAdmin # replicate (length (ca_bots ca) - 1) RUser
    \<and> (\<forall>b\<in>set (ca_bots ca). \<exists>u. lookup_user t (actor_user_id (bt_actor b)) = Some u
         \<and> u_email u = Email (bot_email (bt_name b)) \<and> u_role u = actor_role (bt_actor b))
    \<and> (\<forall>i u. lookup_user s i = Some u \<longrightarrow> (\<exists>v. lookup_user t i = Some v
         \<and> v = u\<lparr>u_role := u_role v, u_updated_at := u_updated_at v\<rparr>
         \<and> (u_email u \<notin> (\<lambda>b. Email (bot_email (bt_name b))) ` set (ca_bots ca) \<longrightarrow> v = u)))
    \<and> (\<forall>i v. lookup_user s i = None \<longrightarrow> lookup_user t i = Some v \<longrightarrow> u_balance v = starting_balance)
    \<and> (\<exists>us. t = s\<lparr>users := us\<rparr>)
    \<and> provision lc mem_user_repo hasher' later fresh' config t = (Ok ca, t)"
proof -
  obtain ca t where run: "provision lc mem_user_repo hasher now fresh config s = (Ok ca, t)"
      "in_play (dc_bots config) ca t" "recast s (ca_bots ca) t"
    using provision_run [OF platform_users(1,2) [OF ok] config(1,2) ids] by blast
  have wf: "users_wf t" "emails_unique t" using run(3) by (simp_all add: recast_def)
  have again: "provision lc mem_user_repo hasher' later fresh' config t = (Ok ca, t)"
    by (rule provision_again [OF run(2) wf config(1,3)])
  obtain h bs where bots: "ca_bots ca = h # bs"
    using run(2) by (cases "ca_bots ca") (auto simp: in_play_def cast_names_def take_Cons split: nat.splits)
  have "map (\<lambda>b. actor_role (bt_actor b)) bs = replicate (length bs) RUser"
    using run(2) bots by (auto simp: in_play_def intro: map_replicate_const [THEN trans [rotated]] map_cong)
  then have roles: "map (\<lambda>b. actor_role (bt_actor b)) (ca_bots ca) = RAdmin # replicate (length (ca_bots ca) - 1) RUser"
    using run(2) bots unfolding in_play_def by auto
  note play = run(2) [unfolded in_play_def plays_def cast_names_def] and cast = run(3) [unfolded recast_def]
  show ?thesis
    by (intro exI [of _ ca] exI [of _ t] conjI run(1) again roles conjunct1 [OF play] conjunct1 [OF conjunct2 [OF play]]
        conjunct2 [OF conjunct2 [OF conjunct2 [OF conjunct2 [OF play]]]] conjunct1 [OF cast]
        conjunct1 [OF conjunct2 [OF conjunct2 [OF conjunct2 [OF cast]]]])
      (use cast in blast)
qed

text \<open>C37: Provisioning over the in-memory stores, on a platform in order whether or not the demo has been
  there before.  It fails in two ways, before it touches the store: a bot password the domain refuses,
  and a hasher that does not answer.  With an acceptable password, a hasher that answers and new
  identifiers drawn, it answers with the whole cast: the host first, as administrator, then as many of
  the named bots as configured, as plain users, each stored under its own address.  Nobody who was
  there loses more than a role, and only the holders of the cast's addresses may lose that; a new
  account has the starting balance.  Provisioning again, after a restart, answers the same cast and
  changes nothing.\<close>

theorem provision_resumes:
  assumes ok: "platform_over R s" and ids: "inj_on fresh {..16}" "\<forall>k\<le>16. lookup_user s (UserId (fresh k)) = None"
  shows "(\<forall>e. password_new (dc_bot_password config) = Err e \<longrightarrow>
      provision lc mem_user_repo hasher now fresh config s = (Err (Domain e), s))
    \<and> (\<forall>pw e. password_new (dc_bot_password config) = Ok pw \<longrightarrow> ph_hash hasher pw = Err e \<longrightarrow>
      provision lc mem_user_repo hasher now fresh config s = (Err (app_of_auth e), s))
    \<and> (\<forall>pw hash hash'. password_new (dc_bot_password config) = Ok pw \<longrightarrow> ph_hash hasher pw = Ok hash \<longrightarrow>
      ph_hash hasher' pw = Ok hash' \<longrightarrow>
      (\<exists>ca t. provision lc mem_user_repo hasher now fresh config s = (Ok ca, t)
      \<and> map bt_name (ca_bots ca) = take (max (dc_bots config) 1) (host_name # bot_names)
      \<and> ca_host ca = hd (ca_bots ca)
      \<and> map (\<lambda>b. actor_role (bt_actor b)) (ca_bots ca) = RAdmin # replicate (length (ca_bots ca) - 1) RUser
      \<and> (\<forall>b\<in>set (ca_bots ca). \<exists>u. lookup_user t (actor_user_id (bt_actor b)) = Some u
           \<and> u_email u = Email (bot_email (bt_name b)) \<and> u_role u = actor_role (bt_actor b))
      \<and> (\<forall>i u. lookup_user s i = Some u \<longrightarrow> (\<exists>v. lookup_user t i = Some v
           \<and> v = u\<lparr>u_role := u_role v, u_updated_at := u_updated_at v\<rparr>
           \<and> (u_email u \<notin> (\<lambda>b. Email (bot_email (bt_name b))) ` set (ca_bots ca) \<longrightarrow> v = u)))
      \<and> (\<forall>i v. lookup_user s i = None \<longrightarrow> lookup_user t i = Some v \<longrightarrow> u_balance v = starting_balance)
      \<and> (\<exists>us. t = s\<lparr>users := us\<rparr>)
      \<and> provision lc mem_user_repo hasher' later fresh' config t = (Ok ca, t)))"
proof (intro conjI allI impI)
  fix e assume "password_new (dc_bot_password config) = Err e"
  then show "provision lc mem_user_repo hasher now fresh config s = (Err (Domain e), s)"
    by (simp add: provision_def cmd_simps)
next
  fix pw e assume "password_new (dc_bot_password config) = Ok pw" "ph_hash hasher pw = Err e"
  then show "provision lc mem_user_repo hasher now fresh config s = (Err (app_of_auth e), s)"
    by (simp add: provision_def cmd_simps)
qed (rule provision_cast [OF ok _ _ _ ids])

definition small_demo :: demo_config where
  "small_demo = demo_config_default\<lparr>dc_bots := 2\<rparr>"

lemma empty_platform: "platform_ok empty_world"
  using reachable_platform [OF reachable.start [of "\<lambda>_ _. []" None "()"]] by (simp add: empty_world_def)

lemma small_ids: "inj_on (\<lambda>k. 10 + of_nat k :: uuid) {..16}"
proof (rule inj_onI)
  fix a b :: nat assume "a \<in> {..16}" "b \<in> {..16}" "10 + of_nat a = (10 + of_nat b :: uuid)"
  then have "(of_nat a :: uuid) = of_nat b" "a < 2 ^ 128" "b < 2 ^ 128" by simp_all
  then show "a = b" by (simp add: word_of_nat_eq_iff take_bit_nat_eq_self)
qed

lemma provision_resumes_witness:
  "\<exists>ca t. provision (\<lambda>_ _. []) mem_user_repo toy_hasher 0 (\<lambda>k. 10 + of_nat k) small_demo empty_world = (Ok ca, t)
    \<and> map bt_name (ca_bots ca) = [lit ''the_oracle'', lit ''hedge_hana'']
    \<and> provision (\<lambda>_ _. []) mem_user_repo toy_hasher 9 (\<lambda>_. 0) small_demo t = (Ok ca, t)"
proof -
  have pw: "password_new (dc_bot_password small_demo) = Ok (Password (lit ''demo-password''))"
    by (simp add: small_demo_def demo_config_default_def password_new_Ok lit_def)
  have hash: "ph_hash toy_hasher (Password (lit ''demo-password'')) = Ok (PasswordHash (lit ''demo-password''))"
    by (simp add: toy_hasher_def)
  have free: "\<forall>k\<le>16. lookup_user empty_world (UserId (10 + of_nat k)) = None"
    by (simp add: lookup_user_def empty_world_def)
  have names: "take (max (dc_bots small_demo) 1) (host_name # bot_names) = [lit ''the_oracle'', lit ''hedge_hana'']"
    by (simp add: small_demo_def host_name_def bot_names_def)
  show ?thesis
    using conjunct2 [OF conjunct2 [OF provision_resumes [OF empty_platform small_ids free, of small_demo "\<lambda>_ _. []" toy_hasher 0 toy_hasher 9 "\<lambda>_. 0"]],
      rule_format, OF pw hash hash] unfolding names
    by (elim exE conjE) (intro exI conjI; assumption)
qed

text \<open>C38: The cast is recognised by its addresses alone, and nothing keeps a stranger from registering
  one: whoever registered the host's address before the demo is first started is the host from then
  on, an administrator who still logs in with the password of their own choice.\<close>

theorem squatter_becomes_admin:
  assumes ok: "platform_ok s" and unused: "lookup_user s (UserId i) = None"
    and registers: "mem_register lc h si digest i now dr
      \<lparr>ri_username = name, ri_email = lit ''the_oracle@bots.betsphere.invalid'', ri_password = secret\<rparr> s = (Ok session, r)"
    and config: "password_new (dc_bot_password config) = Ok pw" "ph_hash hasher pw = Ok hash"
    and ids: "inj_on fresh {..16}" "\<forall>k\<le>16. lookup_user r (UserId (fresh k)) = None"
  shows "\<exists>ca t u. provision lc mem_user_repo hasher later fresh config r = (Ok ca, t)
    \<and> actor_user_id (bt_actor (ca_host ca)) = UserId i
    \<and> lookup_user t (UserId i) = Some u \<and> u_role u = RAdmin \<and> ph_hash h (Password secret) = Ok (u_password_hash u)"
proof -
  have mail: "lit ''the_oracle@bots.betsphere.invalid'' = bot_email host_name"
    by (simp add: bot_email_def host_name_def email_domain_def lit_def)
  have "accounts_ok s" using ok by (simp add: accounts_ok_unique platform_over_def mem_inv_def)
  then have inv: "users_wf s \<and> tokens_wf s" by (simp add: accounts_ok_def)
  obtain nm password phash where e: "password_new secret = Ok password" "ph_hash h password = Ok phash"
      "register_in mem_scope si digest i now dr nm (Email (bot_email host_name)) phash s = (Ok session, r)"
    using registers bot_email_new [of host_name lc] unfolding mail
    by (auto simp: register_def run_Ok with_scope_mem cast_names_def)
  have look: "lookup_user r (UserId i) = Some (user_new i now nm (Email (bot_email host_name)) phash)"
    using mem_auth.register_Ok [OF inv e(3)] by (simp add: Let_def)
  have "platform_ok r" using register_platform [OF ok unused] registers by (metis snd_conv)
  then obtain ca t where run: "provision lc mem_user_repo hasher later fresh config r = (Ok ca, t)"
      "in_play (dc_bots config) ca t" "recast r (ca_bots ca) t"
    using provision_run [OF platform_users(1,2) config ids] by blast
  obtain v where v: "lookup_user t (UserId i) = Some v" "u_email v = Email (bot_email host_name)" "u_password_hash v = phash"
  proof -
    obtain v where "lookup_user t (UserId i) = Some v"
        "v = (user_new i now nm (Email (bot_email host_name)) phash)\<lparr>u_role := u_role v, u_updated_at := u_updated_at v\<rparr>"
      using run(3) look unfolding recast_def by blast
    moreover from this(2) have "u_email v = Email (bot_email host_name)" "u_password_hash v = phash"
      by (metis user.select_convs user.update_convs user_new_def)+
    ultimately show ?thesis using that by blast
  qed
  have host: "ca_host ca \<in> set (ca_bots ca)" "bt_name (ca_host ca) = host_name" "actor_role (bt_actor (ca_host ca)) = RAdmin"
    using run(2) by (cases "ca_bots ca"; auto simp: in_play_def cast_names_def take_Cons split: nat.splits)+
  then obtain u where u: "lookup_user t (actor_user_id (bt_actor (ca_host ca))) = Some u"
      "u_email u = Email (bot_email host_name)" "u_role u = RAdmin"
    using run(2) unfolding in_play_def plays_def by metis
  have "actor_user_id (bt_actor (ca_host ca)) = UserId i"
    using run(3) u(1,2) v(1,2) unfolding recast_def emails_unique_def by metis
  then show ?thesis using run(1) u v e(1,2) by (auto simp: password_new_Ok)
qed

definition squat_input :: register_input where
  "squat_input = \<lparr>ri_username = lit ''eve'', ri_email = lit ''the_oracle@bots.betsphere.invalid'', ri_password = lit ''password''\<rparr>"

definition squat_world :: "unit world" where
  "squat_world = snd (mem_register (\<lambda>_ _. []) toy_hasher toy_issuer id 1 5 (toy_draws ''r1'' 2) squat_input empty_world)"

lemma squatter_registers:
  "is_ok (fst (mem_register (\<lambda>_ _. []) toy_hasher toy_issuer id 1 5 (toy_draws ''r1'' 2) squat_input empty_world))
   \<and> list_all (\<lambda>k. lookup_user squat_world (UserId (10 + of_nat k)) = None) [0..<17]"
  by code_simp

lemma squatter_becomes_admin_witness:
  "\<exists>ca t u. provision (\<lambda>_ _. []) mem_user_repo toy_hasher 0 (\<lambda>k. 10 + of_nat k) small_demo squat_world = (Ok ca, t)
    \<and> lookup_user t (UserId 1) = Some u \<and> u_role u = RAdmin \<and> u_password_hash u = PasswordHash (lit ''password'')"
proof -
  have pw: "password_new (dc_bot_password small_demo) = Ok (Password (lit ''demo-password''))"
    by (simp add: small_demo_def demo_config_default_def password_new_Ok lit_def)
  have hash: "ph_hash toy_hasher (Password (lit ''demo-password'')) = Ok (PasswordHash (lit ''demo-password''))"
    by (simp add: toy_hasher_def)
  have free: "\<forall>k\<le>16. lookup_user squat_world (UserId (10 + of_nat k)) = None"
    using squatter_registers by (auto simp: list_all_iff)
  obtain session where reg: "mem_register (\<lambda>_ _. []) toy_hasher toy_issuer id 1 5 (toy_draws ''r1'' 2) squat_input empty_world
      = (Ok session, squat_world)"
    using squatter_registers unfolding squat_world_def is_ok_iff by (metis prod.collapse)
  have unused: "lookup_user empty_world (UserId 1) = None" by (simp add: lookup_user_def empty_world_def)
  have mine: "ph_hash toy_hasher (Password (lit ''password'')) = Ok (PasswordHash (lit ''password''))"
    by (simp add: toy_hasher_def)
  show ?thesis
    using squatter_becomes_admin [OF empty_platform unused reg [unfolded squat_input_def] pw hash small_ids free, of 0] mine by auto
qed

end
