(* ===== verification/DemoPlatform.thy ===== *)
theory DemoPlatform
  imports DemoCast
begin

text \<open>
  The demo on the platform: whatever the bots do, in whatever order with the requests of real users,
  the books stay in order, and what one turn of the bettor does.
\<close>

section \<open>Sequences over an invariant\<close>

text \<open>\<open>P\<close> holds when the command is over, whatever it answers.\<close>

definition ends :: "('s \<Rightarrow> bool) \<Rightarrow> ('s, 'a, 'e) cmd \<Rightarrow> 's \<Rightarrow> bool" where
  "ends P m s \<longleftrightarrow> P (snd (m s))"

lemma ends_bind:
  assumes "keeps J m" "J s" "\<And>t. J t \<Longrightarrow> P t" "\<And>x t. J t \<Longrightarrow> ends P (k x) t"
  shows "ends P (bind_cmd m k) s"
proof -
  have "J (snd (m s))" using assms(1,2) by (simp add: keeps_def)
  then show ?thesis using assms(3,4) by (auto simp: ends_def bind_cmd_def split: prod.split result.split)
qed

lemma ends_seq:
  assumes "keeps J m" "J s" "\<And>t. J t \<Longrightarrow> P t" "\<And>t. J t \<Longrightarrow> ends P k t"
  shows "ends P (seq_cmd m k) s"
  using ends_bind [OF assms(1,2), of P "\<lambda>_. k"] assms(3,4) by (simp add: seq_cmd_def)

lemma ends_then:
  assumes "ends J m s" "\<And>t. J t \<Longrightarrow> P t" "\<And>t. J t \<Longrightarrow> ends P k t"
  shows "ends P (seq_cmd m k) s"
  using assms by (auto simp: ends_def seq_cmd_def bind_cmd_def split: prod.split result.split)

lemma ends_ret: "P s \<Longrightarrow> ends P (ret x) s"
  by (simp add: ends_def ret_def)

lemma ends_if: "(c \<Longrightarrow> ends P a s) \<Longrightarrow> (\<not> c \<Longrightarrow> ends P b s) \<Longrightarrow> ends P (if c then a else b) s"
  by simp

lemma ends_option:
  "(v = None \<Longrightarrow> ends P a s) \<Longrightarrow> (\<And>x. v = Some x \<Longrightarrow> ends P (b x) s)
   \<Longrightarrow> ends P (case v of None \<Rightarrow> a | Some x \<Rightarrow> b x) s"
  by (cases v) simp_all

lemma ends_last: "ends P m s \<Longrightarrow> ends P (seq_cmd m (ret x)) s"
  by (cases "m s"; cases "fst (m s)") (simp_all add: ends_def seq_cmd_def bind_cmd_def ret_def)

lemma keeps_option [keeps_intros]:
  "keeps I a \<Longrightarrow> (\<And>x. keeps I (b x)) \<Longrightarrow> keeps I (case v of None \<Rightarrow> a | Some x \<Rightarrow> b x)"
  by (cases v) simp_all

section \<open>Accounts of the cast\<close>

text \<open>The accounts the demo makes, whose names it takes without asking.\<close>

definition cast_accounts :: "(email \<times> username) set" where
  "cast_accounts = (\<lambda>n. (Email (bot_email n), Username n)) ` set cast_names"

lemma save_same_platform:
  assumes ok: "platform_over R s" and u: "lookup_user s i = Some u"
    and same: "user_wf v" "u_id v = u_id u" "u_email v = u_email u" "u_username v = u_username u"
  shows "platform_over R (s\<lparr>users := AList.update (u_id v) v (users s)\<rparr>)"
proof (rule save_user_platform [OF ok same(1)])
  have wf: "email_shape (email_as_str (u_email u))" "u_id u = i"
    using ok u by (auto simp: platform_over_def typed_def ledger_wf_def users_ok_def)
  show "email_shape (email_as_str (u_email v))" using wf(1) same(3) by simp
  fix j w assume w: "lookup_user s j = Some w" "clash R (who_is w) (who_is v)"
  have "unique_accounts R (ledger_of s)" using ok by (simp add: platform_over_def)
  then have "j = i" using unique_accountsD [OF _ w(1) u] w(2) same by simp
  then show "j = u_id v" using wf(2) same(2) by simp
qed

lemma account_platform:
  assumes name: "name \<in> set cast_names"
  shows "keeps (platform_over cast_accounts) (account lc mem_user_repo now fresh name role hash)"
  unfolding keeps_def
proof (intro allI impI)
  fix s :: "'z world"
  assume ok: "platform_over cast_accounts s"
  note wf = platform_users(1,2) [OF ok]
  let ?t = "snd (account lc mem_user_repo now fresh name role hash s)"
  show "platform_over cast_accounts ?t"
  proof (cases "\<exists>i u. lookup_user s i = Some u \<and> u_email u = Email (bot_email name)")
    case True
    then obtain i u where u: "lookup_user s i = Some u" "u_email u = Email (bot_email name)" by blast
    let ?v = "set_role now role u"
    have v: "user_wf ?v" "u_id ?v = u_id u" "u_email ?v = u_email u" "u_username ?v = u_username u"
      using platform_users(3) [OF ok u(1)] by (simp_all add: set_role_def user_wf_def)
    have "u_id u = i" using users_wf_id [OF wf(1) u(1)] .
    then have "platform_over cast_accounts (s\<lparr>users := AList.update i ?v (users s)\<rparr>)"
      using save_same_platform [OF ok u(1) v] v(2) by simp
    then show ?thesis using ok account_existing [OF name wf u, of lc now fresh role hash] by simp
  next
    case False
    let ?v = "set_role now role (user_new fresh now (Username name) (Email (bot_email name)) hash)"
    have v: "u_id ?v = UserId fresh" "u_email ?v = Email (bot_email name)" "u_username ?v = Username name"
      by (simp_all add: set_role_def user_new_def)
    have "username_wf (Username name)" using bot_username_new [OF name] by (simp add: username_new_Ok)
    then have "user_wf ?v" using user_new_wf [of "Username name" fresh now "Email (bot_email name)" hash]
      by (simp add: set_role_def user_wf_def)
    moreover have "email_shape (bot_email name)" using bot_email_new [OF name, of lc] by (metis email_new_Ok email.inject)
    moreover have False if w: "lookup_user s i = Some w" "clash cast_accounts (who_is w) (who_is ?v)" for i w
    proof -
      have "who_is ?v \<in> cast_accounts" using name v by (auto simp: cast_accounts_def)
      then have "u_email w = Email (bot_email name)" using w(2) v(2) by (simp add: clash_def)
      then show False using False w(1) by blast
    qed
    ultimately have "platform_over cast_accounts (s\<lparr>users := AList.update (u_id ?v) ?v (users s)\<rparr>)"
      by (intro save_user_platform [OF ok]) (auto simp: v(2))
    then show ?thesis
      using account_new [OF name wf(1), of lc now fresh role hash] False v(1) by auto
  qed
qed

lemma extras_platform:
  "set names \<subseteq> set cast_names \<Longrightarrow>
   keeps (platform_over cast_accounts) (extras lc mem_user_repo now fresh i names hash acc)"
  by (induction names arbitrary: i acc) (auto intro!: keeps_intros account_platform)

lemma provision_platform:
  "keeps (platform_over cast_accounts) (provision lc mem_user_repo hasher now fresh config)"
  unfolding provision_def
  by (intro keeps_intros account_platform extras_platform) (auto simp: cast_names_def dest: in_set_takeD)

section \<open>The bettor\<close>

lemma list_markets_reads [keeps_intros]: "keeps I (list_markets (mem_market_repo lc) f)"
  unfolding list_markets_def
  by (intro keeps_intros) (simp_all add: keeps_def mem_market_repo_def mem_market_list_def mem_outcomes_for_markets_def reads_def)

lemma open_markets_reads [keeps_intros]: "keeps I (open_markets (mem_market_repo lc))"
  unfolding open_markets_def by (rule list_markets_reads)

lemma sat_nonneg: "0 \<le> x \<Longrightarrow> 0 \<le> sat_i64 x \<and> sat_i64 x \<le> i64_max"
    by (simp add: sat_i64_def i64_max_def i64_min_def)
lemma credit_room:
  assumes u: "user_wf u" and run: "credit now amount u = Ok v"
  shows "user_wf v \<and> u_id v = u_id u \<and> u_email v = u_email u \<and> u_username v = u_username u"
proof -
  have v: "v = u\<lparr>u_balance := sat_i64 (u_balance u + amount), u_updated_at := now\<rparr>" 
    using run unfolding credit_def by (simp split: if_split_asm)
  have a: "0 < amount"
    using run unfolding credit_def by (simp split: if_split_asm)
  have "0 \<le> sat_i64 (u_balance u + amount) \<and> sat_i64 (u_balance u + amount) \<le> i64_max"
    by (rule sat_nonneg) (use u a in \<open>simp add: user_wf_def\<close>)
  then show ?thesis using u by (simp add: v user_wf_def)
qed

text \<open>What a top-up does to the store.\<close>

lemma top_up_run:
  "snd (top_up mem_user_repo now b amount s) = (case lookup_user s (actor_user_id (bt_actor b)) of
     None \<Rightarrow> s
   | Some u \<Rightarrow> if u_balance u \<ge> amount then s
       else (case credit now (wrap_i64 (max starting_balance amount - u_balance u)) u :: (user, domain_error) result of
         Ok v \<Rightarrow> s\<lparr>users := AList.update (u_id v) v (users s)\<rparr>
       | _ \<Rightarrow> s))"
proof (cases "lookup_user s (actor_user_id (bt_actor b))")
  case None
  then show ?thesis by (simp add: top_up_def mem_simps cmd_simps lookup_user_def)
next
  case (Some u)
  then show ?thesis
    by (cases "credit now (wrap_i64 (max starting_balance amount - u_balance u)) u")
      (simp_all add: top_up_def mem_simps cmd_simps lookup_user_def Let_def)
qed

lemma top_up_platform: "keeps (\<lambda>s. platform_over R s \<and> bets s = bs) (top_up mem_user_repo now b amount)"
  unfolding keeps_def
proof (intro allI impI)
  fix s :: "'z world"
  assume s: "platform_over R s \<and> bets s = bs"
  have "platform_over R (s\<lparr>users := AList.update (u_id v) v (users s)\<rparr>)"
    if "lookup_user s i = Some u" "credit now n u = Ok v" for i u n v
    using save_same_platform [of R s i u v] credit_room [OF platform_users(3) that(2)] that(1) s by blast
  then show "platform_over R (snd (top_up mem_user_repo now b amount s)) \<and> bets (snd (top_up mem_user_repo now b amount s)) = bs"
    using s unfolding top_up_run by (simp split: option.split result.split)
qed

lemma bettor_platform:
  assumes ok: "platform_over R s" and fresh: "BetId fresh \<notin> b_id ` set (bets s)"
  shows "ends (platform_over R) (bettor_tick (mem_market_repo lc) (mem_bet_repo events) mem_user_repo ca d clock fresh) s"
  unfolding bettor_tick_def Let_def
  by (intro ends_option ends_ret ends_last
      ends_bind [where J = "\<lambda>t. platform_over R t \<and> bets t = bets s", OF open_markets_reads]
      ends_bind [where J = "\<lambda>t. platform_over R t \<and> bets t = bets s", OF keeps_reads(4)]
      ends_seq [where J = "\<lambda>t. platform_over R t \<and> bets t = bets s", OF top_up_platform])
    (use ok fresh in \<open>auto simp: ends_def intro: place_bet_platform\<close>)

section \<open>The chatter\<close>

lemma author_reads [keeps_intros]: "keeps I (author mem_user_repo cache i)"
  unfolding author_def by (intro keeps_intros)

lemma keeps_pair [keeps_intros]: "(\<And>x y. keeps I (f x y)) \<Longrightarrow> keeps I (case p of (x, y) \<Rightarrow> f x y)"
  by (cases p) simp

lemma quote_of_reads [keeps_intros]: "keeps I (quote_of mem_user_repo quotes cache m)"
  unfolding quote_of_def by (intro keeps_intros)

lemma render_page_reads [keeps_intros]: "keeps I (render_page mem_user_repo quotes ms cache ts)"
  by (induction ms arbitrary: cache ts) (auto intro!: keeps_intros)

lemma mem_chat_reads [keeps_intros]:
  "keeps I (cr_find_by_id (mem_chat_repo events) i)" "keeps I (cr_find_by_ids (mem_chat_repo events) is)"
  "keeps I (cr_list_recent (mem_chat_repo events) channel limit cursor)"
  "keeps I (cr_reactions_for (mem_chat_repo events) is viewer)"
  by (simp_all add: keeps_def mem_chat_repo_def mem_message_find_by_id_def mem_message_find_by_ids_def
      mem_list_recent_def mem_reactions_for_def reads_def)

lemma room_exists_reads [keeps_intros]: "keeps I (room_exists (mem_market_repo lc) channel)"
  unfolding room_exists_def by (cases channel) (auto intro!: keeps_intros)

lemma history_reads [keeps_intros]:
  "keeps I (list_recent_messages (mem_chat_repo events) mem_user_repo (mem_market_repo lc) viewer channel limit window)"
  unfolding list_recent_messages_def resolve_cursor_def quoted_messages_def Let_def
  by (intro keeps_intros; (cases "hw_before window"; cases "hw_after window"; simp; intro keeps_intros)?)

lemma pick_room_reads [keeps_intros]: "keeps I (pick_room (mem_market_repo lc) coin r now)"
  unfolding pick_room_def by (intro keeps_intros)

lemma chatter_requests:
  fixes s :: "'z world"
  assumes fresh: "MessageId fresh \<notin> c_id ` set (messages s)"
  shows "ends ((request lc events)\<^sup>*\<^sup>* s)
    (chatter_tick (mem_chat_repo events) mem_user_repo (mem_market_repo lc) percent model ca d clock fresh) s"
  unfolding chatter_tick_def chatter_react_def Let_def
  by (intro ends_option ends_ret ends_last ends_if
      ends_bind [where J = "(=) s", OF pick_room_reads]
      ends_bind [where J = "(=) s", OF history_reads])
    (use fresh in \<open>auto simp: ends_def split: option.split intro: r_into_rtranclp request.posts request.reacts request.unreacts\<close>)

section \<open>The market maker\<close>

text \<open>Which identifiers markets and outcomes have, which neither a settlement nor a message changes.\<close>

definition board_ids :: "'z world \<Rightarrow> market_id list \<times> (outcome_id \<times> market_id) list" where
  "board_ids s = (map m_id (markets s), map (\<lambda>oc. (o_id oc, o_market_id oc)) (outcomes s))"

lemma dispatch_ids [keeps_intros]: "keeps (\<lambda>s. board_ids s = c) (dispatch events e)"
  by (simp add: keeps_def dispatch_eq board_ids_def notify_def split: option.split)

lemma settle_one_ids [keeps_intros]: "keeps (\<lambda>s. board_ids s = c) (settle_one now b)"
  unfolding settle_one_def
  by (intro keeps_intros keeps_writes)
    (auto simp: board_ids_def mem_user_find_by_id_def mem_user_save_def intro!: keeps_intros keeps_writes split: option.split)

lemma settle_ids [keeps_intros]: "keeps (\<lambda>s. board_ids s = c) (br_settle (mem_bet_repo events) now m bs)"
  unfolding mem_bet_repo_def bet_repo.simps mem_settle_def mem_market_resolve_def
  by (intro keeps_intros keeps_writes) (simp add: board_ids_def)

lemma resolve_ids: "keeps (\<lambda>s. board_ids s = c) (mem_resolve_market lc events clock actor mid w)"
  unfolding resolve_market_def by (intro keeps_intros)

lemma quoted_reads [keeps_intros]: "keeps I (quoted (mem_chat_repo events) mem_user_repo i channel)"
  unfolding quoted_def Let_def by (intro keeps_intros)

lemma save_message_ids:
  "keeps (\<lambda>s. board_ids s = c \<and> c_id ` set (messages s) \<subseteq> insert (c_id m) known) (cr_save (mem_chat_repo events) m)"
  by (auto simp: keeps_def mem_chat_repo_def mem_message_save_def cmd_simps dispatch_eq notify_def board_ids_def split: option.split)

lemma post_ids:
  "keeps (\<lambda>s. board_ids s = c \<and> c_id ` set (messages s) \<subseteq> insert (MessageId fresh) known)
    (post_message (mem_chat_repo events) mem_user_repo (mem_market_repo lc) clock fresh u channel body reply_to)"
proof -
  have "keeps (\<lambda>s. board_ids s = c \<and> c_id ` set (messages s) \<subseteq> insert (MessageId fresh) known)
      (cr_save (mem_chat_repo events) (chat_message_new fresh now u channel words reply_to))" for now words
    using save_message_ids [of c "chat_message_new fresh now u channel words reply_to" known events]
    by (simp add: chat_message_new_def)
  then show ?thesis unfolding post_message_def Let_def by (intro keeps_intros)
qed

lemma request_ends: "(request lc events)\<^sup>*\<^sup>* s t \<Longrightarrow> request lc events t (snd (m t)) \<Longrightarrow> ends ((request lc events)\<^sup>*\<^sup>* s) m t"
  by (simp add: ends_def)

definition maker_fresh :: "round_ids \<Rightarrow> 'z world \<Rightarrow> bool" where
  "maker_fresh ids s \<longleftrightarrow> MessageId (ri_settled_msg ids) \<notin> c_id ` set (messages s)
     \<and> MessageId (ri_opened_msg ids) \<notin> c_id ` set (messages s) \<and> ri_settled_msg ids \<noteq> ri_opened_msg ids
     \<and> MarketId (ri_market ids) \<notin> m_id ` set (markets s) \<and> MarketId (ri_market ids) \<notin> o_market_id ` set (outcomes s)
     \<and> inj_on (ri_outcomes ids) {..<8} \<and> (\<forall>i<8. OutcomeId (ri_outcomes ids i) \<notin> o_id ` set (outcomes s))"

lemma maker_freshD:
  assumes "maker_fresh ids s"
  shows "MessageId (ri_settled_msg ids) \<notin> c_id ` set (messages s)" "MessageId (ri_opened_msg ids) \<notin> c_id ` set (messages s)"
    "ri_settled_msg ids \<noteq> ri_opened_msg ids" "MarketId (ri_market ids) \<notin> m_id ` set (markets s)"
    "MarketId (ri_market ids) \<notin> o_market_id ` set (outcomes s)" "inj_on (ri_outcomes ids) {..<8}"
    "\<forall>i<8. OutcomeId (ri_outcomes ids i) \<notin> o_id ` set (outcomes s)"
  using assms by (simp_all add: maker_fresh_def)

lemma settle_expired_requests:
  fixes s :: "'z world" and lc :: case_table and events :: "'z bus option"
  assumes fresh: "MessageId fresh \<notin> c_id ` set (messages s)"
  defines "J \<equiv> \<lambda>t. (request lc events)\<^sup>*\<^sup>* s t \<and> board_ids t = board_ids s"
  shows "ends (\<lambda>t. J t \<and> c_id ` set (messages t) \<subseteq> insert (MessageId fresh) (c_id ` set (messages s)))
    (settle_expired (mem_chat_repo events) mem_user_repo (mem_market_repo lc) (mem_bet_repo events) ca d clock fresh) s"
proof -
  have resolve: "ends (\<lambda>t. J t \<and> messages t = messages s) (mem_resolve_market lc events clock' actor mid w) s" for clock' actor mid w
    using resolve_ids [of "board_ids s" lc events clock' actor mid w] resolve_market_talk [of "talk s" lc events clock' actor mid w]
    by (auto simp: ends_def J_def keeps_def talk_def intro: r_into_rtranclp request.resolves)
  have post: "ends (\<lambda>t. J t \<and> c_id ` set (messages t) \<subseteq> insert (MessageId fresh) (c_id ` set (messages s)))
      (post_message (mem_chat_repo events) mem_user_repo (mem_market_repo lc) clock' fresh u channel body reply_to) t"
    if t: "J t \<and> messages t = messages s" for clock' u channel body reply_to t
  proof -
    let ?r = "snd (post_message (mem_chat_repo events) mem_user_repo (mem_market_repo lc) clock' fresh u channel body reply_to t)"
    have "request lc events t ?r" using t fresh by (intro request.posts) simp
    moreover have "board_ids t = board_ids s \<and> c_id ` set (messages t) \<subseteq> insert (MessageId fresh) (c_id ` set (messages s))"
      using t by (auto simp: J_def)
    then have "board_ids ?r = board_ids s \<and> c_id ` set (messages ?r) \<subseteq> insert (MessageId fresh) (c_id ` set (messages s))"
      using post_ids [of "board_ids s" fresh "c_id ` set (messages s)" events lc clock' u channel body reply_to]
      unfolding keeps_def by blast
    moreover have "(request lc events)\<^sup>*\<^sup>* s t" using t by (simp add: J_def)
    ultimately show ?thesis unfolding ends_def J_def by (meson rtranclp.rtrancl_into_rtrancl)
  qed
  have J: "J s \<and> c_id ` set (messages s) \<subseteq> insert (MessageId fresh) (c_id ` set (messages s))"
    by (auto simp: J_def)
  show ?thesis unfolding settle_expired_def Let_def
    by (intro ends_option ends_ret ends_last ends_bind [where J = "(=) s", OF open_markets_reads]
        ends_bind [where J = "(=) s", OF keeps_reads(4)] ends_then [where J = "\<lambda>t. J t \<and> messages t = messages s"])
      (use J resolve post in auto)
qed

lemma templates_small: "list_all (\<lambda>t. length (mt_outcomes t) \<le> 8) market_templates"
  by code_simp

lemma open_market_requests:
  fixes s :: "'z world"
  assumes fresh: "MarketId fresh \<notin> m_id ` set (markets s)" "MarketId fresh \<notin> o_market_id ` set (outcomes s)"
    "inj_on ids {..<8}" "\<forall>i<8. OutcomeId (ids i) \<notin> o_id ` set (outcomes s)" "MessageId fresh_msg \<notin> c_id ` set (messages s)"
  shows "ends ((request lc events)\<^sup>*\<^sup>* s)
    (open_market (mem_chat_repo events) mem_user_repo (mem_market_repo lc) hour ca r clock fresh ids fresh_msg) s"
proof -
  let ?input = "\<lambda>t. \<lparr>nm_title = mt_title t, nm_description = Some (mt_description t), nm_category = Some (mt_category t),
    nm_closes_at = Some (clock 0 + hour * mt_open_for_hours t), nm_outcomes = mt_outcomes t\<rparr>"
  let ?J = "\<lambda>t. (request lc events)\<^sup>*\<^sup>* s t \<and> messages t = messages s"
  have create: "ends ?J (mem_create_market lc clock' fresh ids actor (?input tm)) s" if "tm \<in> set market_templates" for clock' actor tm
  proof -
    have few: "length (mt_outcomes tm) \<le> 8" using templates_small that by (simp add: list_all_iff)
    then have "int (length (nm_outcomes (?input tm))) \<le> i64_max" by (simp add: i64_max_def)
    moreover have "lookup_market s (MarketId fresh) = None" using fresh(1) by (force simp: lookup_market_def find_None_iff)
    moreover have "distinct (map ids [0..<length (nm_outcomes (?input tm))])"
      using inj_on_subset [OF fresh(3), of "{0..<length (mt_outcomes tm)}"] few by (simp add: distinct_map subset_iff)
    moreover have "\<forall>oc\<in>set (outcomes s). o_market_id oc \<noteq> MarketId fresh" using fresh(2) by force
    ultimately have "request lc events s (snd (mem_create_market lc clock' fresh ids actor (?input tm) s))"
      using fresh(4) few by (intro request.creates) auto
    moreover have "messages (snd (mem_create_market lc clock' fresh ids actor (?input tm) s)) = messages s"
      by (simp add: create_market_def mem_market_repo_def mem_market_create_eq cmd_simps Let_def split: result.split)
    ultimately show ?thesis by (auto simp: ends_def)
  qed
  have post: "ends ((request lc events)\<^sup>*\<^sup>* s)
      (post_message (mem_chat_repo events) mem_user_repo (mem_market_repo lc) clock' fresh_msg u channel body reply_to) t"
    if "?J t" for clock' u channel body reply_to t
    using that fresh(5) by (intro request_ends request.posts) auto
  have drawn: "draw_one r (filter P xs) = Some x \<Longrightarrow> x \<in> set xs" for P and xs :: "market_template list" and x
    using nth_mem [of "r mod length (filter P xs)" "filter P xs"] by (auto simp: draw_one_def split: if_splits)
  have both: "ends ((request lc events)\<^sup>*\<^sup>* s) (seq_cmd (mem_create_market lc clock' fresh ids actor (?input tm))
      (seq_cmd (post_message (mem_chat_repo events) mem_user_repo (mem_market_repo lc) clock'' fresh_msg u channel body None) (ret ()))) s"
    if "tm \<in> set market_templates" for clock' clock'' actor tm u channel body
    using post by (intro ends_then [OF create [OF that]] ends_last) blast+
  show ?thesis unfolding open_market_def Let_def
  proof (intro ends_option ends_ret ends_bind [where J = "(=) s", OF open_markets_reads])
    fix live t tm
    assume "s = t" "draw_one r (filter (\<lambda>t. \<not> list_ex (\<lambda>v. title_as_str (m_title (mv_market v)) = mt_title t) live)
      market_templates) = Some tm"
    then show "ends ((request lc events)\<^sup>*\<^sup>* s) (seq_cmd (mem_create_market lc (\<lambda>i. clock (i + 1)) fresh ids (bt_actor (ca_host ca)) (?input tm))
      (seq_cmd (post_message (mem_chat_repo events) mem_user_repo (mem_market_repo lc) (\<lambda>i. clock (i + 3)) fresh_msg
        (actor_user_id (bt_actor (ca_host ca))) Global (lit ''new market open: '' @ mt_title tm @ [32, 0x1F4CA]) None) (ret ()))) t"
      using both [OF drawn] by blast
  qed (simp_all)
qed

lemma maker_requests:
  fixes s :: "'z world"
  assumes fresh: "maker_fresh ids s"
  shows "ends ((request lc events)\<^sup>*\<^sup>* s)
    (maker_tick (mem_chat_repo events) mem_user_repo (mem_market_repo lc) (mem_bet_repo events) hour ca d clock ids) s"
  unfolding maker_tick_def
proof (rule ends_then [OF settle_expired_requests])
  show "MessageId (ri_settled_msg ids) \<notin> c_id ` set (messages s)" by (rule maker_freshD(1) [OF fresh])
  fix t assume t: "((request lc events)\<^sup>*\<^sup>* s t \<and> board_ids t = board_ids s)
    \<and> c_id ` set (messages t) \<subseteq> insert (MessageId (ri_settled_msg ids)) (c_id ` set (messages s))"
  then show "(request lc events)\<^sup>*\<^sup>* s t" by simp
  have same: "map m_id (markets t) = map m_id (markets s)" "map (\<lambda>oc. (o_id oc, o_market_id oc)) (outcomes t) = map (\<lambda>oc. (o_id oc, o_market_id oc)) (outcomes s)"
    using t by (simp_all add: board_ids_def)
  have "m_id ` set (markets t) = m_id ` set (markets s)" using arg_cong [OF same(1), of set] by simp
  moreover have "o_id ` set (outcomes t) = o_id ` set (outcomes s)" using arg_cong [OF same(2), of "\<lambda>xs. fst ` set xs"] by (simp add: image_image)
  moreover have "MessageId (ri_opened_msg ids) \<notin> c_id ` set (messages t)"
  proof
    assume "MessageId (ri_opened_msg ids) \<in> c_id ` set (messages t)"
    with conjunct2 [OF t] have "MessageId (ri_opened_msg ids) \<in> insert (MessageId (ri_settled_msg ids)) (c_id ` set (messages s))"
      by (rule subsetD)
    then show False using maker_freshD(2,3) [OF fresh] by (metis insert_iff message_id.inject)
  qed
  moreover have "o_market_id ` set (outcomes t) = o_market_id ` set (outcomes s)" using arg_cong [OF same(2), of "\<lambda>xs. snd ` set xs"] by (simp add: image_image)
  ultimately have "ends ((request lc events)\<^sup>*\<^sup>* t) (open_market (mem_chat_repo events) mem_user_repo (mem_market_repo lc) hour ca (d 2)
      (\<lambda>i. clock (i + 3)) (ri_market ids) (ri_outcomes ids) (ri_opened_msg ids)) t"
    using maker_freshD [OF fresh] by (intro open_market_requests) (simp_all only: simp_thms)
  then show "ends ((request lc events)\<^sup>*\<^sup>* s) (open_market (mem_chat_repo events) mem_user_repo (mem_market_repo lc) hour ca (d 2)
      (\<lambda>i. clock (i + 3)) (ri_market ids) (ri_outcomes ids) (ri_opened_msg ids)) t"
    using t by (auto simp: ends_def)
qed

section \<open>An inhabited platform\<close>

text \<open>C39: The market maker and the chatter do nothing a user could not ask for: whatever they draw, whatever
  a model answers and however far a turn gets, its effect on the stores is that of a sequence of use-case
  requests, so a platform the requests can reach stays one.\<close>

theorem turns_are_requests:
  assumes "maker_fresh ids s" "MessageId fresh \<notin> c_id ` set (messages s)"
  shows "let after_maker = snd (maker_tick (mem_chat_repo events) mem_user_repo (mem_market_repo lc) (mem_bet_repo events) hour ca d clock ids s);
      after_chatter = snd (chatter_tick (mem_chat_repo events) mem_user_repo (mem_market_repo lc) percent model ca d clock fresh s) in
    (request lc events)\<^sup>*\<^sup>* s after_maker \<and> (request lc events)\<^sup>*\<^sup>* s after_chatter
    \<and> (reachable lc events s \<longrightarrow> reachable lc events after_maker \<and> reachable lc events after_chatter)"
proof -
  have "reachable lc events t" if "(request lc events)\<^sup>*\<^sup>* s t" "reachable lc events s" for t
    using that by (induction rule: rtranclp.induct) (auto intro: reachable.step)
  then show ?thesis
    using maker_requests [OF assms(1)] chatter_requests [OF assms(2)] unfolding Let_def ends_def by blast
qed

text \<open>The states of a platform with the demo on: requests, provisioning and turns in any order.  What a
  request or a turn draws as identifiers is new.\<close>

inductive inhabited :: "case_table \<Rightarrow> 'z bus option \<Rightarrow> 'z world \<Rightarrow> bool" for lc events where
  founded: "inhabited lc events \<lparr>users = [], refresh_tokens = [], markets = [], outcomes = [], price_points = [],
    bets = [], messages = [], reactions = [], outer = z\<rparr>"
| served: "inhabited lc events s \<Longrightarrow> request lc events s t \<Longrightarrow> inhabited lc events t"
| provisioned: "inhabited lc events s \<Longrightarrow>
    inhabited lc events (snd (provision lc mem_user_repo hasher now ids config s))"
| bettor_turns: "inhabited lc events s \<Longrightarrow> BetId fresh \<notin> b_id ` set (bets s) \<Longrightarrow>
    inhabited lc events (snd (bettor_tick (mem_market_repo lc) (mem_bet_repo events) mem_user_repo ca d clock fresh s))"
| maker_turns: "inhabited lc events s \<Longrightarrow> maker_fresh rids s \<Longrightarrow>
    inhabited lc events (snd (maker_tick (mem_chat_repo events) mem_user_repo (mem_market_repo lc) (mem_bet_repo events) hour ca d clock rids s))"
| chatter_turns: "inhabited lc events s \<Longrightarrow> MessageId fresh \<notin> c_id ` set (messages s) \<Longrightarrow>
    inhabited lc events (snd (chatter_tick (mem_chat_repo events) mem_user_repo (mem_market_repo lc) percent model ca d clock fresh s))"

lemma requests_platform: "(request lc events)\<^sup>*\<^sup>* s t \<Longrightarrow> platform_over R s \<Longrightarrow> platform_over R t"
  by (induction rule: rtranclp.induct) (auto intro: request_platform)

lemma unique_mono: "unique_accounts R L \<Longrightarrow> R \<subseteq> R' \<Longrightarrow> unique_accounts R' L"
  unfolding unique_accounts_def clash_def by blast

lemma inhabited_platform: "inhabited lc events s \<Longrightarrow> platform_over cast_accounts s"
proof (induction rule: inhabited.induct)
  case (founded z)
  show ?case using reachable_platform [OF reachable.start [of lc events z]] unique_mono [OF _ empty_subsetI]
    by (simp add: platform_over_def)
next
  case (served s t)
  then show ?case by (metis request_platform)
next
  case (provisioned s hasher now ids config)
  then show ?case using provision_platform unfolding keeps_def by blast
next
  case (bettor_turns s fresh ca d clock)
  then show ?case using bettor_platform unfolding ends_def by blast
next
  case (maker_turns s rids hour ca d clock)
  then show ?case using maker_requests requests_platform unfolding ends_def by blast
next
  case (chatter_turns s fresh percent model ca d clock)
  then show ?case using chatter_requests requests_platform unfolding ends_def by blast
qed


definition provisioned_world :: "unit world" where
  "provisioned_world = snd (provision (\<lambda>_ _. []) mem_user_repo toy_hasher 0 (\<lambda>k. 10 + of_nat k) small_demo empty_world)"

lemma provisioned_inhabited: "inhabited (\<lambda>_ _. []) None provisioned_world"
proof -
  have "inhabited (\<lambda>_ _. []) None empty_world" unfolding empty_world_def by (rule inhabited.founded)
  then show ?thesis unfolding provisioned_world_def by (rule inhabited.provisioned)
qed

lemma provisioned_users: "map fst (users provisioned_world) = [UserId 10, UserId 11]"
  by code_simp

lemma provisioned_store: "\<exists>us. provisioned_world = empty_world\<lparr>users := us\<rparr>"
proof -
  have pw: "password_new (dc_bot_password small_demo) = Ok (Password (lit ''demo-password''))"
    by (simp add: small_demo_def demo_config_default_def password_new_Ok lit_def)
  have hash: "ph_hash toy_hasher (Password (lit ''demo-password'')) = Ok (PasswordHash (lit ''demo-password''))"
    by (simp add: toy_hasher_def)
  have free: "\<forall>k\<le>16. lookup_user empty_world (UserId (10 + of_nat k)) = None"
    by (simp add: lookup_user_def empty_world_def)
  obtain ca t where "provision (\<lambda>_ _. []) mem_user_repo toy_hasher 0 (\<lambda>k. 10 + of_nat k) small_demo empty_world = (Ok ca, t)"
      "recast empty_world (ca_bots ca) t"
    using provision_run [OF platform_users(1,2) [OF empty_platform] pw hash small_ids free] by blast
  then show ?thesis unfolding provisioned_world_def recast_def by auto
qed

lemma provisioned_empty:
  "messages provisioned_world = []" "markets provisioned_world = []" "outcomes provisioned_world = []" "bets provisioned_world = []"
proof -
  obtain us where us: "provisioned_world = empty_world\<lparr>users := us\<rparr>" using provisioned_store by blast
  show "messages provisioned_world = []" "markets provisioned_world = []" "outcomes provisioned_world = []" "bets provisioned_world = []"
    unfolding us by (simp_all add: empty_world_def)
qed


lemma provisioned_fresh:
  "maker_fresh \<lparr>ri_settled_msg = 1, ri_market = 2, ri_outcomes = of_nat, ri_opened_msg = 3\<rparr> provisioned_world"
proof -
  have "inj_on (of_nat :: nat \<Rightarrow> uuid) {..<8}"
    by (rule inj_onI) (simp add: word_of_nat_eq_iff take_bit_nat_eq_self)
  then show ?thesis by (simp add: maker_fresh_def provisioned_empty)
qed

lemma turns_are_requests_witness:
  "(request (\<lambda>_ _. []) None)\<^sup>*\<^sup>* provisioned_world
     (snd (maker_tick (mem_chat_repo None) mem_user_repo (mem_market_repo (\<lambda>_ _. [])) (mem_bet_repo None) 1
        \<lparr>ca_host = \<lparr>bt_name = host_name, bt_actor = \<lparr>actor_user_id = UserId 10, actor_role = RAdmin\<rparr>\<rparr>, ca_bots = []\<rparr>
        id (\<lambda>_. 0) \<lparr>ri_settled_msg = 1, ri_market = 2, ri_outcomes = of_nat, ri_opened_msg = 3\<rparr> provisioned_world))"
proof -
  have "MessageId 4 \<notin> c_id ` set (messages provisioned_world)" by (simp add: provisioned_empty)
  from turns_are_requests [OF provisioned_fresh this] show ?thesis unfolding Let_def by blast
qed

end
