(* ===== verification/DemoBettor.thy ===== *)
theory DemoBettor
  imports DemoPlatform
begin

text \<open>
  One turn of the bettor over the in-memory stores: what it stakes, and every way it can end when the
  boards have room.
\<close>

section \<open>What the bettor does\<close>

lemma stake_range: "50 \<le> stake r \<and> stake r \<le> 900 \<and> 25 dvd stake r"
proof -
  have "0 \<le> int r mod 35" "int r mod 35 < 35" by simp_all
  then show ?thesis by (simp add: stake_def Let_def min_stake_def max_stake_def stake_step_def)
qed

lemma draw_one_mem: "draw_one r xs = Some x \<Longrightarrow> x \<in> set xs"
  using nth_mem [of "r mod length xs" xs] by (auto simp: draw_one_def split: if_splits)

lemma draw_one_None: "draw_one r xs = None \<longleftrightarrow> xs = []"
  by (simp add: draw_one_def)

lemma max_by_key_mem: "max_by_key k xs = Some x \<Longrightarrow> x \<in> set xs"
  by (induction xs arbitrary: x) (auto split: option.splits if_splits)

lemma max_by_key_None: "max_by_key k xs = None \<longleftrightarrow> xs = []"
  by (cases xs) (auto split: option.splits)

lemma pick_outcome_mem:
  assumes "os \<noteq> []"
  shows "\<exists>oc\<in>set os. pick_outcome os c r = Ok oc"
proof -
  let ?v = "if heads c then max_by_key (\<lambda>oc. as_ten_thousandths (o_current_price oc)) os else draw_one r os"
  have "?v \<noteq> None" using assms by (simp add: max_by_key_None draw_one_None del: not_None_eq)
  then obtain oc where oc: "?v = Some oc" by blast
  then have "oc \<in> set os" by (auto split: if_splits dest: max_by_key_mem draw_one_mem)
  then show ?thesis using oc by (auto simp: pick_outcome_def)
qed

lemma anyone_mem: "anyone ca r \<in> insert (ca_host ca) (set (ca_bots ca))"
  using draw_one_mem [of r "ca_bots ca"] by (auto simp: anyone_def split: option.split)

text \<open>Every board leaves room for one more stake of \<open>n\<close>.\<close>

definition roomy :: "int \<Rightarrow> 'z world \<Rightarrow> bool" where
  "roomy n s \<longleftrightarrow> (\<forall>mid. volumes_ok (outcomes_of mid s)
     \<and> (sum_list (map o_volume (outcomes_of mid s)) + n) * price_scale \<le> i64_max)"

lemma backed_sum:
  assumes "distinct (map o_id os)" "\<forall>oc\<in>set os. 0 \<le> o_volume oc" "0 \<le> b_amount b"
  shows "(\<forall>oc\<in>set os. 0 \<le> o_volume (backed b oc))
    \<and> sum_list (map o_volume (map (backed b) os)) \<le> sum_list (map o_volume os) + b_amount b"
proof -
  have sat: "0 \<le> sat_i64 x \<and> sat_i64 x \<le> x" if "0 \<le> x" for x
    using that by (simp add: sat_i64_def i64_max_def i64_min_def)
  have vol: "o_volume (backed b oc) = (if o_id oc = b_outcome_id b then sat_i64 (o_volume oc + b_amount b) else o_volume oc)" for oc
    by (simp add: backed_def add_volume_def)
  have same: "map o_volume (map (backed b) os) = map o_volume os" if "b_outcome_id b \<notin> o_id ` set os" for os
    unfolding map_map comp_def by (rule map_cong) (use that in \<open>auto simp: vol image_iff\<close>)
  have "sum_list (map o_volume (map (backed b) os)) \<le> sum_list (map o_volume os) + b_amount b"
    using assms
  proof (induction os)
    case (Cons oc os)
    show ?case
    proof (cases "o_id oc = b_outcome_id b")
      case True
      then have "map (o_volume \<circ> backed b) os = map o_volume os" using same [of os] Cons.prems(1) by auto
      then show ?thesis using True sat [of "o_volume oc + b_amount b"] Cons.prems(2,3) 
        by (simp add: vol del: map_eq_conv)
    next
      case False
      then show ?thesis using Cons by (simp add: vol)
    qed
  qed simp
  then show ?thesis using assms(2,3) sat by (auto simp: vol)
qed

lemma roomy_backed:
  assumes "roomy 900 s" "ledger_wf (ledger_of s)" "0 \<le> b_amount b" "b_amount b \<le> 900"
  shows "volumes_ok (map (backed b) (outcomes_of mid s))"
proof -
  have "distinct (map o_id (outcomes s))" using assms(2) by (simp add: ledger_wf_def)
  then have d: "distinct (map o_id (outcomes_of mid s))" by (simp add: outcomes_of_def distinct_map_filter)
  have v: "\<forall>oc\<in>set (outcomes_of mid s). 0 \<le> o_volume oc" "int (length (outcomes_of mid s)) \<le> i64_max"
      "(sum_list (map o_volume (outcomes_of mid s)) + 900) * price_scale \<le> i64_max"
    using assms(1) by (auto simp: roomy_def volumes_ok_def)
  note b = backed_sum [OF d v(1) assms(3)]
  have "sum_list (map o_volume (map (backed b) (outcomes_of mid s))) * price_scale
      \<le> (sum_list (map o_volume (outcomes_of mid s)) + 900) * price_scale"
    using b assms(4) by (intro mult_right_mono) (auto simp: price_scale_def)
  then show ?thesis using b v(2,3) by (auto simp: volumes_ok_def)
qed

text \<open>The listing the bots look at.\<close>

lemma open_markets_run:
  assumes "mem_inv s"
  obtains views where "open_markets (mem_market_repo lc) s = (Ok views, s)"
    "\<And>v. v \<in> set views \<Longrightarrow> mv_market v \<in> set (markets s) \<and> m_status (mv_market v) = Open
       \<and> mv_outcomes v = outcomes_of (m_id (mv_market v)) s"
    "length (filter (\<lambda>m. m_status m = Open) (markets s)) \<le> 50 \<Longrightarrow>
       mset (map mv_market views) = filter_mset (\<lambda>m. m_status m = Open) (mset (markets s))"
proof -
  let ?f = "market_filter_default\<lparr>mf_status := Some Open, mf_sort := Newest, mf_limit := market_sample\<rparr>"
  let ?v = "\<lambda>m. \<lparr>mv_market = m, mv_outcomes = filter (\<lambda>oc. o_market_id oc = m_id m) (outcomes s)\<rparr>"
  have f: "nat (mf_limit ?f) = 50" "nat (mf_offset ?f) = 0" "market_matches lc ?f = (\<lambda>m. m_status m = Open)"
    by (simp_all add: market_filter_default_def market_sample_def market_matches_def fun_eq_iff)
  obtain ranked where r: "list_markets (mem_market_repo lc) ?f s = (Ok (map ?v (take 50 ranked)), s)"
      "mset ranked = filter_mset (\<lambda>m. m_status m = Open) (mset (markets s))"
    using list_markets_exact [OF assms, of lc ?f] unfolding f drop_0 by blast
  have mem: "m \<in> set ranked \<longleftrightarrow> m \<in> set (markets s) \<and> m_status m = Open" for m
    using arg_cong [OF r(2), of set_mset] by auto
  have len: "length ranked = length (filter (\<lambda>m. m_status m = Open) (markets s))"
    using arg_cong [OF r(2), of size] by (simp flip: mset_filter)
  show ?thesis
  proof (rule that [of "map ?v (take 50 ranked)"])
    show "open_markets (mem_market_repo lc) s = (Ok (map ?v (take 50 ranked)), s)" using r(1) by (simp add: open_markets_def)
    show "mv_market v \<in> set (markets s) \<and> m_status (mv_market v) = Open \<and> mv_outcomes v = outcomes_of (m_id (mv_market v)) s"
      if v: "v \<in> set (map ?v (take 50 ranked))" for v
    proof -
      obtain m where "v = ?v m" "m \<in> set (take 50 ranked)" using v unfolding set_map by (rule imageE)
      then show ?thesis using mem [of m] in_set_takeD [of m 50 ranked] by (simp add: outcomes_of_def)
    qed
    show "mset (map mv_market (map ?v (take 50 ranked))) = filter_mset (\<lambda>m. m_status m = Open) (mset (markets s))"
      if "length (filter (\<lambda>m. m_status m = Open) (markets s)) \<le> 50"
    proof -
      have "take 50 ranked = ranked" using that len by simp
      moreover have "map mv_market (map ?v ranked) = ranked" by (induction ranked) simp_all
      ultimately show ?thesis using r(2) by (simp only:)
    qed
  qed
qed

text \<open>What the bettor looks for.\<close>

definition tradable :: "datetime \<Rightarrow> market_view \<Rightarrow> bool" where
  "tradable now v \<longleftrightarrow> accepts_bets now (mv_market v) \<and> 2 \<le> length (mv_outcomes v)"

lemma wrap_small: "0 \<le> x \<Longrightarrow> x \<le> 10000 \<Longrightarrow> wrap_i64 x = x"
  by (rule wrap_i64_id) (simp add: in_i64_def i64_min_def i64_max_def)

text \<open>A top-up leaves a known bot with enough, and answers.\<close>

lemma top_up_covers:
  assumes ok: "platform_over R s" and u: "lookup_user s (actor_user_id (bt_actor b)) = Some u"
    and a: "0 < amount" "amount \<le> 900"
  obtains t v where "top_up mem_user_repo now b amount s = (Ok (), t)" "platform_over R t"
    "t = s\<lparr>users := users t\<rparr>" "lookup_user t = (lookup_user s)(actor_user_id (bt_actor b) \<mapsto> v)"
    "u_balance v = (if amount \<le> u_balance u then u_balance u else starting_balance)"
proof (cases "amount \<le> u_balance u")
  case True
  show ?thesis
  proof (rule that [of s u])
    show "top_up mem_user_repo now b amount s = (Ok (), s)"
      using u True by (simp add: top_up_def mem_simps cmd_simps lookup_user_def)
    show "lookup_user s = (lookup_user s)(actor_user_id (bt_actor b) \<mapsto> u)" using u by (simp add: fun_upd_idem)
  qed (use ok True in auto)
next
  case False
  note wf = platform_users(3) [OF ok u]
  let ?v = "u\<lparr>u_balance := starting_balance, u_updated_at := now\<rparr>"
  let ?t = "s\<lparr>users := AList.update (u_id ?v) ?v (users s)\<rparr>"
  have id: "u_id u = actor_user_id (bt_actor b)" using users_wf_id [OF platform_users(1) [OF ok] u] .
  have bal: "0 \<le> u_balance u" "u_balance u < 900" using wf False a by (simp_all add: user_wf_def)
  have "wrap_i64 (max starting_balance amount - u_balance u) = starting_balance - u_balance u"
    using a bal by (subst wrap_small) (simp_all add: starting_balance_def)
  moreover have "sat_i64 starting_balance = starting_balance" by (simp add: starting_balance_def sat_i64_def i64_min_def i64_max_def)
  ultimately have credit: "credit now (wrap_i64 (max starting_balance amount - u_balance u)) u = (Ok ?v :: (user, domain_error) result)"
    using bal by (simp add: credit_def starting_balance_def)
  have run: "top_up mem_user_repo now b amount s = (Ok (), ?t)"
    using u False credit by (simp add: top_up_def mem_simps cmd_simps lookup_user_def Let_def)
  have "user_wf ?v" using wf by (simp add: user_wf_def starting_balance_def i64_max_def)
  then have "platform_over R ?t" using save_same_platform [OF ok u, of ?v] by simp
  then show ?thesis using that [OF run, of ?v] False id by (simp add: lookup_update)
qed

lemma place_bet_turn:
  assumes ok: "platform_over R s" and fresh: "BetId fresh \<notin> b_id ` set (bets s)"
    and m: "m \<in> set (markets s)" "accepts_bets (clock 0) m"
    and oc: "oc \<in> set (outcomes_of (m_id m) s)" and u: "lookup_user s (actor_user_id actor) = Some u"
    and a: "0 < amount" "amount \<le> 900" "amount \<le> u_balance u"
    and room: "roomy 900 s" and few: "int (length (bets s)) < 2 ^ 49"
  shows "\<exists>v t x at. mem_place_bet lc events clock fresh actor \<lparr>nb_outcome_id = o_id oc, nb_amount = amount\<rparr> s = (Ok v, t)
    \<and> bets t = bets s @ [x] \<and> b_user_id x = actor_user_id actor \<and> b_outcome_id x = o_id oc
    \<and> b_market_id x = m_id m \<and> b_amount x = amount \<and> b_status x = Active
    \<and> lookup_user t = (lookup_user s)(actor_user_id actor \<mapsto> u\<lparr>u_balance := u_balance u - amount, u_updated_at := at\<rparr>)"
proof -
  let ?input = "\<lparr>nb_outcome_id = o_id oc, nb_amount = amount\<rparr>"
  have books: "mem_inv s" "ledger_wf (ledger_of s)" using ok by (simp_all add: platform_over_def)
  have oc': "oc \<in> set (outcomes s)" "o_market_id oc = m_id m" using oc by (simp_all add: outcomes_of_def)
  have look: "lookup_market s (m_id m) = Some m"
    using find_key_Some [of m_id "markets s" m "m_id m"] books(1) m(1) by (simp add: mem_inv_def lookup_market_def)
  have ac: "accepted (ledger_of s) clock actor ?input m oc u"
    using oc' look m(2) u a by (simp add: accepted_def)
  have "volumes_ok (map (backed (the_bet clock fresh actor ?input m oc)) (outcomes_of (m_id m) s))"
    by (rule roomy_backed [OF room books(2)]) (use a in \<open>simp_all add: the_bet_def\<close>)
  from place_bet_ok [OF conjI [OF books] fresh ac this few, of lc events]
  obtain v t where run: "mem_place_bet lc events clock fresh actor ?input s = (Ok v, t)" by blast
  obtain m' oc'' u' at where e: "lookup_market s (m_id m') = Some m'" "oc'' \<in> set (outcomes s)" "o_id oc'' = o_id oc"
      "o_market_id oc'' = m_id m'" "lookup_user s (actor_user_id actor) = Some u'" "bets t = bets s @ [bv_bet v]"
      "bv_bet v = \<lparr>b_id = BetId fresh, b_user_id = actor_user_id actor, b_market_id = m_id m',
        b_outcome_id = o_id oc, b_amount = amount, b_price = max (o_current_price oc'') min_tick, b_status = Active,
        b_payout = None, b_created_at = clock 1\<rparr>"
      "lookup_user t = (lookup_user s)(actor_user_id actor \<mapsto> u'\<lparr>u_balance := u_balance u' - amount, u_updated_at := at\<rparr>)"
    using place_bet_run [OF conjI [OF books] fresh run] by auto
  have "inj_on o_id (set (outcomes s))" using books(2) by (simp add: ledger_wf_def distinct_map)
  then have "oc'' = oc" using inj_onD e(2,3) oc'(1) by metis
  then have "m_id m' = m_id m" using e(4) oc'(2) by simp
  then show ?thesis using run e u by (intro exI [of _ v] exI [of _ t] exI [of _ "bv_bet v"] exI [of _ at]) simp
qed

text \<open>How a turn ends that has chosen a market, a bot and a stake.  A bot that is not in the store fails it as
  not found, with nothing changed.  A known one is refilled to the starting balance when it does not cover
  the stake; then the bet is stored and paid for, or, when the market stopped accepting bets since it was
  listed, refused with nothing else changed.\<close>

definition turn_ends :: "clock \<Rightarrow> 'z world \<Rightarrow> market_view \<Rightarrow> bot \<Rightarrow> int \<Rightarrow> (unit, app_error) result \<Rightarrow> 'z world \<Rightarrow> bool" where
  "turn_ends clock s v b amount ans t \<longleftrightarrow> (case lookup_user s (actor_user_id (bt_actor b)) of
     None \<Rightarrow> ans = Err (NotFound [Lit ''bot '', TextF (bt_name b)]) \<and> t = s
   | Some u \<Rightarrow>
       (let held = if amount \<le> u_balance u then u_balance u else starting_balance in
        \<exists>w. lookup_user t = (lookup_user s)(actor_user_id (bt_actor b) \<mapsto> w)
          \<and> (if accepts_bets (clock 2) (mv_market v)
             then ans = Ok () \<and> u_balance w = held - amount
               \<and> (\<exists>x. bets t = bets s @ [x] \<and> b_user_id x = actor_user_id (bt_actor b)
                    \<and> b_market_id x = m_id (mv_market v) \<and> b_outcome_id x \<in> o_id ` set (mv_outcomes v)
                    \<and> b_status x = Active \<and> b_amount x = amount)
             else ans = Err (Domain (RuleViolation (msg ''market is not accepting bets'')))
               \<and> u_balance w = held \<and> t = s\<lparr>users := users t\<rparr>)))"

lemma turn_stakes:
  fixes s :: "'z world" and lc :: case_table and events :: "'z bus option" and clock :: clock
  assumes ok: "platform_over R s" and fresh: "BetId fresh \<notin> b_id ` set (bets s)"
    and room: "roomy 900 s" "int (length (bets s)) < 2 ^ 49"
    and m: "m \<in> set (markets s)" and oc: "oc \<in> set (outcomes_of (m_id m) s)" and a: "0 < amount" "amount \<le> 900"
    and u: "lookup_user s (actor_user_id (bt_actor b)) = Some u"
  defines "run \<equiv> seq_cmd (top_up mem_user_repo (clock 1) b amount)
    (seq_cmd (mem_place_bet lc events (\<lambda>i. clock (i + 2)) fresh (bt_actor b) \<lparr>nb_outcome_id = o_id oc, nb_amount = amount\<rparr>)
      (ret ()))"
    and "held \<equiv> if amount \<le> u_balance u then u_balance u else starting_balance"
  shows "\<exists>ans t w. run s = (ans, t) \<and> lookup_user t = (lookup_user s)(actor_user_id (bt_actor b) \<mapsto> w)
    \<and> (if accepts_bets (clock 2) m
       then ans = Ok () \<and> u_balance w = held - amount
         \<and> (\<exists>x. bets t = bets s @ [x] \<and> b_user_id x = actor_user_id (bt_actor b) \<and> b_market_id x = m_id m
              \<and> b_outcome_id x = o_id oc \<and> b_status x = Active \<and> b_amount x = amount)
       else ans = Err (Domain (RuleViolation (msg ''market is not accepting bets''))) \<and> u_balance w = held
         \<and> t = s\<lparr>users := users t\<rparr>)"
proof -
  obtain t v where top: "top_up mem_user_repo (clock 1) b amount s = (Ok (), t)" "platform_over R t" "t = s\<lparr>users := users t\<rparr>"
      "lookup_user t = (lookup_user s)(actor_user_id (bt_actor b) \<mapsto> v)" "u_balance v = held"
    using top_up_covers [OF ok u a, of "clock 1"] unfolding held_def by metis
  have same: "markets t = markets s" "outcomes t = outcomes s" "bets t = bets s" by (subst top(3), simp)+
  have run: "run s = seq_cmd (mem_place_bet lc events (\<lambda>i. clock (i + 2)) fresh (bt_actor b)
      \<lparr>nb_outcome_id = o_id oc, nb_amount = amount\<rparr>) (ret ()) t"
    unfolding run_def using top(1) by (simp add: cmd_simps)
  show ?thesis
  proof (cases "accepts_bets (clock 2) m")
    case True
    have "roomy 900 t" using room(1) same by (simp add: roomy_def outcomes_of_def)
    moreover have "amount \<le> u_balance v" using top(5) a(2) by (simp add: held_def starting_balance_def)
    moreover have "oc \<in> set (outcomes_of (m_id m) t)" using oc same by (simp add: outcomes_of_def)
    ultimately have "\<exists>w r x at. mem_place_bet lc events (\<lambda>i. clock (i + 2)) fresh (bt_actor b) \<lparr>nb_outcome_id = o_id oc, nb_amount = amount\<rparr> t = (Ok w, r)
        \<and> bets r = bets t @ [x] \<and> b_user_id x = actor_user_id (bt_actor b) \<and> b_outcome_id x = o_id oc
        \<and> b_market_id x = m_id m \<and> b_amount x = amount \<and> b_status x = Active
        \<and> lookup_user r = (lookup_user t)(actor_user_id (bt_actor b) \<mapsto> v\<lparr>u_balance := u_balance v - amount, u_updated_at := at\<rparr>)"
      by (intro place_bet_turn [OF top(2)]) (use fresh same m top(4) a room(2) True in \<open>simp_all add: numeral_2_eq_2\<close>)
    then obtain w r x at where placed:
        "mem_place_bet lc events (\<lambda>i. clock (i + 2)) fresh (bt_actor b) \<lparr>nb_outcome_id = o_id oc, nb_amount = amount\<rparr> t = (Ok w, r)"
        "bets r = bets t @ [x]" "b_user_id x = actor_user_id (bt_actor b)" "b_outcome_id x = o_id oc"
        "b_market_id x = m_id m" "b_amount x = amount" "b_status x = Active"
        "lookup_user r = (lookup_user t)(actor_user_id (bt_actor b) \<mapsto> v\<lparr>u_balance := u_balance v - amount, u_updated_at := at\<rparr>)"
      by blast
    have "run s = (Ok (), r)" using run placed(1) by (simp add: cmd_simps)
    then show ?thesis using True placed(2-8) same(3) top(4,5)
      by (intro exI [of _ "Ok ()"] exI [of _ r] exI [of _ "v\<lparr>u_balance := u_balance v - amount, u_updated_at := at\<rparr>"]) simp
  next
    case False
    have wf: "distinct (map o_id (outcomes t))" "distinct (map m_id (markets t))"
      using top(2) by (simp_all add: platform_over_def ledger_wf_def mem_inv_def)
    have oc': "oc \<in> set (outcomes t)" "o_market_id oc = m_id m" using oc same by (simp_all add: outcomes_of_def)
    have found: "find (\<lambda>x. o_id x = o_id oc) (outcomes t) = Some oc" "lookup_market t (o_market_id oc) = Some m"
      using find_key_Some [OF wf(1) oc'(1)] find_key_Some [OF wf(2), of m] m same oc'(2) by (simp_all add: lookup_market_def)
    have "run s = (Err (Domain (RuleViolation (msg ''market is not accepting bets''))), t)"
      unfolding run using False
      by (subst seq_cmd_def, subst bind_cmd_def, subst place_bet_unfold [OF _ found(2)])
        (simp_all add: found(1) numeral_2_eq_2)
    then show ?thesis using False top(3-5) by auto
  qed
qed

lemma turn_result:
  fixes s :: "'z world" and lc :: case_table and events :: "'z bus option" and clock :: clock
  assumes ok: "platform_over R s" and fresh: "BetId fresh \<notin> b_id ` set (bets s)"
    and room: "roomy 900 s" "int (length (bets s)) < 2 ^ 49"
    and v: "mv_market v \<in> set (markets s)" "mv_outcomes v = outcomes_of (m_id (mv_market v)) s" and oc: "oc \<in> set (mv_outcomes v)"
    and a: "0 < amount" "amount \<le> 900"
  shows "\<exists>ans t. seq_cmd (top_up mem_user_repo (clock 1) b amount)
      (seq_cmd (mem_place_bet lc events (\<lambda>i. clock (i + 2)) fresh (bt_actor b) \<lparr>nb_outcome_id = o_id oc, nb_amount = amount\<rparr>)
        (ret ())) s = (ans, t)
    \<and> turn_ends clock s v b amount ans t"
proof (cases "lookup_user s (actor_user_id (bt_actor b))")
  case None
  then show ?thesis by (simp add: turn_ends_def top_up_def mem_simps cmd_simps lookup_user_def)
next
  case (Some u)
  have oc': "oc \<in> set (outcomes_of (m_id (mv_market v)) s)" "o_id oc \<in> o_id ` set (mv_outcomes v)" using oc v(2) by simp_all
  obtain ans t w where turn: "seq_cmd (top_up mem_user_repo (clock 1) b amount)
      (seq_cmd (mem_place_bet lc events (\<lambda>i. clock (i + 2)) fresh (bt_actor b) \<lparr>nb_outcome_id = o_id oc, nb_amount = amount\<rparr>)
        (ret ())) s = (ans, t)"
      "lookup_user t = (lookup_user s)(actor_user_id (bt_actor b) \<mapsto> w)"
    and branch: "if accepts_bets (clock 2) (mv_market v)
       then ans = Ok () \<and> u_balance w = (if amount \<le> u_balance u then u_balance u else starting_balance) - amount
         \<and> (\<exists>x. bets t = bets s @ [x] \<and> b_user_id x = actor_user_id (bt_actor b) \<and> b_market_id x = m_id (mv_market v)
              \<and> b_outcome_id x = o_id oc \<and> b_status x = Active \<and> b_amount x = amount)
       else ans = Err (Domain (RuleViolation (msg ''market is not accepting bets'')))
         \<and> u_balance w = (if amount \<le> u_balance u then u_balance u else starting_balance) \<and> t = s\<lparr>users := users t\<rparr>"
    using turn_stakes [OF ok fresh room v(1) oc'(1) a Some, of clock lc events] by blast
  show ?thesis
  proof (intro exI conjI, rule turn(1), unfold turn_ends_def Some option.case Let_def, intro exI conjI, rule turn(2),
      cases "accepts_bets (clock 2) (mv_market v)")
    case True
    then obtain x where "ans = Ok ()" "u_balance w = (if amount \<le> u_balance u then u_balance u else starting_balance) - amount"
        "bets t = bets s @ [x]" "b_user_id x = actor_user_id (bt_actor b)" "b_market_id x = m_id (mv_market v)"
        "b_outcome_id x = o_id oc" "b_status x = Active" "b_amount x = amount"
      using branch by auto
    then show "if accepts_bets (clock 2) (mv_market v)
       then ans = Ok () \<and> u_balance w = (if amount \<le> u_balance u then u_balance u else starting_balance) - amount
         \<and> (\<exists>x. bets t = bets s @ [x] \<and> b_user_id x = actor_user_id (bt_actor b) \<and> b_market_id x = m_id (mv_market v)
              \<and> b_outcome_id x \<in> o_id ` set (mv_outcomes v) \<and> b_status x = Active \<and> b_amount x = amount)
       else ans = Err (Domain (RuleViolation (msg ''market is not accepting bets'')))
         \<and> u_balance w = (if amount \<le> u_balance u then u_balance u else starting_balance) \<and> t = s\<lparr>users := users t\<rparr>"
      using True oc'(2) by simp
  qed (use branch in simp)
qed

text \<open>C36: One turn of the bettor over the in-memory stores, branch by branch, on a platform in order whose
  boards leave room for a stake of 900 and which holds fewer than \<open>2^49\<close> bets, with a new bet identifier
  drawn.  When nothing it sees is tradable, it answers and changes nothing.  Otherwise it takes a tradable
  market of its listing, a bot of the cast and a stake between 50 and 900 in steps of 25.  A bot that is not
  in the store fails the turn as not found, with nothing changed.  A known one whose balance does not
  cover the stake is first refilled to the starting balance.  If the market still accepts bets when the bet
  is placed, the turn succeeds: exactly one bet is stored, by that bot, on an outcome of that market, and the
  stake leaves its balance.  If the deadline has passed in between, the turn fails with the refusal of
  \<open>PlaceBet\<close> and nothing but the refill has happened.  Nobody else's account changes.\<close>

theorem bettor_turn:
  assumes ok: "platform_over R s" and fresh: "BetId fresh \<notin> b_id ` set (bets s)"
    and room: "roomy 900 s" "int (length (bets s)) < 2 ^ 49"
  shows "\<exists>views ans t. open_markets (mem_market_repo lc) s = (Ok views, s)
    \<and> bettor_tick (mem_market_repo lc) (mem_bet_repo events) mem_user_repo ca d clock fresh s = (ans, t)
    \<and> (if \<forall>v\<in>set views. \<not> tradable (clock 0) v then ans = Ok () \<and> t = s
       else \<exists>v\<in>set views. \<exists>b\<in>insert (ca_host ca) (set (ca_bots ca)). \<exists>amount. tradable (clock 0) v
         \<and> m_status (mv_market v) = Open \<and> mv_market v \<in> set (markets s)
         \<and> 50 \<le> amount \<and> amount \<le> 900 \<and> 25 dvd amount
         \<and> turn_ends clock s v b amount ans t)"
proof -
  have "mem_inv s" using ok by (simp add: platform_over_def)
  from open_markets_run [OF this, of lc] obtain views where views: "open_markets (mem_market_repo lc) s = (Ok views, s)"
      "\<And>v. v \<in> set views \<Longrightarrow> mv_market v \<in> set (markets s) \<and> m_status (mv_market v) = Open
        \<and> mv_outcomes v = outcomes_of (m_id (mv_market v)) s"
    by metis
  let ?b = "anyone ca (d 1)"
  let ?a = "stake (d 4)"
  let ?tick = "bettor_tick (mem_market_repo lc) (mem_bet_repo events) mem_user_repo ca d clock fresh s"
  have trad: "tradable (clock 0) = (\<lambda>v. accepts_bets (clock 0) (mv_market v) \<and> 2 \<le> length (mv_outcomes v))"
    by (simp add: tradable_def fun_eq_iff)
  have run: "?tick = (case draw_one (d 0) (filter (tradable (clock 0)) views) of None \<Rightarrow> (Ok (), s)
         | Some view \<Rightarrow> bind_cmd (lift (pick_outcome (mv_outcomes view) (d 2) (d 3))) (\<lambda>oc.
             seq_cmd (top_up mem_user_repo (clock 1) ?b ?a)
               (seq_cmd (mem_place_bet lc events (\<lambda>i. clock (i + 2)) fresh (bt_actor ?b) \<lparr>nb_outcome_id = o_id oc, nb_amount = ?a\<rparr>)
                 (ret ()))) s)"
    unfolding bettor_tick_def Let_def trad
    by (simp add: bind_cmd_Ok [where m = "open_markets (mem_market_repo lc)", OF views(1)] ret_def split: option.split)
  show ?thesis
  proof (cases "draw_one (d 0) (filter (tradable (clock 0)) views)")
    case None
    then have "\<forall>v\<in>set views. \<not> tradable (clock 0) v" by (simp add: draw_one_None filter_empty_conv)
    then show ?thesis using run None views(1) by auto
  next
    case (Some view)
    then have view: "view \<in> set views" "tradable (clock 0) view" using draw_one_mem by fastforce+
    note seen = views(2) [OF view(1)]
    have "mv_outcomes view \<noteq> []" using view(2) by (auto simp: tradable_def)
    then obtain oc where oc: "oc \<in> set (mv_outcomes view)" "pick_outcome (mv_outcomes view) (d 2) (d 3) = Ok oc"
      using pick_outcome_mem by blast
    have a: "50 \<le> ?a" "?a \<le> 900" "25 dvd ?a" "0 < ?a" using stake_range [of "d 4"] by auto
    have tick: "?tick = seq_cmd (top_up mem_user_repo (clock 1) ?b ?a)
        (seq_cmd (mem_place_bet lc events (\<lambda>i. clock (i + 2)) fresh (bt_actor ?b) \<lparr>nb_outcome_id = o_id oc, nb_amount = ?a\<rparr>)
          (ret ())) s"
      using run Some oc(2) by (simp add: bind_cmd_def lift_def)
    obtain ans t where body: "?tick = (ans, t)" "turn_ends clock s view ?b ?a ans t"
      using turn_result [OF ok fresh room conjunct1 [OF seen] conjunct2 [OF conjunct2 [OF seen]] oc(1) a(4,2)] unfolding tick by blast
    have some: "\<not> (\<forall>v\<in>set views. \<not> tradable (clock 0) v)" using view by blast
    show ?thesis
      by (rule exI [of _ views], rule exI [of _ ans], rule exI [of _ t], rule conjI [OF views(1)], rule conjI [OF body(1)],
          subst if_not_P [OF some], rule bexI [OF _ view(1)], rule bexI [OF _ anyone_mem [of ca "d 1"]], rule exI [of _ ?a])
        (intro conjI view(2) seen [THEN conjunct1] seen [THEN conjunct2, THEN conjunct1] a(1-3) body(2))
  qed
qed

text \<open>A board with one market, opened by the host of a cast of two.\<close>

definition demo_host :: actor where
  "demo_host = \<lparr>actor_user_id = UserId 10, actor_role = RAdmin\<rparr>"

definition demo_cast :: cast where
  "demo_cast = (let host = \<lparr>bt_name = host_name, bt_actor = demo_host\<rparr> in
     \<lparr>ca_host = host, ca_bots = [host, \<lparr>bt_name = lit ''hedge_hana'', bt_actor = \<lparr>actor_user_id = UserId 11, actor_role = RUser\<rparr>\<rparr>]\<rparr>)"

definition rain :: new_market where
  "rain = \<lparr>nm_title = lit ''rain?'', nm_description = None, nm_category = None, nm_closes_at = None,
     nm_outcomes = [lit ''yes'', lit ''no'']\<rparr>"

definition rain_world :: "unit world" where
  "rain_world = snd (mem_create_market (\<lambda>_ _. []) (\<lambda>_. 5) 2 of_nat demo_host rain provisioned_world)"

lemma rain_platform: "platform_over cast_accounts rain_world"
proof -
  have "distinct (map of_nat [0..<length (nm_outcomes rain)] :: uuid list)" by code_simp
  then have "request (\<lambda>_ _. []) None provisioned_world rain_world"
    unfolding rain_world_def
    by (intro request.creates) (simp_all add: provisioned_empty lookup_market_def rain_def i64_max_def)
  then show ?thesis using request_platform inhabited_platform [OF provisioned_inhabited] by blast
qed

lemma rain_created:
  "case mem_create_market (\<lambda>_ _. []) (\<lambda>_. 5) 2 of_nat demo_host rain (empty_world\<lparr>users := us\<rparr>) of (_, t) \<Rightarrow>
     bets t = [] \<and> map (\<lambda>oc. o_volume oc) (outcomes t) = [0, 0] \<and> users t = us
     \<and> (case fst (open_markets (mem_market_repo (\<lambda>_ _. [])) t) of Ok views \<Rightarrow> list_ex (tradable 5) views | _ \<Rightarrow> False)"
  by code_simp

lemma rain_facts:
  "bets rain_world = []" "map (\<lambda>oc. o_volume oc) (outcomes rain_world) = [0, 0]" "map fst (users rain_world) = [UserId 10, UserId 11]"
  "case fst (open_markets (mem_market_repo (\<lambda>_ _. [])) rain_world) of Ok views \<Rightarrow> list_ex (tradable 5) views | _ \<Rightarrow> False"
proof -
  obtain us where us: "provisioned_world = empty_world\<lparr>users := us\<rparr>" using provisioned_store by blast
  have "map fst us = [UserId 10, UserId 11]" using provisioned_users unfolding us by simp
  then show "bets rain_world = []" "map (\<lambda>oc. o_volume oc) (outcomes rain_world) = [0, 0]" "map fst (users rain_world) = [UserId 10, UserId 11]"
    "case fst (open_markets (mem_market_repo (\<lambda>_ _. [])) rain_world) of Ok views \<Rightarrow> list_ex (tradable 5) views | _ \<Rightarrow> False"
    using rain_created [of us] unfolding rain_world_def us by (simp_all add: split_beta)
qed

lemma sum_list_zero: "\<forall>x\<in>set xs. f x = (0::int) \<Longrightarrow> sum_list (map f xs) = 0"
  by (induction xs) simp_all

lemma rain_roomy: "roomy 900 rain_world"
proof -
  have zero: "o_volume oc = 0" if "oc \<in> set (outcomes rain_world)" for oc
  proof -
    have "o_volume oc \<in> set (map (\<lambda>oc. o_volume oc) (outcomes rain_world))" using that by simp
    then show ?thesis using rain_facts by simp
  qed
  have "length (outcomes rain_world) = 2" using arg_cong [OF rain_facts(2), of length] by simp
  then have len: "length (outcomes_of mid rain_world) \<le> 2" for mid
    using length_filter_le [of "\<lambda>oc. o_market_id oc = mid" "outcomes rain_world"] by (simp add: outcomes_of_def)
  have "sum_list (map o_volume (outcomes_of mid rain_world)) = 0" for mid
    using zero by (intro sum_list_zero) (simp add: outcomes_of_def)
  then show ?thesis using zero len
    by (auto simp: roomy_def volumes_ok_def outcomes_of_def price_scale_def i64_max_def intro: order_trans [of _ 2])
qed

lemma bettor_turn_witness:
  "\<exists>t x. bettor_tick (mem_market_repo (\<lambda>_ _. [])) (mem_bet_repo None) mem_user_repo demo_cast (\<lambda>i. i) (\<lambda>_. 5) 9 rain_world = (Ok (), t)
     \<and> bets t = [x] \<and> 50 \<le> b_amount x \<and> 25 dvd b_amount x"
proof -
  have known: "lookup_user rain_world (actor_user_id (bt_actor b)) \<noteq> None"
    if b: "b \<in> insert (ca_host demo_cast) (set (ca_bots demo_cast))" for b
  proof -
    have "actor_user_id (bt_actor b) = UserId 10 \<or> actor_user_id (bt_actor b) = UserId 11"
      using b by (auto simp: demo_cast_def demo_host_def Let_def)
    then have "actor_user_id (bt_actor b) \<in> set (map fst (users rain_world))" unfolding rain_facts(3) by simp
    then show ?thesis by (simp add: lookup_user_def map_of_eq_None_iff del: not_None_eq)
  qed
  have fresh: "BetId 9 \<notin> b_id ` set (bets rain_world)" "int (length (bets rain_world)) < 2 ^ 49"
    using rain_facts by simp_all
  obtain views ans t where run: "open_markets (mem_market_repo (\<lambda>_ _. [])) rain_world = (Ok views, rain_world)"
      "bettor_tick (mem_market_repo (\<lambda>_ _. [])) (mem_bet_repo None) mem_user_repo demo_cast (\<lambda>i. i) (\<lambda>_. 5) 9 rain_world = (ans, t)"
    and branch: "if \<forall>v\<in>set views. \<not> tradable 5 v then ans = Ok () \<and> t = rain_world
       else \<exists>v\<in>set views. \<exists>b\<in>insert (ca_host demo_cast) (set (ca_bots demo_cast)). \<exists>amount. tradable 5 v
         \<and> m_status (mv_market v) = Open \<and> mv_market v \<in> set (markets rain_world)
         \<and> 50 \<le> amount \<and> amount \<le> 900 \<and> 25 dvd amount \<and> turn_ends (\<lambda>_. 5) rain_world v b amount ans t"
    using bettor_turn [OF rain_platform fresh(1) rain_roomy fresh(2), of "\<lambda>_ _. []" None demo_cast "\<lambda>i. i" "\<lambda>_. 5"] by blast
  have "\<not> (\<forall>v\<in>set views. \<not> tradable 5 v)" using rain_facts run(1) by (simp add: list_ex_iff)
  from branch [unfolded if_not_P [OF this]] obtain v b amount where turn: "b \<in> insert (ca_host demo_cast) (set (ca_bots demo_cast))"
      "tradable 5 v" "50 \<le> amount" "25 dvd amount" "turn_ends (\<lambda>_. 5) rain_world v b amount ans t"
    by blast
  obtain u where u: "lookup_user rain_world (actor_user_id (bt_actor b)) = Some u" using known [OF turn(1)] by blast
  have "accepts_bets 5 (mv_market v)" using turn(2) by (simp add: tradable_def)
  then have "ans = Ok () \<and> (\<exists>x. bets t = bets rain_world @ [x] \<and> b_amount x = amount)"
    using turn(5) unfolding turn_ends_def u by (auto simp: Let_def)
  then show ?thesis using run(2) turn(3,4) rain_facts(1) by auto
qed

end
