(* ===== verification/Credentials.thy ===== *)
theory Credentials
  imports UseAuth
begin

text \<open>
  The adapters behind the authentication ports (\<open>infrastructure/src/auth\<close>): Argon2 password hashes and
  signed access tokens.  The crates that hash and sign are records of their operations; what is
  documented of them is a hypothesis of the lemmas.
\<close>

section \<open>Passwords\<close>

datatype phc_error = PhcPassword | PhcOther message

record 'h argon =
  ar_hash :: "str \<Rightarrow> str \<Rightarrow> (str, message) result"
  ar_parse :: "str \<Rightarrow> ('h, message) result"
  ar_check :: "str \<Rightarrow> 'h \<Rightarrow> (unit, phc_error) result"

fun hash_text :: "password_hash \<Rightarrow> str" where
  "hash_text (PasswordHash s) = s"

definition argon_hash :: "'h argon \<Rightarrow> str \<Rightarrow> password \<Rightarrow> (password_hash, auth_port_error) result" where
  "argon_hash ar salt p = and_then (map_err (\<lambda>e. AuthInternal (Lit ''argon2 hashing failed: '' # e)) (ar_hash ar salt (password_as_str p)))
     (\<lambda>h. Ok (PasswordHash h))"

definition argon_verify :: "'h argon \<Rightarrow> password \<Rightarrow> password_hash \<Rightarrow> (bool, auth_port_error) result" where
  "argon_verify ar p h =
     and_then (map_err (\<lambda>e. AuthInternal (Lit ''stored hash is malformed: '' # e)) (ar_parse ar (hash_text h))) (\<lambda>parsed.
     case ar_check ar (password_as_str p) parsed of
       Ok _ \<Rightarrow> Ok True
     | Err PhcPassword \<Rightarrow> Ok False
     | Err (PhcOther e) \<Rightarrow> Err (AuthInternal (Lit ''argon2 verification failed: '' # e))
     | Panic \<Rightarrow> Panic)"

definition argon_hasher :: "'h argon \<Rightarrow> str \<Rightarrow> password_hasher" where
  "argon_hasher ar salt = \<lparr>ph_hash = argon_hash ar salt, ph_verify = argon_verify ar\<rparr>"

text \<open>A hash that was made parses, and only the password it was made of passes.\<close>

definition argon_ok :: "'h argon \<Rightarrow> bool" where
  "argon_ok ar \<longleftrightarrow> (\<forall>salt p h. ar_hash ar salt p = Ok h \<longrightarrow> (\<exists>parsed. ar_parse ar h = Ok parsed
    \<and> (\<forall>q. ar_check ar q parsed = (if q = p then Ok () else Err PhcPassword))))"

lemma argon_verifies:
  assumes ok: "argon_ok ar" and hashed: "ph_hash (argon_hasher ar salt) p = Ok h"
  shows "ph_verify (argon_hasher ar salt') q h = Ok (q = p)"
proof -
  obtain t where t: "ar_hash ar salt (password_as_str p) = Ok t" "h = PasswordHash t"
    using hashed by (auto simp: argon_hasher_def argon_hash_def and_then_eq_Ok)
  obtain parsed where "ar_parse ar t = Ok parsed"
      "\<And>q. ar_check ar q parsed = (if q = password_as_str p then Ok () else Err PhcPassword)"
    using ok t(1) unfolding argon_ok_def by blast
  moreover have "password_as_str q = password_as_str p \<longleftrightarrow> q = p" by (cases p; cases q) simp
  ultimately show ?thesis by (simp add: argon_hasher_def argon_verify_def t(2))
qed

section \<open>Access tokens\<close>

record jwt_claims =
  jt_sub :: uuid
  jt_role :: str
  jt_iat :: int
  jt_exp :: int

record jwt =
  jw_encode :: "str \<Rightarrow> jwt_claims \<Rightarrow> (str, message) result"
  jw_decode :: "str \<Rightarrow> int \<Rightarrow> str \<Rightarrow> jwt_claims option"

text \<open>\<open>tick\<close> is what the clock counts in a second; a timestamp is in whole seconds.\<close>

definition timestamp :: "int \<Rightarrow> datetime \<Rightarrow> int" where
  "timestamp tick t = t div tick"

definition jwt_issue :: "jwt \<Rightarrow> int \<Rightarrow> str \<Rightarrow> int \<Rightarrow> datetime \<Rightarrow> user_id \<Rightarrow> role \<Rightarrow> (str, auth_port_error) result" where
  "jwt_issue j tick key ttl now u r =
     map_err (\<lambda>e. AuthInternal (Lit ''jwt signing failed: '' # e))
       (jw_encode j key \<lparr>jt_sub = user_uuid u, jt_role = role_as_str r, jt_iat = timestamp tick now,
         jt_exp = timestamp tick (now + ttl)\<rparr>)"

definition jwt_verify :: "jwt \<Rightarrow> int \<Rightarrow> str \<Rightarrow> datetime \<Rightarrow> str \<Rightarrow> (access_claims, auth_port_error) result" where
  "jwt_verify j tick key now token =
     and_then (ok_or (jw_decode j key (timestamp tick now) token) InvalidToken) (\<lambda>claims.
     and_then (map_err (\<lambda>_. InvalidToken) (role_from_str (jt_role claims))) (\<lambda>r.
     Ok \<lparr>ac_user_id = UserId (jt_sub claims), ac_role = r\<rparr>))"

definition jwt_access_tokens :: "jwt \<Rightarrow> int \<Rightarrow> str \<Rightarrow> int \<Rightarrow> datetime \<Rightarrow> access_tokens" where
  "jwt_access_tokens j tick key ttl now = \<lparr>at_issue = jwt_issue j tick key ttl now, at_verify = jwt_verify j tick key now\<rparr>"

text \<open>A token decodes under the key that signed it until a minute past its expiry.\<close>

definition jwt_ok :: "jwt \<Rightarrow> bool" where
  "jwt_ok j \<longleftrightarrow> (\<forall>key c token at. jw_encode j key c = Ok token \<longrightarrow>
    jw_decode j key at token = (if at \<le> jt_exp c + 60 then Some c else None))"

lemma issued_verifies:
  assumes ok: "jwt_ok j" and issued: "at_issue (jwt_access_tokens j tick key ttl now) u r = Ok token"
  shows "at_verify (jwt_access_tokens j tick key ttl later) token
    = (if timestamp tick later \<le> timestamp tick (now + ttl) + 60 then Ok \<lparr>ac_user_id = u, ac_role = r\<rparr> else Err InvalidToken)"
proof -
  have "jw_encode j key \<lparr>jt_sub = user_uuid u, jt_role = role_as_str r, jt_iat = timestamp tick now,
      jt_exp = timestamp tick (now + ttl)\<rparr> = Ok token"
    using issued by (simp add: jwt_access_tokens_def jwt_issue_def)
  then have "jw_decode j key (timestamp tick later) token
      = (if timestamp tick later \<le> timestamp tick (now + ttl) + 60 then Some \<lparr>jt_sub = user_uuid u, jt_role = role_as_str r,
          jt_iat = timestamp tick now, jt_exp = timestamp tick (now + ttl)\<rparr> else None)"
    using ok by (simp add: jwt_ok_def)
  moreover have "role_from_str (role_as_str r) = Ok r" by (cases r) (simp_all add: role_from_str_def lit_def)
  moreover have "UserId (user_uuid u) = u" by (cases u) simp
  ultimately show ?thesis by (simp add: jwt_access_tokens_def jwt_verify_def)
qed

text \<open>Whatever the signing crate accepts, a verified token names one of the two roles, and nothing but
  an invalid token is complained about.\<close>

lemma jwt_verify_errors: "jwt_verify j tick key now token = Err e \<Longrightarrow> e = InvalidToken"
proof (cases "jw_decode j key (timestamp tick now) token")
  case (Some c)
  then show "jwt_verify j tick key now token = Err e \<Longrightarrow> e = InvalidToken"
    by (cases "role_from_str (jt_role c)") (simp_all add: jwt_verify_def)
qed (simp add: jwt_verify_def)

end
