(* ===== verification/Spec2Isabelle.thy ===== *)
theory Spec2Isabelle
  imports Prelude Values Entities Pricing Ports Ledger MemUsers MemMarkets MemBets UseBets UseMarkets BetLedger MemLedger Betting Settlement Catalogue Listings UseAuth Accounts
    UseChat MemChat ChatRooms UseFiles LocalStorage Uploads Platform
    EventBus Outbox Processors Realtime Broadcasters LiveFeeds Responses Requests Endpoints Socket
    Postgres PgUsers PgMarkets PgBets PgLedger PgBetting
    PgAccounts PgSearch PgChat UserCache
    DemoContent DemoModel DemoBots DemoCast DemoPlatform DemoBettor Configuration Credentials
begin

text \<open>
  BetSphere is a prediction-market platform: accounts with balances, markets whose outcomes are
  priced by the money staked on them, bets at the board price, resolution that pays the winners,
  chat rooms with reactions, image uploads and live feeds over WebSockets.  The code is a Cargo
  workspace in hexagonal style under \<open>src/crates\<close>: \<open>domain\<close> (values, entities, services, repository
  traits), \<open>application\<close> (use cases over ports), \<open>infrastructure\<close> (in-memory, Postgres, Redis, local
  disk, event delivery), \<open>api\<close> (HTTP and WebSocket) and \<open>demo\<close> (scripted bots).  This development
  models it crate by crate; names follow the code's, suffixed or prefixed where they would clash.

  \<^bold>\<open>Conventions\<close> (\<open>Prelude\<close>).  A Rust string is its list of Unicode scalars; an error text is kept
  unrendered.  \<open>Result\<close> is \<open>result\<close> with a third constructor for panics.  A method that changes
  state is a command \<open>'s \<Rightarrow> result \<times> 's\<close>: on an error the state stays as far as the code got.  Machine
  integers are integers with the wrap-around, saturation or truncation of the operator written out
  (\<open>wrap_i64\<close>, \<open>sat_i64\<close>); arithmetic wraps, as in the release profile of the workspace.  The clock,
  fresh identifiers and random bytes are arguments.  A trait object is a record of commands over an
  abstract state, so that the same use case runs over any repository.

  \<^bold>\<open>Domain\<close>.  \<open>Values\<close> holds the value objects with their validation (what is accepted is canonical
  and accepted again).  \<open>Entities\<close> holds users, markets, outcomes, bets and messages with their
  transitions: a bet is settled once, and its payout is exactly the floor of the scaled stake over
  the price.  \<open>Pricing\<close> is the recalculation by volume share, the remainder of the division handed
  out tick by tick: prices sum to one and stay a tick from the share; where the scaling overflows it
  panics.  \<open>Ports\<close> has the events,
  the repository traits and the laws of users and tokens as locales.

  \<^bold>\<open>Ledger\<close>.  \<open>Ledger\<close> is the abstract store of users, markets, outcomes and bets with the effect of a
  placement and a settlement (a settlement does not depend on the order in which bets were read) and
  the invariant of the books.  \<open>BetLedger\<close> states the contract of the repositories against it as a
  locale and proves there, once, what \<open>PlaceBet\<close> and \<open>ResolveMarket\<close> (\<open>UseBets\<close>, \<open>UseMarkets\<close>) do over
  any repositories that keep it.  The contract is interpreted twice: by the in-memory repositories
  (\<open>MemUsers\<close>, \<open>MemMarkets\<close>, \<open>MemBets\<close>; \<open>MemLedger\<close>) and by the Postgres ones (\<open>PgUsers\<close>, \<open>PgMarkets\<close>,
  \<open>PgBets\<close>; \<open>PgLedger\<close>).

  \<^bold>\<open>Use cases in memory\<close>.  \<open>Betting\<close> and \<open>Settlement\<close> have every branch of placing and resolving, the
  conservation of money and the double payment of two resolutions that both read first; \<open>Catalogue\<close>
  and \<open>Listings\<close> the markets and the queries; \<open>UseAuth\<close> and \<open>Accounts\<close> sessions, with a refresh token
  that works once; \<open>UseChat\<close>, \<open>MemChat\<close> and \<open>ChatRooms\<close> messages, pages and reactions; \<open>UseFiles\<close>,
  \<open>LocalStorage\<close> and \<open>Uploads\<close> images on disk and the confinement of keys to the storage root.
  \<open>Platform\<close> is the transition system of all requests, with the invariants of every reachable state.

  \<^bold>\<open>Postgres and Redis\<close>.  \<open>Postgres\<close> models tables with their constraints, statements and
  transactions.  Which statement fails and how, the order of rows without an \<open>ORDER BY\<close> and the
  server's clock are parameters, so the atomicity and refinement of placing and settling
  (\<open>PgBetting\<close>), of registration (\<open>PgAccounts\<close>) and of pages and reactions (\<open>PgChat\<close>) hold whatever the
  server does.  That a second settlement from an early reading commits and pays again is shown for a
  server that fails no statement.  \<open>PgSearch\<close> compares the SQL conditions of the listing with the
  in-memory filter on ASCII text: they differ on the wildcards of \<open>ILIKE\<close>.  \<open>UserCache\<close> is the read-through cache in front of the users
  with expiry and failing round trips: it fails open, and a cached user saved again overwrites the
  balance.

  \<^bold>\<open>Events and live feeds\<close>.  \<open>EventBus\<close> is the in-process bus, \<open>Outbox\<close> the table of recorded events
  with delivery passes, draining and pruning, \<open>Processors\<close> any number of processors with crashes,
  failing handlers and pruning, as a step relation: nothing committed is lost.  \<open>Realtime\<close>,
  \<open>Broadcasters\<close> and \<open>LiveFeeds\<close> follow a write to its subscribers.

  \<^bold>\<open>API\<close>.  \<open>Requests\<close> (query strings, credentials, multipart fields), \<open>Responses\<close> (bodies, status codes),
  \<open>Endpoints\<close> (handlers and their guards) and \<open>Socket\<close> (wire names, frames, the connection loop).
  \<open>Configuration\<close> reads the settings from the environment: a complaint names a variable that is set, a
  bare environment gives the documented defaults, and credentials never go with every origin.
  \<open>Credentials\<close> has the adapters to argon2 and to the signing crate: what is hashed verifies, what is
  issued is accepted until its leeway is over.

  \<^bold>\<open>Demo\<close>.  \<open>DemoContent\<close> holds the tables of \<open>demo/src\<close> and that the domain accepts them; \<open>DemoModel\<close>
  what a local language model is asked and what is made of its answers: whatever it says, a bot posts
  one short line the domain takes, if need be the thinking of an answer that was cut off.  \<open>DemoBots\<close> has the cast and one turn of the bettor, the market maker
  and the chatter over any repositories; what a turn draws is an argument, its \<open>i\<close>-th draw \<open>d i\<close>.
  \<open>DemoCast\<close> shows that provisioning resumes the cast it finds, and hands the administrator's role to
  whoever registered the host's address first.  \<open>DemoPlatform\<close> shows that the turns of the maker and of
  the chatter are sequences of requests, and that the books of an inhabited platform are in order, with
  usernames unique but for those of the demo's own accounts, which it makes without asking; \<open>DemoBettor\<close>
  has every way a turn of the bettor can end.

  \<^bold>\<open>Bounds and fuel\<close>.  No definition runs on fuel: \<open>hand_out\<close> of \<open>Pricing\<close> has a termination proof,
  \<open>drain\<close> of \<open>Outbox\<close> is a \<open>partial_function\<close> and returning is proved (\<open>drain_terminates\<close>) when finitely
  many rows arrive.  Bounds appear where the code has them: a scaled volume below \<open>2 ^ 63\<close> for the
  pricing theorem (past it the code panics, which is shown), page offsets that fit 64 bits, batches
  of one hundred events.

  \<^bold>\<open>Parameters\<close>.  Code outside the repository is an argument: lower-casing of Unicode
  (\<open>case_table\<close>), the text of a UUID (\<open>uuid_format\<close>), password hashing, token signing and digests,
  JSON encoding of events and cache records, the message broker, the file system's errors, the
  database server, Redis and the model server of the demo.  Hypotheses on them state documented behaviour (parsing a printed
  identifier gives it back, \<open>ILIKE\<close> folds ASCII letters, a signed token decodes) and each property that has one is applied
  to a concrete instance in its witness.

  \<^bold>\<open>Not modelled\<close>.  Wiring and glue: construction of the services, route
  tables, the health probe and the static test page, the loops of the demo that sleep between turns. 
  The two message brokers, which are tokio's broadcast channels and Redis Pub/Sub.
  Interleaving of database transactions statement by statement (stale reads are stated
  as sequences of whole transactions) and tokio's scheduling.  Floating-point presentation
  (percentages, win rate), OpenAPI attributes and log lines.
\<close>

end
